(* ===== verification/Neox_Prelude.thy ===== *)
theory Neox_Prelude
  imports Main "HOL-Library.Word" "HOL-Library.Monad_Syntax"
begin

text \<open>
  What every component of the development shares.

  \<^item> The C types of \<^verbatim>\<open>libneox/include/neox/types.h\<close> and the byte type, as words of their
    width (\<open>+\<close> and \<open>-\<close> wrap around, as the unsigned arithmetic of the code does).
  \<^item> Fixed buffers: a C array is the list of its bytes. An access outside the array is
    \<open>None\<close>, so that a function whose model returns \<open>Some\<close> has touched only its own
    storage. \<open>None\<close> stands for every way in which a C function gives no result: an
    access outside a buffer, a loop that never ends, a system call that never returns.
  \<^item> The loop shapes of the sources: the bounded scan, the scan of a NUL-terminated
    string and the byte-wise copy, each with the lemma that gives its result on lists.
  \<^item> The reference notion of a command line's words, on which the tokenisers of the
    library, of nbox and of the shell are compared.
\<close>

unbundle bit_operations_syntax

named_theorems c_simps \<open>evaluation of buffer accesses and scans on list positions\<close>

section \<open>Machine types\<close>

type_synonym byte = "8 word"
type_synonym neox_status_t = "8 word"
type_synonym neox_fd_t = "8 word"
type_synonym neox_pid_t = "8 word"
type_synonym neox_size_t = "16 word"

abbreviation (input) CR :: byte where "CR \<equiv> 13"
abbreviation (input) SP :: byte where "SP \<equiv> 32"
abbreviation (input) TAB :: byte where "TAB \<equiv> 9"

definition bytes_of :: "string \<Rightarrow> byte list" where
  "bytes_of s = map of_char s"

definition message :: "string \<Rightarrow> byte list" where
  \<comment> \<open>a C string literal that ends in a carriage return, with its NUL byte\<close>
  "message s = bytes_of s @ [CR, 0]"

definition ctext :: "string \<Rightarrow> byte list" where
  \<comment> \<open>a C string literal with its NUL byte\<close>
  "ctext s = bytes_of s @ [0]"

lemma length_ctext [simp]: "length (ctext s) = Suc (length s)"
  by (simp add: ctext_def bytes_of_def)

lemma byte_of_char_eq_0: "(of_char c :: byte) = 0 \<longleftrightarrow> c = CHR 0x00"
proof -
  have "(of_char c :: byte) = of_nat (of_char c)" by (simp add: of_nat_of_char)
  moreover have "(of_nat (of_char c) :: byte) = 0 \<longleftrightarrow> (of_char c :: nat) = 0"
    using nat_of_char_less_256 [of c] by (cases "(of_char c :: nat) = 0") (auto simp: word_of_nat_eq_0_iff nat_dvd_not_less)
  moreover have "(of_char c :: nat) = 0 \<longleftrightarrow> c = CHR 0x00"
    using of_char_eq_iff [of c "CHR 0x00", where ?'a = nat] by simp
  ultimately show ?thesis by simp
qed

lemma zero_bytes_of: "0 \<in> set (bytes_of s) \<longleftrightarrow> CHR 0x00 \<in> set s"
  by (auto simp: bytes_of_def image_iff byte_of_char_eq_0 eq_commute [of 0])

lemma length_bytes_of [simp]: "length (bytes_of s) = length s"
  by (simp add: bytes_of_def)

lemma length_message [simp]: "length (message s) = length s + 2"
  by (simp add: message_def)

lemma unat_size_of_nat [simp]: "n < 65536 \<Longrightarrow> unat (of_nat n :: neox_size_t) = n"
  by (simp add: unat_of_nat take_bit_eq_mod)

lemma unat_size_le: "unat (n :: neox_size_t) < 65536"
  using unsigned_less [of n, where ?'a = nat] by simp

lemma size_of_nat_unat [simp]: "(of_nat (unat n) :: neox_size_t) = n"
  by simp

lemma size_less_of_nat:
  "n < 65536 \<Longrightarrow> (of_nat n :: neox_size_t) < len \<longleftrightarrow> n < unat len"
  by (simp add: word_less_nat_alt)

lemma size_of_nat_eq_0: "n < 65536 \<Longrightarrow> (of_nat n :: neox_size_t) = 0 \<longleftrightarrow> n = 0"
  by (metis unat_size_of_nat unat_eq_0)

lemma size_unat_eq_0 [simp]: "unat (n :: neox_size_t) = 0 \<longleftrightarrow> n = 0"
  by (simp add: unat_eq_0)

lemma unat_size_diff: "b \<le> a \<Longrightarrow> unat (a - b :: neox_size_t) = unat a - unat b"
  by (simp add: unat_sub)

lemma unat_size_add:
  "unat (a :: neox_size_t) + unat b < 65536 \<Longrightarrow> unat (a + b) = unat a + unat b"
  by (simp add: unat_word_ariths)

lemma unat_size_of_nat_diff [simp]:
  "i \<le> j \<Longrightarrow> j < 65536 \<Longrightarrow> unat (of_nat j - of_nat i :: neox_size_t) = j - i"
  using unat_size_of_nat [of "j - i"] by simp

section \<open>Buffers\<close>

definition cload :: "byte list \<Rightarrow> neox_size_t \<Rightarrow> byte option" where
  "cload buf i = (if unat i < length buf then Some (buf ! unat i) else None)"

definition cstore :: "byte list \<Rightarrow> neox_size_t \<Rightarrow> byte \<Rightarrow> byte list option" where
  "cstore buf i c = (if unat i < length buf then Some (buf[unat i := c]) else None)"

definition cslice :: "byte list \<Rightarrow> neox_size_t \<Rightarrow> neox_size_t \<Rightarrow> byte list option" where
  \<comment> \<open>the \<open>n\<close> bytes a callee reads through the pointer \<open>buf + i\<close>\<close>
  "cslice buf i n =
     (if unat i + unat n \<le> length buf then Some (take (unat n) (drop (unat i) buf)) else None)"

definition cfill :: "byte list \<Rightarrow> byte list \<Rightarrow> byte list option" where
  \<comment> \<open>a callee stores \<open>data\<close> at the start of the buffer\<close>
  "cfill buf data =
     (if length data \<le> length buf then Some (data @ drop (length data) buf) else None)"

definition cstring :: "byte list \<Rightarrow> byte list" where
  \<comment> \<open>the contents of a NUL-terminated string, without the NUL\<close>
  "cstring buf = takeWhile (\<lambda>c. c \<noteq> 0) buf"

definition terminated :: "byte list \<Rightarrow> bool" where
  "terminated buf \<longleftrightarrow> 0 \<in> set buf"

lemma cload_of_nat [c_simps]:
  "n < length buf \<Longrightarrow> n < 65536 \<Longrightarrow> cload buf (of_nat n) = Some (buf ! n)"
  by (simp add: cload_def)

lemma cstore_of_nat [c_simps]:
  "n < length buf \<Longrightarrow> n < 65536 \<Longrightarrow> cstore buf (of_nat n) c = Some (buf[n := c])"
  by (simp add: cstore_def)

lemma cload_Some_iff: "cload buf i = Some c \<longleftrightarrow> unat i < length buf \<and> buf ! unat i = c"
  by (auto simp: cload_def)

lemma cstore_length: "cstore buf i c = Some buf' \<Longrightarrow> length buf' = length buf"
  by (auto simp: cstore_def split: if_splits)

lemma cslice_all [c_simps]:
  "length buf < 65536 \<Longrightarrow> cslice buf 0 (of_nat (length buf)) = Some buf"
  by (simp add: cslice_def)

lemma cfill_Some [c_simps]:
  "length data \<le> length buf \<Longrightarrow> cfill buf data = Some (data @ drop (length data) buf)"
  by (simp add: cfill_def)

lemma cstring_append_nul [simp]: "0 \<notin> set s \<Longrightarrow> cstring (s @ 0 # rest) = s"
  by (induction s) (auto simp: cstring_def)

lemma cstring_id: "0 \<notin> set s \<Longrightarrow> cstring s = s"
  by (induction s) (auto simp: cstring_def)

lemma cstring_ctext [simp]: "CHR 0x00 \<notin> set s \<Longrightarrow> cstring (ctext s) = bytes_of s"
  using cstring_append_nul [of "bytes_of s" "[]"] by (simp add: ctext_def zero_bytes_of)

lemma terminated_ctext [simp]: "terminated (ctext s)"
  by (simp add: terminated_def ctext_def)

lemma cstring_message [simp]: "CHR 0x00 \<notin> set s \<Longrightarrow> cstring (message s) = bytes_of s @ [CR]"
  using cstring_append_nul [of "bytes_of s @ [CR]" "[]"] by (simp add: message_def zero_bytes_of)

lemma length_cstring_less: "terminated buf \<Longrightarrow> length (cstring buf) < length buf"
  unfolding terminated_def cstring_def by (induction buf) auto

lemma nth_length_cstring: "terminated buf \<Longrightarrow> buf ! length (cstring buf) = 0"
  unfolding terminated_def cstring_def by (induction buf) auto

lemma nth_cstring: "n < length (cstring buf) \<Longrightarrow> buf ! n = cstring buf ! n"
  unfolding cstring_def by (metis takeWhile_nth)

lemma cstring_nonzero: "c \<in> set (cstring buf) \<Longrightarrow> c \<noteq> 0"
  unfolding cstring_def by (auto dest: set_takeWhileD)

lemma cstring_no_nul [simp]: "0 \<notin> set (cstring buf)"
  using cstring_nonzero by blast

lemma cstring_eq_take: "cstring buf = take (length (cstring buf)) buf"
  unfolding cstring_def by (metis takeWhile_eq_take)

lemma terminated_append_nul [simp]: "terminated (s @ 0 # rest)"
  by (simp add: terminated_def)

section \<open>Scans\<close>

text \<open>The loop \<^verbatim>\<open>while ((i < len) && p(buf[i])) ++i;\<close>\<close>

function scan_bounded :: "(byte \<Rightarrow> bool) \<Rightarrow> byte list \<Rightarrow> neox_size_t \<Rightarrow> neox_size_t \<Rightarrow> neox_size_t option" where
  "scan_bounded p buf len i =
     (if i < len
      then do { c \<leftarrow> cload buf i; if p c then scan_bounded p buf len (i + 1) else Some i }
      else Some i)"
  by pat_completeness auto
termination
proof (relation "measure (\<lambda>(p, buf, len, i). unat len - unat i)")
  fix len i :: neox_size_t
  assume "i < len"
  then have "unat i < unat len" by (simp add: word_less_nat_alt)
  moreover from this have "unat (i + 1) = unat i + 1"
    using unat_size_le [of len] by (simp add: unat_size_add)
  ultimately show "((p, buf, len, i + 1), p, buf, len, i)
      \<in> measure (\<lambda>(p, buf, len, i). unat len - unat i)" for p :: "byte \<Rightarrow> bool" and buf :: "byte list"
    by simp
qed auto

declare scan_bounded.simps [simp del]

text \<open>The loop \<^verbatim>\<open>while ((buf[i] != 0) && p(buf[i])) ++i;\<close>\<close>

partial_function (option) scan_cstring :: "(byte \<Rightarrow> bool) \<Rightarrow> byte list \<Rightarrow> neox_size_t \<Rightarrow> neox_size_t option" where
  "scan_cstring p buf i =
     do { c \<leftarrow> cload buf i; if c \<noteq> 0 \<and> p c then scan_cstring p buf (i + 1) else Some i }"

declare scan_cstring.simps [code]

text \<open>The loop \<^verbatim>\<open>for (i = 0; i < n; ++i) dst[d + i] = src[s + i];\<close>\<close>

function copy_bytes :: "byte list \<Rightarrow> neox_size_t \<Rightarrow> byte list \<Rightarrow> neox_size_t \<Rightarrow> neox_size_t \<Rightarrow> neox_size_t \<Rightarrow> byte list option" where
  "copy_bytes dst d src s n i =
     (if i < n
      then do {
        c \<leftarrow> cload src (s + i);
        dst \<leftarrow> cstore dst (d + i) c;
        copy_bytes dst d src s n (i + 1) }
      else Some dst)"
  by pat_completeness auto
termination
proof (relation "measure (\<lambda>(dst, d, src, s, n, i). unat n - unat i)")
  fix n i :: neox_size_t
  assume "i < n"
  then have "unat i < unat n" by (simp add: word_less_nat_alt)
  moreover from this have "unat (i + 1) = unat i + 1"
    using unat_size_le [of n] by (simp add: unat_size_add)
  ultimately show "((dst', d, src, s, n, i + 1), dst, d, src, s, n, i)
      \<in> measure (\<lambda>(dst, d, src, s, n, i). unat n - unat i)"
    for dst dst' src :: "byte list" and d s :: neox_size_t
    by simp
qed auto

declare copy_bytes.simps [simp del]

text \<open>
  The position at which a scan from position \<open>n\<close> stops, on the list of the bytes scanned.
\<close>

definition skip :: "('a \<Rightarrow> bool) \<Rightarrow> 'a list \<Rightarrow> nat \<Rightarrow> nat" where
  "skip p xs n = n + length (takeWhile p (drop n xs))"

lemma skip_ge [simp]: "n \<le> skip p xs n"
  by (simp add: skip_def)

lemma skip_le: "n \<le> length xs \<Longrightarrow> skip p xs n \<le> length xs"
  using length_takeWhile_le [of p "drop n xs"] by (simp add: skip_def)

lemma skip_end [simp]: "length xs \<le> n \<Longrightarrow> skip p xs n = n"
  by (simp add: skip_def)

lemma skip_step:
  "n < length xs \<Longrightarrow> skip p xs n = (if p (xs ! n) then skip p xs (Suc n) else n)"
  by (simp add: skip_def Cons_nth_drop_Suc [symmetric])

lemma skip_stop: "skip p xs n < length xs \<Longrightarrow> \<not> p (xs ! skip p xs n)"
proof (induction "length xs - n" arbitrary: n)
  case 0
  then show ?case using skip_ge [of n p xs] by simp
next
  case (Suc k)
  then have "n < length xs" by simp
  then show ?case using Suc by (auto simp: skip_step [of n xs p])
qed

lemma drop_skip: "drop (skip p xs n) xs = dropWhile p (drop n xs)"
  by (simp add: skip_def dropWhile_eq_drop add.commute)

lemma take_skip: "take (skip p xs n - n) (drop n xs) = takeWhile p (drop n xs)"
  by (simp add: skip_def takeWhile_eq_take [symmetric])

lemma scan_bounded_of_nat [c_simps]:
  assumes "unat len \<le> length buf" and "n \<le> unat len"
  shows "scan_bounded p buf len (of_nat n) =
    Some (of_nat (skip p (take (unat len) buf) n))"
  using assms(2)
proof (induction "unat len - n" arbitrary: n)
  case 0
  then have "n = unat len" by simp
  then show ?case using assms unat_size_le [of len]
    by (simp add: scan_bounded.simps [of _ _ _ len])
next
  case (Suc k)
  then have n: "n < unat len" by simp
  have b: "n < 65536" using n unat_size_le [of len] by simp
  let ?t = "take (unat len) buf"
  have c: "cload buf (of_nat n) = Some (?t ! n)"
    using n b assms by (simp add: cload_def)
  have IH: "scan_bounded p buf len (of_nat (Suc n)) =
      Some (of_nat (skip p ?t (Suc n)))"
    using Suc.hyps(2) n by (intro Suc.hyps(1)) simp_all
  have "n < length ?t" using n assms by simp
  then show ?case
    using n b c IH
    by (subst scan_bounded.simps) (simp add: size_less_of_nat skip_step [of n] add.commute)
qed

lemma scan_cstring_of_nat [c_simps]:
  assumes "terminated buf" and "length buf \<le> 65536" and "n \<le> length (cstring buf)"
  shows "scan_cstring p buf (of_nat n) =
    Some (of_nat (skip p (cstring buf) n))"
  using assms(3)
proof (induction "length (cstring buf) - n" arbitrary: n)
  case 0
  then have "n = length (cstring buf)" by simp
  then show ?case
    using assms length_cstring_less [OF assms(1)] nth_length_cstring [OF assms(1)]
    by (subst scan_cstring.simps) (simp add: cload_def)
next
  case (Suc k)
  then have n: "n < length (cstring buf)" by simp
  then have b: "n < length buf" "n < 65536"
    using length_cstring_less [OF assms(1)] assms(2) by simp_all
  have nz: "cstring buf ! n \<noteq> 0" using n cstring_nonzero nth_mem by blast
  have c: "cload buf (of_nat n) = Some (cstring buf ! n)"
    using b n by (simp add: cload_def nth_cstring)
  have IH: "scan_cstring p buf (of_nat (Suc n)) =
      Some (of_nat (skip p (cstring buf) (Suc n)))"
    using Suc.hyps(2) n by (intro Suc.hyps(1)) simp_all
  show ?case
    using n c nz IH
    by (subst scan_cstring.simps) (simp add: skip_step [of n] add.commute)
qed

lemma copy_bytes_nat:
  assumes "unat s + unat n \<le> length src" and "unat d + unat n \<le> length dst"
    and "unat s + unat n \<le> 65536" and "unat d + unat n \<le> 65536" and "i \<le> unat n"
  shows "copy_bytes dst d src s n (of_nat i) =
    Some (take (unat d + i) dst @ take (unat n - i) (drop (unat s + i) src) @ drop (unat d + unat n) dst)"
  using assms(2,5)
proof (induction "unat n - i" arbitrary: i dst)
  case 0
  then have "i = unat n" by simp
  then show ?case using 0 unat_size_le [of n]
    by (subst copy_bytes.simps) (simp add: size_less_of_nat)
next
  case (Suc k)
  then have i: "i < unat n" by simp
  have b: "i < 65536" using i unat_size_le [of n] by simp
  have s: "s + of_nat i = of_nat (unat s + i)" and d: "d + of_nat i = of_nat (unat d + i)"
    by simp_all
  let ?dst = "dst[unat d + i := src ! (unat s + i)]"
  have ld: "cload src (s + of_nat i) = Some (src ! (unat s + i))"
    unfolding s using i assms(1,3) by (intro cload_of_nat) simp_all
  have st: "cstore dst (d + of_nat i) c = Some (dst[unat d + i := c])" for c
    unfolding d using i Suc.prems assms(4) by (intro cstore_of_nat) simp_all
  have IH: "copy_bytes ?dst d src s n (of_nat (Suc i)) =
      Some (take (unat d + Suc i) ?dst @ take (unat n - Suc i) (drop (unat s + Suc i) src)
        @ drop (unat d + unat n) ?dst)"
    using Suc i by (intro Suc.hyps(1)) simp_all
  have "take (unat d + Suc i) ?dst = take (unat d + i) dst @ [src ! (unat s + i)]"
    using i Suc.prems by (simp add: take_Suc_conv_app_nth)
  moreover have "take (unat n - i) (drop (unat s + i) src) =
      src ! (unat s + i) # take (unat n - Suc i) (drop (unat s + Suc i) src)"
    using i assms(1) by (simp add: Cons_nth_drop_Suc [symmetric] take_Cons' )
  ultimately show ?case
    using i b ld st IH by (subst copy_bytes.simps) (simp add: size_less_of_nat add.commute)
qed

lemma copy_bytes_0:
  assumes "unat s + unat n \<le> length src" and "unat d + unat n \<le> length dst"
    and "unat s + unat n \<le> 65536" and "unat d + unat n \<le> 65536"
  shows "copy_bytes dst d src s n 0 =
    Some (take (unat d) dst @ take (unat n) (drop (unat s) src) @ drop (unat d + unat n) dst)"
  using copy_bytes_nat [OF assms, of 0] by simp

section \<open>Words of a command line\<close>

text \<open>
  The reference splitting of a line: maximal runs of bytes that are not separators.
\<close>

function words_of :: "(byte \<Rightarrow> bool) \<Rightarrow> byte list \<Rightarrow> byte list list" where
  "words_of sep xs =
     (let ys = dropWhile sep xs in
      if ys = [] then []
      else takeWhile (\<lambda>c. \<not> sep c) ys # words_of sep (dropWhile (\<lambda>c. \<not> sep c) ys))"
  by pat_completeness auto
termination
proof (relation "measure (\<lambda>(sep, xs). length xs)", goal_cases)
  case (2 sep xs ys)
  then have eq: "ys = dropWhile sep xs" and "ys \<noteq> []" by simp_all
  then obtain y zs where ys: "ys = y # zs" by (meson neq_Nil_conv)
  with eq have "\<not> sep y" using hd_dropWhile [of sep xs] by (metis list.distinct(1) list.sel(1))
  then have "length (dropWhile (\<lambda>c. \<not> sep c) ys) < length ys"
    by (simp add: ys length_dropWhile_le less_Suc_eq_le)
  also have "length ys \<le> length xs" using 2 by (simp add: length_dropWhile_le)
  finally show ?case by simp
qed simp

declare words_of.simps [simp del]

lemma words_of_blank: "dropWhile sep xs = [] \<Longrightarrow> words_of sep xs = []"
  by (subst words_of.simps) simp

lemma words_of_dropWhile: "words_of sep (dropWhile sep xs) = words_of sep xs"
  by (subst (1 2) words_of.simps) simp

lemma words_of_step:
  "dropWhile sep xs = ys \<Longrightarrow> ys \<noteq> [] \<Longrightarrow>
   words_of sep xs =
     takeWhile (\<lambda>c. \<not> sep c) ys # words_of sep (dropWhile (\<lambda>c. \<not> sep c) ys)"
  by (subst words_of.simps) (simp add: Let_def)

lemma words_of_Nil [simp]: "words_of sep [] = []"
  by (simp add: words_of_blank)

lemma words_of_properties:
  "w \<in> set (words_of sep xs) \<Longrightarrow> w \<noteq> [] \<and> (\<forall>c \<in> set w. \<not> sep c \<and> c \<in> set xs)"
proof (induction sep xs rule: words_of.induct)
  case (1 sep xs)
  let ?ys = "dropWhile sep xs"
  show ?case
  proof (cases "?ys = []")
    case True
    then show ?thesis using 1(2) by (simp add: words_of_blank)
  next
    case False
    then obtain y zs where ys: "?ys = y # zs" by (cases ?ys) auto
    then have y: "\<not> sep y" using hd_dropWhile [of sep xs] by simp
    from 1(2) words_of_step [OF refl False]
    consider "w = takeWhile (\<lambda>c. \<not> sep c) ?ys"
      | "w \<in> set (words_of sep (dropWhile (\<lambda>c. \<not> sep c) ?ys))" by auto
    then show ?thesis
    proof cases
      case 1
      then have "w \<noteq> []" using ys y by simp
      moreover have "\<not> sep c \<and> c \<in> set xs" if "c \<in> set w" for c
        using that 1 by (auto dest: set_takeWhileD set_dropWhileD)
      ultimately show ?thesis by simp
    next
      case 2
      with 1(1) [OF refl False] show ?thesis by (auto dest: set_dropWhileD)
    qed
  qed
qed

text \<open>One word as two scans: over the separators, then over the word.\<close>

lemma words_of_skip_Nil:
  "skip sep xs n \<ge> length xs \<Longrightarrow> words_of sep (drop n xs) = []"
  using drop_skip [of sep xs n] by (simp add: words_of_blank)

lemma words_of_skip_Cons:
  assumes "i = skip sep xs n" and "j = skip (\<lambda>c. \<not> sep c) xs i" and "i < length xs"
  shows "words_of sep (drop n xs) = take (j - i) (drop i xs) # words_of sep (drop j xs)"
proof -
  have "dropWhile sep (drop n xs) = drop i xs" using assms(1) by (simp add: drop_skip)
  moreover have "drop i xs \<noteq> []" using assms(3) by simp
  ultimately show ?thesis
    using assms(2) by (simp add: words_of_step take_skip drop_skip)
qed

lemma skip_word_nonempty:
  "i = skip sep xs n \<Longrightarrow> i < length xs \<Longrightarrow> i < skip (\<lambda>c. \<not> sep c) xs i"
  using skip_stop [of sep xs n] less_le_trans [OF lessI skip_ge]
  by (simp add: skip_step [of "skip sep xs n" xs "\<lambda>c. \<not> sep c"])

end
