(* ===== verification/Kernel_Fifo.thy ===== *)
theory Kernel_Fifo
  imports Neox_Prelude
begin

text \<open>
  The contract of a first-in first-out store, which two components of the kernel implement:
  the ring buffer of a pipe and the wait queue of a gate. \<open>put\<close> gives \<open>None\<close> when the store
  is full, \<open>get\<close> when it is empty; \<open>elements\<close> is the abstraction to a list, oldest element
  first.

  The client lemmas are about sequences of operations: whatever the order in which elements
  are put in and taken out, those taken out followed by those left are those there at the
  start followed by those put in.
\<close>

datatype 'a fifo_op = Put 'a | Get

locale fifo =
  fixes put :: "'a \<Rightarrow> 'q \<Rightarrow> 'q option" and get :: "'q \<Rightarrow> ('a \<times> 'q) option"
    and elements :: "'q \<Rightarrow> 'a list" and fits :: "'a \<Rightarrow> 'a list \<Rightarrow> bool" and inv :: "'q \<Rightarrow> bool"
  assumes put_fits: "inv q \<Longrightarrow> put x q \<noteq> None \<longleftrightarrow> fits x (elements q)"
    and put_elements: "inv q \<Longrightarrow> put x q = Some q' \<Longrightarrow> inv q' \<and> elements q' = elements q @ [x]"
    and get_empty: "inv q \<Longrightarrow> get q = None \<longleftrightarrow> elements q = []"
    and get_elements: "inv q \<Longrightarrow> get q = Some (x, q') \<Longrightarrow> inv q' \<and> elements q = x # elements q'"
begin

text \<open>A run gives what was taken out, what was accepted and the final store.\<close>

fun run :: "'a fifo_op list \<Rightarrow> 'q \<Rightarrow> 'a list \<times> 'a list \<times> 'q" where
  "run [] q = ([], [], q)"
| "run (Put x # ops) q =
     (case put x q of
        None \<Rightarrow> run ops q
      | Some q' \<Rightarrow> (let (outs, ins, r) = run ops q' in (outs, x # ins, r)))"
| "run (Get # ops) q =
     (case get q of
        None \<Rightarrow> run ops q
      | Some (x, q') \<Rightarrow> (let (outs, ins, r) = run ops q' in (x # outs, ins, r)))"

lemma run_fifo:
  assumes "run ops q = (outs, ins, r)" and "inv q"
  shows "inv r" and "elements q @ ins = outs @ elements r"
proof -
  have "inv r \<and> elements q @ ins = outs @ elements r"
    using assms
  proof (induction ops q arbitrary: outs ins r rule: run.induct)
    case (2 x ops q)
    show ?case
    proof (cases "put x q")
      case None
      then show ?thesis using 2 by simp
    next
      case (Some q')
      obtain o1 i1 r1 where r: "run ops q' = (o1, i1, r1)" by (metis prod_cases3)
      have q': "inv q'" "elements q' = elements q @ [x]" using put_elements [OF "2.prems"(2) Some] by simp_all
      show ?thesis using "2.IH"(2) [OF Some r q'(1)] "2.prems"(1) Some r q' by simp
    qed
  next
    case (3 ops q)
    show ?case
    proof (cases "get q")
      case None
      then show ?thesis using 3 by simp
    next
      case (Some xq)
      obtain x q' where xq: "xq = (x, q')" by (cases xq)
      obtain o1 i1 r1 where r: "run ops q' = (o1, i1, r1)" by (metis prod_cases3)
      have q': "inv q'" "elements q = x # elements q'"
        using get_elements [OF "3.prems"(2)] Some xq by simp_all
      show ?thesis using "3.IH"(2) [OF Some xq [symmetric] r q'(1)] "3.prems"(1) Some xq r q' by auto
    qed
  qed simp
  then show "inv r" and "elements q @ ins = outs @ elements r" by simp_all
qed

end

end
