(* ===== verification/Kernel_Pipe.thy ===== *)
theory Kernel_Pipe
  imports Kernel_Fifo
begin

text \<open>
  The pipes of the kernel, \<^verbatim>\<open>src/kernel/pipe.asm\<close>: one entry of the pipe tables with its slice
  of the buffer, and the byte loops of \<open>pipe_read\<close> and \<open>pipe_write\<close>. The parallel arrays
  \<open>pipe_state\<close>, \<open>pipe_head\<close>, \<open>pipe_tail\<close> and \<open>pipe_count\<close> are the fields of a record here, and
  the 64 bytes from \<open>pipe_buf + index * PIPE_BUF_SIZE\<close> are its last field.

  The lemmas show that the ring buffer is a first-in first-out store of at most 64 bytes
  and that the two loops transfer as many bytes as fit, in order.
\<close>

section \<open>State\<close>

abbreviation (input) PIPE_NONE :: byte where "PIPE_NONE \<equiv> 0xFF"
abbreviation (input) PIPE_STATE_READ_OPEN :: byte where "PIPE_STATE_READ_OPEN \<equiv> 1"
abbreviation (input) PIPE_STATE_WRITE_OPEN :: byte where "PIPE_STATE_WRITE_OPEN \<equiv> 2"
abbreviation (input) PIPE_STATE_USED :: byte where "PIPE_STATE_USED \<equiv> 3"
abbreviation (input) PIPE_END_READ :: byte where "PIPE_END_READ \<equiv> 1"
abbreviation (input) PIPE_END_WRITE :: byte where "PIPE_END_WRITE \<equiv> 2"
abbreviation (input) PIPE_BUF_SIZE :: byte where "PIPE_BUF_SIZE \<equiv> 64"

record pipe =
  pipe_state :: byte
  pipe_head :: byte
  pipe_tail :: byte
  pipe_count :: byte
  pipe_buf :: "byte list"

section \<open>Operations\<close>

definition pipe_clear :: "byte \<Rightarrow> pipe \<Rightarrow> pipe" where
  "pipe_clear st p = p\<lparr>pipe_state := st, pipe_head := 0, pipe_tail := 0, pipe_count := 0\<rparr>"

definition pipe_advance :: "byte \<Rightarrow> byte" where
  "pipe_advance i = (i + 1) AND (PIPE_BUF_SIZE - 1)"

definition pipe_get_byte :: "pipe \<Rightarrow> (byte \<times> pipe) option" where
  "pipe_get_byte p =
     (if pipe_count p = 0 then None
      else Some (pipe_buf p ! unat (pipe_tail p),
        p\<lparr>pipe_tail := pipe_advance (pipe_tail p), pipe_count := pipe_count p - 1\<rparr>))"

definition pipe_put_byte :: "byte \<Rightarrow> pipe \<Rightarrow> pipe option" where
  "pipe_put_byte c p =
     (if pipe_count p = PIPE_BUF_SIZE then None
      else Some (p\<lparr>pipe_buf := (pipe_buf p)[unat (pipe_head p) := c],
        pipe_head := pipe_advance (pipe_head p), pipe_count := pipe_count p + 1\<rparr>))"

definition transfer_complete :: "neox_size_t \<Rightarrow> byte \<Rightarrow> bool" where
  \<comment> \<open>the stop test of both loops: high byte of the request zero and low byte reached\<close>
  "transfer_complete req finished \<longleftrightarrow> drop_bit 8 req = 0 \<and> finished = ucast req"

text \<open>The loops return the bytes stored in the caller's buffer, and the count written.\<close>

function pipe_read_loop :: "neox_size_t \<Rightarrow> byte \<Rightarrow> pipe \<Rightarrow> byte list \<times> pipe" where
  "pipe_read_loop req finished p =
     (if transfer_complete req finished then ([], p)
      else case pipe_get_byte p of
          None \<Rightarrow> ([], p)
        | Some (c, p') \<Rightarrow>
            let (cs, p'') = pipe_read_loop req (finished + 1) p' in (c # cs, p''))"
  by pat_completeness auto
termination
proof (relation "measure (\<lambda>(req, finished, p). unat (pipe_count p))", goal_cases)
  case (2 req finished p x c p')
  then show ?case by (auto simp: pipe_get_byte_def measure_unat split: if_splits)
qed simp

declare pipe_read_loop.simps [simp del]

function pipe_write_loop :: "neox_size_t \<Rightarrow> byte list \<Rightarrow> byte \<Rightarrow> pipe \<Rightarrow> byte \<times> pipe" where
  "pipe_write_loop req data finished p =
     (if transfer_complete req finished then (finished, p)
      else case pipe_put_byte (data ! unat finished) p of
          None \<Rightarrow> (finished, p)
        | Some p' \<Rightarrow> pipe_write_loop req data (finished + 1) p')"
  by pat_completeness auto
termination
proof (relation "measure (\<lambda>(req, data, finished, p). unat (PIPE_BUF_SIZE - pipe_count p))", goal_cases)
  case (2 req data finished p p')
  then have "pipe_count p' = pipe_count p + 1" "64 - pipe_count p \<noteq> 0"
    by (auto simp: pipe_put_byte_def split: if_splits)
  then have "64 - pipe_count p' = 64 - pipe_count p - 1" by simp
  moreover have "unat (64 - pipe_count p - 1) < unat (64 - pipe_count p)"
    by (rule measure_unat [OF \<open>64 - pipe_count p \<noteq> 0\<close>])
  ultimately show ?case by (simp only: in_measure prod.case)
qed simp

declare pipe_write_loop.simps [simp del]

section \<open>The ring buffer is a queue\<close>

definition pipe_wf :: "pipe \<Rightarrow> bool" where
  "pipe_wf p \<longleftrightarrow> length (pipe_buf p) = 64 \<and> unat (pipe_tail p) < 64 \<and> unat (pipe_count p) \<le> 64
     \<and> unat (pipe_head p) = (unat (pipe_tail p) + unat (pipe_count p)) mod 64"

definition pipe_bytes :: "pipe \<Rightarrow> byte list" where
  "pipe_bytes p =
     map (\<lambda>i. pipe_buf p ! ((unat (pipe_tail p) + i) mod 64)) [0..<unat (pipe_count p)]"

lemma length_pipe_bytes [simp]: "length (pipe_bytes p) = unat (pipe_count p)"
  by (simp add: pipe_bytes_def)

lemma unat_pipe_advance:
  assumes "unat i < 64"
  shows "unat (pipe_advance i) = (unat i + 1) mod 64"
proof -
  have "(i + 1) AND 63 = take_bit 6 (i + 1)" by (simp add: take_bit_eq_mask mask_eq_exp_minus_1)
  moreover have "unat (i + 1) = unat i + 1" using assms by (simp add: unat_word_ariths)
  ultimately show ?thesis by (simp add: pipe_advance_def take_bit_eq_mod unat_mod)
qed

lemma pipe_clear_wf: "length (pipe_buf p) = 64 \<Longrightarrow> pipe_wf (pipe_clear st p)"
  by (simp add: pipe_wf_def pipe_clear_def)

lemma pipe_bytes_clear [simp]: "pipe_bytes (pipe_clear st p) = []"
  by (simp add: pipe_bytes_def pipe_clear_def)

lemma pipe_get_byte_Some:
  assumes "pipe_wf p" and "pipe_get_byte p = Some (c, p')"
  shows "pipe_wf p'" and "pipe_bytes p = c # pipe_bytes p'" and "pipe_state p' = pipe_state p"
proof -
  let ?t = "unat (pipe_tail p)" and ?n = "unat (pipe_count p)"
  have nz: "pipe_count p \<noteq> 0" and c: "c = pipe_buf p ! ?t"
    and p': "p' = p\<lparr>pipe_tail := pipe_advance (pipe_tail p), pipe_count := pipe_count p - 1\<rparr>"
    using assms(2) by (auto simp: pipe_get_byte_def split: if_splits)
  have wf: "length (pipe_buf p) = 64" "?t < 64" "?n \<le> 64" "unat (pipe_head p) = (?t + ?n) mod 64"
    using assms(1) by (simp_all add: pipe_wf_def)
  have n: "unat (pipe_count p - 1) = ?n - 1" "0 < ?n" using nz by (simp_all add: unat_minus_one unat_gt_0)
  have t: "unat (pipe_advance (pipe_tail p)) = (?t + 1) mod 64" by (rule unat_pipe_advance [OF wf(2)])
  obtain m where m: "?n = Suc m" using n(2) by (cases ?n) auto
  then have "(?t + ?n) mod 64 = ((?t + 1) mod 64 + m) mod 64" by (simp add: mod_simps)
  then show "pipe_wf p'" using wf n t m by (simp add: pipe_wf_def p')
  have "[0..<?n] = 0 # map Suc [0..<?n - 1]"
    using n(2) by (simp add: upt_conv_Cons map_Suc_upt)
  then show "pipe_bytes p = c # pipe_bytes p'"
    using wf(2) n t by (simp add: pipe_bytes_def p' c mod_simps)
  show "pipe_state p' = pipe_state p" by (simp add: p')
qed

lemma pipe_put_byte_Some:
  assumes "pipe_wf p" and "pipe_put_byte c p = Some p'"
  shows "pipe_wf p'" and "pipe_bytes p' = pipe_bytes p @ [c]" and "pipe_state p' = pipe_state p"
proof -
  let ?t = "unat (pipe_tail p)" and ?n = "unat (pipe_count p)" and ?h = "unat (pipe_head p)"
  have full: "pipe_count p \<noteq> 64"
    and p': "p' = p\<lparr>pipe_buf := (pipe_buf p)[?h := c], pipe_head := pipe_advance (pipe_head p),
      pipe_count := pipe_count p + 1\<rparr>"
    using assms(2) by (auto simp: pipe_put_byte_def split: if_splits)
  have wf: "length (pipe_buf p) = 64" "?t < 64" "?n \<le> 64" "?h = (?t + ?n) mod 64"
    using assms(1) by (simp_all add: pipe_wf_def)
  have "?n \<noteq> 64"
  proof
    assume "?n = 64"
    then have "unat (pipe_count p) = unat (64 :: byte)" by simp
    then show False using full by (metis word_unat_eq_iff)
  qed
  then have n: "unat (pipe_count p + 1) = ?n + 1" "?n < 64" using wf(3) by (simp_all add: unat_word_ariths)
  have h: "unat (pipe_advance (pipe_head p)) = (?h + 1) mod 64"
    by (rule unat_pipe_advance) (simp add: wf(4))
  show "pipe_wf p'" using wf n h by (auto simp: pipe_wf_def p' mod_simps)
  have old: "(pipe_buf p)[?h := c] ! ((?t + i) mod 64) = pipe_buf p ! ((?t + i) mod 64)" if "i < ?n" for i
  proof -
    have "(?t + i) mod 64 \<noteq> ?h"
    proof
      assume "(?t + i) mod 64 = ?h"
      then have "(?t + i) mod 64 = (?t + ?n) mod 64" by (simp add: wf(4))
      then have "64 dvd ?n - i" using that by (metis add_diff_cancel_left less_imp_le mod_eq_dvd_iff_nat nat_add_left_cancel_le)
      then show False using that n(2) by (auto dest: dvd_imp_le)
    qed
    then show ?thesis by simp
  qed
  have "pipe_bytes p' = map (\<lambda>i. (pipe_buf p)[?h := c] ! ((?t + i) mod 64)) [0..<?n] @ [(pipe_buf p)[?h := c] ! ?h]"
    using n(1) wf(4) by (simp add: pipe_bytes_def p')
  then show "pipe_bytes p' = pipe_bytes p @ [c]"
    using old wf(1,4) by (simp add: pipe_bytes_def)
  show "pipe_state p' = pipe_state p" by (simp add: p')
qed

lemma pipe_put_byte_None:
  assumes "pipe_wf p"
  shows "pipe_put_byte c p = None \<longleftrightarrow> length (pipe_bytes p) = 64"
  using unat_eq_nat_uint [of "pipe_count p"]
  by (auto simp: pipe_put_byte_def word_unat_eq_iff)

lemma pipe_get_byte_None: "pipe_get_byte p = None \<longleftrightarrow> pipe_bytes p = []"
  by (auto simp: pipe_get_byte_def length_0_conv [symmetric] unat_eq_0 simp del: length_0_conv)

interpretation pipe_fifo: fifo pipe_put_byte pipe_get_byte pipe_bytes "\<lambda>_ cs. length cs < 64" pipe_wf
proof
  fix p p' :: pipe and c :: byte
  assume p: "pipe_wf p"
  then have "length (pipe_bytes p) \<le> 64" by (simp add: pipe_wf_def)
  then show "pipe_put_byte c p \<noteq> None \<longleftrightarrow> length (pipe_bytes p) < 64"
    using pipe_put_byte_None [OF p, of c] by auto
  show "pipe_put_byte c p = Some p' \<Longrightarrow> pipe_wf p' \<and> pipe_bytes p' = pipe_bytes p @ [c]"
    using pipe_put_byte_Some [OF p] by blast
  show "pipe_get_byte p = None \<longleftrightarrow> pipe_bytes p = []" by (rule pipe_get_byte_None)
  show "pipe_get_byte p = Some (c, p') \<Longrightarrow> pipe_wf p' \<and> pipe_bytes p = c # pipe_bytes p'"
    using pipe_get_byte_Some [OF p] by blast
qed

section \<open>The transfer loops\<close>

lemma transfer_complete_iff: "transfer_complete req finished \<longleftrightarrow> unat finished = unat req"
proof -
  have f: "unat finished < 256" using unsigned_less [of finished, where ?'a = nat] by simp
  have "drop_bit 8 req = 0 \<longleftrightarrow> unat req div 256 = 0"
    by (simp add: unat_eq_0 [symmetric] drop_bit_eq_div unat_div)
  moreover have "finished = ucast req \<longleftrightarrow> unat finished = unat req mod 256"
    by (simp add: word_unat_eq_iff unsigned_ucast_eq take_bit_eq_mod)
  ultimately show ?thesis using f by (auto simp: transfer_complete_def div_eq_0_iff)
qed

lemma unat_byte_Suc: "unat (x :: byte) < 255 \<Longrightarrow> unat (x + 1) = Suc (unat x)"
  by (simp add: unat_word_ariths)

lemma pipe_read_loop_bytes:
  assumes "pipe_wf p" and "unat finished \<le> unat req" and "unat finished + unat (pipe_count p) \<le> 255"
  obtains p' where "pipe_read_loop req finished p = (take (unat req - unat finished) (pipe_bytes p), p')"
    and "pipe_wf p'" and "pipe_bytes p' = drop (unat req - unat finished) (pipe_bytes p)"
    and "pipe_state p' = pipe_state p"
proof -
  have "\<exists>p'. pipe_read_loop req finished p = (take (unat req - unat finished) (pipe_bytes p), p')
      \<and> pipe_wf p' \<and> pipe_bytes p' = drop (unat req - unat finished) (pipe_bytes p) \<and> pipe_state p' = pipe_state p"
    using assms
  proof (induction "pipe_bytes p" arbitrary: p finished)
    case Nil
    then show ?case
      using pipe_get_byte_None [of p] by (subst pipe_read_loop.simps) simp
  next
    case (Cons x xs)
    show ?case
    proof (cases "unat finished = unat req")
      case True
      then show ?thesis using Cons.prems by (subst pipe_read_loop.simps) (simp add: transfer_complete_iff)
    next
      case False
      obtain c p1 where g: "pipe_get_byte p = Some (c, p1)"
        using pipe_get_byte_None [of p] Cons.hyps(2) by (cases "pipe_get_byte p") auto
      note p1 = pipe_get_byte_Some [OF Cons.prems(1) g]
      have xs: "c = x" "xs = pipe_bytes p1" using Cons.hyps(2) p1(2) by simp_all
      have n: "unat (pipe_count p) = Suc (unat (pipe_count p1))"
        using arg_cong [OF p1(2), of length] by simp
      then have f: "unat (finished + 1) = Suc (unat finished)" using Cons.prems(3) by (intro unat_byte_Suc) simp
      then obtain p' where r: "pipe_read_loop req (finished + 1) p1 = (take (unat req - Suc (unat finished)) (pipe_bytes p1), p')"
        and p': "pipe_wf p'" "pipe_bytes p' = drop (unat req - Suc (unat finished)) (pipe_bytes p1)" "pipe_state p' = pipe_state p1"
        using Cons.hyps(1) [OF xs(2) p1(1), of "finished + 1"] Cons.prems(2,3) False n by auto
      obtain k where k: "unat req - unat finished = Suc k" "unat req - Suc (unat finished) = k"
        using False Cons.prems(2) by (metis Suc_diff_Suc le_neq_implies_less)
      have "pipe_read_loop req finished p = (take (unat req - unat finished) (pipe_bytes p), p')"
        using False g r k p1(2) by (subst pipe_read_loop.simps) (simp add: transfer_complete_iff)
      then show ?thesis using p' k p1 by auto
    qed
  qed
  then show ?thesis using that by blast
qed

lemma pipe_write_loop_bytes:
  assumes "pipe_wf p" and "length data = unat req" and "unat finished \<le> unat req"
    and "unat finished + (64 - unat (pipe_count p)) \<le> 255"
  defines "k \<equiv> min (unat req - unat finished) (64 - unat (pipe_count p))"
  obtains p' where "pipe_write_loop req data finished p = (finished + of_nat k, p')"
    and "pipe_wf p'" and "pipe_bytes p' = pipe_bytes p @ take k (drop (unat finished) data)"
    and "pipe_state p' = pipe_state p"
proof -
  have "\<exists>p'. pipe_write_loop req data finished p = (finished + of_nat k, p') \<and> pipe_wf p'
      \<and> pipe_bytes p' = pipe_bytes p @ take k (drop (unat finished) data) \<and> pipe_state p' = pipe_state p"
    using assms(1,3,4) unfolding k_def
  proof (induction "64 - unat (pipe_count p)" arbitrary: p finished)
    case 0
    then have "pipe_put_byte c p = None" for c by (simp add: pipe_put_byte_None pipe_wf_def)
    then show ?case using 0 by (subst pipe_write_loop.simps) simp
  next
    case (Suc m)
    show ?case
    proof (cases "unat finished = unat req")
      case True
      then show ?thesis using Suc.prems by (subst pipe_write_loop.simps) (simp add: transfer_complete_iff)
    next
      case False
      let ?c = "data ! unat finished"
      obtain p1 where g: "pipe_put_byte ?c p = Some p1"
        using pipe_put_byte_None [OF Suc.prems(1), of ?c] Suc.hyps(2) by (cases "pipe_put_byte ?c p") auto
      note p1 = pipe_put_byte_Some [OF Suc.prems(1) g]
      have n: "unat (pipe_count p1) = Suc (unat (pipe_count p))"
        using arg_cong [OF p1(2), of length] by simp
      then have m: "m = 64 - unat (pipe_count p1)" using Suc.hyps(2) by simp
      have f: "unat (finished + 1) = Suc (unat finished)"
        using Suc.prems(3) Suc.hyps(2) by (intro unat_byte_Suc) simp
      have le: "unat (finished + 1) \<le> unat req" using f False Suc.prems(2) by simp
      have "unat (finished + 1) + (64 - unat (pipe_count p1)) \<le> 255"
        using Suc.prems(3) Suc.hyps(2) f m by simp
      from Suc.hyps(1) [OF m p1(1) le this] obtain p' where
        r: "pipe_write_loop req data (finished + 1) p1 = (finished + 1 + of_nat (min (unat req - Suc (unat finished)) m), p')"
        and p': "pipe_wf p'" "pipe_bytes p' = pipe_bytes p1 @ take (min (unat req - Suc (unat finished)) m) (drop (Suc (unat finished)) data)"
          "pipe_state p' = pipe_state p1"
        using f m by auto
      have k: "min (unat req - unat finished) (Suc m) = Suc (min (unat req - Suc (unat finished)) m)"
        using False Suc.prems(2) by simp
      have "drop (unat finished) data = ?c # drop (Suc (unat finished)) data"
        using False Suc.prems(2) assms(2) by (simp add: Cons_nth_drop_Suc)
      then have "pipe_bytes p' = pipe_bytes p @ take (min (unat req - unat finished) (Suc m)) (drop (unat finished) data)"
        using p'(2) p1(2) k by simp
      moreover have "pipe_write_loop req data finished p = (finished + of_nat (min (unat req - unat finished) (Suc m)), p')"
        using False g r k by (subst pipe_write_loop.simps) (simp add: transfer_complete_iff add.assoc)
      ultimately show ?thesis using p' p1 Suc.hyps(2) [symmetric] by simp
    qed
  qed
  then show ?thesis using that by blast
qed

lemma pipe_write_loop_wf: "pipe_wf p \<Longrightarrow> pipe_wf (snd (pipe_write_loop req data finished p))"
proof (induction req data finished p rule: pipe_write_loop.induct)
  case (1 req data finished p)
  show ?case
  proof (cases "transfer_complete req finished \<or> pipe_put_byte (data ! unat finished) p = None")
    case True
    then show ?thesis using 1 by (subst pipe_write_loop.simps) auto
  next
    case False
    then obtain p' where p': "pipe_put_byte (data ! unat finished) p = Some p'" by auto
    then show ?thesis
      using 1(1) [OF _ p' pipe_put_byte_Some(1) [OF 1(2) p']] False by (subst pipe_write_loop.simps) simp
  qed
qed

end
