(* ===== verification/Neox_Os.thy ===== *)
theory Neox_Os
  imports Neox_Prelude
begin

text \<open>
  The programming interface of libneox, from the headers under
  \<^verbatim>\<open>src/libneox/include/neox\<close>: status codes, descriptors, open modes, directory entries,
  process records, and the system calls the C programs make.

  The programs are written against this interface only, and so are their models: they
  take a record \<open>os\<close> with one function per call. A call takes the state \<open>'w\<close> of the
  rest of the machine and returns the status, what the call stores through its output
  pointers, and the new state; \<open>None\<close> when it never returns to the caller. The kernel
  theories build such a record from the 6502 sources.

  The locales at the end state what a program may rely on when it writes to or reads
  from a descriptor.
\<close>

section \<open>Status codes and constants\<close>

abbreviation (input) NEOX_STATUS_OK :: neox_status_t where "NEOX_STATUS_OK \<equiv> 0"
abbreviation (input) NEOX_STATUS_ENOENT :: neox_status_t where "NEOX_STATUS_ENOENT \<equiv> 2"
abbreviation (input) NEOX_STATUS_EIO :: neox_status_t where "NEOX_STATUS_EIO \<equiv> 3"
abbreviation (input) NEOX_STATUS_EINTR :: neox_status_t where "NEOX_STATUS_EINTR \<equiv> 4"
abbreviation (input) NEOX_STATUS_EINVAL :: neox_status_t where "NEOX_STATUS_EINVAL \<equiv> 6"
abbreviation (input) NEOX_STATUS_EBADF :: neox_status_t where "NEOX_STATUS_EBADF \<equiv> 9"

abbreviation (input) NEOX_STDIN_FD :: neox_fd_t where "NEOX_STDIN_FD \<equiv> 0"
abbreviation (input) NEOX_STDOUT_FD :: neox_fd_t where "NEOX_STDOUT_FD \<equiv> 1"
abbreviation (input) NEOX_STDERR_FD :: neox_fd_t where "NEOX_STDERR_FD \<equiv> 2"

abbreviation (input) NEOX_PATH_MAX :: neox_size_t where "NEOX_PATH_MAX \<equiv> 64"

datatype neox_open_mode =
    NEOX_OPEN_READ
  | NEOX_OPEN_WRITE_TRUNC
  | NEOX_OPEN_WRITE_EXISTING
  | NEOX_OPEN_READ_WRITE_EXISTING
  | NEOX_OPEN_READ_WRITE_CREATE

datatype neox_seek_whence = NEOX_SEEK_SET | NEOX_SEEK_CUR | NEOX_SEEK_END

abbreviation (input) NEOX_FILE_ATTRIBUTE_DIRECTORY :: byte where "NEOX_FILE_ATTRIBUTE_DIRECTORY \<equiv> 0x10"

record neox_dir_entry =
  name :: "byte list"
  attributes :: byte
  entry_size :: "32 word"

abbreviation (input) NEOX_PROC_FLAG_FOREGROUND :: byte where "NEOX_PROC_FLAG_FOREGROUND \<equiv> 4"

datatype neox_process_entry = neosh_nbox_child_entry

record neox_spawn_resident_args =
  spawn_entry :: neox_process_entry
  launch_id :: byte
  argument_line :: "byte list"
  argument_length :: byte
  stdin_fd :: neox_fd_t
  stdout_fd :: neox_fd_t
  stderr_fd :: neox_fd_t
  spawn_flags :: byte
  result_pid :: neox_pid_t

abbreviation (input) NEOX_MAX_PROCESSES :: neox_pid_t where "NEOX_MAX_PROCESSES \<equiv> 8"

abbreviation (input) NEOX_PROCESS_EMPTY :: byte where "NEOX_PROCESS_EMPTY \<equiv> 0"
abbreviation (input) NEOX_PROCESS_NEW :: byte where "NEOX_PROCESS_NEW \<equiv> 1"
abbreviation (input) NEOX_PROCESS_READY :: byte where "NEOX_PROCESS_READY \<equiv> 2"
abbreviation (input) NEOX_PROCESS_RUNNING :: byte where "NEOX_PROCESS_RUNNING \<equiv> 3"
abbreviation (input) NEOX_PROCESS_BLOCKED :: byte where "NEOX_PROCESS_BLOCKED \<equiv> 4"
abbreviation (input) NEOX_PROCESS_STOPPED :: byte where "NEOX_PROCESS_STOPPED \<equiv> 5"
abbreviation (input) NEOX_PROCESS_ZOMBIE :: byte where "NEOX_PROCESS_ZOMBIE \<equiv> 6"

abbreviation (input) NEOX_WAIT_NONE :: byte where "NEOX_WAIT_NONE \<equiv> 0"
abbreviation (input) NEOX_WAIT_CONSOLE :: byte where "NEOX_WAIT_CONSOLE \<equiv> 1"
abbreviation (input) NEOX_WAIT_DEVICE :: byte where "NEOX_WAIT_DEVICE \<equiv> 2"
abbreviation (input) NEOX_WAIT_PIPE_READ :: byte where "NEOX_WAIT_PIPE_READ \<equiv> 3"
abbreviation (input) NEOX_WAIT_TIMER :: byte where "NEOX_WAIT_TIMER \<equiv> 4"
abbreviation (input) NEOX_WAIT_PROCESS :: byte where "NEOX_WAIT_PROCESS \<equiv> 5"
abbreviation (input) NEOX_WAIT_LOCK :: byte where "NEOX_WAIT_LOCK \<equiv> 6"
abbreviation (input) NEOX_WAIT_PIPE_WRITE :: byte where "NEOX_WAIT_PIPE_WRITE \<equiv> 7"
abbreviation (input) NEOX_WAIT_RP :: byte where "NEOX_WAIT_RP \<equiv> 8"

abbreviation (input) NEOX_LOCK_FILE_IO :: byte where "NEOX_LOCK_FILE_IO \<equiv> 0"
abbreviation (input) NEOX_LOCK_PROCESS :: byte where "NEOX_LOCK_PROCESS \<equiv> 1"

record neox_process_info =
  pid :: neox_pid_t
  parent_pid :: neox_pid_t
  proc_state :: byte
  wait_reason :: byte
  signal_pending :: byte
  wait_object :: byte
  held_gate_mask :: byte

abbreviation (input) NEOX_SIG_INT :: byte where "NEOX_SIG_INT \<equiv> 2"
abbreviation (input) NEOX_SIG_KILL :: byte where "NEOX_SIG_KILL \<equiv> 9"
abbreviation (input) NEOX_SIG_CONT :: byte where "NEOX_SIG_CONT \<equiv> 18"
abbreviation (input) NEOX_SIG_STOP :: byte where "NEOX_SIG_STOP \<equiv> 19"

section \<open>System calls\<close>

text \<open>
  A path argument is the contents of the NUL-terminated string the caller passes. A
  write takes the bytes requested; a read takes the requested count and returns the
  status, the reported count and the bytes stored at the start of the buffer.
\<close>

record 'w neox_os =
  neox_open :: "byte list \<Rightarrow> neox_open_mode \<Rightarrow> 'w \<Rightarrow> (neox_status_t \<times> neox_fd_t \<times> 'w) option"
  neox_read :: "neox_fd_t \<Rightarrow> neox_size_t \<Rightarrow> 'w
    \<Rightarrow> (neox_status_t \<times> neox_size_t \<times> byte list \<times> 'w) option"
  neox_write :: "neox_fd_t \<Rightarrow> byte list \<Rightarrow> 'w \<Rightarrow> (neox_status_t \<times> neox_size_t \<times> 'w) option"
  neox_seek :: "neox_fd_t \<Rightarrow> 32 word \<Rightarrow> neox_seek_whence \<Rightarrow> 'w
    \<Rightarrow> (neox_status_t \<times> 32 word \<times> 'w) option"
  neox_close :: "neox_fd_t \<Rightarrow> 'w \<Rightarrow> (neox_status_t \<times> 'w) option"
  neox_delete :: "byte list \<Rightarrow> 'w \<Rightarrow> (neox_status_t \<times> 'w) option"
  neox_mkdir :: "byte list \<Rightarrow> 'w \<Rightarrow> (neox_status_t \<times> 'w) option"
  neox_rmdir :: "byte list \<Rightarrow> 'w \<Rightarrow> (neox_status_t \<times> 'w) option"
  neox_rename :: "byte list \<Rightarrow> byte list \<Rightarrow> 'w \<Rightarrow> (neox_status_t \<times> 'w) option"
  neox_chdir :: "byte list \<Rightarrow> 'w \<Rightarrow> (neox_status_t \<times> 'w) option"
  neox_getcwd :: "neox_size_t \<Rightarrow> 'w \<Rightarrow> (neox_status_t \<times> neox_size_t \<times> byte list \<times> 'w) option"
  neox_opendir :: "byte list \<Rightarrow> 'w \<Rightarrow> (neox_status_t \<times> neox_fd_t \<times> 'w) option"
  neox_readdir :: "neox_fd_t \<Rightarrow> 'w \<Rightarrow> (neox_status_t \<times> neox_dir_entry \<times> byte \<times> 'w) option"
  neox_closedir :: "neox_fd_t \<Rightarrow> 'w \<Rightarrow> (neox_status_t \<times> 'w) option"
  neox_spawn_resident :: "neox_spawn_resident_args \<Rightarrow> 'w \<Rightarrow> (neox_status_t \<times> neox_pid_t \<times> 'w) option"
  neox_waitpid :: "neox_pid_t \<Rightarrow> 'w \<Rightarrow> (neox_status_t \<times> byte \<times> 'w) option"
  neox_get_process_info :: "neox_pid_t \<Rightarrow> 'w \<Rightarrow> (neox_status_t \<times> neox_process_info \<times> 'w) option"
  neox_signal :: "neox_pid_t \<Rightarrow> byte \<Rightarrow> 'w \<Rightarrow> (neox_status_t \<times> 'w) option"

section \<open>Contracts of a descriptor\<close>

text \<open>
  A writable descriptor: each call transfers a prefix of the bytes, none of them when it
  reports an error. \<open>out\<close> is what has been transferred so far.
\<close>

locale neox_writer =
  fixes os :: "'w neox_os" and fd :: neox_fd_t
    and out :: "'w \<Rightarrow> byte list" and inv :: "'w \<Rightarrow> bool"
  assumes write_result:
    "inv w \<Longrightarrow> 0 < length data \<Longrightarrow> length data < 65536 \<Longrightarrow>
     \<exists>st n w'. neox_write os fd data w = Some (st, of_nat n, w') \<and> n \<le> length data
       \<and> inv w' \<and> out w' = out w @ take n data \<and> (st \<noteq> NEOX_STATUS_OK \<longrightarrow> n = 0)"

text \<open>A descriptor that never fails and always makes progress.\<close>

locale neox_sink = neox_writer +
  assumes write_accepts:
    "inv w \<Longrightarrow> 0 < length data \<Longrightarrow> length data < 65536 \<Longrightarrow>
     neox_write os fd data w = Some (st, n, w') \<Longrightarrow> st = NEOX_STATUS_OK \<and> n \<noteq> 0"

text \<open>
  A readable descriptor: a call that succeeds takes a prefix of what is left to read, an
  empty one only at the end.
\<close>

locale neox_reader =
  fixes os :: "'w neox_os" and fd :: neox_fd_t
    and inp :: "'w \<Rightarrow> byte list" and inv :: "'w \<Rightarrow> bool"
  assumes read_result:
    "inv w \<Longrightarrow> 0 < n \<Longrightarrow>
     \<exists>st data w'. neox_read os fd n w = Some (st, of_nat (length data), data, w')
       \<and> length data \<le> unat n \<and> inv w'
       \<and> (st = NEOX_STATUS_OK \<longrightarrow> inp w = data @ inp w' \<and> (data = [] \<longrightarrow> inp w = []))"

locale neox_source = neox_reader +
  assumes read_accepts:
    "inv w \<Longrightarrow> 0 < n \<Longrightarrow> neox_read os fd n w = Some (st, k, data, w') \<Longrightarrow> st = NEOX_STATUS_OK"

text \<open>
  A source and a destination that do not interfere: reading leaves the destination
  alone and writing leaves the source alone.
\<close>

locale neox_copier =
  src: neox_reader os fdi inp inv + dst: neox_writer os fdo out inv
  for os :: "'w neox_os" and fdi inp fdo out and inv :: "'w \<Rightarrow> bool" +
  assumes read_keeps_out: "inv w \<Longrightarrow> neox_read os fdi n w = Some (st, k, data, w') \<Longrightarrow> out w' = out w"
    and write_keeps_inp: "inv w \<Longrightarrow> neox_write os fdo data w = Some (st, k, w') \<Longrightarrow> inp w' = inp w"

locale neox_channel =
  neox_copier os fdi inp fdo out inv + src: neox_source os fdi inp inv + dst: neox_sink os fdo out inv
  for os :: "'w neox_os" and fdi inp fdo out and inv :: "'w \<Rightarrow> bool"

text \<open>The standard output of a process, when it never fails.\<close>

locale neox_stdout = neox_sink os NEOX_STDOUT_FD out inv
  for os :: "'w neox_os" and out and inv :: "'w \<Rightarrow> bool"

text \<open>
  The descriptor table of the calling process: \<open>fds\<close> is the set of its open descriptors
  and \<open>dirs\<close> those that stand for directories. Only the open and close calls change the
  table, and an open that fails does not; no descriptor has the number 255, which the
  programs use for a descriptor that is not open.
\<close>

locale neox_descriptors =
  fixes os :: "'w neox_os" and fds dirs :: "'w \<Rightarrow> neox_fd_t set" and inv :: "'w \<Rightarrow> bool"
  assumes fds_valid: "inv w \<Longrightarrow> 0xFF \<notin> fds w"
    and open_fds: "inv w \<Longrightarrow> neox_open os path mode w = Some (st, fd, w') \<Longrightarrow> inv w' \<and>
      fds w' = (if st = NEOX_STATUS_OK then insert fd (fds w) else fds w) \<and>
      (st = NEOX_STATUS_OK \<longrightarrow> fd \<notin> fds w)"
    and close_fds: "inv w \<Longrightarrow> neox_close os fd w = Some (st, w') \<Longrightarrow> inv w' \<and> fds w' = fds w - {fd}"
    and opendir_fds: "inv w \<Longrightarrow> neox_opendir os path w = Some (st, fd, w') \<Longrightarrow> inv w' \<and>
      fds w' = (if st = NEOX_STATUS_OK then insert fd (fds w) else fds w) \<and>
      (st = NEOX_STATUS_OK \<longrightarrow> fd \<notin> fds w \<and> fd \<in> dirs w')"
    and closedir_fds: "inv w \<Longrightarrow> fd \<in> dirs w \<Longrightarrow> neox_closedir os fd w = Some (st, w') \<Longrightarrow>
      inv w' \<and> fds w' = fds w - {fd}"
    and read_fds: "inv w \<Longrightarrow> neox_read os fd n w = Some (st, k, data, w') \<Longrightarrow>
      inv w' \<and> fds w' = fds w \<and> dirs w' = dirs w"
    and write_fds: "inv w \<Longrightarrow> neox_write os fd data w = Some (st, k, w') \<Longrightarrow>
      inv w' \<and> fds w' = fds w \<and> dirs w' = dirs w"
    and readdir_fds: "inv w \<Longrightarrow> neox_readdir os fd w = Some (st, entry, fin, w') \<Longrightarrow>
      inv w' \<and> fds w' = fds w \<and> dirs w' = dirs w"
    and seek_fds: "inv w \<Longrightarrow> neox_seek os fd offset whence w = Some (st, position, w') \<Longrightarrow>
      inv w' \<and> fds w' = fds w \<and> dirs w' = dirs w"

end
