(* ===== verification/Kernel_Fd.thy ===== *)
theory Kernel_Fd
  imports Kernel_Pipe Neox_Os
begin

text \<open>
  Descriptors and open objects, \<^verbatim>\<open>src/kernel/fd.asm\<close>, with the table level of
  \<^verbatim>\<open>src/kernel/pipe.asm\<close>, which the two files call from each other.

  The state is that of \<^verbatim>\<open>src/kernel/shared_state.asm\<close>: \<open>proc_fd_obj\<close> and \<open>proc_fd_flags\<close> are the
  flat arrays indexed by \<open>pid * MAX_FDS + fd\<close>; the parallel arrays of the open objects and
  of the pipes are lists of records. A routine that fails with the carry set and an error
  code in Y returns \<open>Inl\<close> of the code. \<open>active_pid\<close> is an argument.

  The RP2350, which owns the filesystem and the console hardware, is not part of the
  sources: \<open>rp\<close> is a parameter, one function per mailbox request, on a state of its own.
  The request function returns \<open>None\<close> when the RP never answers. Waking processes that wait
  for a pipe only changes scheduler state and is left out; when a blocked process runs
  again is decided by the callers' schedule.
\<close>

section \<open>Constants\<close>

abbreviation (input) EIO :: byte where "EIO \<equiv> 3"
abbreviation (input) EINTR :: byte where "EINTR \<equiv> 4"
abbreviation (input) EINVAL :: byte where "EINVAL \<equiv> 6"
abbreviation (input) EMFILE :: byte where "EMFILE \<equiv> 8"
abbreviation (input) EBADF :: byte where "EBADF \<equiv> 9"
abbreviation (input) ENODEV :: byte where "ENODEV \<equiv> 10"
abbreviation (input) EAGAIN :: byte where "EAGAIN \<equiv> 12"
abbreviation (input) ENOMEM :: byte where "ENOMEM \<equiv> 13"
abbreviation (input) EPIPE :: byte where "EPIPE \<equiv> 14"

abbreviation (input) MAX_FDS :: byte where "MAX_FDS \<equiv> 6"
abbreviation (input) MAX_PROCS :: byte where "MAX_PROCS \<equiv> 8"
abbreviation (input) FD_NONE :: byte where "FD_NONE \<equiv> 0xFF"
abbreviation (input) FD_FLAG_READ :: byte where "FD_FLAG_READ \<equiv> 1"
abbreviation (input) FD_FLAG_WRITE :: byte where "FD_FLAG_WRITE \<equiv> 2"

abbreviation (input) OBJ_NONE :: byte where "OBJ_NONE \<equiv> 0"
abbreviation (input) OBJ_DEVICE :: byte where "OBJ_DEVICE \<equiv> 1"
abbreviation (input) OBJ_FILE :: byte where "OBJ_FILE \<equiv> 2"
abbreviation (input) OBJ_PIPE :: byte where "OBJ_PIPE \<equiv> 3"
abbreviation (input) OBJ_DIR :: byte where "OBJ_DIR \<equiv> 4"

abbreviation (input) DEV_NONE :: byte where "DEV_NONE \<equiv> 0"
abbreviation (input) DEV_CONSOLE :: byte where "DEV_CONSOLE \<equiv> 1"
abbreviation (input) DEV_MAX :: byte where "DEV_MAX \<equiv> 2"

section \<open>The RP2350 mailbox\<close>

datatype fs_request =
    Fs_Open "byte list" neox_open_mode
  | Fs_Close byte
  | Fs_Read byte neox_size_t
  | Fs_Write byte "byte list"
  | Fs_Seek byte "32 word" neox_seek_whence
  | Fs_Tell byte
  | Fs_Delete "byte list"
  | Fs_Rename "byte list" "byte list"
  | Fs_Opendir "byte list"
  | Fs_Readdir byte
  | Fs_Closedir byte
  | Fs_Chdir "byte list"
  | Fs_Getcwd neox_size_t
  | Fs_Mkdir "byte list"
  | Fs_Rmdir "byte list"
  | Fs_Load "byte list" neox_size_t
  | Fs_Save "byte list" "byte list"
  | Fs_Cwd_Clone neox_pid_t

text \<open>
  The answer: whether the status is \<open>RP_ERROR\<close>, \<open>RP_ERR\<close>, \<open>RP_RES0\<close>, \<open>RP_FLAGS\<close>, and what the RP
  stored in the caller's memory through the argument block.
\<close>

record fs_reply =
  rp_failed :: bool
  rp_err :: byte
  rp_res0 :: neox_size_t
  rp_flags :: byte
  rp_stored :: "byte list"
  rp_position :: "32 word"
  rp_entry :: neox_dir_entry

record 'r rp2350 =
  rp_fs :: "neox_pid_t \<Rightarrow> fs_request \<Rightarrow> 'r \<Rightarrow> (fs_reply \<times> 'r) option"
  rp_con_read :: "neox_size_t \<Rightarrow> 'r \<Rightarrow> ((byte + byte list) \<times> 'r) option"
  rp_con_write :: "byte list \<Rightarrow> 'r \<Rightarrow> ((byte + neox_size_t) \<times> 'r) option"
  rp_con_rdy :: "'r \<Rightarrow> bool"

section \<open>Kernel state\<close>

record open_object =
  open_type :: byte
  open_refcnt :: byte
  open_flags :: byte
  open_dev :: byte
  open_file_handle :: byte
  open_pipe :: byte
  open_pipe_mode :: byte

record 'r kernel =
  proc_fd_obj :: "byte list"
  proc_fd_flags :: "byte list"
  opens :: "open_object list"
  pipes :: "pipe list"
  console_owner_pid :: byte
  proc_flags :: "byte list"
  proc_signal_pending :: "byte list"
  rp_state :: 'r

definition rp_fs_exec ::
  "'r rp2350 \<Rightarrow> neox_pid_t \<Rightarrow> fs_request \<Rightarrow> 'r kernel \<Rightarrow> (fs_reply \<times> 'r kernel) option" where
  "rp_fs_exec rp active_pid request k = do {
     (reply, r) \<leftarrow> rp_fs rp active_pid request (rp_state k);
     Some (reply, k\<lparr>rp_state := r\<rparr>) }"

section \<open>Tables\<close>

definition fd_calc_pid_offset :: "neox_pid_t \<Rightarrow> nat" where
  "fd_calc_pid_offset task = unat task * 6"

definition fd_slot :: "neox_pid_t \<Rightarrow> neox_fd_t \<Rightarrow> nat" where
  "fd_slot task fd = fd_calc_pid_offset task + unat fd"

definition upd_open :: "byte \<Rightarrow> (open_object \<Rightarrow> open_object) \<Rightarrow> 'r kernel \<Rightarrow> 'r kernel" where
  "upd_open x f k = k\<lparr>opens := (opens k)[unat x := f (opens k ! unat x)]\<rparr>"

definition upd_pipe :: "byte \<Rightarrow> (pipe \<Rightarrow> pipe) \<Rightarrow> 'r kernel \<Rightarrow> 'r kernel" where
  "upd_pipe i f k = k\<lparr>pipes := (pipes k)[unat i := f (pipes k ! unat i)]\<rparr>"

definition set_slot_obj :: "nat \<Rightarrow> byte \<Rightarrow> byte \<Rightarrow> 'r kernel \<Rightarrow> 'r kernel" where
  "set_slot_obj i obj flags k =
     k\<lparr>proc_fd_obj := (proc_fd_obj k)[i := obj], proc_fd_flags := (proc_fd_flags k)[i := flags]\<rparr>"

text \<open>The scan of a table for the first entry that satisfies a test.\<close>

fun scan_table :: "('a \<Rightarrow> bool) \<Rightarrow> 'a list \<Rightarrow> byte \<Rightarrow> byte option" where
  "scan_table p [] x = None"
| "scan_table p (y # ys) x = (if p y then Some x else scan_table p ys (x + 1))"

section \<open>Open objects\<close>

definition fd_alloc_open :: "'r kernel \<Rightarrow> byte + byte" where
  "fd_alloc_open k =
     (case scan_table (\<lambda>obj. open_type obj = OBJ_NONE \<and> open_refcnt obj = 0) (opens k) 0 of
        None \<Rightarrow> Inl ENOMEM | Some x \<Rightarrow> Inr x)"

definition fd_free_open :: "byte \<Rightarrow> 'r kernel \<Rightarrow> 'r kernel" where
  "fd_free_open x = upd_open x (\<lambda>obj. obj\<lparr>open_type := OBJ_NONE, open_refcnt := 0, open_flags := 0,
     open_dev := DEV_NONE, open_file_handle := 0\<rparr>)"

definition fd_init_open :: "byte \<Rightarrow> byte \<Rightarrow> byte \<Rightarrow> 'r kernel \<Rightarrow> 'r kernel" where
  "fd_init_open x ty flags = upd_open x (\<lambda>obj. obj\<lparr>open_type := ty, open_flags := flags,
     open_refcnt := 0, open_dev := DEV_NONE, open_file_handle := 0\<rparr>)"

section \<open>Attaching and looking up\<close>

definition fd_attach :: "neox_pid_t \<Rightarrow> neox_fd_t \<Rightarrow> byte \<Rightarrow> byte \<Rightarrow> 'r kernel \<Rightarrow> 'r kernel" where
  "fd_attach task fd obj flags k =
     upd_open obj (\<lambda>ob. ob\<lparr>open_refcnt := open_refcnt ob + 1\<rparr>) (set_slot_obj (fd_slot task fd) obj flags k)"

definition fd_check_free_pid_fd :: "neox_pid_t \<Rightarrow> neox_fd_t \<Rightarrow> 'r kernel \<Rightarrow> byte + unit" where
  "fd_check_free_pid_fd task fd k =
     (if task \<ge> MAX_PROCS then Inl EINVAL
      else if fd \<ge> MAX_FDS then Inl EBADF
      else if proc_fd_obj k ! fd_slot task fd = FD_NONE then Inr () else Inl EMFILE)"

definition fd_attach_pid_fd_mode ::
  "neox_pid_t \<Rightarrow> neox_fd_t \<Rightarrow> byte \<Rightarrow> byte \<Rightarrow> 'r kernel \<Rightarrow> (byte + unit) \<times> 'r kernel" where
  "fd_attach_pid_fd_mode task fd obj flags k =
     (case fd_check_free_pid_fd task fd k of
        Inl e \<Rightarrow> (Inl e, k) | Inr _ \<Rightarrow> (Inr (), fd_attach task fd obj flags k))"

definition fd_lookup :: "neox_pid_t \<Rightarrow> neox_fd_t \<Rightarrow> 'r kernel \<Rightarrow> byte + byte" where
  "fd_lookup active_pid fd k =
     (if fd \<ge> MAX_FDS then Inl EBADF
      else if proc_fd_obj k ! fd_slot active_pid fd = FD_NONE then Inl EBADF
      else Inr (proc_fd_obj k ! fd_slot active_pid fd))"

definition fd_get_flags_current :: "neox_pid_t \<Rightarrow> neox_fd_t \<Rightarrow> 'r kernel \<Rightarrow> byte" where
  "fd_get_flags_current active_pid fd k = proc_fd_flags k ! fd_slot active_pid fd"

definition fd_check_perm :: "neox_pid_t \<Rightarrow> neox_fd_t \<Rightarrow> byte \<Rightarrow> 'r kernel \<Rightarrow> byte + unit" where
  "fd_check_perm active_pid fd flag k =
     (if proc_fd_flags k ! fd_slot active_pid fd AND flag \<noteq> 0 then Inr () else Inl EBADF)"

definition fd_find_free_current :: "neox_pid_t \<Rightarrow> 'r kernel \<Rightarrow> byte + neox_fd_t" where
  "fd_find_free_current active_pid k =
     (case scan_table (\<lambda>x. x = FD_NONE)
         (take 6 (drop (fd_calc_pid_offset active_pid) (proc_fd_obj k))) 0 of
        None \<Rightarrow> Inl EMFILE | Some fd \<Rightarrow> Inr fd)"

text \<open>Object index, object type and device of a descriptor with the given permission.\<close>

definition fd_resolve_rw :: "neox_pid_t \<Rightarrow> byte \<Rightarrow> neox_fd_t \<Rightarrow> 'r kernel \<Rightarrow> byte + byte \<times> byte \<times> byte" where
  "fd_resolve_rw active_pid flag fd k =
     (case fd_lookup active_pid fd k of
        Inl e \<Rightarrow> Inl e
      | Inr x \<Rightarrow>
          (case fd_check_perm active_pid fd flag k of
             Inl e \<Rightarrow> Inl e
           | Inr _ \<Rightarrow> Inr (x, open_type (opens k ! unat x), open_dev (opens k ! unat x))))"

definition fd_resolve_handle :: "byte \<Rightarrow> neox_pid_t \<Rightarrow> neox_fd_t \<Rightarrow> 'r kernel \<Rightarrow> byte + byte \<times> byte" where
  "fd_resolve_handle ty active_pid fd k =
     (case fd_lookup active_pid fd k of
        Inl e \<Rightarrow> Inl e
      | Inr x \<Rightarrow>
          if open_type (opens k ! unat x) = ty then Inr (x, open_file_handle (opens k ! unat x))
          else Inl ENODEV)"

definition fd_resolve_file :: "neox_pid_t \<Rightarrow> neox_fd_t \<Rightarrow> 'r kernel \<Rightarrow> byte + byte \<times> byte" where
  "fd_resolve_file = fd_resolve_handle OBJ_FILE"

definition fd_resolve_dir :: "neox_pid_t \<Rightarrow> neox_fd_t \<Rightarrow> 'r kernel \<Rightarrow> byte + byte \<times> byte" where
  "fd_resolve_dir = fd_resolve_handle OBJ_DIR"

section \<open>Closing\<close>

definition pipe_free :: "byte \<Rightarrow> 'r kernel \<Rightarrow> 'r kernel" where
  "pipe_free i = upd_pipe i (pipe_clear 0)"

definition pipe_close_endpoint :: "byte \<Rightarrow> 'r kernel \<Rightarrow> 'r kernel" where
  "pipe_close_endpoint x k =
     (let i = open_pipe (opens k ! unat x); mode = open_pipe_mode (opens k ! unat x) in
      if i = PIPE_NONE then k
      else
        let k = upd_open x (\<lambda>obj. obj\<lparr>open_pipe := PIPE_NONE, open_pipe_mode := 0\<rparr>) k;
            k = (if (mode = PIPE_END_READ \<or> mode = PIPE_END_WRITE)
                    \<and> pipe_state (pipes k ! unat i) AND mode \<noteq> 0
                 then upd_pipe i (\<lambda>p. p\<lparr>pipe_state := (mode XOR 0xFF) AND pipe_state p\<rparr>) k
                 else k)
        in if pipe_state (pipes k ! unat i) = 0 then pipe_free i k else k)"

definition fd_close_current :: "neox_pid_t \<Rightarrow> neox_fd_t \<Rightarrow> 'r kernel \<Rightarrow> (byte + unit) \<times> 'r kernel" where
  "fd_close_current active_pid fd k =
     (if fd \<ge> MAX_FDS then (Inl EBADF, k)
      else let x = proc_fd_obj k ! fd_slot active_pid fd in
        if x = FD_NONE then (Inl EBADF, k)
        else let k = set_slot_obj (fd_slot active_pid fd) FD_NONE 0 k in
          if open_refcnt (opens k ! unat x) = 0 then (Inr (), k)
          else (Inr (), upd_open x (\<lambda>obj. obj\<lparr>open_refcnt := open_refcnt obj - 1\<rparr>) k))"

text \<open>The close operation of the device table: \<open>no_device_ops\<close> for device 0, the console for 1.\<close>

definition dev_close :: "byte \<Rightarrow> byte + unit" where
  "dev_close dev = (if dev = DEV_NONE then Inl ENODEV else Inr ())"

text \<open>The part of \<open>fd_close_pid\<close> that runs when the last reference is gone.\<close>

definition fd_last_close ::
  "'r rp2350 \<Rightarrow> neox_pid_t \<Rightarrow> byte \<Rightarrow> 'r kernel \<Rightarrow> ((byte + unit) \<times> 'r kernel) option" where
  "fd_last_close rp active_pid x k =
     (let ty = open_type (opens k ! unat x); handle = open_file_handle (opens k ! unat x) in
      if ty = OBJ_PIPE then Some (Inr (), fd_free_open x (pipe_close_endpoint x k))
      else if ty = OBJ_DEVICE then Some (dev_close (open_dev (opens k ! unat x)), k)
      else if ty = OBJ_FILE then do {
        (_, k) \<leftarrow> rp_fs_exec rp active_pid (Fs_Close handle) k;
        Some (Inr (), fd_free_open x k) }
      else if ty = OBJ_DIR then do {
        (_, k) \<leftarrow> rp_fs_exec rp active_pid (Fs_Closedir handle) k;
        Some (Inr (), fd_free_open x k) }
      else Some (Inr (), fd_free_open x k))"

definition fd_close_pid ::
  "'r rp2350 \<Rightarrow> neox_pid_t \<Rightarrow> neox_pid_t \<Rightarrow> neox_fd_t \<Rightarrow> 'r kernel \<Rightarrow> ((byte + unit) \<times> 'r kernel) option" where
  "fd_close_pid rp active_pid task fd k =
     (if task \<ge> MAX_PROCS then Some (Inl EINVAL, k)
      else if fd \<ge> MAX_FDS then Some (Inl EBADF, k)
      else let x = proc_fd_obj k ! fd_slot task fd in
        if x = FD_NONE then Some (Inl EBADF, k)
        else let k = set_slot_obj (fd_slot task fd) FD_NONE 0 k in
          if open_refcnt (opens k ! unat x) = 0 then Some (Inr (), k)
          else let k = upd_open x (\<lambda>obj. obj\<lparr>open_refcnt := open_refcnt obj - 1\<rparr>) k in
            if open_refcnt (opens k ! unat x) \<noteq> 0 then Some (Inr (), k)
            else fd_last_close rp active_pid x k)"

definition fd_close ::
  "'r rp2350 \<Rightarrow> neox_pid_t \<Rightarrow> neox_fd_t \<Rightarrow> 'r kernel \<Rightarrow> ((byte + unit) \<times> 'r kernel) option" where
  "fd_close rp active_pid = fd_close_pid rp active_pid active_pid"

text \<open>The loop of \<open>fd_close_process\<close>, over the descriptors that are left.\<close>

fun close_slots ::
  "'r rp2350 \<Rightarrow> neox_pid_t \<Rightarrow> neox_pid_t \<Rightarrow> neox_fd_t list \<Rightarrow> 'r kernel \<Rightarrow> ((byte + unit) \<times> 'r kernel) option" where
  "close_slots rp active_pid task [] k = Some (Inr (), k)"
| "close_slots rp active_pid task (fd # rest) k = do {
     (r, k) \<leftarrow> fd_close_pid rp active_pid task fd k;
     case r of
       Inl e \<Rightarrow> if e = EBADF then close_slots rp active_pid task rest k else Some (Inl e, k)
     | Inr _ \<Rightarrow> close_slots rp active_pid task rest k }"

definition fd_close_process ::
  "'r rp2350 \<Rightarrow> neox_pid_t \<Rightarrow> neox_pid_t \<Rightarrow> 'r kernel \<Rightarrow> ((byte + unit) \<times> 'r kernel) option" where
  "fd_close_process rp active_pid task k =
     (if task \<ge> MAX_PROCS then Some (Inl EINVAL, k)
      else close_slots rp active_pid task [0, 1, 2, 3, 4, 5] k)"

section \<open>Duplicating\<close>

definition fd_dup :: "neox_pid_t \<Rightarrow> neox_fd_t \<Rightarrow> 'r kernel \<Rightarrow> (byte + neox_fd_t) \<times> 'r kernel" where
  "fd_dup active_pid oldfd k =
     (case fd_lookup active_pid oldfd k of
        Inl e \<Rightarrow> (Inl e, k)
      | Inr x \<Rightarrow>
          (case fd_find_free_current active_pid k of
             Inl e \<Rightarrow> (Inl e, k)
           | Inr newfd \<Rightarrow>
               (Inr newfd, fd_attach active_pid newfd x (fd_get_flags_current active_pid oldfd k) k)))"

definition fd_dup2 :: "neox_pid_t \<Rightarrow> neox_fd_t \<Rightarrow> neox_fd_t \<Rightarrow> 'r kernel \<Rightarrow> (byte + neox_fd_t) \<times> 'r kernel" where
  "fd_dup2 active_pid oldfd newfd k =
     (if newfd \<ge> MAX_FDS then (Inl EBADF, k)
      else case fd_lookup active_pid oldfd k of
          Inl e \<Rightarrow> (Inl e, k)
        | Inr x \<Rightarrow>
            if newfd = oldfd then (Inr newfd, k)
            else
              let flags = fd_get_flags_current active_pid oldfd k;
                  (r, k) = fd_close_current active_pid newfd k
              in case r of
                  Inl e \<Rightarrow> if e = EBADF then (Inr newfd, fd_attach active_pid newfd x flags k) else (Inl e, k)
                | Inr _ \<Rightarrow> (Inr newfd, fd_attach active_pid newfd x flags k))"

definition fd_clone_between ::
  "'r rp2350 \<Rightarrow> neox_pid_t \<Rightarrow> neox_pid_t \<Rightarrow> neox_fd_t \<Rightarrow> neox_pid_t \<Rightarrow> neox_fd_t \<Rightarrow> 'r kernel
   \<Rightarrow> ((byte + unit) \<times> 'r kernel) option" where
  "fd_clone_between rp active_pid source_pid source_fd target_pid target_fd k =
     (if source_pid \<ge> MAX_PROCS then Some (Inl EINVAL, k)
      else if target_pid \<ge> MAX_PROCS then Some (Inl EINVAL, k)
      else if source_fd \<ge> MAX_FDS then Some (Inl EBADF, k)
      else if target_fd \<ge> MAX_FDS then Some (Inl EBADF, k)
      else if source_pid = target_pid \<and> source_fd = target_fd then Some (Inr (), k)
      else let x = proc_fd_obj k ! fd_slot source_pid source_fd in
        if x = FD_NONE then Some (Inl EBADF, k)
        else let flags = proc_fd_flags k ! fd_slot source_pid source_fd in do {
          (r, k) \<leftarrow> fd_close_pid rp active_pid target_pid target_fd k;
          case r of
            Inl e \<Rightarrow> if e = EBADF then Some (Inr (), fd_attach target_pid target_fd x flags k)
                     else Some (Inl e, k)
          | Inr _ \<Rightarrow> Some (Inr (), fd_attach target_pid target_fd x flags k) })"

section \<open>Initialisation\<close>

definition fd_clear_process_slots :: "neox_pid_t \<Rightarrow> 'r kernel \<Rightarrow> (byte + unit) \<times> 'r kernel" where
  "fd_clear_process_slots task k =
     (if task \<ge> MAX_PROCS then (Inl EINVAL, k)
      else (Inr (), fold (\<lambda>fd. set_slot_obj (fd_slot task fd) FD_NONE 0) [0, 1, 2, 3, 4, 5] k))"

definition fd_init_process :: "neox_pid_t \<Rightarrow> 'r kernel \<Rightarrow> (byte + unit) \<times> 'r kernel" where
  "fd_init_process task k =
     (if task \<ge> MAX_PROCS then (Inl EINVAL, k)
      else
        let k = fold (\<lambda>fd. set_slot_obj (fd_slot task fd) FD_NONE 0) [0, 1, 2, 3, 4, 5] k;
            k = fd_attach task NEOX_STDIN_FD 0 FD_FLAG_READ k;
            k = fd_attach task NEOX_STDOUT_FD 1 FD_FLAG_WRITE k;
            k = fd_attach task NEOX_STDERR_FD 2 FD_FLAG_WRITE k
        in (Inr (), k))"

definition fd_init_tables :: "'r kernel \<Rightarrow> 'r kernel" where
  "fd_init_tables k =
     (let clear = (\<lambda>obj. obj\<lparr>open_type := OBJ_NONE, open_refcnt := 0, open_flags := 0,
            open_dev := DEV_NONE, open_file_handle := 0\<rparr>);
          console = (\<lambda>obj. obj\<lparr>open_type := OBJ_DEVICE, open_dev := DEV_CONSOLE\<rparr>);
          k = k\<lparr>proc_fd_obj := replicate 48 FD_NONE, proc_fd_flags := replicate 48 0,
            opens := map clear (opens k)\<rparr>
      in upd_open 2 console (upd_open 1 console (upd_open 0 console k)))"

definition pipe_init_tables :: "'r kernel \<Rightarrow> 'r kernel" where
  "pipe_init_tables k = k\<lparr>pipes := map (pipe_clear 0) (pipes k),
     opens := map (\<lambda>obj. obj\<lparr>open_pipe := PIPE_NONE, open_pipe_mode := 0\<rparr>) (opens k)\<rparr>"

section \<open>Pipes\<close>

definition pipe_alloc :: "'r kernel \<Rightarrow> (byte + byte) \<times> 'r kernel" where
  "pipe_alloc k =
     (case scan_table (\<lambda>p. pipe_state p = 0) (pipes k) 0 of
        None \<Rightarrow> (Inl ENOMEM, k) | Some i \<Rightarrow> (Inr i, upd_pipe i (pipe_clear PIPE_STATE_USED) k))"

definition pipe_endpoint_init :: "byte \<Rightarrow> byte \<Rightarrow> byte \<Rightarrow> 'r kernel \<Rightarrow> 'r kernel" where
  "pipe_endpoint_init x i mode = upd_open x (\<lambda>obj. obj\<lparr>open_pipe := i, open_pipe_mode := mode\<rparr>)"

definition pipe_alloc_pair :: "'r kernel \<Rightarrow> (byte + byte \<times> byte) \<times> 'r kernel" where
  "pipe_alloc_pair k =
     (case fd_alloc_open k of
        Inl e \<Rightarrow> (Inl e, k)
      | Inr r \<Rightarrow>
          let k = fd_init_open r OBJ_PIPE FD_FLAG_READ k in
          (case fd_alloc_open k of
             Inl e \<Rightarrow> (Inl e, fd_free_open r k)
           | Inr w \<Rightarrow>
               let k = fd_init_open w OBJ_PIPE FD_FLAG_WRITE k in
               (case pipe_alloc k of
                  (Inl e, k) \<Rightarrow> (Inl e, fd_free_open r (fd_free_open w k))
                | (Inr i, k) \<Rightarrow>
                    (Inr (r, w), pipe_endpoint_init w i PIPE_END_WRITE (pipe_endpoint_init r i PIPE_END_READ k)))))"

definition pipe_release_pair :: "byte \<Rightarrow> byte \<Rightarrow> 'r kernel \<Rightarrow> 'r kernel" where
  "pipe_release_pair r w k =
     (let k = fd_free_open w (pipe_close_endpoint w k) in fd_free_open r (pipe_close_endpoint r k))"

definition pipe_create :: "neox_pid_t \<Rightarrow> 'r kernel \<Rightarrow> (byte + neox_fd_t \<times> neox_fd_t) \<times> 'r kernel" where
  "pipe_create active_pid k =
     (case pipe_alloc_pair k of
        (Inl e, k) \<Rightarrow> (Inl e, k)
      | (Inr (r, w), k) \<Rightarrow>
          (case fd_find_free_current active_pid k of
             Inl e \<Rightarrow> (Inl e, pipe_release_pair r w k)
           | Inr rfd \<Rightarrow>
               let k = fd_attach active_pid rfd r FD_FLAG_READ k in
               (case fd_find_free_current active_pid k of
                  Inl e \<Rightarrow> (Inl e, pipe_release_pair r w (snd (fd_close_current active_pid rfd k)))
                | Inr wfd \<Rightarrow> (Inr (rfd, wfd), fd_attach active_pid wfd w FD_FLAG_WRITE k))))"

definition pipe_create_between_fd ::
  "neox_pid_t \<Rightarrow> neox_pid_t \<Rightarrow> neox_fd_t \<Rightarrow> 'r kernel \<Rightarrow> (byte + unit) \<times> 'r kernel" where
  "pipe_create_between_fd reader writer fd k =
     (if reader = writer then (Inl EINVAL, k)
      else case fd_check_free_pid_fd reader fd k of
        Inl e \<Rightarrow> (Inl e, k)
      | Inr _ \<Rightarrow>
          (case fd_check_free_pid_fd writer fd k of
             Inl e \<Rightarrow> (Inl e, k)
           | Inr _ \<Rightarrow>
               (case pipe_alloc_pair k of
                  (Inl e, k) \<Rightarrow> (Inl e, k)
                | (Inr (r, w), k) \<Rightarrow>
                    (case fd_attach_pid_fd_mode reader fd r FD_FLAG_READ k of
                       (Inl e, k) \<Rightarrow> (Inl e, k)
                     | (Inr _, k) \<Rightarrow> fd_attach_pid_fd_mode writer fd w FD_FLAG_WRITE k))))"

definition pipe_resolve_endpoint :: "byte \<Rightarrow> byte \<Rightarrow> 'r kernel \<Rightarrow> byte + byte" where
  "pipe_resolve_endpoint mode x k =
     (let obj = opens k ! unat x in
      if mode \<noteq> open_pipe_mode obj then Inl EBADF
      else if open_pipe obj = PIPE_NONE then Inl EBADF
      else if pipe_state (pipes k ! unat (open_pipe obj)) = 0 then Inl EBADF
      else Inr (open_pipe obj))"

definition pipe_read :: "byte \<Rightarrow> neox_size_t \<Rightarrow> 'r kernel \<Rightarrow> (byte + byte list) \<times> 'r kernel" where
  "pipe_read x req k =
     (if req = 0 then (Inr [], k)
      else case pipe_resolve_endpoint PIPE_END_READ x k of
          Inl e \<Rightarrow> (Inl e, k)
        | Inr i \<Rightarrow>
            let p = pipes k ! unat i in
            if pipe_count p = 0 then
              (if pipe_state p AND PIPE_STATE_WRITE_OPEN \<noteq> 0 then (Inl EAGAIN, k) else (Inr [], k))
            else let (data, p) = pipe_read_loop req 0 p in (Inr data, upd_pipe i (\<lambda>_. p) k))"

definition pipe_write :: "byte \<Rightarrow> byte list \<Rightarrow> 'r kernel \<Rightarrow> (byte + neox_size_t) \<times> 'r kernel" where
  "pipe_write x data k =
     (let req = of_nat (length data) in
      if req = 0 then (Inr 0, k)
      else case pipe_resolve_endpoint PIPE_END_WRITE x k of
          Inl e \<Rightarrow> (Inl e, k)
        | Inr i \<Rightarrow>
            let p = pipes k ! unat i in
            if pipe_state p AND PIPE_STATE_READ_OPEN = 0 then (Inl EPIPE, k)
            else let (n, p) = pipe_write_loop req data 0 p in
              if n = 0 then (Inl EAGAIN, k) else (Inr (ucast n), upd_pipe i (\<lambda>_. p) k))"

end
