(* ===== verification/Kernel_Refs.thy ===== *)
theory Kernel_Refs
  imports Kernel_Fd
begin

text \<open>
  The invariant of the descriptor and open-object tables: every descriptor refers to a live
  object, the reference count of an object is the number of descriptors that refer to it
  (so the byte that holds it never wraps around), and the pipes are well-formed queues.

  Each operation of \<^verbatim>\<open>fd.asm\<close> and \<^verbatim>\<open>pipe.asm\<close> is shown to keep it. A second relation says
  what an operation leaves alone: the descriptors of another process and the objects behind
  them.
\<close>

section \<open>Lists and scans\<close>

lemma count_list_update:
  assumes "i < length xs"
  shows "count_list (xs[i := v]) x + (if xs ! i = x then 1 else 0) = count_list xs x + (if v = x then 1 else 0)"
proof -
  have "xs = take i xs @ xs ! i # drop (Suc i) xs" by (rule id_take_nth_drop [OF assms])
  then have "count_list xs x = count_list (take i xs @ xs ! i # drop (Suc i) xs) x" by simp
  then show ?thesis using assms by (simp add: upd_conv_take_nth_drop)
qed

lemma unat_byte_of_nat: "n < 256 \<Longrightarrow> unat (of_nat n :: byte) = n"
  by (simp add: unat_of_nat take_bit_eq_mod)

lemma scan_table_Some:
  assumes "scan_table p xs x = Some y" and "unat x + length xs \<le> 255"
  shows "unat x \<le> unat y \<and> unat y < unat x + length xs \<and> p (xs ! (unat y - unat x))"
  using assms
proof (induction p xs x rule: scan_table.induct)
  case (2 p z zs x)
  show ?case
  proof (cases "p z")
    case False
    have x: "unat (x + 1) = Suc (unat x)" using 2(3) by (intro unat_byte_Suc) simp
    have "unat (x + 1) \<le> unat y \<and> unat y < unat (x + 1) + length zs \<and> p (zs ! (unat y - unat (x + 1)))"
      using 2 False x by simp
    then show ?thesis using x by (auto simp: nth_Cons')
  qed (use 2 in simp)
qed simp

lemma scan_table_None: "scan_table p xs x = None \<longleftrightarrow> (\<forall>y \<in> set xs. \<not> p y)"
  by (induction p xs x rule: scan_table.induct) auto

section \<open>Invariant\<close>

definition object_wf :: "byte list \<Rightarrow> nat \<Rightarrow> open_object \<Rightarrow> bool" where
  "object_wf slots i obj \<longleftrightarrow>
     unat (open_refcnt obj) = count_list slots (of_nat i)
     \<and> (open_refcnt obj \<noteq> 0 \<longrightarrow> open_type obj \<noteq> OBJ_NONE)
     \<and> (open_pipe obj = PIPE_NONE \<or> unat (open_pipe obj) < 8)"

definition kernel_inv :: "'r kernel \<Rightarrow> bool" where
  "kernel_inv k \<longleftrightarrow>
     length (proc_fd_obj k) = 48 \<and> length (proc_fd_flags k) = 48
     \<and> length (opens k) = 16 \<and> length (pipes k) = 8
     \<and> (\<forall>p \<in> set (pipes k). pipe_wf p)
     \<and> (\<forall>x \<in> set (proc_fd_obj k). x = FD_NONE \<or> unat x < 16)
     \<and> (\<forall>i < 16. object_wf (proc_fd_obj k) i (opens k ! i))"

definition live :: "byte \<Rightarrow> 'r kernel \<Rightarrow> bool" where
  "live x k \<longleftrightarrow> unat x < 16 \<and> open_type (opens k ! unat x) \<noteq> OBJ_NONE"

lemma kernel_invD:
  assumes "kernel_inv k"
  shows "length (proc_fd_obj k) = 48" and "length (proc_fd_flags k) = 48"
    and "length (opens k) = 16" and "length (pipes k) = 8"
    and "\<And>i. i < 48 \<Longrightarrow> proc_fd_obj k ! i = FD_NONE \<or> unat (proc_fd_obj k ! i) < 16"
    and "\<And>i. i < 8 \<Longrightarrow> pipe_wf (pipes k ! i)"
    and "\<And>i. i < 16 \<Longrightarrow> object_wf (proc_fd_obj k) i (opens k ! i)"
  using assms by (simp_all add: kernel_inv_def)

lemma fd_slot_less: "task < MAX_PROCS \<Longrightarrow> fd < MAX_FDS \<Longrightarrow> fd_slot task fd < 48"
  by (simp add: fd_slot_def fd_calc_pid_offset_def word_less_nat_alt)

lemma fd_slot_inject:
  assumes "fd < MAX_FDS" and "fd' < MAX_FDS"
  shows "fd_slot task fd = fd_slot task' fd' \<longleftrightarrow> task = task' \<and> fd = fd'"
proof
  assume eq: "fd_slot task fd = fd_slot task' fd'"
  have "(unat task * 6 + unat fd) div 6 = unat task" "(unat task' * 6 + unat fd') div 6 = unat task'"
    using assms by (simp_all add: word_less_nat_alt)
  then have "unat task = unat task'" using eq by (simp add: fd_slot_def fd_calc_pid_offset_def)
  then show "task = task' \<and> fd = fd'"
    using eq by (auto simp: fd_slot_def fd_calc_pid_offset_def word_unat_eq_iff)
qed simp

text \<open>A slot in use refers to a live object that has at least one reference.\<close>

lemma slot_object:
  assumes "kernel_inv k" and "i < 48" and "proc_fd_obj k ! i \<noteq> FD_NONE"
  shows "unat (proc_fd_obj k ! i) < 16" and "open_refcnt (opens k ! unat (proc_fd_obj k ! i)) \<noteq> 0"
    and "open_type (opens k ! unat (proc_fd_obj k ! i)) \<noteq> OBJ_NONE" and "live (proc_fd_obj k ! i) k"
proof -
  let ?x = "proc_fd_obj k ! i"
  note inv = kernel_invD [OF assms(1)]
  show x: "unat ?x < 16" using inv(5) [OF assms(2)] assms(3) by simp
  have wf: "object_wf (proc_fd_obj k) (unat ?x) (opens k ! unat ?x)" by (rule inv(7) [OF x])
  have "?x \<in> set (proc_fd_obj k)" using assms(2) inv(1) by simp
  then have "count_list (proc_fd_obj k) ?x \<noteq> 0" by (simp add: count_list_0_iff)
  then show "open_refcnt (opens k ! unat ?x) \<noteq> 0" using wf by (auto simp: object_wf_def)
  then show ty: "open_type (opens k ! unat ?x) \<noteq> OBJ_NONE" using wf by (simp add: object_wf_def)
  show "live ?x k" using x ty by (simp add: live_def)
qed

lemma unreferenced:
  assumes "kernel_inv k" and "unat x < 16" and "open_refcnt (opens k ! unat x) = 0"
  shows "x \<notin> set (proc_fd_obj k)"
  using kernel_invD(7) [OF assms(1,2)] assms(3) by (auto simp: object_wf_def count_list_0_iff)

section \<open>Elementary updates\<close>

lemma upd_open_fields [simp]:
  "proc_fd_obj (upd_open x f k) = proc_fd_obj k" "proc_fd_flags (upd_open x f k) = proc_fd_flags k"
  "pipes (upd_open x f k) = pipes k" "opens (upd_open x f k) = (opens k)[unat x := f (opens k ! unat x)]"
  "rp_state (upd_open x f k) = rp_state k"
  by (simp_all add: upd_open_def)

lemma upd_pipe_fields [simp]:
  "proc_fd_obj (upd_pipe i f' k) = proc_fd_obj k" "proc_fd_flags (upd_pipe i f' k) = proc_fd_flags k"
  "opens (upd_pipe i f' k) = opens k" "pipes (upd_pipe i f' k) = (pipes k)[unat i := f' (pipes k ! unat i)]"
  "rp_state (upd_pipe i f' k) = rp_state k"
  by (simp_all add: upd_pipe_def)

lemma set_slot_obj_fields [simp]:
  "proc_fd_obj (set_slot_obj i x fl k) = (proc_fd_obj k)[i := x]"
  "proc_fd_flags (set_slot_obj i x fl k) = (proc_fd_flags k)[i := fl]"
  "opens (set_slot_obj i x fl k) = opens k" "pipes (set_slot_obj i x fl k) = pipes k"
  "rp_state (set_slot_obj i x fl k) = rp_state k"
  by (simp_all add: set_slot_obj_def)

lemma fd_free_open_fields [simp]:
  "proc_fd_obj (fd_free_open x k) = proc_fd_obj k" "proc_fd_flags (fd_free_open x k) = proc_fd_flags k"
  "rp_state (fd_free_open x k) = rp_state k"
  by (simp_all add: fd_free_open_def)

lemma pipe_close_endpoint_fields [simp]:
  "proc_fd_obj (pipe_close_endpoint x k) = proc_fd_obj k"
  "proc_fd_flags (pipe_close_endpoint x k) = proc_fd_flags k"
  "rp_state (pipe_close_endpoint x k) = rp_state k"
  by (simp_all add: pipe_close_endpoint_def Let_def pipe_free_def)

lemma kernel_inv_upd_open:
  assumes "kernel_inv k" and "unat x < 16"
    and "open_refcnt (f (opens k ! unat x)) = open_refcnt (opens k ! unat x)"
    and "open_refcnt (opens k ! unat x) \<noteq> 0 \<longrightarrow> open_type (f (opens k ! unat x)) \<noteq> OBJ_NONE"
    and "open_pipe (f (opens k ! unat x)) = PIPE_NONE \<or> unat (open_pipe (f (opens k ! unat x))) < 8"
  shows "kernel_inv (upd_open x f k)"
proof -
  note inv = kernel_invD [OF assms(1)]
  have "object_wf (proc_fd_obj k) i ((opens k)[unat x := f (opens k ! unat x)] ! i)" if "i < 16" for i
    using inv(7) [OF that] inv(7) [OF assms(2)] assms(3-5) inv(3) assms(2)
    by (cases "i = unat x") (simp_all add: object_wf_def)
  then show ?thesis using assms(1) by (simp add: kernel_inv_def)
qed

lemma kernel_inv_upd_pipe:
  assumes "kernel_inv k" and "unat i < 8 \<Longrightarrow> pipe_wf (pipes k ! unat i) \<Longrightarrow> pipe_wf (f (pipes k ! unat i))"
  shows "kernel_inv (upd_pipe i f k)"
proof (cases "unat i < 8")
  case True
  then have "\<forall>p \<in> set ((pipes k)[unat i := f (pipes k ! unat i)]). pipe_wf p"
    using assms kernel_invD(6) [OF assms(1) True] set_update_subset_insert [of "pipes k" "unat i"]
    by (auto simp: kernel_inv_def)
  then show ?thesis using assms(1) by (simp add: kernel_inv_def)
next
  case False
  then have "upd_pipe i f k = k" using kernel_invD(4) [OF assms(1)] by (simp add: upd_pipe_def list_update_beyond)
  then show ?thesis using assms(1) by simp
qed

lemma kernel_inv_other_fields [simp]:
  "kernel_inv (k\<lparr>rp_state := r\<rparr>) = kernel_inv k"
  "kernel_inv (k\<lparr>console_owner_pid := c\<rparr>) = kernel_inv k"
  "kernel_inv (k\<lparr>proc_signal_pending := s\<rparr>) = kernel_inv k"
  by (simp_all add: kernel_inv_def)

lemma kernel_inv_slot:
  assumes k: "kernel_inv k" and i: "i < 48"
    and old: "proc_fd_obj k ! i \<noteq> FD_NONE \<longrightarrow> proc_fd_obj k ! i = x \<and> new = FD_NONE"
    and new: "proc_fd_obj k ! i = FD_NONE \<longrightarrow> new = x \<and> open_type (f (opens k ! unat x)) \<noteq> OBJ_NONE"
    and x: "unat x < 16"
    and rc: "unat (open_refcnt (f (opens k ! unat x))) + (if proc_fd_obj k ! i = x then 1 else 0)
      = unat (open_refcnt (opens k ! unat x)) + (if new = x then 1 else 0)"
    and keep: "open_type (f (opens k ! unat x)) = open_type (opens k ! unat x)"
      "open_pipe (f (opens k ! unat x)) = open_pipe (opens k ! unat x)"
  shows "kernel_inv (upd_open x f (set_slot_obj i new fl k))"
proof -
  note inv = kernel_invD [OF k]
  let ?slots = "(proc_fd_obj k)[i := new]" and ?opens = "(opens k)[unat x := f (opens k ! unat x)]"
  have nx: "new = FD_NONE \<or> new = x" using old new by auto
  have ff: "x \<noteq> FD_NONE" using x by auto
  have "object_wf ?slots j (?opens ! j)" if j: "j < 16" for j
  proof -
    let ?j = "of_nat j :: byte"
    have uj: "unat ?j = j" using j by (intro unat_byte_of_nat) simp
    have c: "count_list ?slots ?j + (if proc_fd_obj k ! i = ?j then 1 else 0)
        = count_list (proc_fd_obj k) ?j + (if new = ?j then 1 else 0)"
      by (rule count_list_update) (use i inv(1) in simp)
    have jff: "?j \<noteq> FD_NONE" using uj j by auto
    show ?thesis
    proof (cases "j = unat x")
      case True
      then have xj: "?j = x" by simp
      have ty: "open_refcnt (f (opens k ! unat x)) \<noteq> 0 \<longrightarrow> open_type (f (opens k ! unat x)) \<noteq> OBJ_NONE"
      proof (cases "proc_fd_obj k ! i = FD_NONE")
        case True
        then show ?thesis using new by simp
      next
        case False
        then show ?thesis using slot_object(3) [OF k i False] old keep(1) by simp
      qed
      show ?thesis
        using True inv(7) [OF j] c rc keep(2) ty inv(3) x xj by (simp add: object_wf_def)
    next
      case False
      then have "?j \<noteq> x" using uj by auto
      moreover have "proc_fd_obj k ! i \<noteq> ?j" using old \<open>?j \<noteq> x\<close> jff by (cases "proc_fd_obj k ! i = FD_NONE") auto
      moreover have "new \<noteq> ?j" using nx \<open>?j \<noteq> x\<close> jff by auto
      ultimately show ?thesis using False inv(7) [OF j] c by (simp add: object_wf_def)
    qed
  qed
  moreover have "\<forall>y \<in> set ?slots. y = FD_NONE \<or> unat y < 16"
    using nx x k set_update_subset_insert [of "proc_fd_obj k" i new] by (auto simp: kernel_inv_def)
  ultimately show ?thesis using k by (simp add: kernel_inv_def)
qed

text \<open>Taking one reference away, as both close routines do.\<close>

definition fd_detach :: "nat \<Rightarrow> 'r kernel \<Rightarrow> 'r kernel" where
  "fd_detach i k =
     upd_open (proc_fd_obj k ! i) (\<lambda>obj. obj\<lparr>open_refcnt := open_refcnt obj - 1\<rparr>) (set_slot_obj i FD_NONE 0 k)"

lemma fd_detach_fields [simp]:
  "proc_fd_obj (fd_detach i k) = (proc_fd_obj k)[i := FD_NONE]"
  "proc_fd_flags (fd_detach i k) = (proc_fd_flags k)[i := 0]"
  "rp_state (fd_detach i k) = rp_state k" "pipes (fd_detach i k) = pipes k"
  by (simp_all add: fd_detach_def)

lemma fd_attach_fields [simp]:
  "proc_fd_obj (fd_attach task fd x fl k) = (proc_fd_obj k)[fd_slot task fd := x]"
  "proc_fd_flags (fd_attach task fd x fl k) = (proc_fd_flags k)[fd_slot task fd := fl]"
  "rp_state (fd_attach task fd x fl k) = rp_state k" "pipes (fd_attach task fd x fl k) = pipes k"
  by (simp_all add: fd_attach_def)

lemma refcnt_bound:
  assumes "kernel_inv k" and "unat x < 16"
  shows "unat (open_refcnt (opens k ! unat x)) \<le> 48"
proof -
  have "unat (open_refcnt (opens k ! unat x)) = count_list (proc_fd_obj k) (of_nat (unat x))"
    using kernel_invD(7) [OF assms] by (simp add: object_wf_def)
  also have "\<dots> \<le> length (proc_fd_obj k)" by (rule count_le_length)
  finally show ?thesis using kernel_invD(1) [OF assms(1)] by simp
qed

lemma kernel_inv_attach:
  assumes "kernel_inv k" and "fd_slot task fd < 48" and "proc_fd_obj k ! fd_slot task fd = FD_NONE" and "live x k"
  shows "kernel_inv (fd_attach task fd x fl k)"
  unfolding fd_attach_def
proof (rule kernel_inv_slot [OF assms(1,2)])
  have x: "unat x < 16" using assms(4) by (simp add: live_def)
  have ff: "x \<noteq> FD_NONE" using x by auto
  have "unat (open_refcnt (opens k ! unat x) + 1) = Suc (unat (open_refcnt (opens k ! unat x)))"
    using refcnt_bound [OF assms(1) x] by (intro unat_byte_Suc) simp
  then show "unat (open_refcnt ((opens k ! unat x)\<lparr>open_refcnt := open_refcnt (opens k ! unat x) + 1\<rparr>))
      + (if proc_fd_obj k ! fd_slot task fd = x then 1 else 0)
      = unat (open_refcnt (opens k ! unat x)) + (if x = x then 1 else 0)"
    using assms(3) ff by simp
qed (use assms(3,4) in \<open>simp_all add: live_def\<close>)

lemma kernel_inv_detach:
  assumes "kernel_inv k" and "i < 48" and "proc_fd_obj k ! i \<noteq> FD_NONE"
  shows "kernel_inv (fd_detach i k)"
  unfolding fd_detach_def
proof (rule kernel_inv_slot [OF assms(1,2)])
  let ?x = "proc_fd_obj k ! i"
  note obj = slot_object [OF assms]
  show "unat ?x < 16" by (rule obj(1))
  show "unat (open_refcnt ((opens k ! unat ?x)\<lparr>open_refcnt := open_refcnt (opens k ! unat ?x) - 1\<rparr>))
      + (if ?x = ?x then 1 else 0) = unat (open_refcnt (opens k ! unat ?x)) + (if FD_NONE = ?x then 1 else 0)"
    using assms(3) obj(2) by (auto simp: unat_minus_one unat_gt_0)
qed (use assms(3) in simp_all)

section \<open>What an operation leaves alone\<close>

definition row_slots :: "neox_pid_t \<Rightarrow> nat set" where
  "row_slots task = {fd_calc_pid_offset task ..< fd_calc_pid_offset task + 6}"

text \<open>
  The descriptors of \<open>task\<close> are the same, and the objects behind them differ at most in
  their reference counts.
\<close>

definition same_view :: "neox_pid_t \<Rightarrow> 'r kernel \<Rightarrow> 'r kernel \<Rightarrow> bool" where
  "same_view task k k' \<longleftrightarrow>
     (\<forall>i \<in> row_slots task. proc_fd_obj k' ! i = proc_fd_obj k ! i \<and> proc_fd_flags k' ! i = proc_fd_flags k ! i
       \<and> (proc_fd_obj k ! i \<noteq> FD_NONE \<longrightarrow>
            (opens k' ! unat (proc_fd_obj k ! i))\<lparr>open_refcnt := 0\<rparr>
              = (opens k ! unat (proc_fd_obj k ! i))\<lparr>open_refcnt := 0\<rparr>))"

lemma same_view_refl [simp]: "same_view task k k"
  by (simp add: same_view_def)

lemma same_view_trans [trans]: "same_view task k k' \<Longrightarrow> same_view task k' k'' \<Longrightarrow> same_view task k k''"
  by (auto simp: same_view_def)

lemma same_view_upd_pipe [simp]: "same_view task k (upd_pipe i f k')  = same_view task k k'"
  by (simp add: same_view_def)

lemma same_view_rp [simp]: "same_view task k (k'\<lparr>rp_state := r\<rparr>) = same_view task k k'"
    "same_view task k (k'\<lparr>console_owner_pid := c\<rparr>) = same_view task k k'"
    "same_view task k (k'\<lparr>proc_signal_pending := s\<rparr>) = same_view task k k'"
  by (simp_all add: same_view_def)

lemma row_slot_less: "task < MAX_PROCS \<Longrightarrow> i \<in> row_slots task \<Longrightarrow> i < 48"
  by (simp add: row_slots_def fd_calc_pid_offset_def word_less_nat_alt)

lemma fd_slot_row: "fd < MAX_FDS \<Longrightarrow> fd_slot task fd \<in> row_slots task"
  by (simp add: row_slots_def fd_slot_def word_less_nat_alt)

lemma row_slotE:
  assumes "i \<in> row_slots task"
  obtains fd where "fd < MAX_FDS" and "i = fd_slot task fd"
proof
  let ?fd = "of_nat (i - fd_calc_pid_offset task) :: byte"
  have "unat ?fd = i - fd_calc_pid_offset task"
    using assms by (intro unat_byte_of_nat) (auto simp: row_slots_def less_diff_conv2)
  then show "?fd < MAX_FDS" "i = fd_slot task ?fd"
    using assms by (auto simp: row_slots_def fd_slot_def word_less_nat_alt)
qed

lemma other_row: "fd < MAX_FDS \<Longrightarrow> task \<noteq> other \<Longrightarrow> fd_slot other fd \<notin> row_slots task"
  by (metis fd_slot_inject row_slotE)

lemma same_view_upd_open_unused:
  assumes "kernel_inv k" and "task < MAX_PROCS" and "unat x < 16" and "open_refcnt (opens k ! unat x) = 0"
  shows "same_view task k (upd_open x f k)"
proof -
  have "unat x \<noteq> unat (proc_fd_obj k ! i)" if "i \<in> row_slots task" for i
    using unreferenced [OF assms(1,3,4)] row_slot_less [OF assms(2) that] kernel_invD(1) [OF assms(1)]
    by (metis nth_mem word_unat_eq_iff)
  then show ?thesis by (simp add: same_view_def)
qed

lemma same_view_upd_open_refcnt:
  assumes "kernel_inv k" and "unat x < 16" and "\<And>obj. (f obj)\<lparr>open_refcnt := 0\<rparr> = obj\<lparr>open_refcnt := 0\<rparr>"
  shows "same_view task k (upd_open x f k)"
  using assms(2,3) kernel_invD(3) [OF assms(1)] by (auto simp: same_view_def nth_list_update)

lemma same_view_set_slot: "i \<notin> row_slots task \<Longrightarrow> same_view task k (set_slot_obj i x fl k)"
  by (simp add: same_view_def) (metis nth_list_update_neq)

lemma same_view_attach:
  assumes "kernel_inv k" and "unat x < 16" and "fd_slot other fd \<notin> row_slots task"
  shows "same_view task k (fd_attach other fd x fl k)"
proof -
  have "same_view task k (set_slot_obj (fd_slot other fd) x fl k)" using assms(3) by (rule same_view_set_slot)
  moreover have "same_view task (set_slot_obj (fd_slot other fd) x fl k) (fd_attach other fd x fl k)"
    unfolding fd_attach_def using assms(2) kernel_invD(3) [OF assms(1)]
    by (auto simp: same_view_def nth_list_update)
  ultimately show ?thesis by (rule same_view_trans)
qed

lemma same_view_detach:
  assumes "kernel_inv k" and "i < 48" and "proc_fd_obj k ! i \<noteq> FD_NONE" and "i \<notin> row_slots task"
  shows "same_view task k (fd_detach i k)"
proof -
  have "same_view task k (set_slot_obj i FD_NONE 0 k)" using assms(4) by (rule same_view_set_slot)
  moreover have "same_view task (set_slot_obj i FD_NONE 0 k) (fd_detach i k)"
    unfolding fd_detach_def using slot_object(1) [OF assms(1-3)] kernel_invD(3) [OF assms(1)]
    by (auto simp: same_view_def nth_list_update)
  ultimately show ?thesis by (rule same_view_trans)
qed

text \<open>A step that keeps the invariant and touches descriptors of the processes in \<open>S\<close> only.\<close>

definition within :: "neox_pid_t set \<Rightarrow> 'r kernel \<Rightarrow> 'r kernel \<Rightarrow> bool" where
  "within S k k' \<longleftrightarrow> kernel_inv k' \<and> (\<forall>task. task < MAX_PROCS \<longrightarrow> task \<notin> S \<longrightarrow> same_view task k k')"

lemma within_inv: "within S k k' \<Longrightarrow> kernel_inv k'"
  by (simp add: within_def)

lemma within_refl [simp]: "within S k k = kernel_inv k"
  by (simp add: within_def)

lemma within_trans [trans]: "within S k k' \<Longrightarrow> within S k' k'' \<Longrightarrow> within S k k''"
  by (auto simp: within_def intro: same_view_trans)

lemma within_mono: "within S k k' \<Longrightarrow> S \<subseteq> T \<Longrightarrow> within T k k'"
  by (auto simp: within_def)

lemma within_rp [simp]: "within S k (k'\<lparr>rp_state := r\<rparr>) = within S k k'"
    "within S k (k'\<lparr>console_owner_pid := c\<rparr>) = within S k k'"
    "within S k (k'\<lparr>proc_signal_pending := s\<rparr>) = within S k k'"
  by (simp_all add: within_def)

lemma within_upd_pipe:
  assumes "kernel_inv k" and "unat i < 8 \<Longrightarrow> pipe_wf (pipes k ! unat i) \<Longrightarrow> pipe_wf (f (pipes k ! unat i))"
  shows "within S k (upd_pipe i f k)"
  using kernel_inv_upd_pipe [of k i f] assms by (simp add: within_def)

lemma within_upd_open_unused:
  assumes "kernel_inv k" and "unat x < 16" and "open_refcnt (opens k ! unat x) = 0"
    and "open_refcnt (f (opens k ! unat x)) = 0"
    and "open_pipe (f (opens k ! unat x)) = PIPE_NONE \<or> unat (open_pipe (f (opens k ! unat x))) < 8"
  shows "within S k (upd_open x f k)"
  using kernel_inv_upd_open [of k x f] same_view_upd_open_unused [OF assms(1) _ assms(2,3), of _ f] assms
  by (simp add: within_def)

lemma within_attach:
  assumes "kernel_inv k" and "task < MAX_PROCS" and "fd < MAX_FDS"
    and "proc_fd_obj k ! fd_slot task fd = FD_NONE" and "live x k"
  shows "within {task} k (fd_attach task fd x fl k)"
  using kernel_inv_attach [OF assms(1) fd_slot_less [OF assms(2,3)] assms(4,5)]
    same_view_attach [OF assms(1)] other_row [OF assms(3)] assms(5)
  by (auto simp: within_def live_def)

lemma within_detach:
  assumes "kernel_inv k" and "task < MAX_PROCS" and "fd < MAX_FDS" and "proc_fd_obj k ! fd_slot task fd \<noteq> FD_NONE"
  shows "within {task} k (fd_detach (fd_slot task fd) k)"
  using kernel_inv_detach [OF assms(1) fd_slot_less [OF assms(2,3)] assms(4)]
    same_view_detach [OF assms(1) fd_slot_less [OF assms(2,3)] assms(4)] other_row [OF assms(3)]
  by (auto simp: within_def)

section \<open>Closing\<close>

lemma object_pipe: "kernel_inv k \<Longrightarrow> unat x < 16 \<Longrightarrow>
    open_pipe (opens k ! unat x) = PIPE_NONE \<or> unat (open_pipe (opens k ! unat x)) < 8"
  using kernel_invD(7) by (auto simp: object_wf_def)

lemma within_free:
  assumes "kernel_inv k" and "unat x < 16" and "open_refcnt (opens k ! unat x) = 0"
  shows "within S k (fd_free_open x k)"
  unfolding fd_free_open_def
  using assms object_pipe [OF assms(1,2)] by (intro within_upd_open_unused) simp_all

lemma within_pipe_close_endpoint:
  assumes "kernel_inv k" and "unat x < 16" and "open_refcnt (opens k ! unat x) = 0"
  shows "within S k (pipe_close_endpoint x k)"
    and "open_refcnt (opens (pipe_close_endpoint x k) ! unat x) = 0"
    and "length (opens (pipe_close_endpoint x k)) = 16"
    and "y \<noteq> x \<Longrightarrow> opens (pipe_close_endpoint x k) ! unat y = opens k ! unat y"
proof -
  let ?i = "open_pipe (opens k ! unat x)" and ?m = "open_pipe_mode (opens k ! unat x)"
  define k1 where "k1 = upd_open x (\<lambda>obj. obj\<lparr>open_pipe := PIPE_NONE, open_pipe_mode := 0\<rparr>) k"
  define k2 where "k2 = (if (?m = PIPE_END_READ \<or> ?m = PIPE_END_WRITE) \<and> pipe_state (pipes k1 ! unat ?i) AND ?m \<noteq> 0
      then upd_pipe ?i (\<lambda>p. p\<lparr>pipe_state := (?m XOR 0xFF) AND pipe_state p\<rparr>) k1 else k1)"
  have eq: "pipe_close_endpoint x k = (if ?i = PIPE_NONE then k
      else if pipe_state (pipes k2 ! unat ?i) = 0 then pipe_free ?i k2 else k2)"
    by (simp add: pipe_close_endpoint_def k1_def k2_def Let_def)
  have k1: "within S k k1" unfolding k1_def using assms by (intro within_upd_open_unused) simp_all
  have k2: "within S k1 k2"
    unfolding k2_def using within_inv [OF k1] by (auto intro!: within_upd_pipe simp: pipe_wf_def)
  have "within S k2 (pipe_free ?i k2)"
    unfolding pipe_free_def
    using within_inv [OF k2] by (intro within_upd_pipe pipe_clear_wf) (simp_all add: pipe_wf_def)
  then show "within S k (pipe_close_endpoint x k)"
    unfolding eq using assms(1) k1 k2 by (auto intro: within_trans)
  have "opens (pipe_close_endpoint x k) = opens k \<or> opens (pipe_close_endpoint x k) = opens k1"
    by (auto simp: eq k2_def pipe_free_def)
  then show "open_refcnt (opens (pipe_close_endpoint x k) ! unat x) = 0"
    and "length (opens (pipe_close_endpoint x k)) = 16"
    and "y \<noteq> x \<Longrightarrow> opens (pipe_close_endpoint x k) ! unat y = opens k ! unat y"
    using assms(2,3) kernel_invD(3) [OF assms(1)] by (auto simp: k1_def word_unat_eq_iff)
qed

lemma rp_fs_exec_fields:
  "rp_fs_exec rp ap q k = Some (reply, k') \<Longrightarrow> \<exists>r. k' = k\<lparr>rp_state := r\<rparr>"
  by (auto simp: rp_fs_exec_def bind_eq_Some_conv)

lemma rp_fs_exec_Some:
  assumes "rp_fs_exec rp ap q k = Some (reply, k')"
  obtains r where "rp_fs rp ap q (rp_state k) = Some (reply, r)" and "k' = k\<lparr>rp_state := r\<rparr>"
  using assms by (auto simp: rp_fs_exec_def bind_eq_Some_conv)

lemma fd_last_close_within:
  assumes "fd_last_close rp ap x k = Some (res, k')"
    and "kernel_inv k" and "unat x < 16" and "open_refcnt (opens k ! unat x) = 0"
  shows "within S k k'" and "proc_fd_obj k' = proc_fd_obj k" and "proc_fd_flags k' = proc_fd_flags k"
proof -
  note pc = within_pipe_close_endpoint [OF assms(2-4)]
  have pipe: "within S k (fd_free_open x (pipe_close_endpoint x k))"
    by (rule within_trans [OF pc(1) within_free [OF within_inv [OF pc(1)] assms(3) pc(2)]])
  have rp: "within S k (fd_free_open x (k\<lparr>rp_state := r\<rparr>))" for r
    using within_free [of "k\<lparr>rp_state := r\<rparr>" x S] assms(2-4) by (auto intro: within_trans [rotated])
  note free = within_free [OF assms(2-4), of S]
  have "k' = k \<or> k' = fd_free_open x (pipe_close_endpoint x k) \<or> (\<exists>r. k' = fd_free_open x (k\<lparr>rp_state := r\<rparr>))
      \<or> k' = fd_free_open x k"
    using assms(1)
    by (auto simp: fd_last_close_def Let_def bind_eq_Some_conv split: if_splits dest!: rp_fs_exec_fields)
  then show "within S k k'" and "proc_fd_obj k' = proc_fd_obj k" and "proc_fd_flags k' = proc_fd_flags k"
    using assms(2) pipe rp free by auto
qed

definition is_open :: "neox_pid_t \<Rightarrow> neox_fd_t \<Rightarrow> 'r kernel \<Rightarrow> bool" where
  "is_open task fd k \<longleftrightarrow> task < MAX_PROCS \<and> fd < MAX_FDS \<and> proc_fd_obj k ! fd_slot task fd \<noteq> FD_NONE"

lemma is_openD:
  assumes "kernel_inv k" and "is_open task fd k"
  shows "unat (proc_fd_obj k ! fd_slot task fd) < 16"
    and "open_refcnt (opens k ! unat (proc_fd_obj k ! fd_slot task fd)) \<noteq> 0"
    and "live (proc_fd_obj k ! fd_slot task fd) k" and "fd_slot task fd < 48"
    and "within {task} k (fd_detach (fd_slot task fd) k)"
  using slot_object [OF assms(1) fd_slot_less] within_detach [OF assms(1)] assms(2)
  by (auto simp: is_open_def fd_slot_less)

lemma fd_close_pid_closed:
  "\<not> is_open task fd k \<Longrightarrow> fd_close_pid rp ap task fd k =
     Some (Inl (if task \<ge> MAX_PROCS then EINVAL else EBADF), k)"
  by (auto simp: fd_close_pid_def is_open_def Let_def)

lemma fd_close_pid_open:
  assumes "kernel_inv k" and "is_open task fd k"
  defines "i \<equiv> fd_slot task fd"
  shows "fd_close_pid rp ap task fd k =
    (if open_refcnt (opens (fd_detach i k) ! unat (proc_fd_obj k ! i)) \<noteq> 0 then Some (Inr (), fd_detach i k)
     else fd_last_close rp ap (proc_fd_obj k ! i) (fd_detach i k))"
  using is_openD [OF assms(1,2)] assms(2)
  by (simp add: fd_close_pid_def Let_def fd_detach_def i_def is_open_def not_le [symmetric])

lemma fd_close_pid_within:
  assumes "fd_close_pid rp ap task fd k = Some (res, k')" and "kernel_inv k"
  shows "within {task} k k'"
    and "proc_fd_obj k' = (if is_open task fd k then (proc_fd_obj k)[fd_slot task fd := FD_NONE] else proc_fd_obj k)"
    and "proc_fd_flags k' = (if is_open task fd k then (proc_fd_flags k)[fd_slot task fd := 0] else proc_fd_flags k)"
proof -
  let ?i = "fd_slot task fd" and ?x = "proc_fd_obj k ! fd_slot task fd"
  have "within {task} k k' \<and> proc_fd_obj k' = (if is_open task fd k then (proc_fd_obj k)[?i := FD_NONE] else proc_fd_obj k)
      \<and> proc_fd_flags k' = (if is_open task fd k then (proc_fd_flags k)[?i := 0] else proc_fd_flags k)"
  proof (cases "is_open task fd k")
    case False
    then show ?thesis using assms by (simp add: fd_close_pid_closed)
  next
    case True
    note op = is_openD [OF assms(2) True]
    show ?thesis
    proof (cases "open_refcnt (opens (fd_detach ?i k) ! unat ?x) = 0")
      case zero: True
      then have "fd_last_close rp ap ?x (fd_detach ?i k) = Some (res, k')"
        using assms(1) fd_close_pid_open [OF assms(2) True, of rp ap] by simp
      note last = fd_last_close_within [OF this within_inv [OF op(5)] op(1) zero]
      show ?thesis using within_trans [OF op(5) last(1)] last(2,3) True by simp
    next
      case False
      then have "k' = fd_detach ?i k" using assms(1) fd_close_pid_open [OF assms(2) True, of rp ap] by simp
      then show ?thesis using op(5) True by simp
    qed
  qed
  then show "within {task} k k'"
    and "proc_fd_obj k' = (if is_open task fd k then (proc_fd_obj k)[?i := FD_NONE] else proc_fd_obj k)"
    and "proc_fd_flags k' = (if is_open task fd k then (proc_fd_flags k)[?i := 0] else proc_fd_flags k)" by simp_all
qed

lemma fd_close_current_detach:
  assumes "kernel_inv k" and "task < MAX_PROCS"
  shows "fd_close_current task fd k =
    (if is_open task fd k then (Inr (), fd_detach (fd_slot task fd) k) else (Inl EBADF, k))"
proof (cases "is_open task fd k")
  case True
  then show ?thesis
    using is_openD(2) [OF assms(1) True]
    by (simp add: fd_close_current_def Let_def fd_detach_def is_open_def not_le [symmetric])
next
  case False
  then show ?thesis using assms(2) by (auto simp: fd_close_current_def Let_def is_open_def)
qed

lemma close_slots_within:
  "close_slots rp ap task fds k = Some (res, k') \<Longrightarrow> kernel_inv k \<Longrightarrow> within {task} k k'"
proof (induction fds arbitrary: k)
  case (Cons fd fds)
  obtain r k1 where c: "fd_close_pid rp ap task fd k = Some (r, k1)"
    using Cons.prems(1) by (auto simp: bind_eq_Some_conv)
  note k1 = fd_close_pid_within(1) [OF c Cons.prems(2)]
  have "k' = k1 \<or> close_slots rp ap task fds k1 = Some (res, k')"
    using Cons.prems(1) c by (auto split: sum.splits if_splits)
  then show ?case using k1 Cons.IH [OF _ within_inv [OF k1]] by (auto intro: within_trans)
qed simp

lemma fd_close_process_within:
  "fd_close_process rp ap task k = Some (res, k') \<Longrightarrow> kernel_inv k \<Longrightarrow> within {task} k k'"
  by (auto simp: fd_close_process_def simp del: close_slots.simps split: if_splits dest: close_slots_within)

text \<open>Closing all descriptors of a process leaves none.\<close>

lemma fd_close_pid_ok:
  assumes "fd_close_pid rp ap task fd k = Some (Inl e, k')" and "kernel_inv k" and "task < MAX_PROCS"
    and "\<And>i. i < 16 \<Longrightarrow> open_type (opens k ! i) = OBJ_DEVICE \<Longrightarrow> open_dev (opens k ! i) \<noteq> DEV_NONE"
  shows "e = EBADF"
proof (cases "is_open task fd k")
  case False
  then show ?thesis using assms(1,3) by (auto simp: fd_close_pid_closed split: if_splits)
next
  case True
  let ?i = "fd_slot task fd" and ?x = "proc_fd_obj k ! fd_slot task fd"
  note op = is_openD [OF assms(2) True]
  have "open_type (opens (fd_detach ?i k) ! unat ?x) = open_type (opens k ! unat ?x)"
    "open_dev (opens (fd_detach ?i k) ! unat ?x) = open_dev (opens k ! unat ?x)"
    using op(1) kernel_invD(3) [OF assms(2)] by (simp_all add: fd_detach_def)
  then show ?thesis
    using assms(1) fd_close_pid_open [OF assms(2) True, of rp ap] assms(4) [OF op(1)]
    by (auto simp: fd_last_close_def Let_def dev_close_def bind_eq_Some_conv split: if_splits)
qed

text \<open>Every device object names a device, so that its close operation is not the missing one.\<close>

definition device_bound :: "open_object \<Rightarrow> bool" where
  "device_bound obj \<longleftrightarrow> (open_type obj = OBJ_DEVICE \<longrightarrow> open_dev obj \<noteq> DEV_NONE)"

definition devices_bound :: "'r kernel \<Rightarrow> bool" where
  "devices_bound k \<longleftrightarrow> list_all device_bound (opens k)"

lemma devices_bound_upd_open:
  assumes "devices_bound k" and "\<And>obj. device_bound obj \<Longrightarrow> device_bound (f obj)"
  shows "devices_bound (upd_open x f k)"
proof (cases "unat x < length (opens k)")
  case True
  then have "device_bound (opens k ! unat x)" using assms(1) by (simp add: devices_bound_def list_all_length)
  with assms show ?thesis
    by (auto simp: devices_bound_def list_all_iff dest!: subsetD [OF set_update_subset_insert])
next
  case False
  then show ?thesis using assms(1) by (simp add: devices_bound_def not_less list_update_beyond)
qed

lemma devices_bound_fields [simp]:
  "devices_bound (k\<lparr>rp_state := r\<rparr>) = devices_bound k" "devices_bound (upd_pipe i f k) = devices_bound k"
  "devices_bound (set_slot_obj j x fl k) = devices_bound k"
  by (simp_all add: devices_bound_def)

lemma devices_bound_close:
  assumes "devices_bound k"
  shows "devices_bound (fd_detach i k)" and "devices_bound (fd_free_open x k)"
    and "devices_bound (pipe_close_endpoint x k)"
  using assms
  by (auto simp: fd_detach_def fd_free_open_def pipe_close_endpoint_def pipe_free_def Let_def device_bound_def
      intro!: devices_bound_upd_open)

lemma devices_bound_close_pid:
  assumes "fd_close_pid rp ap task fd k = Some (res, k')" and "kernel_inv k" and "devices_bound k"
  shows "devices_bound k'"
proof (cases "is_open task fd k")
  case False
  then show ?thesis using assms by (auto simp: fd_close_pid_closed)
next
  case True
  then show ?thesis
    using assms(1,3) fd_close_pid_open [OF assms(2) True, of rp ap]
    by (auto simp: fd_last_close_def Let_def bind_eq_Some_conv devices_bound_close split: if_splits dest!: rp_fs_exec_fields)
qed

lemma close_slots_all:
  "close_slots rp ap task fds k = Some (res, k') \<Longrightarrow> kernel_inv k \<Longrightarrow> devices_bound k \<Longrightarrow> task < MAX_PROCS \<Longrightarrow>
   set fds \<subseteq> {fd. fd < MAX_FDS} \<Longrightarrow>
   res = Inr () \<and> (\<forall>fd. is_open task fd k' \<longleftrightarrow> is_open task fd k \<and> fd \<notin> set fds)"
proof (induction fds arbitrary: k)
  case (Cons fd fds)
  obtain r k1 where c: "fd_close_pid rp ap task fd k = Some (r, k1)"
    and rest: "(case r of Inl e \<Rightarrow> if e = EBADF then close_slots rp ap task fds k1 else Some (Inl e, k1)
      | Inr _ \<Rightarrow> close_slots rp ap task fds k1) = Some (res, k')"
    using Cons.prems(1) by (auto simp: bind_eq_Some_conv)
  have "e = EBADF" if "r = Inl e" for e
    using fd_close_pid_ok [of rp ap task fd k e k1] c that Cons.prems
    by (simp add: devices_bound_def list_all_length device_bound_def kernel_invD(3))
  then have run: "close_slots rp ap task fds k1 = Some (res, k')" using rest by (cases r) auto
  have k1: "kernel_inv k1" "devices_bound k1"
    using within_inv [OF fd_close_pid_within(1) [OF c Cons.prems(2)]] devices_bound_close_pid [OF c] Cons.prems by simp_all
  have "is_open task x k1 \<longleftrightarrow> is_open task x k \<and> x \<noteq> fd" for x
    using fd_close_pid_within(2) [OF c Cons.prems(2)] Cons.prems(4,5) fd_slot_less [of task fd] fd_slot_inject [of fd x task task]
      kernel_invD(1) [OF Cons.prems(2)]
    by (auto simp: is_open_def nth_list_update split: if_splits)
  then show ?case using Cons.IH [OF run k1 Cons.prems(4)] Cons.prems(5) by auto
qed simp

lemma fd_below_six: "fd \<in> set [0, 1, 2, 3, 4, 5]" if "fd < MAX_FDS" for fd :: neox_fd_t
proof -
  have "unat fd = 0 \<or> unat fd = 1 \<or> unat fd = 2 \<or> unat fd = 3 \<or> unat fd = 4 \<or> unat fd = 5"
    using that by (auto simp: word_less_nat_alt)
  then show ?thesis by (elim disjE) (simp_all add: word_unat_eq_iff)
qed

lemma fd_close_process_all:
  assumes "fd_close_process rp ap task k = Some (res, k')" and "kernel_inv k" and "devices_bound k" and "task < MAX_PROCS"
  shows "res = Inr () \<and> (\<forall>fd. \<not> is_open task fd k')"
proof -
  have run: "close_slots rp ap task [0, 1, 2, 3, 4, 5] k = Some (res, k')"
    using assms(1,4) by (simp add: fd_close_process_def not_le [symmetric] del: close_slots.simps)
  then show ?thesis using close_slots_all [OF run assms(2,3,4)] fd_below_six by (auto simp: is_open_def)
qed

section \<open>Attaching and duplicating\<close>

lemma fd_alloc_open_Inr:
  assumes "fd_alloc_open k = Inr x" and "length (opens k) = 16"
  shows "unat x < 16" and "open_type (opens k ! unat x) = OBJ_NONE" and "open_refcnt (opens k ! unat x) = 0"
  using assms scan_table_Some [of _ "opens k" 0 x] by (auto simp: fd_alloc_open_def split: option.splits)

lemma fd_find_free_Inr:
  assumes "fd_find_free_current task k = Inr fd" and "length (proc_fd_obj k) = 48" and "task < MAX_PROCS"
  shows "fd < MAX_FDS" and "proc_fd_obj k ! fd_slot task fd = FD_NONE"
proof -
  let ?row = "take 6 (drop (fd_calc_pid_offset task) (proc_fd_obj k))"
  have len: "length ?row = 6" "fd_calc_pid_offset task + 6 \<le> 48"
    using assms(2,3) by (simp_all add: fd_calc_pid_offset_def word_less_nat_alt)
  have "scan_table (\<lambda>x. x = FD_NONE) ?row 0 = Some fd"
    using assms(1) by (auto simp: fd_find_free_current_def split: option.splits)
  from scan_table_Some [OF this] len(1) have fd: "unat fd < 6" "?row ! unat fd = FD_NONE" by simp_all
  show "fd < MAX_FDS" using fd(1) by (simp add: word_less_nat_alt)
  show "proc_fd_obj k ! fd_slot task fd = FD_NONE" using fd len(2) assms(2) by (simp add: fd_slot_def)
qed

lemma fd_lookup_Inr:
  assumes "fd_lookup task fd k = Inr x" and "task < MAX_PROCS"
  shows "is_open task fd k" and "x = proc_fd_obj k ! fd_slot task fd"
  using assms by (auto simp: fd_lookup_def is_open_def not_le split: if_splits)

lemma fd_dup_within:
  assumes "fd_dup task oldfd k = (res, k')" and "kernel_inv k" and "task < MAX_PROCS"
  shows "within {task} k k'"
proof (cases "fd_lookup task oldfd k")
  case (Inl e)
  then show ?thesis using assms by (simp add: fd_dup_def)
next
  case (Inr x)
  note old = fd_lookup_Inr [OF Inr assms(3)]
  show ?thesis
  proof (cases "fd_find_free_current task k")
    case (Inl e)
    then show ?thesis using assms Inr by (simp add: fd_dup_def)
  next
    case (Inr newfd)
    note new = fd_find_free_Inr [OF Inr kernel_invD(1) [OF assms(2)] assms(3)]
    show ?thesis
      using assms(1) \<open>fd_lookup task oldfd k = Inr x\<close> Inr old(2)
        within_attach [OF assms(2,3) new is_openD(3) [OF assms(2) old(1)]]
      by (auto simp: fd_dup_def)
  qed
qed

text \<open>
  Attaching after the target was closed: the source object is still live, because its own
  descriptor is another slot.
\<close>

lemma live_within:
  assumes "within S k k'" and "task < MAX_PROCS" and "fd < MAX_FDS"
    and "proc_fd_obj k' ! fd_slot task fd = proc_fd_obj k ! fd_slot task fd" and "is_open task fd k"
  shows "live (proc_fd_obj k ! fd_slot task fd) k'"
  using slot_object(4) [OF within_inv [OF assms(1)] fd_slot_less [OF assms(2,3)]] assms(4,5)
  by (simp add: is_open_def)

lemma fd_dup2_within:
  assumes "fd_dup2 task oldfd newfd k = (res, k')" and "kernel_inv k" and "task < MAX_PROCS"
  shows "within {task} k k'"
proof (cases "newfd \<ge> MAX_FDS \<or> (\<exists>e. fd_lookup task oldfd k = Inl e) \<or> newfd = oldfd")
  case True
  then show ?thesis using assms by (auto simp: fd_dup2_def split: sum.splits if_splits)
next
  case False
  then obtain x where x: "fd_lookup task oldfd k = Inr x" and ne: "newfd \<noteq> oldfd" and n: "newfd < MAX_FDS"
    by (cases "fd_lookup task oldfd k") (auto simp: not_le)
  note old = fd_lookup_Inr [OF x assms(3)]
  have o: "oldfd < MAX_FDS" using old(1) by (simp add: is_open_def)
  define k1 where "k1 = snd (fd_close_current task newfd k)"
  have fl: "fst (fd_close_current task newfd k) = Inl EBADF \<or> fst (fd_close_current task newfd k) = Inr ()"
    by (simp add: fd_close_current_detach [OF assms(2,3)])
  have k1: "within {task} k k1" and s1: "proc_fd_obj k1 = (if is_open task newfd k
      then (proc_fd_obj k)[fd_slot task newfd := FD_NONE] else proc_fd_obj k)"
    using is_openD(5) [OF assms(2)] assms(2) by (auto simp: k1_def fd_close_current_detach [OF assms(2,3)])
  have sl: "fd_slot task newfd \<noteq> fd_slot task oldfd" using fd_slot_inject [OF n o] ne by simp
  have free: "proc_fd_obj k1 ! fd_slot task newfd = FD_NONE"
    using s1 fd_slot_less [OF assms(3) n] kernel_invD(1) [OF assms(2)] n assms(3) by (auto simp: is_open_def)
  have "proc_fd_obj k1 ! fd_slot task oldfd = proc_fd_obj k ! fd_slot task oldfd" using s1 sl by simp
  then have "live x k1" using live_within [OF k1 assms(3) o _ old(1)] old(2) by simp
  then have "within {task} k1 (fd_attach task newfd x (fd_get_flags_current task oldfd k) k1)"
    by (rule within_attach [OF within_inv [OF k1] assms(3) n free])
  moreover have "k' = fd_attach task newfd x (fd_get_flags_current task oldfd k) k1"
    using assms(1) x ne n fl
    by (cases "fd_close_current task newfd k") (auto simp: fd_dup2_def Let_def k1_def not_le [symmetric] split: sum.splits)
  ultimately show ?thesis using k1 by (auto intro: within_trans)
qed

text \<open>The duplicate is the lowest free descriptor and shares object and access mode.\<close>

lemma scan_table_least:
  "scan_table p xs x = Some y \<Longrightarrow> unat x + length xs \<le> 255 \<Longrightarrow> j < unat y - unat x \<Longrightarrow> \<not> p (xs ! j)"
proof (induction p xs x arbitrary: j rule: scan_table.induct)
  case (2 p z zs x)
  have x: "unat (x + 1) = Suc (unat x)" using "2.prems"(2) by (intro unat_byte_Suc) simp
  show ?case using 2 x by (cases j) (auto split: if_splits)
qed simp

lemma fd_dup_shares:
  assumes "fd_dup task oldfd k = (Inr newfd, k')" and "kernel_inv k" and "task < MAX_PROCS"
  shows "newfd < MAX_FDS" and "is_open task oldfd k" and "\<not> is_open task newfd k"
    and "fd < newfd \<Longrightarrow> is_open task fd k"
    and "proc_fd_obj k' = (proc_fd_obj k)[fd_slot task newfd := proc_fd_obj k ! fd_slot task oldfd]"
    and "proc_fd_flags k' = (proc_fd_flags k)[fd_slot task newfd := proc_fd_flags k ! fd_slot task oldfd]"
    and "rp_state k' = rp_state k" and "pipes k' = pipes k"
proof -
  let ?row = "take 6 (drop (fd_calc_pid_offset task) (proc_fd_obj k))"
  obtain x where x: "fd_lookup task oldfd k = Inr x" and free: "fd_find_free_current task k = Inr newfd"
    and k': "k' = fd_attach task newfd x (fd_get_flags_current task oldfd k) k"
    using assms(1) by (auto simp: fd_dup_def split: sum.splits)
  note new = fd_find_free_Inr [OF free kernel_invD(1) [OF assms(2)] assms(3)]
  note old = fd_lookup_Inr [OF x assms(3)]
  show "newfd < MAX_FDS" "is_open task oldfd k" "\<not> is_open task newfd k" using new old by (auto simp: is_open_def)
  show "proc_fd_obj k' = (proc_fd_obj k)[fd_slot task newfd := proc_fd_obj k ! fd_slot task oldfd]"
    "proc_fd_flags k' = (proc_fd_flags k)[fd_slot task newfd := proc_fd_flags k ! fd_slot task oldfd]"
    "rp_state k' = rp_state k" "pipes k' = pipes k"
    using k' old(2) by (simp_all add: fd_get_flags_current_def)
  assume less: "fd < newfd"
  have row: "length ?row \<le> 6" "scan_table (\<lambda>x. x = FD_NONE) ?row 0 = Some newfd"
    using free by (auto simp: fd_find_free_current_def split: option.splits)
  have "?row ! unat fd \<noteq> FD_NONE" using scan_table_least [OF row(2)] row(1) less by (simp add: word_less_nat_alt)
  then show "is_open task fd k"
    using less new(1) assms(3) kernel_invD(1) [OF assms(2)]
    by (simp add: is_open_def fd_slot_def word_less_nat_alt fd_calc_pid_offset_def)
qed

text \<open>
  Duplicating onto an open descriptor takes the old reference away but never runs the close
  of the object behind it.
\<close>

lemma fd_dup2_open:
  assumes "kernel_inv k" and "task < MAX_PROCS" and "is_open task oldfd k" and "is_open task newfd k" and "newfd \<noteq> oldfd"
  shows "fd_dup2 task oldfd newfd k = (Inr newfd,
    fd_attach task newfd (proc_fd_obj k ! fd_slot task oldfd) (fd_get_flags_current task oldfd k)
      (fd_detach (fd_slot task newfd) k))"
  using assms fd_close_current_detach [OF assms(1,2), of newfd]
  by (simp add: fd_dup2_def fd_lookup_def is_open_def Let_def not_le [symmetric])

lemma fd_dup2_last_reference:
  assumes "kernel_inv k" and "task < MAX_PROCS" and "is_open task oldfd k" and "is_open task newfd k" and "newfd \<noteq> oldfd"
    and "open_refcnt (opens k ! unat (proc_fd_obj k ! fd_slot task newfd)) = 1"
    and "proc_fd_obj k ! fd_slot task oldfd \<noteq> proc_fd_obj k ! fd_slot task newfd"
  defines "x \<equiv> proc_fd_obj k ! fd_slot task newfd"
  shows "\<exists>k'. fd_dup2 task oldfd newfd k = (Inr newfd, k') \<and> rp_state k' = rp_state k \<and> pipes k' = pipes k
    \<and> opens k' ! unat x = (opens k ! unat x)\<lparr>open_refcnt := 0\<rparr>
    \<and> x \<notin> set (proc_fd_obj k') \<and> open_type (opens k' ! unat x) \<noteq> OBJ_NONE \<and> fd_alloc_open k' \<noteq> Inr x"
proof -
  let ?y = "proc_fd_obj k ! fd_slot task oldfd"
  define k' where "k' = fd_attach task newfd ?y (fd_get_flags_current task oldfd k) (fd_detach (fd_slot task newfd) k)"
  have d: "fd_dup2 task oldfd newfd k = (Inr newfd, k')" unfolding k'_def by (rule fd_dup2_open [OF assms(1-5)])
  note x = is_openD [OF assms(1,4), folded x_def] and y = is_openD [OF assms(1,3)]
  have ne: "unat ?y \<noteq> unat x" using assms(7) by (simp add: x_def word_unat_eq_iff)
  have o: "opens k' ! unat x = (opens k ! unat x)\<lparr>open_refcnt := 0\<rparr>"
    using x(1) y(1) ne kernel_invD(3) [OF assms(1)] assms(6)
    by (simp add: k'_def fd_attach_def fd_detach_def x_def [symmetric])
  have inv: "kernel_inv k'" using within_inv [OF fd_dup2_within [OF d assms(1,2)]] .
  have ty: "open_type (opens k' ! unat x) \<noteq> OBJ_NONE" using o x(3) by (simp add: live_def)
  have "x \<notin> set (proc_fd_obj k')" using unreferenced [OF inv x(1)] o by simp
  moreover have "fd_alloc_open k' \<noteq> Inr x" using fd_alloc_open_Inr(2) [of k' x] ty kernel_invD(3) [OF inv] by auto
  ultimately show ?thesis using d o ty by (simp add: k'_def)
qed

lemma fd_clone_between_within:
  assumes "fd_clone_between rp ap source_pid source_fd target_pid target_fd k = Some (res, k')" and "kernel_inv k"
  shows "within {target_pid} k k'"
proof (cases "is_open source_pid source_fd k \<and> target_pid < MAX_PROCS \<and> target_fd < MAX_FDS
    \<and> (source_pid, source_fd) \<noteq> (target_pid, target_fd)")
  case False
  then have "k' = k" using assms(1) by (auto simp: fd_clone_between_def is_open_def Let_def not_le split: if_splits)
  then show ?thesis using assms(2) by simp
next
  case True
  then have src: "is_open source_pid source_fd k" and t: "target_pid < MAX_PROCS" "target_fd < MAX_FDS"
    and s: "source_pid < MAX_PROCS" "source_fd < MAX_FDS"
    by (auto simp: is_open_def)
  let ?x = "proc_fd_obj k ! fd_slot source_pid source_fd" and ?fl = "proc_fd_flags k ! fd_slot source_pid source_fd"
  have body: "do { (r, k) \<leftarrow> fd_close_pid rp ap target_pid target_fd k;
      case r of Inl e \<Rightarrow> if e = EBADF then Some (Inr (), fd_attach target_pid target_fd ?x ?fl k) else Some (Inl e, k)
      | Inr _ \<Rightarrow> Some (Inr (), fd_attach target_pid target_fd ?x ?fl k) } = Some (res, k')"
    using assms(1) True by (auto simp: fd_clone_between_def is_open_def Let_def not_le [symmetric])
  then obtain r k1 where c: "fd_close_pid rp ap target_pid target_fd k = Some (r, k1)"
    by (auto simp: bind_eq_Some_conv)
  have k': "k' = k1 \<or> k' = fd_attach target_pid target_fd ?x ?fl k1"
    using body c by (cases r) (auto split: if_splits)
  note k1 = fd_close_pid_within [OF c assms(2)]
  have sl: "fd_slot target_pid target_fd \<noteq> fd_slot source_pid source_fd"
    using fd_slot_inject [OF t(2) s(2)] True by auto
  have free: "proc_fd_obj k1 ! fd_slot target_pid target_fd = FD_NONE"
    using k1(2) fd_slot_less [OF t] kernel_invD(1) [OF assms(2)] t by (auto simp: is_open_def)
  have "proc_fd_obj k1 ! fd_slot source_pid source_fd = ?x" using k1(2) sl by simp
  then have "live ?x k1" by (rule live_within [OF k1(1) s _ src])
  then have "within {target_pid} k1 (fd_attach target_pid target_fd ?x ?fl k1)"
    by (rule within_attach [OF within_inv [OF k1(1)] t free])
  then show ?thesis using k' k1(1) by (auto intro: within_trans)
qed

end
