(* ===== verification/Kernel_Pipe_Table.thy ===== *)
theory Kernel_Pipe_Table
  imports Kernel_Refs
begin

text \<open>
  The pipe operations of \<^verbatim>\<open>src/kernel/pipe.asm\<close> on the tables: creation with its roll-back, reads
  and writes through an open object, and the boot-time initialisation. Each keeps the
  invariant of the tables; a creation that fails leaves every descriptor as it was; a
  transfer moves a prefix of the bytes through the queue of the pipe.
\<close>

section \<open>Creating a pipe\<close>

lemma within_init_open:
  assumes "kernel_inv k" and "unat x < 16" and "open_refcnt (opens k ! unat x) = 0"
  shows "within S k (fd_init_open x ty fl k)"
  unfolding fd_init_open_def
  using assms object_pipe [OF assms(1,2)] by (intro within_upd_open_unused) simp_all

lemma within_endpoint_init:
  assumes "kernel_inv k" and "unat x < 16" and "open_refcnt (opens k ! unat x) = 0" and "unat i < 8"
  shows "within S k (pipe_endpoint_init x i mode k)"
  unfolding pipe_endpoint_init_def using assms by (intro within_upd_open_unused) simp_all

lemma pipe_alloc_within:
  assumes "pipe_alloc k = (res, k')" and "kernel_inv k"
  shows "within S k k'" and "opens k' = opens k" and "proc_fd_obj k' = proc_fd_obj k"
    and "proc_fd_flags k' = proc_fd_flags k" and "res = Inr i \<Longrightarrow> unat i < 8"
proof -
  note inv = kernel_invD [OF assms(2)]
  have "within S k (upd_pipe j (pipe_clear st) k)" for j st
    using assms(2) by (intro within_upd_pipe pipe_clear_wf) (simp_all add: pipe_wf_def)
  then show "within S k k'" using assms by (auto simp: pipe_alloc_def split: option.splits)
  show "opens k' = opens k" "proc_fd_obj k' = proc_fd_obj k" "proc_fd_flags k' = proc_fd_flags k"
    using assms(1) by (auto simp: pipe_alloc_def split: option.splits)
  show "res = Inr i \<Longrightarrow> unat i < 8"
    using assms(1) inv(4) scan_table_Some [of _ "pipes k" 0 i] by (auto simp: pipe_alloc_def split: option.splits)
qed

text \<open>A pair of objects for the two ends that no descriptor refers to yet.\<close>

definition fresh_pair :: "byte \<Rightarrow> byte \<Rightarrow> 'r kernel \<Rightarrow> bool" where
  "fresh_pair r w k \<longleftrightarrow> unat r < 16 \<and> unat w < 16 \<and> r \<noteq> w
     \<and> open_refcnt (opens k ! unat r) = 0 \<and> open_refcnt (opens k ! unat w) = 0"

lemma fd_init_open_fields [simp]:
  "proc_fd_obj (fd_init_open x ty fl k) = proc_fd_obj k" "proc_fd_flags (fd_init_open x ty fl k) = proc_fd_flags k"
  by (simp_all add: fd_init_open_def)

lemma pipe_endpoint_init_fields [simp]:
  "proc_fd_obj (pipe_endpoint_init x i mode k) = proc_fd_obj k"
  "proc_fd_flags (pipe_endpoint_init x i mode k) = proc_fd_flags k"
  by (simp_all add: pipe_endpoint_init_def)

lemma pipe_alloc_pair_fields:
  assumes "pipe_alloc_pair k = (res, k')"
  shows "proc_fd_obj k' = proc_fd_obj k" and "proc_fd_flags k' = proc_fd_flags k"
  using assms
  by (auto simp: pipe_alloc_pair_def pipe_alloc_def Let_def split: sum.splits option.splits prod.splits)

text \<open>A pair allocated as the two ends of a pipe; it can be freed, or bound to a pipe.\<close>

definition pipe_pair :: "byte \<Rightarrow> byte \<Rightarrow> 'r kernel \<Rightarrow> bool" where
  "pipe_pair r w k \<longleftrightarrow> kernel_inv k \<and> fresh_pair r w k \<and> open_type (opens k ! unat r) = OBJ_PIPE
     \<and> open_type (opens k ! unat w) = OBJ_PIPE"

lemma pipe_pair_free:
  assumes "pipe_pair r w k"
  shows "within S k (fd_free_open r (fd_free_open w k))"
proof -
  have p: "kernel_inv k" "unat r < 16" "unat w < 16" "unat w \<noteq> unat r"
    "open_refcnt (opens k ! unat r) = 0" "open_refcnt (opens k ! unat w) = 0"
    using assms by (auto simp: pipe_pair_def fresh_pair_def word_unat_eq_iff)
  have f: "within S k (fd_free_open w k)" by (rule within_free [OF p(1,3,6)])
  have "open_refcnt (opens (fd_free_open w k) ! unat r) = 0" using p by (simp add: fd_free_open_def)
  then show ?thesis by (rule within_trans [OF f within_free [OF within_inv [OF f] p(2)]])
qed

lemma pipe_pair_init:
  assumes "pipe_pair r w k" and "unat i < 8"
  shows "within S k (pipe_endpoint_init w i PIPE_END_WRITE (pipe_endpoint_init r i PIPE_END_READ k))"
    and "pipe_pair r w (pipe_endpoint_init w i PIPE_END_WRITE (pipe_endpoint_init r i PIPE_END_READ k))"
proof -
  let ?k = "pipe_endpoint_init r i PIPE_END_READ k"
  have p: "kernel_inv k" "unat r < 16" "unat w < 16" "unat w \<noteq> unat r" "r \<noteq> w"
    "open_refcnt (opens k ! unat r) = 0" "open_refcnt (opens k ! unat w) = 0"
    "open_type (opens k ! unat r) = OBJ_PIPE" "open_type (opens k ! unat w) = OBJ_PIPE"
    using assms(1) by (auto simp: pipe_pair_def fresh_pair_def word_unat_eq_iff)
  have k1: "within S k ?k" by (rule within_endpoint_init [OF p(1,2,6) assms(2)])
  have o: "opens ?k ! unat w = opens k ! unat w" "open_refcnt (opens ?k ! unat r) = 0" "open_type (opens ?k ! unat r) = OBJ_PIPE"
    using p kernel_invD(3) [OF p(1)] by (simp_all add: pipe_endpoint_init_def)
  have k2: "within S ?k (pipe_endpoint_init w i PIPE_END_WRITE ?k)"
    by (rule within_endpoint_init [OF within_inv [OF k1] p(3) _ assms(2)]) (simp add: o p)
  show "within S k (pipe_endpoint_init w i PIPE_END_WRITE ?k)" by (rule within_trans [OF k1 k2])
  show "pipe_pair r w (pipe_endpoint_init w i PIPE_END_WRITE ?k)"
    using o p within_inv [OF k2] kernel_invD(3) [OF within_inv [OF k1]]
    by (simp add: pipe_pair_def fresh_pair_def pipe_endpoint_init_def [of w])
qed

lemma init_open_pair:
  assumes "kernel_inv k" and "fd_alloc_open k = Inr x" and "fd_alloc_open (fd_init_open x OBJ_PIPE FD_FLAG_READ k) = Inr y"
  shows "within S k (fd_init_open y OBJ_PIPE FD_FLAG_WRITE (fd_init_open x OBJ_PIPE FD_FLAG_READ k))"
    and "pipe_pair x y (fd_init_open y OBJ_PIPE FD_FLAG_WRITE (fd_init_open x OBJ_PIPE FD_FLAG_READ k))"
proof -
  let ?k = "fd_init_open x OBJ_PIPE FD_FLAG_READ k"
  note x = fd_alloc_open_Inr [OF assms(2) kernel_invD(3) [OF assms(1)]]
  have k1: "within S k ?k" by (rule within_init_open [OF assms(1) x(1,3)])
  note inv1 = within_inv [OF k1]
  have x1: "open_refcnt (opens ?k ! unat x) = 0" "open_type (opens ?k ! unat x) = OBJ_PIPE"
    using x(1) kernel_invD(3) [OF assms(1)] by (simp_all add: fd_init_open_def)
  note y = fd_alloc_open_Inr [OF assms(3) kernel_invD(3) [OF inv1]]
  have ne: "y \<noteq> x" using y(2) x1(2) by auto
  then have nu: "unat y \<noteq> unat x" by (simp add: word_unat_eq_iff)
  have k2: "within S ?k (fd_init_open y OBJ_PIPE FD_FLAG_WRITE ?k)" by (rule within_init_open [OF inv1 y(1,3)])
  show "within S k (fd_init_open y OBJ_PIPE FD_FLAG_WRITE ?k)" by (rule within_trans [OF k1 k2])
  show "pipe_pair x y (fd_init_open y OBJ_PIPE FD_FLAG_WRITE ?k)"
    using within_inv [OF k2] x(1) x1 y(1) ne nu kernel_invD(3) [OF inv1]
    by (simp add: pipe_pair_def fresh_pair_def fd_init_open_def [of y])
qed

lemma pipe_alloc_pair_cases:
  assumes "pipe_alloc_pair k = (res, k')" and "kernel_inv k"
  shows "within S k k' \<and> (case res of Inl e \<Rightarrow> True | Inr (r, w) \<Rightarrow> pipe_pair r w k')"
proof (cases "fd_alloc_open k")
  case (Inl e)
  then show ?thesis using assms by (auto simp: pipe_alloc_pair_def)
next
  case x: (Inr x)
  note ax = fd_alloc_open_Inr [OF x kernel_invD(3) [OF assms(2)]]
  let ?k1 = "fd_init_open x OBJ_PIPE FD_FLAG_READ k"
  have k1: "within S k ?k1" by (rule within_init_open [OF assms(2) ax(1,3)])
  show ?thesis
  proof (cases "fd_alloc_open ?k1")
    case (Inl e)
    have "open_refcnt (opens ?k1 ! unat x) = 0" using ax(1) kernel_invD(3) [OF assms(2)] by (simp add: fd_init_open_def)
    from within_trans [OF k1 within_free [OF within_inv [OF k1] ax(1) this]]
    show ?thesis using assms(1) x Inl by (auto simp: pipe_alloc_pair_def Let_def)
  next
    case y: (Inr y)
    let ?k2 = "fd_init_open y OBJ_PIPE FD_FLAG_WRITE ?k1"
    note k2 = init_open_pair [OF assms(2) x y]
    obtain pr k3 where p: "pipe_alloc ?k2 = (pr, k3)" by (cases "pipe_alloc ?k2")
    note k3 = pipe_alloc_within [OF p within_inv [OF k2(1)]]
    have k03: "within S k k3" by (rule within_trans [OF k2(1) k3(1)])
    have pp: "pipe_pair x y k3" using k2(2) k3(2) within_inv [OF k3(1)] by (simp add: pipe_pair_def fresh_pair_def)
    show ?thesis
    proof (cases pr)
      case (Inl e)
      then show ?thesis using assms(1) x y p within_trans [OF k03 pipe_pair_free [OF pp]]
        by (auto simp: pipe_alloc_pair_def Let_def)
    next
      case (Inr i)
      note i = pipe_pair_init [OF pp k3(5) [OF Inr]]
      show ?thesis using assms(1) x y p Inr i(2) within_trans [OF k03 i(1)] by (auto simp: pipe_alloc_pair_def Let_def)
    qed
  qed
qed

lemma pipe_alloc_pair_within:
  assumes "pipe_alloc_pair k = (res, k')" and "kernel_inv k"
  shows "within S k k'"
    and "res = Inr (r, w) \<Longrightarrow> fresh_pair r w k' \<and> open_type (opens k' ! unat r) = OBJ_PIPE
      \<and> open_type (opens k' ! unat w) = OBJ_PIPE"
  using pipe_alloc_pair_cases [OF assms] by (auto simp: pipe_pair_def)

lemma pipe_release_pair_within:
  assumes "kernel_inv k" and "fresh_pair r w k"
  shows "within S k (pipe_release_pair r w k)"
proof -
  have f: "unat r < 16" "unat w < 16" "open_refcnt (opens k ! unat r) = 0" "open_refcnt (opens k ! unat w) = 0"
    "r \<noteq> w" using assms(2) by (simp_all add: fresh_pair_def)
  then have nu: "unat w \<noteq> unat r" by (simp add: word_unat_eq_iff)
  note c1 = within_pipe_close_endpoint [OF assms(1) f(2,4)]
  define k1 where "k1 = fd_free_open w (pipe_close_endpoint w k)"
  have k1: "within S k k1" unfolding k1_def
    by (rule within_trans [OF c1(1) within_free [OF within_inv [OF c1(1)] f(2) c1(2)]])
  have r1: "open_refcnt (opens k1 ! unat r) = 0"
    using nu c1(4) [OF f(5)] f(3) by (simp add: k1_def fd_free_open_def)
  note c2 = within_pipe_close_endpoint [OF within_inv [OF k1] f(1) r1]
  have "within S k1 (fd_free_open r (pipe_close_endpoint r k1))"
    by (rule within_trans [OF c2(1) within_free [OF within_inv [OF c2(1)] f(1) c2(2)]])
  then show ?thesis using k1 by (auto simp: pipe_release_pair_def Let_def k1_def intro: within_trans)
qed

lemma pipe_release_pair_fields [simp]:
  "proc_fd_obj (pipe_release_pair r w k) = proc_fd_obj k" "proc_fd_flags (pipe_release_pair r w k) = proc_fd_flags k"
  by (simp_all add: pipe_release_pair_def Let_def)

lemma opens_attach:
  assumes "kernel_inv k" and "unat x < 16"
  shows "opens (fd_attach task fd x fl k) ! unat x = (opens k ! unat x)\<lparr>open_refcnt := open_refcnt (opens k ! unat x) + 1\<rparr>"
    and "y \<noteq> x \<Longrightarrow> opens (fd_attach task fd x fl k) ! unat y = opens k ! unat y"
  using assms(2) kernel_invD(3) [OF assms(1)] by (simp_all add: fd_attach_def word_unat_eq_iff)

text \<open>
  The two attachments of \<open>pipe_create\<close>: the read end goes into a free slot, and then either the write
  end does too, or the read end is closed again, which leaves the pair as it was.
\<close>

definition ends_attached :: "neox_pid_t \<Rightarrow> neox_fd_t \<Rightarrow> neox_fd_t \<Rightarrow> 'r kernel \<Rightarrow> 'r kernel \<Rightarrow> bool" where
  "ends_attached task rfd wfd k k' \<longleftrightarrow> rfd < MAX_FDS \<and> wfd < MAX_FDS \<and> rfd \<noteq> wfd
     \<and> proc_fd_obj k ! fd_slot task rfd = FD_NONE \<and> proc_fd_obj k ! fd_slot task wfd = FD_NONE
     \<and> (\<exists>r w. r \<noteq> FD_NONE \<and> w \<noteq> FD_NONE
         \<and> proc_fd_obj k' = (proc_fd_obj k)[fd_slot task rfd := r, fd_slot task wfd := w])"

definition read_end_attached :: "neox_pid_t \<Rightarrow> neox_fd_t \<Rightarrow> byte \<Rightarrow> byte \<Rightarrow> 'r kernel \<Rightarrow> 'r kernel \<Rightarrow> bool" where
  "read_end_attached task rfd r w k k' \<longleftrightarrow> within {task} k k' \<and> r \<noteq> FD_NONE \<and> w \<noteq> FD_NONE \<and> rfd < MAX_FDS
     \<and> proc_fd_obj k ! fd_slot task rfd = FD_NONE \<and> proc_fd_obj k' = (proc_fd_obj k)[fd_slot task rfd := r]
     \<and> unat r < 16 \<and> unat w < 16 \<and> r \<noteq> w
     \<and> open_refcnt (opens k' ! unat r) = 1 \<and> open_refcnt (opens k' ! unat w) = 0 \<and> live w k'"

lemma attach_read_end:
  assumes "kernel_inv k" and "task < MAX_PROCS" and "fresh_pair r w k" and "open_type (opens k ! unat r) = OBJ_PIPE"
    and "open_type (opens k ! unat w) = OBJ_PIPE" and "fd_find_free_current task k = Inr rfd"
  shows "read_end_attached task rfd r w k (fd_attach task rfd r FD_FLAG_READ k)"
proof -
  let ?k = "fd_attach task rfd r FD_FLAG_READ k"
  note rfd = fd_find_free_Inr [OF assms(6) kernel_invD(1) [OF assms(1)] assms(2)]
  have fr: "unat r < 16" "unat w < 16" "r \<noteq> w" "open_refcnt (opens k ! unat r) = 0" "open_refcnt (opens k ! unat w) = 0"
    using assms(3) by (simp_all add: fresh_pair_def)
  have "within {task} k ?k" using fr assms(4) by (intro within_attach [OF assms(1,2) rfd]) (simp add: live_def)
  moreover have "r \<noteq> FD_NONE" "w \<noteq> FD_NONE" using fr by auto
  moreover have "opens ?k ! unat w = opens k ! unat w" using opens_attach(2) [OF assms(1) fr(1)] fr(3) by auto
  moreover have "open_refcnt (opens ?k ! unat r) = 1" using opens_attach(1) [OF assms(1) fr(1)] fr(4) by simp
  ultimately show ?thesis using fr rfd assms(5) by (simp add: read_end_attached_def live_def)
qed

lemma close_read_end:
  assumes "kernel_inv k" and "task < MAX_PROCS" and at: "read_end_attached task rfd r w k k1"
  shows "within {task} k (snd (fd_close_current task rfd k1))" and "fresh_pair r w (snd (fd_close_current task rfd k1))"
    and "proc_fd_obj (snd (fd_close_current task rfd k1)) = proc_fd_obj k"
proof -
  note a = at [unfolded read_end_attached_def]
  note inv1 = within_inv [of "{task}" k k1]
  have sl: "fd_slot task rfd < 48" using a fd_slot_less [OF assms(2)] by blast
  have slot: "proc_fd_obj k1 ! fd_slot task rfd = r" using a sl kernel_invD(1) [OF assms(1)] by simp
  have op: "is_open task rfd k1" using assms(2) a slot by (simp add: is_open_def)
  have cl: "snd (fd_close_current task rfd k1) = fd_detach (fd_slot task rfd) k1"
    using a op by (simp add: fd_close_current_detach [OF inv1 assms(2)])
  have nu: "unat r \<noteq> unat w" using a by (simp add: word_unat_eq_iff)
  show "within {task} k (snd (fd_close_current task rfd k1))"
    unfolding cl using a is_openD(5) [OF inv1 op] by (blast intro: within_trans)
  show "fresh_pair r w (snd (fd_close_current task rfd k1))"
    using a nu slot kernel_invD(3) [OF inv1] by (simp add: cl fresh_pair_def fd_detach_def)
  show "proc_fd_obj (snd (fd_close_current task rfd k1)) = proc_fd_obj k"
    using a by (simp add: cl list_update_same_conv) (metis list_update_id)
qed

lemma attach_write_end:
  assumes "kernel_inv k" and "task < MAX_PROCS" and at: "read_end_attached task rfd r w k k1"
    and "fd_find_free_current task k1 = Inr wfd"
  shows "within {task} k (fd_attach task wfd w FD_FLAG_WRITE k1)"
    and "ends_attached task rfd wfd k (fd_attach task wfd w FD_FLAG_WRITE k1)"
proof -
  note a = at [unfolded read_end_attached_def]
  have inv1: "kernel_inv k1" using a within_inv by blast
  note wfd = fd_find_free_Inr [OF assms(4) kernel_invD(1) [OF inv1] assms(2)]
  have "within {task} k1 (fd_attach task wfd w FD_FLAG_WRITE k1)" using a by (intro within_attach [OF inv1 assms(2) wfd]) simp
  then show "within {task} k (fd_attach task wfd w FD_FLAG_WRITE k1)" using a by (blast intro: within_trans)
  have "fd_slot task rfd < 48" using a fd_slot_less [OF assms(2)] by blast
  then have ne: "fd_slot task wfd \<noteq> fd_slot task rfd"
    using wfd(2) a kernel_invD(1) [OF assms(1)] by (metis nth_list_update_eq)
  moreover have "proc_fd_obj k ! fd_slot task wfd = FD_NONE" using wfd(2) a ne by simp
  ultimately show "ends_attached task rfd wfd k (fd_attach task wfd w FD_FLAG_WRITE k1)"
    using a wfd(1) by (auto simp: ends_attached_def)
qed

lemma pipe_create_cases:
  assumes "pipe_create task k = (res, k')" and "kernel_inv k" and "task < MAX_PROCS"
  shows "within {task} k k' \<and> (case res of Inl e \<Rightarrow> proc_fd_obj k' = proc_fd_obj k
    | Inr (rfd, wfd) \<Rightarrow> ends_attached task rfd wfd k k')"
proof -
  obtain pr k1 where a: "pipe_alloc_pair k = (pr, k1)" by (cases "pipe_alloc_pair k")
  note k1 = pipe_alloc_pair_within [OF a assms(2)] pipe_alloc_pair_fields [OF a]
  note inv1 = within_inv [OF k1(1)]
  show ?thesis
  proof (cases pr)
    case (Inl e)
    then show ?thesis using assms(1) a k1 by (auto simp: pipe_create_def)
  next
    case (Inr rw)
    obtain r w where rw: "rw = (r, w)" by (cases rw)
    have fresh: "fresh_pair r w k1" and ty: "open_type (opens k1 ! unat r) = OBJ_PIPE" "open_type (opens k1 ! unat w) = OBJ_PIPE"
      using k1(2) [of r w] Inr rw by auto
    show ?thesis
    proof (cases "fd_find_free_current task k1")
      case (Inl e)
      then show ?thesis using assms(1) a Inr rw k1(3) within_trans [OF k1(1) pipe_release_pair_within [OF inv1 fresh]]
        by (auto simp: pipe_create_def)
    next
      case rf: (Inr rfd)
      note at = attach_read_end [OF inv1 assms(3) fresh ty rf]
      show ?thesis
      proof (cases "fd_find_free_current task (fd_attach task rfd r FD_FLAG_READ k1)")
        case (Inl e)
        note c = close_read_end [OF inv1 assms(3) at]
        note rel = pipe_release_pair_within [OF within_inv [OF c(1)] c(2)]
        show ?thesis using assms(1) a Inr rw rf Inl k1(3) c(3) within_trans [OF k1(1) within_trans [OF c(1) rel]]
          by (auto simp: pipe_create_def)
      next
        case (Inr wfd)
        note c = attach_write_end [OF inv1 assms(3) at Inr]
        have "ends_attached task rfd wfd k (fd_attach task wfd w FD_FLAG_WRITE (fd_attach task rfd r FD_FLAG_READ k1))"
          using c(2) k1(3) by (simp add: ends_attached_def)
        then show ?thesis using assms(1) a \<open>pr = Inr rw\<close> rw rf Inr within_trans [OF k1(1) c(1)]
          by (auto simp: pipe_create_def)
      qed
    qed
  qed
qed

lemma pipe_create_result:
  assumes "pipe_create task k = (res, k')" and "kernel_inv k" and "task < MAX_PROCS"
  shows "within {task} k k'"
    and "res = Inl e \<Longrightarrow> proc_fd_obj k' = proc_fd_obj k"
    and "res = Inr (rfd, wfd) \<Longrightarrow> rfd < MAX_FDS \<and> wfd < MAX_FDS \<and> rfd \<noteq> wfd
      \<and> proc_fd_obj k ! fd_slot task rfd = FD_NONE \<and> proc_fd_obj k ! fd_slot task wfd = FD_NONE
      \<and> (\<exists>r w. r \<noteq> FD_NONE \<and> w \<noteq> FD_NONE
          \<and> proc_fd_obj k' = (proc_fd_obj k)[fd_slot task rfd := r, fd_slot task wfd := w])"
  using pipe_create_cases [OF assms] by (auto simp: ends_attached_def)

text \<open>
  The static wiring of two processes: the free checks come first, so once the pair of
  objects is allocated both attachments succeed and nothing has to be rolled back.
\<close>

lemma pipe_create_between_result:
  assumes "pipe_create_between_fd reader writer fd k = (res, k')" and "kernel_inv k"
  shows "within {reader, writer} k k'" and "res = Inl e \<Longrightarrow> proc_fd_obj k' = proc_fd_obj k"
proof -
  have "within {reader, writer} k k' \<and> (\<forall>e. res = Inl e \<longrightarrow> proc_fd_obj k' = proc_fd_obj k)"
  proof (cases "reader = writer \<or> (\<exists>e. fd_check_free_pid_fd reader fd k = Inl e) \<or> (\<exists>e. fd_check_free_pid_fd writer fd k = Inl e)")
    case True
    then show ?thesis using assms by (auto simp: pipe_create_between_fd_def split: sum.splits if_splits)
  next
    case False
    then have ne: "reader \<noteq> writer" and ok: "fd_check_free_pid_fd reader fd k = Inr ()" "fd_check_free_pid_fd writer fd k = Inr ()"
      by (cases "fd_check_free_pid_fd reader fd k"; cases "fd_check_free_pid_fd writer fd k"; simp)+
    have v: "reader < MAX_PROCS" "writer < MAX_PROCS" "fd < MAX_FDS"
      "proc_fd_obj k ! fd_slot reader fd = FD_NONE" "proc_fd_obj k ! fd_slot writer fd = FD_NONE"
      using ok by (auto simp: fd_check_free_pid_fd_def not_le split: if_splits)
    obtain pr k1 where a: "pipe_alloc_pair k = (pr, k1)" by (cases "pipe_alloc_pair k")
    note k1 = pipe_alloc_pair_within [OF a assms(2)] pipe_alloc_pair_fields [OF a]
    note inv1 = within_inv [OF k1(1)]
    show ?thesis
    proof (cases pr)
      case (Inl e)
      then show ?thesis using assms(1) ne ok a k1 by (auto simp: pipe_create_between_fd_def)
    next
      case (Inr rw)
      obtain r w where rw: "rw = (r, w)" by (cases rw)
      have fr: "fresh_pair r w k1" "open_type (opens k1 ! unat r) = OBJ_PIPE" "open_type (opens k1 ! unat w) = OBJ_PIPE"
        using k1(2) [of r w] Inr rw by auto
      define k2 where "k2 = fd_attach reader fd r FD_FLAG_READ k1"
      have k2: "within {reader} k1 k2" unfolding k2_def
        using fr v k1(3) by (intro within_attach [OF inv1]) (simp_all add: live_def fresh_pair_def)
      have sl: "fd_slot reader fd \<noteq> fd_slot writer fd" using fd_slot_inject [OF v(3,3)] ne by simp
      have w2: "opens k2 ! unat w = opens k1 ! unat w"
        unfolding k2_def by (rule opens_attach(2) [OF inv1]) (use fr in \<open>auto simp: fresh_pair_def\<close>)
      have k3: "within {writer} k2 (fd_attach writer fd w FD_FLAG_WRITE k2)"
        using fr v k1(3) sl w2 by (intro within_attach [OF within_inv [OF k2]]) (simp_all add: live_def fresh_pair_def k2_def)
      have chk: "fd_check_free_pid_fd reader fd k1 = Inr ()" "fd_check_free_pid_fd writer fd k2 = Inr ()"
        using v sl k1(3) by (simp_all add: fd_check_free_pid_fd_def k2_def not_le [symmetric])
      have "(res, k') = (Inr (), fd_attach writer fd w FD_FLAG_WRITE k2)"
        using assms(1) ne ok a Inr rw chk by (simp add: pipe_create_between_fd_def fd_attach_pid_fd_mode_def k2_def)
      then show ?thesis
        using within_trans [OF k1(1) within_trans [OF within_mono [OF k2, of "{reader, writer}"] within_mono [OF k3, of "{reader, writer}"]]]
        by simp
    qed
  qed
  then show "within {reader, writer} k k'" and "res = Inl e \<Longrightarrow> proc_fd_obj k' = proc_fd_obj k" by auto
qed

section \<open>Transfers\<close>

lemma pipe_resolve_Inr:
  assumes "pipe_resolve_endpoint mode x k = Inr i" and "kernel_inv k" and "unat x < 16"
  shows "unat i < 8" and "i = open_pipe (opens k ! unat x)" and "pipe_wf (pipes k ! unat i)"
proof -
  show i: "i = open_pipe (opens k ! unat x)" and "unat i < 8"
    using assms(1) object_pipe [OF assms(2,3)] by (auto simp: pipe_resolve_endpoint_def Let_def split: if_splits)
  then show "pipe_wf (pipes k ! unat i)" using kernel_invD(6) [OF assms(2)] by simp
qed

text \<open>
  A read gives a prefix of the queued bytes, as many as requested and there; none only when
  there is none and no writer is left.
\<close>

lemma pipe_read_result:
  assumes "pipe_resolve_endpoint PIPE_END_READ x k = Inr i" and "kernel_inv k" and "unat x < 16" and "req \<noteq> 0"
  defines "p \<equiv> pipes k ! unat i"
  shows "pipe_bytes p = [] \<Longrightarrow> pipe_read x req k =
      (if pipe_state p AND PIPE_STATE_WRITE_OPEN \<noteq> 0 then Inl EAGAIN else Inr [], k)"
    and "pipe_bytes p \<noteq> [] \<Longrightarrow> \<exists>p'. pipe_read x req k = (Inr (take (unat req) (pipe_bytes p)), upd_pipe i (\<lambda>_. p') k)
      \<and> pipe_wf p' \<and> pipe_bytes p' = drop (unat req) (pipe_bytes p) \<and> pipe_state p' = pipe_state p"
proof -
  note r = pipe_resolve_Inr [OF assms(1-3), folded p_def]
  have c: "pipe_count p = 0 \<longleftrightarrow> pipe_bytes p = []"
    by (simp add: length_0_conv [symmetric] unat_eq_0 del: length_0_conv)
  show "pipe_bytes p = [] \<Longrightarrow> pipe_read x req k =
      (if pipe_state p AND PIPE_STATE_WRITE_OPEN \<noteq> 0 then Inl EAGAIN else Inr [], k)"
    using assms(1,4) c by (simp add: pipe_read_def p_def [symmetric])
  have "unat (0 :: byte) + unat (pipe_count p) \<le> 255" using r(3) by (simp add: pipe_wf_def)
  then obtain p' where "pipe_read_loop req 0 p = (take (unat req) (pipe_bytes p), p')"
    "pipe_wf p'" "pipe_bytes p' = drop (unat req) (pipe_bytes p)" "pipe_state p' = pipe_state p"
    using pipe_read_loop_bytes [OF r(3), of 0 req] by auto
  then show "pipe_bytes p \<noteq> [] \<Longrightarrow> \<exists>p'. pipe_read x req k = (Inr (take (unat req) (pipe_bytes p)), upd_pipe i (\<lambda>_. p') k)
      \<and> pipe_wf p' \<and> pipe_bytes p' = drop (unat req) (pipe_bytes p) \<and> pipe_state p' = pipe_state p"
    using assms(1,4) c by (intro exI [of _ p']) (simp add: pipe_read_def p_def [symmetric] Let_def)
qed

text \<open>A write appends a prefix of the data, as much as fits; none only when the pipe is full.\<close>

lemma pipe_write_result:
  assumes "pipe_resolve_endpoint PIPE_END_WRITE x k = Inr i" and "kernel_inv k" and "unat x < 16"
    and "0 < length data" and "length data < 65536"
  defines "p \<equiv> pipes k ! unat i"
  defines "n \<equiv> min (length data) (64 - length (pipe_bytes p))"
  shows "pipe_state p AND PIPE_STATE_READ_OPEN = 0 \<Longrightarrow> pipe_write x data k = (Inl EPIPE, k)"
    and "pipe_state p AND PIPE_STATE_READ_OPEN \<noteq> 0 \<Longrightarrow> n = 0 \<Longrightarrow> pipe_write x data k = (Inl EAGAIN, k)"
    and "pipe_state p AND PIPE_STATE_READ_OPEN \<noteq> 0 \<Longrightarrow> n \<noteq> 0 \<Longrightarrow> \<exists>p'.
      pipe_write x data k = (Inr (of_nat n), upd_pipe i (\<lambda>_. p') k)
      \<and> pipe_wf p' \<and> pipe_bytes p' = pipe_bytes p @ take n data \<and> pipe_state p' = pipe_state p"
proof -
  note r = pipe_resolve_Inr [OF assms(1-3), folded p_def]
  let ?req = "of_nat (length data) :: neox_size_t"
  have req: "unat ?req = length data" "?req \<noteq> 0" using assms(4,5) by (auto simp: size_of_nat_eq_0)
  obtain p' where l: "pipe_write_loop ?req data 0 p = (of_nat n, p')" and p': "pipe_wf p'"
    "pipe_bytes p' = pipe_bytes p @ take n data" "pipe_state p' = pipe_state p"
    by (rule pipe_write_loop_bytes [OF r(3), of data ?req 0]) (simp_all add: n_def req(1))
  have n: "n \<le> 64" by (simp add: n_def)
  then have z: "(of_nat n :: byte) = 0 \<longleftrightarrow> n = 0"
    using unat_byte_of_nat [of n] unat_eq_0 [of "of_nat n :: byte"] by simp
  have u: "(ucast (of_nat n :: byte) :: neox_size_t) = of_nat n"
    using unat_byte_of_nat [of n] n of_nat_unat [of "of_nat n :: byte", where ?'a = neox_size_t] by simp
  show "pipe_state p AND PIPE_STATE_READ_OPEN = 0 \<Longrightarrow> pipe_write x data k = (Inl EPIPE, k)"
    using assms(1) req(2) by (simp add: pipe_write_def p_def [symmetric] Let_def)
  show "pipe_state p AND PIPE_STATE_READ_OPEN \<noteq> 0 \<Longrightarrow> n = 0 \<Longrightarrow> pipe_write x data k = (Inl EAGAIN, k)"
    using assms(1) req(2) l by (simp add: pipe_write_def p_def [symmetric] Let_def)
  show "pipe_state p AND PIPE_STATE_READ_OPEN \<noteq> 0 \<Longrightarrow> n \<noteq> 0 \<Longrightarrow> \<exists>p'.
      pipe_write x data k = (Inr (of_nat n), upd_pipe i (\<lambda>_. p') k)
      \<and> pipe_wf p' \<and> pipe_bytes p' = pipe_bytes p @ take n data \<and> pipe_state p' = pipe_state p"
    using assms(1) req(2) l p' z u by (intro exI [of _ p']) (simp add: pipe_write_def p_def [symmetric] Let_def)
qed

lemma pipe_read_within:
  assumes "pipe_read x req k = (res, k')" and "kernel_inv k" and "unat x < 16"
  shows "within S k k'" and "proc_fd_obj k' = proc_fd_obj k" and "opens k' = opens k"
    and "proc_fd_flags k' = proc_fd_flags k"
proof -
  have "k' = k \<or> (\<exists>i p'. k' = upd_pipe i (\<lambda>_. p') k \<and> pipe_wf p')"
  proof (cases "req = 0 \<or> (\<exists>e. pipe_resolve_endpoint PIPE_END_READ x k = Inl e)")
    case True
    then show ?thesis using assms(1) by (auto simp: pipe_read_def split: if_splits)
  next
    case False
    then obtain i where i: "pipe_resolve_endpoint PIPE_END_READ x k = Inr i" and nz: "req \<noteq> 0"
      by (cases "pipe_resolve_endpoint PIPE_END_READ x k") auto
    show ?thesis
      using pipe_read_result [OF i assms(2,3) nz] assms(1)
      by (cases "pipe_bytes (pipes k ! unat i) = []") auto
  qed
  then show "within S k k'" and "proc_fd_obj k' = proc_fd_obj k" and "opens k' = opens k"
    and "proc_fd_flags k' = proc_fd_flags k"
    using assms(2) by (auto intro!: within_upd_pipe)
qed

lemma pipe_write_within:
  assumes "pipe_write x data k = (res, k')" and "kernel_inv k" and "unat x < 16"
  shows "within S k k'" and "proc_fd_obj k' = proc_fd_obj k" and "opens k' = opens k"
    and "proc_fd_flags k' = proc_fd_flags k"
proof -
  have "k' = k \<or> (\<exists>i p'. k' = upd_pipe i (\<lambda>_. p') k \<and> pipe_wf p')"
  proof (cases "pipe_resolve_endpoint PIPE_END_WRITE x k")
    case (Inl e)
    then show ?thesis using assms(1) by (auto simp: pipe_write_def Let_def split: if_splits)
  next
    case (Inr i)
    obtain n p' where l: "pipe_write_loop (of_nat (length data)) data 0 (pipes k ! unat i) = (n, p')"
      by (cases "pipe_write_loop (of_nat (length data)) data 0 (pipes k ! unat i)")
    have "pipe_wf p'" using pipe_write_loop_wf [OF pipe_resolve_Inr(3) [OF Inr assms(2,3)]] l by (metis snd_conv)
    then show ?thesis using assms(1) Inr l by (auto simp: pipe_write_def Let_def split: if_splits)
  qed
  then show "within S k k'" and "proc_fd_obj k' = proc_fd_obj k" and "opens k' = opens k"
    and "proc_fd_flags k' = proc_fd_flags k"
    using assms(2) by (auto intro!: within_upd_pipe)
qed

text \<open>What one end writes the other end reads.\<close>

lemma pipe_write_then_read:
  assumes "kernel_inv k" and "unat r < 16" and "unat x < 16"
    and "pipe_resolve_endpoint PIPE_END_READ r k = Inr i" and "pipe_resolve_endpoint PIPE_END_WRITE x k = Inr i"
    and "pipe_state (pipes k ! unat i) AND PIPE_STATE_READ_OPEN \<noteq> 0" and "n \<noteq> 0" and "data \<noteq> []"
    and "length (pipe_bytes (pipes k ! unat i)) + length data \<le> 64"
  shows "\<exists>k1 k2. pipe_write x data k = (Inr (of_nat (length data)), k1)
    \<and> pipe_read r n k1 = (Inr (take (unat n) (pipe_bytes (pipes k ! unat i) @ data)), k2)
    \<and> pipe_bytes (pipes k2 ! unat i) = drop (unat n) (pipe_bytes (pipes k ! unat i) @ data)"
proof -
  let ?p = "pipes k ! unat i"
  have len: "0 < length data" "length data < 65536" using assms(8,9) by simp_all
  have m: "min (length data) (64 - length (pipe_bytes ?p)) = length data" using assms(9) by simp
  obtain p1 where w: "pipe_write x data k = (Inr (of_nat (length data)), upd_pipe i (\<lambda>_. p1) k)" "pipe_wf p1"
    "pipe_bytes p1 = pipe_bytes ?p @ data" "pipe_state p1 = pipe_state ?p"
    using pipe_write_result(3) [OF assms(5,1,3) len assms(6)] m len(1) by (simp only: m) fastforce
  let ?k = "upd_pipe i (\<lambda>_. p1) k"
  have i: "unat i < 8" by (rule pipe_resolve_Inr(1) [OF assms(4,1,2)])
  have p: "pipes ?k ! unat i = p1" using i kernel_invD(4) [OF assms(1)] by simp
  have r: "pipe_resolve_endpoint PIPE_END_READ r ?k = Inr i"
    using assms(4) p w(4) by (auto simp: pipe_resolve_endpoint_def Let_def split: if_splits)
  have "kernel_inv ?k" using kernel_inv_upd_pipe [OF assms(1)] w(2) by simp
  then obtain p2 where "pipe_read r n ?k = (Inr (take (unat n) (pipe_bytes ?p @ data)), upd_pipe i (\<lambda>_. p2) ?k)"
    "pipe_bytes p2 = drop (unat n) (pipe_bytes ?p @ data)"
    using pipe_read_result(2) [OF r _ assms(2,7)] p w(3) assms(8) by auto
  then show ?thesis using w(1) i kernel_invD(4) [OF assms(1)] by auto
qed

section \<open>Boot\<close>

text \<open>The storage of the tables, before anything is known about its contents.\<close>

definition kernel_storage :: "'r kernel \<Rightarrow> bool" where
  "kernel_storage k \<longleftrightarrow> length (opens k) = 16 \<and> length (pipes k) = 8
     \<and> (\<forall>p \<in> set (pipes k). length (pipe_buf p) = 64)"

definition console_objects :: "'r kernel \<Rightarrow> bool" where
  "console_objects k \<longleftrightarrow>
     (\<forall>i < 3. open_type (opens k ! i) = OBJ_DEVICE \<and> open_dev (opens k ! i) = DEV_CONSOLE)"

lemma count_list_replicate: "count_list (replicate n x) y = (if x = y then n else 0)"
  by (induction n) auto

lemma boot_inv:
  assumes "kernel_storage k"
  shows "kernel_inv (pipe_init_tables (fd_init_tables k))"
    and "console_objects (pipe_init_tables (fd_init_tables k))"
    and "\<not> is_open task fd (pipe_init_tables (fd_init_tables k))"
proof -
  let ?k = "pipe_init_tables (fd_init_tables k)"
  have len: "length (opens k) = 16" "length (pipes k) = 8"
    and buf: "\<And>p. p \<in> set (pipes k) \<Longrightarrow> length (pipe_buf p) = 64"
    using assms by (simp_all add: kernel_storage_def)
  have slots: "proc_fd_obj ?k = replicate 48 FD_NONE" "proc_fd_flags ?k = replicate 48 0"
    by (simp_all add: fd_init_tables_def pipe_init_tables_def Let_def)
  have op: "opens ?k ! i = (opens k ! i)\<lparr>open_type := (if i < 3 then OBJ_DEVICE else OBJ_NONE), open_refcnt := 0, open_flags := 0,
      open_dev := (if i < 3 then DEV_CONSOLE else DEV_NONE), open_file_handle := 0, open_pipe := PIPE_NONE, open_pipe_mode := 0\<rparr>"
    if "i < 16" for i
  proof -
    consider "i = 0" | "i = 1" | "i = 2" | "3 \<le> i" by linarith
    then show ?thesis using that len by cases (simp_all add: fd_init_tables_def pipe_init_tables_def Let_def)
  qed
  have "length (opens ?k) = 16" "length (pipes ?k) = 8" using len
    by (simp_all add: fd_init_tables_def pipe_init_tables_def Let_def)
  moreover have "object_wf (proc_fd_obj ?k) i (opens ?k ! i)" if "i < 16" for i
  proof -
    have "(of_nat i :: byte) \<noteq> FD_NONE" using unat_byte_of_nat [of i] that by auto
    then show ?thesis using op [OF that] by (auto simp: object_wf_def slots count_list_replicate)
  qed
  moreover have "\<forall>p \<in> set (pipes ?k). pipe_wf p"
    using buf by (auto simp: fd_init_tables_def pipe_init_tables_def Let_def intro: pipe_clear_wf)
  ultimately show "kernel_inv ?k" using slots by (simp add: kernel_inv_def)
  show "console_objects ?k" using op by (simp add: console_objects_def)
  show "\<not> is_open task fd ?k" using fd_slot_less [of task fd] by (auto simp: is_open_def slots)
qed

lemma live_console: "console_objects k \<Longrightarrow> unat x < 3 \<Longrightarrow> live x k"
  by (simp add: live_def console_objects_def)

lemma fd_attach_console:
  assumes "kernel_inv k" and "console_objects k" and "unat x < 3"
  shows "console_objects (fd_attach task fd x fl k)"
  using assms kernel_invD(3) [OF assms(1)]
  by (auto simp: console_objects_def fd_attach_def nth_list_update)

text \<open>A new process starts with the console on its first three descriptors.\<close>

lemma set_slot_free:
  assumes "kernel_inv k" and "proc_fd_obj k ! i = FD_NONE"
  shows "kernel_inv (set_slot_obj i FD_NONE fl k)" and "proc_fd_obj (set_slot_obj i FD_NONE fl k) = proc_fd_obj k"
proof -
  show "proc_fd_obj (set_slot_obj i FD_NONE fl k) = proc_fd_obj k"
    using assms(2) by (metis list_update_id set_slot_obj_fields(1))
  then show "kernel_inv (set_slot_obj i FD_NONE fl k)" using assms(1) by (simp add: kernel_inv_def)
qed

lemma clear_free_slots:
  assumes "kernel_inv k" and "\<And>fd. fd \<in> set fds \<Longrightarrow> proc_fd_obj k ! fd_slot task fd = FD_NONE"
  shows "kernel_inv (fold (\<lambda>fd. set_slot_obj (fd_slot task fd) FD_NONE 0) fds k)
    \<and> proc_fd_obj (fold (\<lambda>fd. set_slot_obj (fd_slot task fd) FD_NONE 0) fds k) = proc_fd_obj k
    \<and> opens (fold (\<lambda>fd. set_slot_obj (fd_slot task fd) FD_NONE 0) fds k) = opens k"
  using assms
proof (induction fds arbitrary: k)
  case (Cons fd fds)
  have free: "proc_fd_obj k ! fd_slot task fd = FD_NONE" using Cons.prems(2) by simp
  note k1 = set_slot_free [OF Cons.prems(1) free, of 0]
  show ?case using Cons.IH [OF k1(1)] Cons.prems(2) k1(2) by simp
qed simp

lemma fd_init_process_inv:
  assumes "kernel_inv k" and "console_objects k" and "task < MAX_PROCS" and "\<And>fd. \<not> is_open task fd k"
  obtains k' where "fd_init_process task k = (Inr (), k')" and "kernel_inv k'" and "console_objects k'"
    and "proc_fd_obj k' = (proc_fd_obj k)[fd_slot task 0 := 0, fd_slot task 1 := 1, fd_slot task 2 := 2]"
proof -
  have free: "proc_fd_obj k ! fd_slot task fd = FD_NONE" if "fd < MAX_FDS" for fd
    using assms(3,4) that by (auto simp: is_open_def)
  define k0 where "k0 = fold (\<lambda>fd. set_slot_obj (fd_slot task fd) FD_NONE 0) [0, 1, 2, 3, 4, 5] k"
  have k0: "kernel_inv k0" "proc_fd_obj k0 = proc_fd_obj k" "opens k0 = opens k"
    unfolding k0_def
    by (atomize (full), rule clear_free_slots [OF assms(1)], rule free, auto)
  have c0: "console_objects k0" using assms(2) k0(3) by (simp add: console_objects_def)
  have sl: "fd_slot task 0 \<noteq> fd_slot task 1" "fd_slot task 0 \<noteq> fd_slot task 2" "fd_slot task 1 \<noteq> fd_slot task 2"
    by (simp_all add: fd_slot_inject)
  define k1 where "k1 = fd_attach task 0 0 FD_FLAG_READ k0"
  have k1: "kernel_inv k1" "console_objects k1" unfolding k1_def
    using within_attach [OF k0(1) assms(3), of 0 0] free [of 0] k0(2) live_console [OF c0, of 0]
      fd_attach_console [OF k0(1) c0, of 0] by (auto simp: within_def)
  define k2 where "k2 = fd_attach task 1 1 FD_FLAG_WRITE k1"
  have k2: "kernel_inv k2" "console_objects k2" unfolding k2_def
    using within_attach [OF k1(1) assms(3), of 1 1] free [of 1] k0(2) sl(1) live_console [OF k1(2), of 1]
      fd_attach_console [OF k1, of 1] by (auto simp: within_def k1_def)
  define k3 where "k3 = fd_attach task 2 2 FD_FLAG_WRITE k2"
  have k3: "kernel_inv k3" "console_objects k3" unfolding k3_def
    using within_attach [OF k2(1) assms(3), of 2 2] free [of 2] k0(2) sl(2,3) live_console [OF k2(2), of 2]
      fd_attach_console [OF k2, of 2] by (auto simp: within_def k1_def k2_def)
  have "fd_init_process task k = (Inr (), k3)"
    using assms(3) by (simp add: fd_init_process_def Let_def k3_def k2_def k1_def k0_def not_le [symmetric])
  moreover have "proc_fd_obj k3 = (proc_fd_obj k)[fd_slot task 0 := 0, fd_slot task 1 := 1, fd_slot task 2 := 2]"
    by (simp add: k3_def k2_def k1_def k0(2))
  ultimately show ?thesis using that k3 by blast
qed

text \<open>The effect of creating a pipe on the descriptors.\<close>

lemma pipe_create_effect:
  assumes "pipe_create task k = (res, k')" and "kernel_inv k" and "task < MAX_PROCS"
  shows "kernel_inv k' \<and> (\<forall>q < MAX_PROCS. q \<noteq> task \<longrightarrow> same_view q k k') \<and>
    (case res of
       Inl e \<Rightarrow> proc_fd_obj k' = proc_fd_obj k
     | Inr (rfd, wfd) \<Rightarrow> rfd < MAX_FDS \<and> wfd < MAX_FDS \<and> rfd \<noteq> wfd \<and> \<not> is_open task rfd k \<and> \<not> is_open task wfd k
         \<and> is_open task rfd k' \<and> is_open task wfd k')"
proof -
  note r = pipe_create_result [OF assms]
  show ?thesis
  proof (cases res)
    case (Inr rw)
    obtain rfd wfd where rw: "rw = (rfd, wfd)" by (cases rw)
    then show ?thesis
      using r(1) r(3) [of rfd wfd] Inr fd_slot_less [OF assms(3), of rfd] fd_slot_less [OF assms(3), of wfd]
        fd_slot_inject [of rfd wfd task task] kernel_invD(1) [OF assms(2)] assms(3)
      by (auto simp: within_def is_open_def nth_list_update)
  qed (use r(1,2) in \<open>auto simp: within_def\<close>)
qed

text \<open>A process that starts on the initialised tables has exactly the standard descriptors.\<close>

lemma boot_then_start:
  assumes "kernel_storage k" and "task < MAX_PROCS"
  shows "kernel_inv (pipe_init_tables (fd_init_tables k)) \<and>
    (\<exists>k'. fd_init_process task (pipe_init_tables (fd_init_tables k)) = (Inr (), k') \<and> kernel_inv k'
      \<and> (\<forall>fd. is_open task fd k' \<longleftrightarrow> fd \<in> {NEOX_STDIN_FD, NEOX_STDOUT_FD, NEOX_STDERR_FD}))"
proof -
  let ?k = "pipe_init_tables (fd_init_tables k)"
  note boot = boot_inv [OF assms(1)]
  obtain k' where k': "fd_init_process task ?k = (Inr (), k')" "kernel_inv k'"
    and o: "proc_fd_obj k' = (proc_fd_obj ?k)[fd_slot task 0 := 0, fd_slot task 1 := 1, fd_slot task 2 := 2]"
    by (rule fd_init_process_inv [OF boot(1,2) assms(2)]) (simp_all add: boot(3))
  have len: "length (proc_fd_obj ?k) = 48" by (rule kernel_invD(1) [OF boot(1)])
  have slot: "fd_slot task a = fd_slot task c \<longleftrightarrow> a = c" if "a < MAX_FDS" "c < MAX_FDS" for a c
    using fd_slot_inject [OF that, of task task] by simp
  have "proc_fd_obj k' ! fd_slot task fd \<noteq> FD_NONE \<longleftrightarrow> fd \<in> {0, 1, 2}" if fd: "fd < MAX_FDS" for fd
  proof -
    have "proc_fd_obj ?k ! fd_slot task fd = FD_NONE" using boot(3) [of task fd] assms(2) fd by (simp add: is_open_def)
    then show ?thesis
      unfolding o using slot [OF _ fd, of 0] slot [OF _ fd, of 1] slot [OF _ fd, of 2] len
        fd_slot_less [OF assms(2), of 0] fd_slot_less [OF assms(2), of 1] fd_slot_less [OF assms(2), of 2]
      by (auto simp: nth_list_update)
  qed
  then have "is_open task fd k' \<longleftrightarrow> fd \<in> {0, 1, 2}" for fd
    using assms(2) by (cases "fd < MAX_FDS") (auto simp: is_open_def)
  then show ?thesis using boot(1) k' by auto
qed

end
