(* ===== verification/Kernel_Io.thy ===== *)
theory Kernel_Io
  imports Kernel_Pipe_Table
begin

text \<open>
  The system calls on descriptors and files, \<^verbatim>\<open>src/kernel/ksys_io.asm\<close>, \<^verbatim>\<open>ksys_fs.asm\<close> and
  \<^verbatim>\<open>console_device.asm\<close>, and the libneox record of calls that a process makes through them,
  \<^verbatim>\<open>src/libneox/cc65\<close>.

  A call first waits for the file I/O gate and then runs alone on the tables; a read or
  write that has to wait gives the gate back and tries again later. In between, other
  processes run: the state of a process's world has, beside the kernel tables, a schedule,
  the batches of calls that the others make each time this process waits. A call that is
  still blocked when the schedule ends never returns.

  The gate itself always succeeds here: a process that makes a call does not hold it, and
  the mailbox is idle whenever the gate is free.
\<close>

section \<open>Console\<close>

abbreviation (input) IDLE_PID :: neox_pid_t where "IDLE_PID \<equiv> 0"
abbreviation (input) PROC_FLAG_SIGINT_INTERRUPT :: byte where "PROC_FLAG_SIGINT_INTERRUPT \<equiv> 8"
abbreviation (input) SIG_INT :: byte where "SIG_INT \<equiv> 2"

definition console_ready_read ::
  "'r rp2350 \<Rightarrow> neox_size_t \<Rightarrow> 'r kernel \<Rightarrow> ((byte + byte list) \<times> 'r kernel) option" where
  "console_ready_read rp n k =
     (if rp_con_rdy rp (rp_state k) then do {
        (res, r) \<leftarrow> rp_con_read rp n (rp_state k);
        Some (res, k\<lparr>rp_state := r\<rparr>) }
      else Some (Inl EAGAIN, k))"

definition console_read ::
  "'r rp2350 \<Rightarrow> neox_pid_t \<Rightarrow> neox_size_t \<Rightarrow> 'r kernel \<Rightarrow> ((byte + byte list) \<times> 'r kernel) option" where
  "console_read rp active_pid n k =
     (if proc_flags k ! unat active_pid AND PROC_FLAG_SIGINT_INTERRUPT \<noteq> 0
         \<and> proc_signal_pending k ! unat active_pid = SIG_INT
      then Some (Inl EINTR, k\<lparr>proc_signal_pending := (proc_signal_pending k)[unat active_pid := 0]\<rparr>)
      else if console_owner_pid k = 0xFF then
        (if active_pid = IDLE_PID then Some (Inr [], k)
         else console_ready_read rp n (k\<lparr>console_owner_pid := active_pid\<rparr>))
      else if console_owner_pid k = active_pid then console_ready_read rp n k
      else Some (Inl EAGAIN, k))"

definition console_write ::
  "'r rp2350 \<Rightarrow> byte list \<Rightarrow> 'r kernel \<Rightarrow> ((byte + neox_size_t) \<times> 'r kernel) option" where
  "console_write rp data k = do {
     (res, r) \<leftarrow> rp_con_write rp data (rp_state k);
     Some (res, k\<lparr>rp_state := r\<rparr>) }"

text \<open>The read and write entries of the device table.\<close>

definition dev_read ::
  "'r rp2350 \<Rightarrow> neox_pid_t \<Rightarrow> byte \<Rightarrow> neox_size_t \<Rightarrow> 'r kernel \<Rightarrow> ((byte + byte list) \<times> 'r kernel) option" where
  "dev_read rp active_pid dev n k =
     (if dev = DEV_CONSOLE then console_read rp active_pid n k else Some (Inl ENODEV, k))"

definition dev_write ::
  "'r rp2350 \<Rightarrow> byte \<Rightarrow> byte list \<Rightarrow> 'r kernel \<Rightarrow> ((byte + neox_size_t) \<times> 'r kernel) option" where
  "dev_write rp dev data k =
     (if dev = DEV_CONSOLE then console_write rp data k else Some (Inl ENODEV, k))"

section \<open>Read and write\<close>

definition fd_read ::
  "'r rp2350 \<Rightarrow> neox_pid_t \<Rightarrow> neox_fd_t \<Rightarrow> neox_size_t \<Rightarrow> 'r kernel \<Rightarrow> ((byte + byte list) \<times> 'r kernel) option" where
  "fd_read rp active_pid fd n k =
     (case fd_resolve_rw active_pid FD_FLAG_READ fd k of
        Inl e \<Rightarrow> Some (Inl e, k)
      | Inr (x, ty, dev) \<Rightarrow>
          if ty = OBJ_PIPE then Some (pipe_read x n k)
          else if ty = OBJ_DEVICE then dev_read rp active_pid dev n k
          else Some (Inl ENODEV, k))"

definition fd_write ::
  "'r rp2350 \<Rightarrow> neox_pid_t \<Rightarrow> neox_fd_t \<Rightarrow> byte list \<Rightarrow> 'r kernel \<Rightarrow> ((byte + neox_size_t) \<times> 'r kernel) option" where
  "fd_write rp active_pid fd data k =
     (case fd_resolve_rw active_pid FD_FLAG_WRITE fd k of
        Inl e \<Rightarrow> Some (Inl e, k)
      | Inr (x, ty, dev) \<Rightarrow>
          if ty = OBJ_PIPE then Some (pipe_write x data k)
          else if ty = OBJ_DEVICE then dev_write rp dev data k
          else Some (Inl ENODEV, k))"

text \<open>
  One pass from the acquisition of the gate to its release: the status with what the call
  returns, or the reason for which the process is blocked.
\<close>

datatype wait = Wait_Console | Wait_Pipe_Read byte | Wait_Pipe_Write byte

datatype 'a pass = Finished 'a | Blocked wait

definition block_or_fail :: "byte \<Rightarrow> wait option \<Rightarrow> 'a \<Rightarrow> (neox_status_t \<times> 'a) pass" where
  "block_or_fail e wt none =
     (case wt of Some w \<Rightarrow> if e = EAGAIN then Blocked w else Finished (e, none) | None \<Rightarrow> Finished (e, none))"

definition ksys_read ::
  "'r rp2350 \<Rightarrow> neox_pid_t \<Rightarrow> neox_fd_t \<Rightarrow> neox_size_t \<Rightarrow> 'r kernel
   \<Rightarrow> ((neox_status_t \<times> neox_size_t \<times> byte list) pass \<times> 'r kernel) option" where
  "ksys_read rp active_pid fd n k =
     (case fd_resolve_rw active_pid FD_FLAG_READ fd k of
        Inl e \<Rightarrow> Some (Finished (e, 0, []), k)
      | Inr (x, ty, dev) \<Rightarrow>
          if ty = OBJ_FILE then do {
            (reply, k) \<leftarrow> rp_fs_exec rp active_pid (Fs_Read (open_file_handle (opens k ! unat x)) n) k;
            Some (Finished (if rp_failed reply then (rp_err reply, 0, rp_stored reply)
              else (NEOX_STATUS_OK, rp_res0 reply, rp_stored reply)), k) }
          else if ty = OBJ_DEVICE \<or> ty = OBJ_PIPE then
            let wt = (if ty = OBJ_PIPE then Some (Wait_Pipe_Read (open_pipe (opens k ! unat x)))
                      else if dev = DEV_CONSOLE then Some Wait_Console else None)
            in do {
              (res, k) \<leftarrow> fd_read rp active_pid fd n k;
              Some (case res of
                  Inr data \<Rightarrow> Finished (NEOX_STATUS_OK, of_nat (length data), data)
                | Inl e \<Rightarrow> block_or_fail e wt (0, []), k) }
          else Some (Finished (ENODEV, 0, []), k))"

definition ksys_write ::
  "'r rp2350 \<Rightarrow> neox_pid_t \<Rightarrow> neox_fd_t \<Rightarrow> byte list \<Rightarrow> 'r kernel
   \<Rightarrow> ((neox_status_t \<times> neox_size_t) pass \<times> 'r kernel) option" where
  "ksys_write rp active_pid fd data k =
     (case fd_resolve_rw active_pid FD_FLAG_WRITE fd k of
        Inl e \<Rightarrow> Some (Finished (e, 0), k)
      | Inr (x, ty, dev) \<Rightarrow>
          if ty = OBJ_FILE then do {
            (reply, k) \<leftarrow> rp_fs_exec rp active_pid (Fs_Write (open_file_handle (opens k ! unat x)) data) k;
            Some (Finished (if rp_failed reply then (rp_err reply, 0) else (NEOX_STATUS_OK, rp_res0 reply)), k) }
          else if ty = OBJ_PIPE \<or> ty = OBJ_DEVICE then
            let wt = (if ty = OBJ_PIPE then Some (Wait_Pipe_Write (open_pipe (opens k ! unat x))) else None)
            in do {
              (res, k) \<leftarrow> fd_write rp active_pid fd data k;
              Some (case res of
                  Inr m \<Rightarrow> Finished (NEOX_STATUS_OK, m)
                | Inl e \<Rightarrow> block_or_fail e wt 0, k) }
          else Some (Finished (ENODEV, 0), k))"

section \<open>Files and directories\<close>

definition upcase :: "byte \<Rightarrow> byte" where
  "upcase c = (if 0x61 \<le> c \<and> c < 0x7B then c - 0x20 else c)"

text \<open>The path up to its NUL byte; the scan gives up after 256 bytes.\<close>

definition ksys_fs_uppercase_path :: "byte list \<Rightarrow> byte + byte list" where
  "ksys_fs_uppercase_path path = (if length path < 256 then Inr (map upcase path) else Inl EINVAL)"

definition open_mode_flags :: "neox_open_mode \<Rightarrow> byte" where
  "open_mode_flags mode =
     (case mode of
        NEOX_OPEN_READ \<Rightarrow> FD_FLAG_READ
      | NEOX_OPEN_WRITE_TRUNC \<Rightarrow> FD_FLAG_WRITE
      | NEOX_OPEN_WRITE_EXISTING \<Rightarrow> FD_FLAG_WRITE
      | _ \<Rightarrow> FD_FLAG_READ OR FD_FLAG_WRITE)"

text \<open>The common transaction of \<open>ksys_open\<close> and \<open>ksys_opendir\<close> once the path is upper case.\<close>

definition open_object_fd ::
  "'r rp2350 \<Rightarrow> neox_pid_t \<Rightarrow> fs_request \<Rightarrow> byte \<Rightarrow> byte \<Rightarrow> 'r kernel
   \<Rightarrow> ((byte + neox_fd_t) \<times> 'r kernel) option" where
  "open_object_fd rp active_pid request ty flags k =
     (case fd_alloc_open k of
        Inl e \<Rightarrow> Some (Inl e, k)
      | Inr x \<Rightarrow>
          (case fd_find_free_current active_pid k of
             Inl e \<Rightarrow> Some (Inl e, fd_free_open x k)
           | Inr fd \<Rightarrow> do {
               (reply, k) \<leftarrow> rp_fs_exec rp active_pid request k;
               if rp_failed reply then Some (Inl (rp_err reply), fd_free_open x k)
               else
                 let k = upd_open x (\<lambda>obj. obj\<lparr>open_file_handle := ucast (rp_res0 reply), open_type := ty,
                       open_flags := flags, open_dev := rp_flags reply\<rparr>) k
                 in Some (Inr fd, fd_attach active_pid fd x flags k) }))"

definition ksys_open ::
  "'r rp2350 \<Rightarrow> neox_pid_t \<Rightarrow> byte list \<Rightarrow> neox_open_mode \<Rightarrow> 'r kernel
   \<Rightarrow> ((byte + neox_fd_t) \<times> 'r kernel) option" where
  "ksys_open rp active_pid path mode k =
     (case ksys_fs_uppercase_path path of
        Inl e \<Rightarrow> Some (Inl e, k)
      | Inr path \<Rightarrow> open_object_fd rp active_pid (Fs_Open path mode) OBJ_FILE (open_mode_flags mode) k)"

definition ksys_opendir ::
  "'r rp2350 \<Rightarrow> neox_pid_t \<Rightarrow> byte list \<Rightarrow> 'r kernel \<Rightarrow> ((byte + neox_fd_t) \<times> 'r kernel) option" where
  "ksys_opendir rp active_pid path k =
     (case ksys_fs_uppercase_path path of
        Inl e \<Rightarrow> Some (Inl e, k)
      | Inr path \<Rightarrow> open_object_fd rp active_pid (Fs_Opendir path) OBJ_DIR FD_FLAG_READ k)"

definition ksys_closedir ::
  "'r rp2350 \<Rightarrow> neox_pid_t \<Rightarrow> neox_fd_t \<Rightarrow> 'r kernel \<Rightarrow> ((byte + unit) \<times> 'r kernel) option" where
  "ksys_closedir rp active_pid fd k =
     (case fd_resolve_dir active_pid fd k of
        Inl e \<Rightarrow> Some (Inl e, k) | Inr _ \<Rightarrow> fd_close rp active_pid fd k)"

text \<open>An operation on the handle of an open file or directory.\<close>

definition ksys_fs_exec_handle ::
  "'r rp2350 \<Rightarrow> neox_pid_t \<Rightarrow> (byte + byte \<times> byte) \<Rightarrow> (byte \<Rightarrow> fs_request) \<Rightarrow> 'r kernel
   \<Rightarrow> ((byte + fs_reply) \<times> 'r kernel) option" where
  "ksys_fs_exec_handle rp active_pid resolved request k =
     (case resolved of
        Inl e \<Rightarrow> Some (Inl e, k)
      | Inr (x, handle) \<Rightarrow> do {
          (reply, k) \<leftarrow> rp_fs_exec rp active_pid (request handle) k;
          Some (if rp_failed reply then Inl (rp_err reply) else Inr reply, k) })"

definition ksys_seek ::
  "'r rp2350 \<Rightarrow> neox_pid_t \<Rightarrow> neox_fd_t \<Rightarrow> 32 word \<Rightarrow> neox_seek_whence \<Rightarrow> 'r kernel
   \<Rightarrow> ((byte + fs_reply) \<times> 'r kernel) option" where
  "ksys_seek rp active_pid fd offset whence k =
     ksys_fs_exec_handle rp active_pid (fd_resolve_file active_pid fd k) (\<lambda>h. Fs_Seek h offset whence) k"

definition ksys_tell ::
  "'r rp2350 \<Rightarrow> neox_pid_t \<Rightarrow> neox_fd_t \<Rightarrow> 'r kernel \<Rightarrow> ((byte + fs_reply) \<times> 'r kernel) option" where
  "ksys_tell rp active_pid fd k = ksys_fs_exec_handle rp active_pid (fd_resolve_file active_pid fd k) Fs_Tell k"

definition ksys_readdir ::
  "'r rp2350 \<Rightarrow> neox_pid_t \<Rightarrow> neox_fd_t \<Rightarrow> 'r kernel \<Rightarrow> ((byte + fs_reply) \<times> 'r kernel) option" where
  "ksys_readdir rp active_pid fd k =
     ksys_fs_exec_handle rp active_pid (fd_resolve_dir active_pid fd k) Fs_Readdir k"

text \<open>An operation on pathnames that needs no handle; every path is put in upper case.\<close>

definition ksys_fs_exec_no_handle ::
  "'r rp2350 \<Rightarrow> neox_pid_t \<Rightarrow> byte + fs_request \<Rightarrow> 'r kernel \<Rightarrow> ((byte + fs_reply) \<times> 'r kernel) option" where
  "ksys_fs_exec_no_handle rp active_pid request k =
     (case request of
        Inl e \<Rightarrow> Some (Inl e, k)
      | Inr q \<Rightarrow> do {
          (reply, k) \<leftarrow> rp_fs_exec rp active_pid q k;
          Some (if rp_failed reply then Inl (rp_err reply) else Inr reply, k) })"

definition one_path :: "(byte list \<Rightarrow> fs_request) \<Rightarrow> byte list \<Rightarrow> byte + fs_request" where
  "one_path request path =
     (case ksys_fs_uppercase_path path of Inl e \<Rightarrow> Inl e | Inr path \<Rightarrow> Inr (request path))"

definition two_paths :: "byte list \<Rightarrow> byte list \<Rightarrow> byte + fs_request" where
  "two_paths old_path new_path =
     (case ksys_fs_uppercase_path old_path of
        Inl e \<Rightarrow> Inl e
      | Inr old_path \<Rightarrow>
          (case ksys_fs_uppercase_path new_path of
             Inl e \<Rightarrow> Inl e | Inr new_path \<Rightarrow> Inr (Fs_Rename old_path new_path)))"

text \<open>
  A whole file to the caller's memory and back: \<open>rp_stored\<close> holds the bytes that the RP put at the
  destination, at most \<open>max_bytes\<close>; the data to save are the bytes at the source.
\<close>

definition ksys_load_file_to_memory ::
  "'r rp2350 \<Rightarrow> neox_pid_t \<Rightarrow> byte list \<Rightarrow> neox_size_t \<Rightarrow> 'r kernel \<Rightarrow> ((byte + fs_reply) \<times> 'r kernel) option" where
  "ksys_load_file_to_memory rp active_pid path max_bytes k =
     ksys_fs_exec_no_handle rp active_pid (one_path (\<lambda>path. Fs_Load path max_bytes) path) k"

definition ksys_save_memory_to_file ::
  "'r rp2350 \<Rightarrow> neox_pid_t \<Rightarrow> byte list \<Rightarrow> byte list \<Rightarrow> 'r kernel \<Rightarrow> ((byte + fs_reply) \<times> 'r kernel) option" where
  "ksys_save_memory_to_file rp active_pid path data k =
     ksys_fs_exec_no_handle rp active_pid (one_path (\<lambda>path. Fs_Save path data) path) k"

end
