(* ===== verification/Kernel_Sched.thy ===== *)
theory Kernel_Sched
  imports Kernel_Io
begin

text \<open>
  Process states, wait reasons and the selection of the next process,
  \<^verbatim>\<open>src/kernel/scheduler.asm\<close>. The state is the part of the process table that these routines
  use; saving and restoring a stack and switching the MMU context are left out.

  The lemmas: a scan after the cursor looks at every normal process once; selecting a process
  leaves exactly one RUNNING; a process that stays ready is selected after at most seven
  selections; waking and blocking.
\<close>

section \<open>State\<close>

abbreviation (input) FIRST_TASK_PID :: neox_pid_t where "FIRST_TASK_PID \<equiv> 1"

abbreviation (input) PROC_EMPTY :: byte where "PROC_EMPTY \<equiv> 0"
abbreviation (input) PROC_NEW :: byte where "PROC_NEW \<equiv> 1"
abbreviation (input) PROC_READY :: byte where "PROC_READY \<equiv> 2"
abbreviation (input) PROC_RUNNING :: byte where "PROC_RUNNING \<equiv> 3"
abbreviation (input) PROC_BLOCKED :: byte where "PROC_BLOCKED \<equiv> 4"
abbreviation (input) PROC_STOPPED :: byte where "PROC_STOPPED \<equiv> 5"
abbreviation (input) PROC_ZOMBIE :: byte where "PROC_ZOMBIE \<equiv> 6"

abbreviation (input) WAIT_NONE :: byte where "WAIT_NONE \<equiv> 0"
abbreviation (input) WAIT_CONSOLE :: byte where "WAIT_CONSOLE \<equiv> 1"
abbreviation (input) WAIT_PIPE_READ :: byte where "WAIT_PIPE_READ \<equiv> 3"
abbreviation (input) WAIT_LOCK :: byte where "WAIT_LOCK \<equiv> 6"
abbreviation (input) WAIT_PIPE_WRITE :: byte where "WAIT_PIPE_WRITE \<equiv> 7"

record sched =
  proc_states :: "byte list"
  wait_reasons :: "byte list"
  wait_objects :: "byte list"
  sched_cursor_pid :: neox_pid_t

section \<open>Routines\<close>

definition proc_set_state :: "neox_pid_t \<Rightarrow> byte \<Rightarrow> sched \<Rightarrow> sched" where
  "proc_set_state x st s = s\<lparr>proc_states := (proc_states s)[unat x := st]\<rparr>"

definition proc_clear_wait :: "neox_pid_t \<Rightarrow> sched \<Rightarrow> sched" where
  "proc_clear_wait x s =
     s\<lparr>wait_reasons := (wait_reasons s)[unat x := WAIT_NONE], wait_objects := (wait_objects s)[unat x := 0]\<rparr>"

definition proc_set_wait :: "neox_pid_t \<Rightarrow> byte \<Rightarrow> byte \<Rightarrow> sched \<Rightarrow> sched" where
  "proc_set_wait x reason object s =
     (if x = IDLE_PID then s
      else proc_set_state x PROC_BLOCKED
        (s\<lparr>wait_reasons := (wait_reasons s)[unat x := reason], wait_objects := (wait_objects s)[unat x := object]\<rparr>))"

definition proc_wake :: "neox_pid_t \<Rightarrow> sched \<Rightarrow> sched" where
  "proc_wake x s =
     (if proc_states s ! unat x \<noteq> PROC_BLOCKED then s else proc_set_state x PROC_READY (proc_clear_wait x s))"

text \<open>The bounded scan in a circle over the normal processes, from the one after the cursor.\<close>

definition scan_start :: "neox_pid_t \<Rightarrow> neox_pid_t" where
  "scan_start cursor =
     (if cursor < FIRST_TASK_PID then FIRST_TASK_PID
      else if cursor + 1 = MAX_PROCS then FIRST_TASK_PID else cursor + 1)"

definition scan_next :: "neox_pid_t \<Rightarrow> neox_pid_t" where
  "scan_next x = (if x + 1 = MAX_PROCS then FIRST_TASK_PID else x + 1)"

fun scan_circle :: "(neox_pid_t \<Rightarrow> bool) \<Rightarrow> nat \<Rightarrow> neox_pid_t \<Rightarrow> neox_pid_t option" where
  "scan_circle p 0 x = None"
| "scan_circle p (Suc n) x = (if p x then Some x else scan_circle p n (scan_next x))"

definition waits_for :: "byte \<Rightarrow> byte \<Rightarrow> sched \<Rightarrow> neox_pid_t \<Rightarrow> bool" where
  "waits_for reason object s x \<longleftrightarrow> proc_states s ! unat x = PROC_BLOCKED
     \<and> wait_reasons s ! unat x = reason \<and> wait_objects s ! unat x = object"

definition scheduler_wake_one :: "byte \<Rightarrow> byte \<Rightarrow> sched \<Rightarrow> bool \<times> sched" where
  "scheduler_wake_one reason object s =
     (case scan_circle (waits_for reason object s) 7 (scan_start (sched_cursor_pid s)) of
        None \<Rightarrow> (False, s) | Some x \<Rightarrow> (True, proc_wake x s))"

definition runnable :: "sched \<Rightarrow> neox_pid_t \<Rightarrow> bool" where
  "runnable s x \<longleftrightarrow> proc_states s ! unat x = PROC_NEW \<or> proc_states s ! unat x = PROC_READY"

definition sched_pick_next :: "sched \<Rightarrow> neox_pid_t" where
  "sched_pick_next s =
     (case scan_circle (runnable s) 7 (scan_start (sched_cursor_pid s)) of
        Some x \<Rightarrow> x
      | None \<Rightarrow>
          (case scan_circle (\<lambda>x. proc_states s ! unat x = PROC_RUNNING) 7 FIRST_TASK_PID of
             Some x \<Rightarrow> x | None \<Rightarrow> IDLE_PID))"

definition proc_set_running :: "neox_pid_t \<Rightarrow> sched \<Rightarrow> sched" where
  "proc_set_running x s =
     (let demoted = map (\<lambda>st. if st = PROC_RUNNING then PROC_READY else st) (proc_states s)
      in s\<lparr>proc_states := demoted[unat x := PROC_RUNNING], sched_cursor_pid := x\<rparr>)"

text \<open>The common end of every entry: select and commit. Saving the interrupted process comes before.\<close>

definition sched_switch_context :: "sched \<Rightarrow> sched" where
  "sched_switch_context s = proc_set_running (sched_pick_next s) s"

definition sched_save :: "neox_pid_t \<Rightarrow> sched \<Rightarrow> sched" where
  "sched_save active_pid s =
     (if active_pid \<noteq> IDLE_PID \<and> proc_states s ! unat active_pid = PROC_RUNNING
      then proc_set_state active_pid PROC_READY s else s)"

text \<open>
  Runs. Between two switches the kernel blocks processes, wakes them and sets their states
  (a new process, a stop or continue signal, the end of a process).
\<close>

datatype sched_event =
    Switch neox_pid_t
  | Set_Wait neox_pid_t byte byte
  | Wake_One byte byte
  | Set_State neox_pid_t byte

fun sched_step :: "sched_event \<Rightarrow> sched \<Rightarrow> sched" where
  "sched_step (Switch active_pid) s = sched_switch_context (sched_save active_pid s)"
| "sched_step (Set_Wait x reason object) s = proc_set_wait x reason object s"
| "sched_step (Wake_One reason object) s = snd (scheduler_wake_one reason object s)"
| "sched_step (Set_State x st) s = proc_set_state x st s"

fun is_switch :: "sched_event \<Rightarrow> bool" where
  "is_switch (Switch _) = True"
| "is_switch _ = False"

text \<open>The processes that a run selects, in order.\<close>

primrec selections :: "sched_event list \<Rightarrow> sched \<Rightarrow> neox_pid_t list" where
  "selections [] s = []"
| "selections (e # es) s =
     (if is_switch e then [sched_cursor_pid (sched_step e s)] else []) @ selections es (sched_step e s)"

text \<open>A process can run in every state of the run until it is selected.\<close>

primrec ready_until_selected :: "neox_pid_t \<Rightarrow> sched_event list \<Rightarrow> sched \<Rightarrow> bool" where
  "ready_until_selected x [] s \<longleftrightarrow> True"
| "ready_until_selected x (e # es) s \<longleftrightarrow> runnable s x \<and>
     (is_switch e \<and> sched_cursor_pid (sched_step e s) = x \<or> ready_until_selected x es (sched_step e s))"

text \<open>Closing one end of a pipe wakes every process that waits for the other.\<close>

partial_function (option) wake_all :: "byte \<Rightarrow> byte \<Rightarrow> sched \<Rightarrow> sched option" where
  "wake_all reason object s =
     (case scheduler_wake_one reason object s of
        (woken, s') \<Rightarrow> if woken then wake_all reason object s' else Some s')"

declare wake_all.simps [code]

section \<open>The table\<close>

definition sched_wf :: "sched \<Rightarrow> bool" where
  "sched_wf s \<longleftrightarrow> length (proc_states s) = 8 \<and> length (wait_reasons s) = 8 \<and> length (wait_objects s) = 8
     \<and> sched_cursor_pid s < MAX_PROCS"

lemma sched_wf_routines [simp]:
  "sched_wf (proc_set_state x st s) = sched_wf s" "sched_wf (proc_clear_wait x s) = sched_wf s"
  "sched_wf (proc_set_wait x r ob s) = sched_wf s" "sched_wf (proc_wake x s) = sched_wf s"
  by (simp_all add: sched_wf_def proc_set_state_def proc_clear_wait_def proc_set_wait_def proc_wake_def)

lemma pid_less: "x < MAX_PROCS \<longleftrightarrow> unat x < 8" for x :: neox_pid_t
  by (simp add: word_less_nat_alt)

lemma set_wait_waits:
  assumes "sched_wf s" and "x < MAX_PROCS" and "x \<noteq> IDLE_PID"
  shows "waits_for r ob (proc_set_wait x r ob s) x"
  using assms by (simp add: waits_for_def proc_set_wait_def proc_set_state_def sched_wf_def pid_less)

lemma set_wait_other:
  assumes "y \<noteq> x"
  shows "waits_for r ob (proc_set_wait x r' ob' s) y = waits_for r ob s y"
  using assms by (simp add: waits_for_def proc_set_wait_def proc_set_state_def word_unat_eq_iff)

lemma wake_ready:
  assumes "sched_wf s" and "x < MAX_PROCS" and "waits_for r ob s x"
  shows "proc_states (proc_wake x s) ! unat x = PROC_READY" and "wait_reasons (proc_wake x s) ! unat x = WAIT_NONE"
  using assms
  by (simp_all add: waits_for_def proc_wake_def proc_set_state_def proc_clear_wait_def sched_wf_def pid_less)

lemma wake_other:
  assumes "y \<noteq> x"
  shows "waits_for r ob (proc_wake x s) y = waits_for r ob s y"
  using assms by (simp add: waits_for_def proc_wake_def proc_set_state_def proc_clear_wait_def word_unat_eq_iff)

section \<open>The scan\<close>

text \<open>Positions in the circle: the normal processes 1 to 7 as 0 to 6.\<close>

definition slot_of :: "neox_pid_t \<Rightarrow> nat" where
  "slot_of x = unat x - 1"

definition pid_at :: "nat \<Rightarrow> neox_pid_t" where
  "pid_at n = of_nat (n mod 7 + 1)"

definition normal :: "neox_pid_t \<Rightarrow> bool" where
  "normal x \<longleftrightarrow> FIRST_TASK_PID \<le> x \<and> x < MAX_PROCS"

lemma normal_unat: "normal x \<longleftrightarrow> 1 \<le> unat x \<and> unat x < 8"
  by (simp add: normal_def word_less_nat_alt word_le_nat_alt)

lemma normalD: "normal x \<Longrightarrow> x < MAX_PROCS" "normal x \<Longrightarrow> x \<noteq> IDLE_PID"
  by (auto simp: normal_def)

lemma unat_pid_at: "unat (pid_at n) = n mod 7 + 1"
proof -
  have "n mod 7 + 1 < 256" using mod_less_divisor [of 7 n] by linarith
  then show ?thesis unfolding pid_at_def by (subst unat_of_nat) (simp add: take_bit_eq_mod)
qed

lemma normal_pid_at [simp]: "normal (pid_at n)"
  using mod_less_divisor [of 7 n] by (simp only: normal_unat unat_pid_at) linarith

lemma slot_pid_at [simp]: "slot_of (pid_at n) = n mod 7"
  by (simp add: slot_of_def unat_pid_at)

lemma slot_less: "normal x \<Longrightarrow> slot_of x < 7"
  by (simp add: normal_unat slot_of_def) linarith

lemma pid_at_slot: "normal x \<Longrightarrow> pid_at (slot_of x) = x"
  using slot_less [of x] by (simp add: word_unat_eq_iff unat_pid_at normal_unat) (simp add: slot_of_def)

text \<open>Offsets in a circle of seven.\<close>

lemma circle_offset:
  fixes m s :: nat
  assumes "s < 7" shows "(m + (s + 7 - m mod 7) mod 7) mod 7 = s"
proof -
  have mod: "(m + x mod 7) mod 7 = (m mod 7 + x) mod 7" for x by (simp add: mod_simps)
  have "m mod 7 + (s + 7 - m mod 7) = s + 7" using mod_less_divisor [of 7 m] by linarith
  then show ?thesis using assms by (simp only: mod) simp
qed

lemma circle_offset_back:
  fixes m i :: nat
  assumes "i < 7" shows "((m + i) mod 7 + 7 - m mod 7) mod 7 = i"
proof -
  have r: "m mod 7 < 7" by simp
  have mod: "(m + i) mod 7 = (m mod 7 + i) mod 7" by (simp add: mod_simps)
  show ?thesis
  proof (cases "m mod 7 + i < 7")
    case True
    then have "(m + i) mod 7 + 7 - m mod 7 = i + 7" using mod by simp
    then show ?thesis using assms by simp
  next
    case False
    then have "(m mod 7 + i) mod 7 = m mod 7 + i - 7" using r assms by (simp add: le_mod_geq del: mod_add_left_eq)
    then have "(m + i) mod 7 + 7 - m mod 7 = i" using mod False by linarith
    then show ?thesis using assms by simp
  qed
qed

lemma circle_offset_step:
  fixes m i j :: nat
  assumes "i < j" shows "((m + i) mod 7 + 1 + (j - i - 1)) mod 7 = (m + j) mod 7"
proof -
  have "(m + i) mod 7 + 1 + (j - i - 1) = (m + i) mod 7 + (j - i)" using assms by simp
  then show ?thesis using assms by (simp only: mod_add_left_eq) simp
qed

lemma pid_at_mod: "m mod 7 = n mod 7 \<Longrightarrow> pid_at m = pid_at n"
  by (simp add: pid_at_def)

lemma scan_next_pid_at: "scan_next (pid_at n) = pid_at (Suc n)"
proof -
  have u: "unat (pid_at n + 1) = n mod 7 + 2"
    using mod_less_divisor [of 7 n] unat_byte_Suc [of "pid_at n"] by (simp add: unat_pid_at)
  show ?thesis
  proof (cases "n mod 7 = 6")
    case True
    then have "Suc n mod 7 = 0" by (simp add: mod_Suc)
    then show ?thesis using True u by (simp add: scan_next_def word_unat_eq_iff unat_pid_at)
  next
    case False
    then have "Suc n mod 7 = Suc (n mod 7)" by (simp add: mod_Suc)
    then show ?thesis using False u by (simp add: scan_next_def word_unat_eq_iff unat_pid_at)
  qed
qed

lemma scan_start_pid_at:
  assumes "cursor < MAX_PROCS"
  shows "scan_start cursor = pid_at (unat cursor)"
proof (cases "normal cursor")
  case True
  then have "scan_start cursor = scan_next cursor" by (simp add: scan_start_def scan_next_def normal_def not_less)
  also have "\<dots> = scan_next (pid_at (slot_of cursor))" by (simp add: pid_at_slot [OF True])
  also have "\<dots> = pid_at (unat cursor)" using True by (simp add: scan_next_pid_at slot_of_def normal_unat)
  finally show ?thesis .
next
  case False
  then have "unat cursor = 0" using assms by (simp add: normal_unat pid_less)
  then show ?thesis by (simp add: scan_start_def word_unat_eq_iff unat_pid_at word_less_nat_alt)
qed

text \<open>The scan finds the first process in circular order, and misses none.\<close>

lemma scan_circle_Some:
  "scan_circle p n (pid_at m) = Some x \<Longrightarrow>
   \<exists>i < n. x = pid_at (m + i) \<and> p x \<and> (\<forall>j < i. \<not> p (pid_at (m + j)))"
proof (induction n arbitrary: m)
  case (Suc n)
  show ?case
  proof (cases "p (pid_at m)")
    case True
    then show ?thesis using Suc.prems by (intro exI [of _ 0]) simp
  next
    case False
    then have "scan_circle p n (pid_at (Suc m)) = Some x" using Suc.prems by (simp add: scan_next_pid_at)
    from Suc.IH [OF this] obtain i where i: "i < n" "x = pid_at (Suc m + i)" "p x" "\<forall>j < i. \<not> p (pid_at (Suc m + j))"
      by auto
    have "\<not> p (pid_at (m + j))" if "j < Suc i" for j
      using that False i(4) by (cases j) simp_all
    then show ?thesis using i by (intro exI [of _ "Suc i"]) simp
  qed
qed simp

lemma scan_circle_None:
  "scan_circle p n (pid_at m) = None \<longleftrightarrow> (\<forall>i < n. \<not> p (pid_at (m + i)))"
proof (induction n arbitrary: m)
  case (Suc n)
  have "(\<forall>i < Suc n. \<not> p (pid_at (m + i))) \<longleftrightarrow> \<not> p (pid_at m) \<and> (\<forall>i < n. \<not> p (pid_at (Suc m + i)))"
    by (auto simp: less_Suc_eq_0_disj)
  then show ?case using Suc.IH [of "Suc m"] by (simp add: scan_next_pid_at)
qed simp

lemma circle_covers:
  assumes "normal x" shows "\<exists>i < 7. x = pid_at (m + i)"
proof -
  let ?i = "(slot_of x + 7 - m mod 7) mod 7"
  have "(m + ?i) mod 7 = slot_of x mod 7" using slot_less [OF assms] circle_offset [of "slot_of x" m] by simp
  then have "pid_at (m + ?i) = pid_at (slot_of x)" by (rule pid_at_mod)
  then show ?thesis using pid_at_slot [OF assms] by (intro exI [of _ ?i]) simp
qed

lemma scan_circle_all: "scan_circle p 7 (pid_at m) = None \<longleftrightarrow> (\<forall>x. normal x \<longrightarrow> \<not> p x)"
  using circle_covers [of _ m] by (auto simp: scan_circle_None)

section \<open>Waking\<close>

lemma scheduler_wake_one_result:
  assumes "sched_wf s"
  shows "if \<exists>x. normal x \<and> waits_for r ob s x
    then \<exists>x. normal x \<and> waits_for r ob s x \<and> scheduler_wake_one r ob s = (True, proc_wake x s)
    else scheduler_wake_one r ob s = (False, s)"
proof -
  let ?c = "pid_at (unat (sched_cursor_pid s))"
  have start: "scan_start (sched_cursor_pid s) = ?c"
    by (rule scan_start_pid_at) (use assms in \<open>simp add: sched_wf_def\<close>)
  show ?thesis
  proof (cases "scan_circle (waits_for r ob s) 7 ?c")
    case None
    then show ?thesis using start scan_circle_all [of "waits_for r ob s"] by (simp add: scheduler_wake_one_def)
  next
    case (Some x)
    then have "waits_for r ob s x" "normal x" using scan_circle_Some [OF Some] by auto
    then show ?thesis using start Some by (auto simp: scheduler_wake_one_def)
  qed
qed

section \<open>Selecting\<close>

lemma set_running_single:
  assumes "sched_wf s" and "x < MAX_PROCS" and "y < MAX_PROCS"
  shows "proc_states (proc_set_running x s) ! unat y = PROC_RUNNING \<longleftrightarrow> y = x"
  using assms by (auto simp: proc_set_running_def Let_def sched_wf_def pid_less nth_list_update word_unat_eq_iff)

lemma set_running_wf: "sched_wf s \<Longrightarrow> x < MAX_PROCS \<Longrightarrow> sched_wf (proc_set_running x s)"
  by (simp add: proc_set_running_def Let_def sched_wf_def)

text \<open>Distance in the circle from the cursor to a process, 0 for the next one.\<close>

definition circle_distance :: "neox_pid_t \<Rightarrow> neox_pid_t \<Rightarrow> nat" where
  "circle_distance cursor x = (slot_of x + 7 - unat cursor mod 7) mod 7"

lemma circle_distance_eq:
  assumes "x = pid_at (unat cursor + i)" and "i < 7"
  shows "circle_distance cursor x = i"
  using assms circle_offset_back [of i "unat cursor"] by (simp add: circle_distance_def)

lemma sched_pick_runnable:
  assumes "sched_wf s" and "normal x" and "runnable s x"
  shows "normal (sched_pick_next s)" and "runnable s (sched_pick_next s)"
    and "circle_distance (sched_cursor_pid s) (sched_pick_next s) \<le> circle_distance (sched_cursor_pid s) x"
proof -
  let ?m = "unat (sched_cursor_pid s)"
  have start: "scan_start (sched_cursor_pid s) = pid_at ?m"
    by (rule scan_start_pid_at) (use assms(1) in \<open>simp add: sched_wf_def\<close>)
  obtain y where y: "scan_circle (runnable s) 7 (pid_at ?m) = Some y"
    using scan_circle_all [of "runnable s" ?m] assms(2,3) by (cases "scan_circle (runnable s) 7 (pid_at ?m)") auto
  then have pick: "sched_pick_next s = y" using start by (simp add: sched_pick_next_def)
  from scan_circle_Some [OF y] obtain i where i: "i < 7" "y = pid_at (?m + i)" "runnable s y"
    "\<forall>j < i. \<not> runnable s (pid_at (?m + j))" by auto
  from circle_covers [OF assms(2), of ?m] obtain j where j: "j < 7" "x = pid_at (?m + j)" by auto
  have "i \<le> j" using i(4) assms(3) j(2) by (meson not_le)
  then show "circle_distance (sched_cursor_pid s) (sched_pick_next s) \<le> circle_distance (sched_cursor_pid s) x"
    using pick i j by (simp add: circle_distance_eq)
  show "normal (sched_pick_next s)" "runnable s (sched_pick_next s)" using pick i by simp_all
qed

text \<open>A process that was passed over is nearer to the new cursor.\<close>

lemma circle_distance_step:
  assumes "normal y" and "normal x" and "cursor < MAX_PROCS" and "y \<noteq> x"
    and "circle_distance cursor y \<le> circle_distance cursor x"
  shows "circle_distance y x < circle_distance cursor x"
proof -
  obtain i where i: "i < 7" "y = pid_at (unat cursor + i)" using circle_covers [OF assms(1)] by blast
  obtain j where j: "j < 7" "x = pid_at (unat cursor + j)" using circle_covers [OF assms(2)] by blast
  have ij: "i < j" using assms(4,5) i j circle_distance_eq [OF i(2,1)] circle_distance_eq [OF j(2,1)]
    by (metis le_neq_implies_less)
  have "unat y = (unat cursor + i) mod 7 + 1" using i(2) by (simp add: unat_pid_at)
  then have "(unat y + (j - i - 1)) mod 7 = (unat cursor + j) mod 7"
    using circle_offset_step [OF ij, of "unat cursor"] by simp
  then have "x = pid_at (unat y + (j - i - 1))" using j(2) pid_at_mod [of "unat y + (j - i - 1)"] by simp
  then have "circle_distance y x = j - i - 1" by (rule circle_distance_eq) (use j in simp)
  then show ?thesis using circle_distance_eq [OF j(2,1)] ij by simp
qed

section \<open>Runs\<close>

lemma sched_save_facts [simp]:
  "sched_wf (sched_save p s) = sched_wf s" "sched_cursor_pid (sched_save p s) = sched_cursor_pid s"
  by (simp_all add: sched_save_def) (simp add: proc_set_state_def)

lemma sched_save_runnable: "sched_wf s \<Longrightarrow> x < MAX_PROCS \<Longrightarrow> runnable s x \<Longrightarrow> runnable (sched_save p s) x"
  by (cases "unat x = unat p") (auto simp: sched_save_def runnable_def proc_set_state_def sched_wf_def pid_less)

lemma sched_step_cursor: "\<not> is_switch e \<Longrightarrow> sched_cursor_pid (sched_step e s) = sched_cursor_pid s"
  by (cases e) (simp_all add: proc_set_wait_def proc_set_state_def scheduler_wake_one_def proc_wake_def
      proc_clear_wait_def split: option.split)

lemma wake_one_wf: "sched_wf s \<Longrightarrow> sched_wf (snd (scheduler_wake_one r ob s))"
  by (simp add: scheduler_wake_one_def split: option.split)

lemma sched_pick_cases:
  assumes "sched_wf s"
  shows "sched_pick_next s = IDLE_PID \<or> normal (sched_pick_next s) \<and>
    (runnable s (sched_pick_next s) \<or> proc_states s ! unat (sched_pick_next s) = PROC_RUNNING)"
proof -
  have "scan_start (sched_cursor_pid s) = pid_at (unat (sched_cursor_pid s))"
    by (rule scan_start_pid_at) (use assms in \<open>simp add: sched_wf_def\<close>)
  moreover have "scan_circle p 7 FIRST_TASK_PID = scan_circle p 7 (pid_at 0)" for p by (simp add: pid_at_def)
  moreover have "normal x \<and> p x" if "scan_circle p 7 (pid_at m) = Some x" for p m x
    using scan_circle_Some [OF that] by auto
  ultimately show ?thesis by (auto simp: sched_pick_next_def split: option.split)
qed

lemma pick_less: "sched_wf s \<Longrightarrow> sched_pick_next s < MAX_PROCS"
  using sched_pick_cases [of s] by (auto simp: normal_def)

lemma sched_switch_facts:
  assumes "sched_wf s"
  shows "sched_wf (sched_switch_context s)" and "sched_cursor_pid (sched_switch_context s) = sched_pick_next s"
    and "\<forall>y < MAX_PROCS. proc_states (sched_switch_context s) ! unat y = PROC_RUNNING \<longleftrightarrow> y = sched_pick_next s"
  using set_running_wf [OF assms pick_less [OF assms]] set_running_single [OF assms pick_less [OF assms]]
  by (simp_all add: sched_switch_context_def) (simp add: proc_set_running_def Let_def)

lemma sched_step_wf: "sched_wf s \<Longrightarrow> sched_wf (sched_step e s)"
  by (cases e) (simp_all add: sched_switch_facts wake_one_wf)

text \<open>Each selection of another process brings a waiting one nearer.\<close>

lemma passed_over:
  assumes "sched_wf s" and "normal x" and "ready_until_selected x es s" and "x \<notin> set (selections es s)"
  shows "length (selections es s) \<le> circle_distance (sched_cursor_pid s) x"
  using assms
proof (induction es arbitrary: s)
  case (Cons e es)
  let ?s = "sched_step e s"
  have run: "runnable s x" "ready_until_selected x es ?s" "x \<notin> set (selections es ?s)"
    using Cons.prems(3,4) by (auto split: if_splits)
  have ih: "length (selections es ?s) \<le> circle_distance (sched_cursor_pid ?s) x"
    by (rule Cons.IH [OF sched_step_wf [OF Cons.prems(1)] assms(2) run(2,3)])
  show ?case
  proof (cases e)
    case (Switch p)
    let ?t = "sched_save p s"
    have t: "sched_wf ?t" "runnable ?t x"
      using Cons.prems(1) sched_save_runnable run(1) assms(2) by (simp_all add: normal_def)
    note pick = sched_pick_runnable [OF t(1) assms(2) t(2)]
    have c: "sched_cursor_pid ?s = sched_pick_next ?t" using Switch sched_switch_facts(2) [OF t(1)] by simp
    have "sched_pick_next ?t \<noteq> x" using Cons.prems(4) Switch c by auto
    then have "circle_distance (sched_pick_next ?t) x < circle_distance (sched_cursor_pid s) x"
      using circle_distance_step [OF pick(1) assms(2) _ _ pick(3)] Cons.prems(1) by (simp add: sched_wf_def)
    then show ?thesis using ih c Switch by simp
  qed (use ih sched_step_cursor [of e s] in simp_all)
qed simp

lemma circle_distance_less: "circle_distance c x < 7"
  by (simp add: circle_distance_def)

text \<open>Neither a switch nor a wake-up for another reason touches a waiting process.\<close>

lemma switch_keeps_waiters:
  assumes "sched_wf s" and "normal x"
  shows "waits_for r ob (sched_switch_context (sched_save p s)) x = waits_for r ob s x"
proof -
  let ?t = "sched_save p s"
  have lt: "x < MAX_PROCS" using assms(2) by (simp add: normal_def)
  have t: "sched_wf ?t" "waits_for r ob ?t x = waits_for r ob s x"
    using assms(1) lt
    by (cases "unat x = unat p"; simp add: sched_save_def waits_for_def proc_set_state_def sched_wf_def pid_less)+
  have "proc_states ?t ! unat x \<noteq> PROC_BLOCKED" if "x = sched_pick_next ?t"
    using sched_pick_cases [OF t(1)] that assms(2) by (auto simp: runnable_def normal_def)
  then show ?thesis
    using t lt
    by (cases "x = sched_pick_next ?t")
      (auto simp: sched_switch_context_def proc_set_running_def Let_def waits_for_def sched_wf_def pid_less
        word_unat_eq_iff)
qed

lemma wake_one_other:
  assumes "sched_wf s" and "normal x" and "(r, ob) \<noteq> (r', ob')"
  shows "waits_for r' ob' (snd (scheduler_wake_one r ob s)) x = waits_for r' ob' s x"
proof (cases "\<exists>y. normal y \<and> waits_for r ob s y")
  case True
  then obtain y where y: "waits_for r ob s y" "scheduler_wake_one r ob s = (True, proc_wake y s)"
    using scheduler_wake_one_result [OF assms(1), of r ob] by auto
  then have "\<not> waits_for r' ob' s y" using assms(3) by (auto simp: waits_for_def)
  moreover have "\<not> waits_for r' ob' (proc_wake x s) x" if "y = x"
    using wake_ready(1) [OF assms(1), of x] y(1) assms(2) that by (auto simp: waits_for_def normal_def)
  ultimately show ?thesis using y(2) wake_other [of x y] by (cases "x = y") auto
next
  case False
  then show ?thesis using scheduler_wake_one_result [OF assms(1), of r ob] by simp
qed

section \<open>Waking all\<close>

text \<open>What waking may do to one process.\<close>

lemma wake_effect:
  assumes "sched_wf s" and "x < MAX_PROCS" and "waits_for r ob s x" and "y < MAX_PROCS"
  shows "proc_states (proc_wake x s) ! unat y = (if y = x then PROC_READY else proc_states s ! unat y)"
  using assms wake_ready(1) [OF assms(1-3)]
  by (auto simp: waits_for_def proc_wake_def proc_set_state_def proc_clear_wait_def word_unat_eq_iff)

lemma wake_all_result:
  assumes "sched_wf s"
  shows "\<exists>s'. wake_all r ob s = Some s' \<and> sched_wf s' \<and> (\<forall>x. normal x \<longrightarrow>
    proc_states s' ! unat x = (if waits_for r ob s x then PROC_READY else proc_states s ! unat x))"
  using assms
proof (induction "card {x. normal x \<and> waits_for r ob s x}" arbitrary: s rule: less_induct)
  case less
  let ?W = "\<lambda>s. {x. normal x \<and> waits_for r ob s x}"
  show ?case
  proof (cases "\<exists>x. normal x \<and> waits_for r ob s x")
    case False
    then have "scheduler_wake_one r ob s = (False, s)" using scheduler_wake_one_result [OF less.prems, of r ob] by simp
    then have "wake_all r ob s = Some s" by (subst wake_all.simps) simp
    then show ?thesis using False less.prems by auto
  next
    case True
    then obtain x where x: "normal x" "waits_for r ob s x" "scheduler_wake_one r ob s = (True, proc_wake x s)"
      using scheduler_wake_one_result [OF less.prems, of r ob] by auto
    let ?s = "proc_wake x s"
    have lt: "x < MAX_PROCS" using x(1) by (simp add: normal_def)
    have no: "\<not> waits_for r ob ?s x" using wake_ready(1) [OF less.prems lt x(2)] by (simp add: waits_for_def)
    have w: "waits_for r ob ?s y \<longleftrightarrow> y \<noteq> x \<and> waits_for r ob s y" for y using no wake_other [of y x r ob s] by auto
    then have "?W ?s = ?W s - {x}" by auto
    then have "card (?W ?s) < card (?W s)" using x card_Diff1_less [of "?W s" x] by simp
    from less.hyps [OF this] less.prems obtain s' where s': "wake_all r ob ?s = Some s'" "sched_wf s'"
      "\<forall>y. normal y \<longrightarrow> proc_states s' ! unat y = (if waits_for r ob ?s y then PROC_READY else proc_states ?s ! unat y)"
      by auto
    have "wake_all r ob s = Some s'" using x(3) s'(1) by (subst wake_all.simps) simp
    moreover have "proc_states s' ! unat y = (if waits_for r ob s y then PROC_READY else proc_states s ! unat y)"
      if "normal y" for y
      using s'(3) that w x wake_effect [OF less.prems lt x(2), of y] by (auto simp: normal_def)
    ultimately show ?thesis using s'(2) by auto
  qed
qed

end
