(* ===== verification/Kernel_Gate.thy ===== *)
theory Kernel_Gate
  imports Kernel_Sched Kernel_Fifo
begin

text \<open>
  The sleepable gates, \<^verbatim>\<open>src/kernel/gate.asm\<close>: an owner and a first-in first-out queue of waiting
  processes, linked through a table with an entry for each process. The gate runs with
  interrupts masked, so each routine is one step; a waiting process tries again when it is
  woken. The check for a pending interrupt signal after a release only yields and is left out.

  The lemmas: the linked queue implements the contract of \<open>Kernel_Fifo\<close>; the processes in it
  are exactly those that are blocked on the gate; a process that is killed leaves it.
\<close>

section \<open>Routines\<close>

abbreviation (input) GATE_OWNER_NONE :: neox_pid_t where "GATE_OWNER_NONE \<equiv> 0xFF"

abbreviation (input) LOCK_ID_FILE_IO :: byte where "LOCK_ID_FILE_IO \<equiv> 0"
abbreviation (input) LOCK_ID_PROC :: byte where "LOCK_ID_PROC \<equiv> 1"

record gate =
  gate_byte :: byte
  gate_owner :: neox_pid_t
  wait_head :: neox_pid_t
  wait_tail :: neox_pid_t
  gate_next :: "neox_pid_t list"

definition gate_init :: "gate \<Rightarrow> gate" where
  "gate_init g = g\<lparr>gate_byte := 0, gate_owner := GATE_OWNER_NONE, wait_head := GATE_OWNER_NONE,
     wait_tail := GATE_OWNER_NONE, gate_next := map (\<lambda>_. GATE_OWNER_NONE) (gate_next g)\<rparr>"

definition gate_enqueue :: "neox_pid_t \<Rightarrow> gate \<Rightarrow> gate" where
  "gate_enqueue x g =
     (let g = g\<lparr>gate_next := (gate_next g)[unat x := GATE_OWNER_NONE]\<rparr> in
      if wait_tail g = GATE_OWNER_NONE then g\<lparr>wait_head := x, wait_tail := x\<rparr>
      else g\<lparr>gate_next := (gate_next g)[unat (wait_tail g) := x], wait_tail := x\<rparr>)"

definition gate_dequeue :: "gate \<Rightarrow> (neox_pid_t \<times> gate) option" where
  "gate_dequeue g =
     (let x = wait_head g in
      if x = GATE_OWNER_NONE then None
      else let next_pid = gate_next g ! unat x;
               g = g\<lparr>wait_head := next_pid\<rparr>;
               g = (if next_pid = GATE_OWNER_NONE then g\<lparr>wait_tail := GATE_OWNER_NONE\<rparr> else g)
           in Some (x, g\<lparr>gate_next := (gate_next g)[unat x := GATE_OWNER_NONE]\<rparr>))"

text \<open>One attempt: the gate is taken, or the caller owns it already, or it has to wait.\<close>

datatype attempt = Acquired | Recursive | Waiting

definition gate_acquire :: "byte \<Rightarrow> neox_pid_t \<Rightarrow> gate \<times> sched \<Rightarrow> attempt \<times> gate \<times> sched" where
  "gate_acquire lock_id active_pid gs =
     (let g = fst gs; s = snd gs; was = gate_byte g AND 1; g = g\<lparr>gate_byte := gate_byte g OR 1\<rparr> in
      if was = 0 then (Acquired, g\<lparr>gate_owner := active_pid\<rparr>, s)
      else if gate_owner g = active_pid then (Recursive, g, s)
      else (Waiting, gate_enqueue active_pid g, proc_set_wait active_pid WAIT_LOCK lock_id s))"

definition gate_release :: "neox_pid_t \<Rightarrow> gate \<times> sched \<Rightarrow> bool \<times> gate \<times> sched" where
  "gate_release active_pid gs =
     (let g = fst gs; s = snd gs in
      if gate_owner g \<noteq> active_pid then (False, g, s)
      else let g = g\<lparr>gate_owner := GATE_OWNER_NONE, gate_byte := gate_byte g AND 0xFE\<rparr> in
        case gate_dequeue g of None \<Rightarrow> (True, g, s) | Some (x, g) \<Rightarrow> (True, g, proc_wake x s))"

text \<open>Removal from the queue. The scan ends when the queue does, so it may not end.\<close>

partial_function (option) find_predecessor :: "neox_pid_t \<Rightarrow> neox_pid_t list \<Rightarrow> neox_pid_t \<Rightarrow> neox_pid_t option option" where
  "find_predecessor x links y =
     (if y = GATE_OWNER_NONE then Some None
      else if links ! unat y = x then Some (Some y)
      else find_predecessor x links (links ! unat y))"

declare find_predecessor.simps [code]

definition gate_cancel_wait :: "neox_pid_t \<Rightarrow> gate \<Rightarrow> gate option" where
  "gate_cancel_wait x g =
     (let next_pid = gate_next g ! unat x; clear = (\<lambda>g. g\<lparr>gate_next := (gate_next g)[unat x := GATE_OWNER_NONE]\<rparr>) in
      if x = wait_head g then
        (let g = g\<lparr>wait_head := next_pid\<rparr> in
         Some (clear (if next_pid = GATE_OWNER_NONE then g\<lparr>wait_tail := next_pid\<rparr> else g)))
      else
        (case find_predecessor x (gate_next g) (wait_head g) of
           None \<Rightarrow> None
         | Some None \<Rightarrow> Some g
         | Some (Some y) \<Rightarrow>
             let g = g\<lparr>gate_next := (gate_next g)[unat y := next_pid]\<rparr> in
             Some (clear (if x = wait_tail g then g\<lparr>wait_tail := y\<rparr> else g))))"

text \<open>The part of \<open>proc_mark_zombie\<close> that concerns a gate: a killed process leaves the queue.\<close>

definition mark_zombie :: "byte \<Rightarrow> neox_pid_t \<Rightarrow> gate \<times> sched \<Rightarrow> (gate \<times> sched) option" where
  "mark_zombie lock_id x gs =
     (let s = snd gs; s' = proc_set_state x PROC_ZOMBIE (proc_clear_wait x s) in
      if wait_reasons s ! unat x = WAIT_LOCK \<and> wait_objects s ! unat x = lock_id
      then (case gate_cancel_wait x (fst gs) of None \<Rightarrow> None | Some g \<Rightarrow> Some (g, s'))
      else Some (fst gs, s'))"

text \<open>
  The steps of the system that concern one gate. A process makes a call while it runs; a
  process that owns the gate is not killed (\<open>proc_send_signal\<close>); what else happens in the
  scheduler is about other wait reasons or other gates.
\<close>

fun elsewhere :: "byte \<Rightarrow> sched_event \<Rightarrow> sched \<Rightarrow> bool" where
  "elsewhere lock_id (Switch p) s \<longleftrightarrow> True"
| "elsewhere lock_id (Set_Wait p reason object) s \<longleftrightarrow>
     proc_states s ! unat p = PROC_RUNNING \<and> (reason, object) \<noteq> (WAIT_LOCK, lock_id)"
| "elsewhere lock_id (Wake_One reason object) s \<longleftrightarrow> (reason, object) \<noteq> (WAIT_LOCK, lock_id)"
| "elsewhere lock_id (Set_State x st) s \<longleftrightarrow> proc_states s ! unat x \<noteq> PROC_BLOCKED \<and> st \<noteq> PROC_BLOCKED"

inductive gate_step :: "byte \<Rightarrow> gate \<times> sched \<Rightarrow> gate \<times> sched \<Rightarrow> bool" for lock_id where
  acquire: "\<lbrakk>normal p; proc_states (snd gs) ! unat p = PROC_RUNNING; gate_acquire lock_id p gs = (r, gs')\<rbrakk>
    \<Longrightarrow> gate_step lock_id gs gs'"
| release: "\<lbrakk>normal p; gate_release p gs = (r, gs')\<rbrakk> \<Longrightarrow> gate_step lock_id gs gs'"
| kill: "\<lbrakk>normal x; x \<noteq> gate_owner (fst gs); mark_zombie lock_id x gs = Some gs'\<rbrakk> \<Longrightarrow> gate_step lock_id gs gs'"
| elsewhere: "elsewhere lock_id e (snd gs) \<Longrightarrow> gate_step lock_id gs (fst gs, sched_step e (snd gs))"

section \<open>The queue\<close>

text \<open>The links lead from \<open>h\<close> through the processes of a list to the end mark.\<close>

fun linked :: "neox_pid_t list \<Rightarrow> neox_pid_t \<Rightarrow> neox_pid_t list \<Rightarrow> bool" where
  "linked nx h [] \<longleftrightarrow> h = GATE_OWNER_NONE"
| "linked nx h (w # ws) \<longleftrightarrow> h = w \<and> linked nx (nx ! unat w) ws"

fun follow :: "nat \<Rightarrow> neox_pid_t list \<Rightarrow> neox_pid_t \<Rightarrow> neox_pid_t list" where
  "follow 0 nx h = []"
| "follow (Suc n) nx h = (if h = GATE_OWNER_NONE then [] else h # follow n nx (nx ! unat h))"

definition gate_queue :: "gate \<Rightarrow> neox_pid_t list" where
  "gate_queue g = follow 8 (gate_next g) (wait_head g)"

definition tail_of :: "neox_pid_t list \<Rightarrow> neox_pid_t" where
  "tail_of ws = (if ws = [] then GATE_OWNER_NONE else last ws)"

definition queue_is :: "gate \<Rightarrow> neox_pid_t list \<Rightarrow> bool" where
  "queue_is g ws \<longleftrightarrow> length (gate_next g) = 8 \<and> linked (gate_next g) (wait_head g) ws \<and> distinct ws
     \<and> (\<forall>w \<in> set ws. w < MAX_PROCS) \<and> wait_tail g = tail_of ws"

definition gate_wf :: "gate \<Rightarrow> bool" where
  "gate_wf g \<longleftrightarrow> queue_is g (gate_queue g)"

lemma follow_linked: "linked nx h ws \<Longrightarrow> length ws \<le> n \<Longrightarrow> \<forall>w \<in> set ws. w < MAX_PROCS \<Longrightarrow> follow n nx h = ws"
proof (induction ws arbitrary: h n)
  case Nil
  then show ?case by (cases n) simp_all
next
  case (Cons w ws)
  then show ?case by (cases n) auto
qed

lemma pids_length:
  assumes "distinct ws" and "\<forall>w \<in> set ws. w < (MAX_PROCS :: neox_pid_t)" shows "length ws \<le> 8"
proof -
  have "unat ` set ws \<subseteq> {..<8}" using assms(2) by (auto simp: pid_less)
  then have "card (unat ` set ws) \<le> 8" using card_mono [of "{..<8 :: nat}" "unat ` set ws"] by simp
  moreover have "card (unat ` set ws) = length ws"
    using assms(1) by (simp add: card_image inj_on_def word_unat_eq_iff [symmetric] distinct_card)
  ultimately show ?thesis by simp
qed

lemma queue_isD: "queue_is g ws \<Longrightarrow> gate_queue g = ws"
  unfolding gate_queue_def queue_is_def by (rule follow_linked) (auto intro: pids_length)

lemma queue_is_wf: "queue_is g ws \<longleftrightarrow> gate_wf g \<and> gate_queue g = ws"
  using queue_isD by (auto simp: gate_wf_def)

lemma linked_update:
  "w \<notin> set ws \<Longrightarrow> linked (nx[unat w := z]) h ws = linked nx h ws"
  by (induction ws arbitrary: h) (auto simp: word_unat_eq_iff)

lemma linked_snoc:
  assumes "linked nx h (ws @ [t])" and "x \<notin> set (ws @ [t])" and "distinct (ws @ [t])" and "length nx = 8"
    and "t < MAX_PROCS" and "x < MAX_PROCS" and "nx ! unat x = GATE_OWNER_NONE"
  shows "linked (nx[unat t := x]) h (ws @ [t, x])"
  using assms
proof (induction ws arbitrary: h)
  case Nil
  then show ?case by (auto simp: pid_less word_unat_eq_iff)
next
  case (Cons w ws)
  then have "unat t \<noteq> unat w" by (auto simp: word_unat_eq_iff)
  then show ?case using Cons by simp
qed

lemma gate_enqueue_queue:
  assumes "queue_is g ws" and "x < MAX_PROCS" and "x \<notin> set ws"
  shows "queue_is (gate_enqueue x g) (ws @ [x])"
proof -
  let ?nx = "(gate_next g)[unat x := GATE_OWNER_NONE]"
  have q: "length (gate_next g) = 8" "linked (gate_next g) (wait_head g) ws" "distinct ws"
    "\<forall>w \<in> set ws. w < MAX_PROCS" "wait_tail g = tail_of ws"
    using assms(1) by (simp_all add: queue_is_def)
  have l: "linked ?nx (wait_head g) ws" using q(2) assms(3) by (simp add: linked_update)
  have x: "?nx ! unat x = GATE_OWNER_NONE" "unat x < 8" using q(1) assms(2) by (simp_all add: pid_less)
  show ?thesis
  proof (cases ws rule: rev_cases)
    case Nil
    then show ?thesis using q x assms(2) by (simp add: queue_is_def gate_enqueue_def Let_def tail_of_def)
  next
    case (snoc vs t)
    have t: "t < MAX_PROCS" "t \<noteq> GATE_OWNER_NONE" "wait_tail g = t" using q(4,5) snoc by (auto simp: tail_of_def)
    have "linked (?nx[unat t := x]) (wait_head g) (vs @ [t, x])"
      by (rule linked_snoc) (use l snoc assms q t x in simp_all)
    then show ?thesis
      using q t snoc assms by (auto simp: queue_is_def gate_enqueue_def Let_def tail_of_def)
  qed
qed

lemma gate_dequeue_queue:
  assumes "queue_is g ws"
  shows "case ws of [] \<Rightarrow> gate_dequeue g = None
    | x # vs \<Rightarrow> \<exists>g'. gate_dequeue g = Some (x, g') \<and> queue_is g' vs \<and> gate_byte g' = gate_byte g
        \<and> gate_owner g' = gate_owner g"
proof (cases ws)
  case Nil
  then show ?thesis using assms by (simp add: queue_is_def gate_dequeue_def)
next
  case (Cons x vs)
  have q: "length (gate_next g) = 8" "wait_head g = x" "linked (gate_next g) (gate_next g ! unat x) vs" "x \<notin> set vs"
    "distinct vs" "\<forall>w \<in> set vs. w < MAX_PROCS" "x < MAX_PROCS" "wait_tail g = tail_of (x # vs)"
    using assms Cons by (simp_all add: queue_is_def)
  have nf: "x \<noteq> GATE_OWNER_NONE" using q(7) by auto
  have e: "gate_next g ! unat x = GATE_OWNER_NONE \<longleftrightarrow> vs = []" using q(3,6) by (cases vs) auto
  show ?thesis
    using q nf e Cons by (auto simp: gate_dequeue_def queue_is_def Let_def linked_update tail_of_def)
qed

text \<open>Removal: the scan ends, and the entry before takes over the link.\<close>

lemma find_predecessor_Some:
  assumes "linked nx h (as @ y # x # bs)" and "distinct (as @ y # x # bs)" and "\<forall>w \<in> set (as @ y # x # bs). w < MAX_PROCS"
  shows "find_predecessor x nx h = Some (Some y)"
  using assms
proof (induction as arbitrary: h)
  case Nil
  then show ?case by (subst find_predecessor.simps) auto
next
  case (Cons a as)
  have "nx ! unat a \<noteq> x" using Cons.prems(1,2) by (cases as) auto
  moreover have "find_predecessor x nx (nx ! unat a) = Some (Some y)" by (rule Cons.IH) (use Cons.prems in simp_all)
  ultimately show ?case using Cons.prems by (subst find_predecessor.simps) auto
qed

lemma find_predecessor_None:
  assumes "linked nx h ws" and "x \<notin> set ws" and "x < MAX_PROCS" and "\<forall>w \<in> set ws. w < MAX_PROCS"
  shows "find_predecessor x nx h = Some None"
  using assms
proof (induction ws arbitrary: h)
  case Nil
  then show ?case by (subst find_predecessor.simps) simp
next
  case (Cons w ws)
  have "nx ! unat w \<noteq> x" using Cons.prems by (cases ws) auto
  then show ?case using Cons by (subst find_predecessor.simps) auto
qed

lemma linked_remove:
  assumes "linked nx h (as @ y # x # bs)" and "distinct (as @ y # x # bs)" and "length nx = 8" and "y < MAX_PROCS"
  shows "linked (nx[unat y := nx ! unat x, unat x := GATE_OWNER_NONE]) h (as @ y # bs)"
  using assms
proof (induction as arbitrary: h)
  case Nil
  then have "unat x \<noteq> unat y" "linked nx (nx ! unat x) bs" by (auto simp: word_unat_eq_iff)
  then show ?case using Nil by (simp add: linked_update pid_less)
next
  case (Cons a as)
  then have "unat a \<noteq> unat x" "unat a \<noteq> unat y" by (auto simp: word_unat_eq_iff)
  then show ?case using Cons by simp
qed

lemma gate_cancel_queue:
  assumes "queue_is g ws" and "x < MAX_PROCS"
  shows "\<exists>g'. gate_cancel_wait x g = Some g' \<and> queue_is g' (remove1 x ws) \<and> gate_byte g' = gate_byte g
    \<and> gate_owner g' = gate_owner g"
proof -
  have q: "length (gate_next g) = 8" "linked (gate_next g) (wait_head g) ws" "distinct ws"
    "\<forall>w \<in> set ws. w < MAX_PROCS" "wait_tail g = tail_of ws"
    using assms(1) by (simp_all add: queue_is_def)
  have nf: "x \<noteq> GATE_OWNER_NONE" using assms(2) by auto
  consider "x \<notin> set ws" | vs where "ws = x # vs" | as y bs where "ws = as @ y # x # bs"
  proof (cases "x \<in> set ws")
    case True
    then obtain cs bs where "ws = cs @ x # bs" by (auto simp: in_set_conv_decomp)
    then show ?thesis using that(2,3) by (cases cs rule: rev_cases) auto
  qed (use that(1) in simp)
  then show ?thesis
  proof cases
    case 1
    then have "x \<noteq> wait_head g" using q(2) nf by (cases ws) auto
    then show ?thesis using find_predecessor_None [OF q(2) 1 assms(2) q(4)] assms(1) 1
      by (simp add: gate_cancel_wait_def remove1_idem)
  next
    case 2
    have e: "gate_next g ! unat x = GATE_OWNER_NONE \<longleftrightarrow> vs = []" using q(2,4) 2 by (cases vs) auto
    show ?thesis using q e 2 by (auto simp: gate_cancel_wait_def queue_is_def Let_def linked_update tail_of_def)
  next
    case 3
    have h: "x \<noteq> wait_head g" using q(2,3) 3 by (cases as) auto
    have y: "y < MAX_PROCS" using q(4) 3 by simp
    note f = find_predecessor_Some [OF q(2) [unfolded 3] q(3) [unfolded 3] q(4) [unfolded 3]]
    have l: "linked ((gate_next g)[unat y := gate_next g ! unat x, unat x := GATE_OWNER_NONE]) (wait_head g) (as @ y # bs)"
      by (rule linked_remove [OF _ _ q(1) y]) (use q(2,3) 3 in simp_all)
    have r: "remove1 x ws = as @ y # bs" using q(3) 3 by (simp add: remove1_append)
    have t: "x = wait_tail g \<longleftrightarrow> bs = []" using q(3,5) 3 by (auto simp: tail_of_def)
    have q': "distinct (as @ y # bs)" "\<forall>w \<in> set (as @ y # bs). w < MAX_PROCS" using q(3,4) 3 by auto
    have tl: "bs \<noteq> [] \<Longrightarrow> wait_tail g = tail_of (as @ y # bs)" using q(5) 3 by (simp add: tail_of_def)
    show ?thesis unfolding r
      using h f l t tl q' q(1) by (simp add: gate_cancel_wait_def queue_is_def Let_def) (auto simp: tail_of_def)
  qed
qed

section \<open>The contract\<close>

text \<open>A process that is not in the queue fits.\<close>

definition gate_put :: "neox_pid_t \<Rightarrow> gate \<Rightarrow> gate option" where
  "gate_put x g = (if x < MAX_PROCS \<and> x \<notin> set (gate_queue g) then Some (gate_enqueue x g) else None)"

interpretation gate_fifo: fifo gate_put gate_dequeue gate_queue "\<lambda>x ws. x < MAX_PROCS \<and> x \<notin> set ws" gate_wf
proof
  fix g g' :: gate and x :: neox_pid_t
  assume wf: "gate_wf g"
  then have q: "queue_is g (gate_queue g)" by (simp add: gate_wf_def)
  show "gate_put x g \<noteq> None \<longleftrightarrow> x < MAX_PROCS \<and> x \<notin> set (gate_queue g)" by (simp add: gate_put_def)
  show "gate_wf g' \<and> gate_queue g' = gate_queue g @ [x]" if "gate_put x g = Some g'"
    using that gate_enqueue_queue [OF q, of x] by (simp add: gate_put_def queue_is_wf split: if_splits)
  show "gate_dequeue g = None \<longleftrightarrow> gate_queue g = []"
    using gate_dequeue_queue [OF q] by (cases "gate_queue g") auto
  show "gate_wf g' \<and> gate_queue g = x # gate_queue g'" if "gate_dequeue g = Some (x, g')"
    using gate_dequeue_queue [OF q] that by (cases "gate_queue g") (auto simp: queue_is_wf)
qed

section \<open>The protocol\<close>

text \<open>
  Byte and owner agree, the queue holds exactly the processes that are blocked on the gate,
  and the owner is not one of them.
\<close>

definition gate_inv :: "byte \<Rightarrow> gate \<times> sched \<Rightarrow> bool" where
  "gate_inv lock_id gs \<longleftrightarrow> (let g = fst gs; s = snd gs in
     gate_wf g \<and> sched_wf s \<and> gate_byte g = (if gate_owner g = GATE_OWNER_NONE then 0 else 1)
     \<and> (gate_owner g \<noteq> GATE_OWNER_NONE \<longrightarrow> normal (gate_owner g)) \<and> gate_owner g \<notin> set (gate_queue g)
     \<and> set (gate_queue g) = {x. normal x \<and> waits_for WAIT_LOCK lock_id s x})"

lemma gate_invI:
  assumes "queue_is g ws" and "sched_wf s" and "gate_byte g = (if gate_owner g = GATE_OWNER_NONE then 0 else 1)"
    and "gate_owner g \<noteq> GATE_OWNER_NONE \<longrightarrow> normal (gate_owner g)" and "gate_owner g \<notin> set ws"
    and "\<And>x. x \<in> set ws \<longleftrightarrow> normal x \<and> waits_for WAIT_LOCK lock_id s x"
  shows "gate_inv lock_id (g, s)"
  using assms by (auto simp: gate_inv_def queue_is_wf)

lemma gate_invD:
  assumes "gate_inv lock_id (g, s)"
  shows "queue_is g (gate_queue g)" and "sched_wf s"
    and "gate_byte g = (if gate_owner g = GATE_OWNER_NONE then 0 else 1)"
    and "gate_owner g \<noteq> GATE_OWNER_NONE \<longrightarrow> normal (gate_owner g)" and "gate_owner g \<notin> set (gate_queue g)"
    and "\<And>x. x \<in> set (gate_queue g) \<longleftrightarrow> normal x \<and> waits_for WAIT_LOCK lock_id s x"
  using assms unfolding gate_inv_def gate_wf_def Let_def fst_conv snd_conv by blast+

lemma gate_init_inv:
  assumes "length (gate_next g) = 8" and "sched_wf s" and "\<forall>x. normal x \<longrightarrow> \<not> waits_for WAIT_LOCK lock_id s x"
  shows "gate_inv lock_id (gate_init g, s)"
  by (rule gate_invI [of _ "[]"]) (use assms in \<open>simp_all add: gate_init_def queue_is_def tail_of_def\<close>)

lemma queue_is_fields [simp]:
  "queue_is (g\<lparr>gate_byte := b\<rparr>) ws = queue_is g ws" "queue_is (g\<lparr>gate_owner := p\<rparr>) ws = queue_is g ws"
  by (simp_all add: queue_is_def)

lemma gate_enqueue_fields [simp]:
  "gate_byte (gate_enqueue x g) = gate_byte g" "gate_owner (gate_enqueue x g) = gate_owner g"
  by (simp_all add: gate_enqueue_def Let_def)

lemma gate_acquire_inv:
  assumes "gate_inv lock_id (g, s)" and "normal p" and "proc_states s ! unat p = PROC_RUNNING"
    and "gate_acquire lock_id p (g, s) = (r, gs')"
  shows "gate_inv lock_id gs'"
proof -
  note i = gate_invD [OF assms(1)]
  have p: "p < MAX_PROCS" "p \<noteq> IDLE_PID" "p \<noteq> GATE_OWNER_NONE" using assms(2) by (auto simp: normal_def)
  have np: "p \<notin> set (gate_queue g)" using i(6) [of p] assms(3) by (simp add: waits_for_def)
  consider "gate_owner g = GATE_OWNER_NONE" "gs' = (g\<lparr>gate_byte := 1, gate_owner := p\<rparr>, s)"
    | "gate_owner g \<noteq> GATE_OWNER_NONE" "gs' = (g\<lparr>gate_byte := 1\<rparr>, s)"
    | "gate_owner g \<noteq> GATE_OWNER_NONE" "gate_owner g \<noteq> p"
      "gs' = (gate_enqueue p (g\<lparr>gate_byte := 1\<rparr>), proc_set_wait p WAIT_LOCK lock_id s)"
    using assms(4) i(3) by (auto simp: gate_acquire_def Let_def split: if_splits)
  then show ?thesis
  proof cases
    case 1
    show ?thesis unfolding 1(2)
      by (rule gate_invI [of _ "gate_queue g", OF _ i(2) _ _ _ i(6)]) (use i(1) p np assms(2) in simp_all)
  next
    case 2
    show ?thesis unfolding 2(2)
      by (rule gate_invI [of _ "gate_queue g", OF _ i(2) _ _ _ i(6)]) (use i(1,4,5) 2(1) in simp_all)
  next
    case 3
    have q: "queue_is (gate_enqueue p (g\<lparr>gate_byte := 1\<rparr>)) (gate_queue g @ [p])"
      using gate_enqueue_queue [OF _ p(1) np, of "g\<lparr>gate_byte := 1\<rparr>"] i(1) by simp
    have w: "x \<in> set (gate_queue g @ [p]) \<longleftrightarrow>
        normal x \<and> waits_for WAIT_LOCK lock_id (proc_set_wait p WAIT_LOCK lock_id s) x" for x
      using i(6) [of x] assms(2) set_wait_waits [OF i(2) p(1,2)] set_wait_other [of x p] by (cases "x = p") auto
    show ?thesis unfolding 3(3) by (rule gate_invI [OF q _ _ _ _ w]) (use i 3 in auto)
  qed
qed

text \<open>A release wakes the process that has waited longest.\<close>

lemma gate_release_owner:
  assumes "gate_inv lock_id (g, s)" and "gate_owner g = p" and "normal p"
  shows "\<exists>g' s'. gate_release p (g, s) = (True, g', s') \<and> gate_inv lock_id (g', s') \<and> gate_owner g' = GATE_OWNER_NONE
    \<and> gate_queue g' = tl (gate_queue g)
    \<and> (if gate_queue g = [] then s' = s else proc_states s' ! unat (hd (gate_queue g)) = PROC_READY)"
proof -
  note i = gate_invD [OF assms(1)]
  let ?g = "g\<lparr>gate_owner := GATE_OWNER_NONE, gate_byte := 0\<rparr>"
  have b: "gate_byte g AND 0xFE = 0" using i(3) by simp
  have nf: "GATE_OWNER_NONE \<notin> set (gate_queue g)" using i(6) by (auto simp: normal_def)
  have q: "queue_is ?g (gate_queue g)" using i(1) by simp
  show ?thesis
  proof (cases "gate_queue g")
    case Nil
    then have "gate_release p (g, s) = (True, ?g, s)"
      using gate_dequeue_queue [OF q] assms(2) b by (simp add: gate_release_def Let_def)
    moreover have "gate_inv lock_id (?g, s)" by (rule gate_invI [OF q]) (use i nf in auto)
    ultimately show ?thesis using Nil queue_isD [OF q] by simp
  next
    case (Cons x ws)
    obtain g' where g': "gate_dequeue ?g = Some (x, g')" "queue_is g' ws" "gate_byte g' = 0" "gate_owner g' = GATE_OWNER_NONE"
      using gate_dequeue_queue [OF q] Cons by auto
    have x: "normal x" "waits_for WAIT_LOCK lock_id s x" "x \<notin> set ws" "x < MAX_PROCS"
      using i(6) [of x] i(1) Cons by (auto simp: queue_is_def)
    have r: "gate_release p (g, s) = (True, g', proc_wake x s)"
      using g'(1) assms(2) b by (simp add: gate_release_def Let_def)
    have ready: "proc_states (proc_wake x s) ! unat x = PROC_READY" by (rule wake_ready(1) [OF i(2) x(4,2)])
    have w: "y \<in> set ws \<longleftrightarrow> normal y \<and> waits_for WAIT_LOCK lock_id (proc_wake x s) y" for y
      using i(6) [of y] Cons x(3) wake_other [of y x] ready by (cases "y = x") (auto simp: waits_for_def)
    have "gate_inv lock_id (g', proc_wake x s)" by (rule gate_invI [OF g'(2) _ _ _ _ w]) (use i(2) g' nf Cons in auto)
    then show ?thesis using r g' ready Cons queue_isD [OF g'(2)] by simp
  qed
qed

lemma mark_zombie_inv:
  assumes "gate_inv lock_id (g, s)" and "normal x" and "mark_zombie lock_id x (g, s) = Some gs'"
  shows "gate_inv lock_id gs'"
proof -
  note i = gate_invD [OF assms(1)]
  let ?s = "proc_set_state x PROC_ZOMBIE (proc_clear_wait x s)"
  have lt: "x < MAX_PROCS" using assms(2) by (simp add: normal_def)
  have x: "\<not> waits_for WAIT_LOCK lock_id ?s x"
    using i(2) lt by (simp add: waits_for_def proc_set_state_def proc_clear_wait_def sched_wf_def pid_less)
  have o: "waits_for WAIT_LOCK lock_id ?s y = waits_for WAIT_LOCK lock_id s y" if "y \<noteq> x" for y
    using that by (simp add: waits_for_def proc_set_state_def proc_clear_wait_def word_unat_eq_iff)
  obtain g' where g': "gate_cancel_wait x g = Some g'" "queue_is g' (remove1 x (gate_queue g))"
    "gate_byte g' = gate_byte g" "gate_owner g' = gate_owner g"
    using gate_cancel_queue [OF i(1) lt] by auto
  have d: "set (remove1 x (gate_queue g)) = set (gate_queue g) - {x}" using i(1) by (simp add: queue_is_def)
  show ?thesis
  proof (cases "wait_reasons s ! unat x = WAIT_LOCK \<and> wait_objects s ! unat x = lock_id")
    case True
    then have gs: "gs' = (g', ?s)" using assms(3) g'(1) by (simp add: mark_zombie_def Let_def)
    have w: "y \<in> set (remove1 x (gate_queue g)) \<longleftrightarrow> normal y \<and> waits_for WAIT_LOCK lock_id ?s y" for y
      unfolding d using i(6) [of y] x o [of y] by (cases "y = x") simp_all
    have ow: "gate_owner g' \<notin> set (remove1 x (gate_queue g))" unfolding d using i(5) g'(4) by simp
    show ?thesis unfolding gs by (rule gate_invI [OF g'(2) _ _ _ ow w]) (use i(2-4) g'(3,4) in simp_all)
  next
    case False
    then have gs: "gs' = (g, ?s)" and nx: "x \<notin> set (gate_queue g)"
      using assms(3) i(6) [of x] by (auto simp: mark_zombie_def Let_def waits_for_def)
    have w: "y \<in> set (gate_queue g) \<longleftrightarrow> normal y \<and> waits_for WAIT_LOCK lock_id ?s y" for y
      using i(6) [of y] nx x o [of y] by (cases "y = x") auto
    show ?thesis unfolding gs by (rule gate_invI [OF i(1) _ i(3,4,5) w]) (use i(2) in simp)
  qed
qed

text \<open>The scheduler does not touch the processes that wait for the gate.\<close>

lemma elsewhere_keeps_waiters:
  assumes "sched_wf s" and "normal x" and "elsewhere lock_id e s"
  shows "waits_for WAIT_LOCK lock_id (sched_step e s) x = waits_for WAIT_LOCK lock_id s x"
proof -
  have lt: "unat x < 8" "unat x < length (proc_states s)" "unat x < length (wait_reasons s)" "unat x < length (wait_objects s)"
    using assms(1,2) by (simp_all add: normal_unat sched_wf_def)
  show ?thesis
  proof (cases e)
    case (Switch p)
    then show ?thesis using switch_keeps_waiters [OF assms(1,2)] by simp
  next
    case (Set_Wait p r ob)
    then show ?thesis using assms(3) lt set_wait_other [of x p]
      by (cases "x = p") (auto simp: proc_set_wait_def proc_set_state_def waits_for_def)
  next
    case (Wake_One r ob)
    then show ?thesis using wake_one_other [OF assms(1,2)] assms(3) by simp
  next
    case (Set_State y st)
    then show ?thesis using assms(3) lt
      by (cases "unat x = unat y") (auto simp: proc_set_state_def waits_for_def)
  qed
qed

lemma gate_step_inv:
  assumes "gate_step lock_id gs gs'" and "gate_inv lock_id gs"
  shows "gate_inv lock_id gs'"
  using assms
proof cases
  case (acquire p r)
  then show ?thesis using assms(2) gate_acquire_inv [of lock_id "fst gs" "snd gs" p r gs'] by simp
next
  case (release p r)
  show ?thesis
  proof (cases "gate_owner (fst gs) = p")
    case True
    then show ?thesis using gate_release_owner [of lock_id "fst gs" "snd gs" p] assms(2) release by auto
  next
    case False
    then show ?thesis using release assms(2) by (auto simp: gate_release_def)
  qed
next
  case (kill x)
  then show ?thesis using assms(2) mark_zombie_inv [of lock_id "fst gs" "snd gs" x gs'] by simp
next
  case (elsewhere e)
  note i = gate_invD [of lock_id "fst gs" "snd gs", unfolded prod.collapse, OF assms(2)]
  have w: "x \<in> set (gate_queue (fst gs)) \<longleftrightarrow> normal x \<and> waits_for WAIT_LOCK lock_id (sched_step e (snd gs)) x" for x
    using i(6) [of x] elsewhere_keeps_waiters [OF i(2) _ elsewhere(2)] by auto
  show ?thesis unfolding elsewhere(1) by (rule gate_invI [OF i(1) sched_step_wf [OF i(2)] i(3-5) w])
qed

lemma gate_reachable_inv:
  "(gate_step lock_id)\<^sup>*\<^sup>* gs gs' \<Longrightarrow> gate_inv lock_id gs \<Longrightarrow> gate_inv lock_id gs'"
  by (induction rule: rtranclp_induct) (auto intro: gate_step_inv)

end
