(* ===== verification/Kernel_Os.thy ===== *)
theory Kernel_Os
  imports Kernel_Io
begin

text \<open>
  The calls of libneox on top of the kernel, as the record that the C programs are written
  against, with the other processes interleaved at every point where the calling process
  waits for the file I/O gate. The process calls (spawn, wait, process information, signals)
  are taken from a record that is a parameter.

  The lemmas show that other processes never touch the descriptors of the calling process
  or the objects behind them, and that the record keeps the descriptor contract of
  \<open>neox_descriptors\<close>; the contract of a stream holds for a file or the console when the
  RP2350 keeps its side of the protocol.
\<close>

section \<open>Other processes\<close>

datatype kcall =
    C_Open "byte list" neox_open_mode
  | C_Opendir "byte list"
  | C_Close neox_fd_t
  | C_Closedir neox_fd_t
  | C_Dup neox_fd_t
  | C_Dup2 neox_fd_t neox_fd_t
  | C_Pipe
  | C_Read neox_fd_t neox_size_t
  | C_Write neox_fd_t "byte list"
  | C_Seek neox_fd_t "32 word" neox_seek_whence
  | C_Tell neox_fd_t
  | C_Readdir neox_fd_t
  | C_Delete "byte list"
  | C_Rename "byte list" "byte list"
  | C_Chdir "byte list"
  | C_Mkdir "byte list"
  | C_Rmdir "byte list"
  | C_Getcwd neox_size_t
  | C_Load "byte list" neox_size_t
  | C_Save "byte list" "byte list"
  | C_Clone neox_fd_t neox_pid_t neox_fd_t
  | C_Exit

definition other_call ::
  "'r rp2350 \<Rightarrow> neox_pid_t \<Rightarrow> kcall \<Rightarrow> 'r kernel \<Rightarrow> 'r kernel option" where
  "other_call rp q c k =
     (case c of
        C_Open path mode \<Rightarrow> map_option snd (ksys_open rp q path mode k)
      | C_Opendir path \<Rightarrow> map_option snd (ksys_opendir rp q path k)
      | C_Close fd \<Rightarrow> map_option snd (fd_close rp q fd k)
      | C_Closedir fd \<Rightarrow> map_option snd (ksys_closedir rp q fd k)
      | C_Dup fd \<Rightarrow> Some (snd (fd_dup q fd k))
      | C_Dup2 oldfd newfd \<Rightarrow> Some (snd (fd_dup2 q oldfd newfd k))
      | C_Pipe \<Rightarrow> Some (snd (pipe_create q k))
      | C_Read fd n \<Rightarrow> map_option snd (ksys_read rp q fd n k)
      | C_Write fd data \<Rightarrow> map_option snd (ksys_write rp q fd data k)
      | C_Seek fd offset whence \<Rightarrow> map_option snd (ksys_seek rp q fd offset whence k)
      | C_Tell fd \<Rightarrow> map_option snd (ksys_tell rp q fd k)
      | C_Readdir fd \<Rightarrow> map_option snd (ksys_readdir rp q fd k)
      | C_Delete path \<Rightarrow> map_option snd (ksys_fs_exec_no_handle rp q (one_path Fs_Delete path) k)
      | C_Rename old_path new_path \<Rightarrow> map_option snd (ksys_fs_exec_no_handle rp q (two_paths old_path new_path) k)
      | C_Chdir path \<Rightarrow> map_option snd (ksys_fs_exec_no_handle rp q (one_path Fs_Chdir path) k)
      | C_Mkdir path \<Rightarrow> map_option snd (ksys_fs_exec_no_handle rp q (one_path Fs_Mkdir path) k)
      | C_Rmdir path \<Rightarrow> map_option snd (ksys_fs_exec_no_handle rp q (one_path Fs_Rmdir path) k)
      | C_Getcwd n \<Rightarrow> map_option snd (ksys_fs_exec_no_handle rp q (Inr (Fs_Getcwd n)) k)
      | C_Load path n \<Rightarrow> map_option snd (ksys_load_file_to_memory rp q path n k)
      | C_Save path data \<Rightarrow> map_option snd (ksys_save_memory_to_file rp q path data k)
      | C_Clone fd target target_fd \<Rightarrow> map_option snd (fd_clone_between rp q q fd target target_fd k)
      | C_Exit \<Rightarrow> map_option snd (fd_close_process rp q q k))"

type_synonym batch = "(neox_pid_t \<times> kcall) list"

fun run_others :: "'r rp2350 \<Rightarrow> batch \<Rightarrow> 'r kernel \<Rightarrow> 'r kernel option" where
  "run_others rp [] k = Some k"
| "run_others rp ((q, c) # cs) k = do { k \<leftarrow> other_call rp q c k; run_others rp cs k }"

text \<open>The retry loop of a gated call: others run, then one pass, and again while it blocks.\<close>

fun gated ::
  "'r rp2350 \<Rightarrow> ('r kernel \<Rightarrow> ('a pass \<times> 'r kernel) option) \<Rightarrow> batch list \<Rightarrow> 'r kernel
   \<Rightarrow> ('a \<times> 'r kernel \<times> batch list) option" where
  "gated rp f [] k = do {
     (res, k) \<leftarrow> f k;
     case res of Finished x \<Rightarrow> Some (x, k, []) | Blocked _ \<Rightarrow> None }"
| "gated rp f (b # bs) k = do {
     k \<leftarrow> run_others rp b k;
     (res, k) \<leftarrow> f k;
     case res of Finished x \<Rightarrow> Some (x, k, bs) | Blocked _ \<Rightarrow> gated rp f bs k }"

section \<open>The record of calls\<close>

record 'r machine =
  kern :: "'r kernel"
  schedule :: "batch list"

definition syscall ::
  "'r rp2350 \<Rightarrow> ('r kernel \<Rightarrow> ('a pass \<times> 'r kernel) option) \<Rightarrow> ('r, 'z) machine_scheme \<Rightarrow> ('a \<times> ('r, 'z) machine_scheme) option" where
  "syscall rp f w = do {
     (x, k, bs) \<leftarrow> gated rp f (schedule w) (kern w);
     Some (x, w\<lparr>kern := k, schedule := bs\<rparr>) }"

text \<open>The carry flag and Y as a status, with the default result that the wrappers store.\<close>

definition as_status ::
  "('r kernel \<Rightarrow> ((byte + 'a) \<times> 'r kernel) option) \<Rightarrow> 'b \<Rightarrow> ('a \<Rightarrow> 'b) \<Rightarrow> 'r kernel
   \<Rightarrow> ((neox_status_t \<times> 'b) pass \<times> 'r kernel) option" where
  "as_status f default_result g k = do {
     (res, k) \<leftarrow> f k;
     Some (Finished (case res of Inl e \<Rightarrow> (e, default_result) | Inr x \<Rightarrow> (NEOX_STATUS_OK, g x)), k) }"

definition status_only :: "((neox_status_t \<times> unit) \<times> 'w) option \<Rightarrow> (neox_status_t \<times> 'w) option" where
  "status_only r = map_option (\<lambda>((st, _), w). (st, w)) r"

definition flat2 :: "((neox_status_t \<times> 'a) \<times> 'w) option \<Rightarrow> (neox_status_t \<times> 'a \<times> 'w) option" where
  "flat2 r = map_option (\<lambda>((st, a), w). (st, a, w)) r"

definition flat3 :: "((neox_status_t \<times> 'a \<times> 'b) \<times> 'w) option \<Rightarrow> (neox_status_t \<times> 'a \<times> 'b \<times> 'w) option" where
  "flat3 r = map_option (\<lambda>((st, a, b), w). (st, a, b, w)) r"

definition empty_entry :: neox_dir_entry where
  "empty_entry = \<lparr>name = [0], attributes = 0, entry_size = 0\<rparr>"

definition path_call ::
  "'r rp2350 \<Rightarrow> neox_pid_t \<Rightarrow> byte + fs_request \<Rightarrow> ('r, 'z) machine_scheme \<Rightarrow> (neox_status_t \<times> ('r, 'z) machine_scheme) option" where
  "path_call rp task request w =
     status_only (syscall rp (as_status (ksys_fs_exec_no_handle rp task request) () (\<lambda>_. ())) w)"

definition kernel_os :: "'r rp2350 \<Rightarrow> neox_pid_t \<Rightarrow> ('r, 'z) machine_scheme neox_os \<Rightarrow> ('r, 'z) machine_scheme neox_os" where
  "kernel_os rp task base = base\<lparr>
     neox_open := (\<lambda>path mode w. flat2 (syscall rp (as_status (ksys_open rp task path mode) 0 id) w)),
     neox_read := (\<lambda>fd n w. flat3 (syscall rp (ksys_read rp task fd n) w)),
     neox_write := (\<lambda>fd data w. flat2 (syscall rp (ksys_write rp task fd data) w)),
     neox_seek := (\<lambda>fd offset whence w.
       flat2 (syscall rp (as_status (ksys_seek rp task fd offset whence) 0 rp_position) w)),
     neox_close := (\<lambda>fd w. status_only (syscall rp (as_status (fd_close rp task fd) () id) w)),
     neox_delete := (\<lambda>path. path_call rp task (one_path Fs_Delete path)),
     neox_mkdir := (\<lambda>path. path_call rp task (one_path Fs_Mkdir path)),
     neox_rmdir := (\<lambda>path. path_call rp task (one_path Fs_Rmdir path)),
     neox_rename := (\<lambda>old_path new_path. path_call rp task (two_paths old_path new_path)),
     neox_chdir := (\<lambda>path. path_call rp task (one_path Fs_Chdir path)),
     neox_getcwd := (\<lambda>n w. flat3 (syscall rp (as_status (ksys_fs_exec_no_handle rp task (Inr (Fs_Getcwd n)))
       (0, []) (\<lambda>reply. (rp_res0 reply, rp_stored reply))) w)),
     neox_opendir := (\<lambda>path w. flat2 (syscall rp (as_status (ksys_opendir rp task path) 0 id) w)),
     neox_readdir := (\<lambda>fd w. flat3 (syscall rp (as_status (ksys_readdir rp task fd) (empty_entry, 0)
       (\<lambda>reply. (rp_entry reply, if rp_res0 reply = 0 then 1 else 0))) w)),
     neox_closedir := (\<lambda>fd w. status_only (syscall rp (as_status (ksys_closedir rp task fd) () id) w))\<rparr>"

section \<open>Steps keep the invariant\<close>

lemma fd_resolve_rw_Inr:
  assumes "fd_resolve_rw task flag fd k = Inr (x, ty, dev)" and "task < MAX_PROCS"
  shows "is_open task fd k" and "x = proc_fd_obj k ! fd_slot task fd"
    and "ty = open_type (opens k ! unat x)" and "dev = open_dev (opens k ! unat x)"
    and "fd_get_flags_current task fd k AND flag \<noteq> 0"
  using assms fd_lookup_Inr [of task fd k]
  by (auto simp: fd_resolve_rw_def fd_check_perm_def fd_get_flags_current_def split: sum.splits if_splits)

text \<open>A transfer changes neither the descriptors nor the objects.\<close>

definition transfers :: "'r kernel \<Rightarrow> 'r kernel \<Rightarrow> bool" where
  "transfers k k' \<longleftrightarrow> kernel_inv k' \<and> proc_fd_obj k' = proc_fd_obj k \<and> proc_fd_flags k' = proc_fd_flags k
     \<and> opens k' = opens k"

lemma transfers_within: "transfers k k' \<Longrightarrow> within S k k'"
  by (simp add: transfers_def within_def same_view_def)

lemma transfers_refl [simp]: "transfers k k = kernel_inv k"
  by (simp add: transfers_def)

lemma transfers_rp [simp]: "transfers k (k'\<lparr>rp_state := r\<rparr>) = transfers k k'"
    "transfers k (k'\<lparr>console_owner_pid := c\<rparr>) = transfers k k'"
    "transfers k (k'\<lparr>proc_signal_pending := s\<rparr>) = transfers k k'"
  by (simp_all add: transfers_def)

lemma rp_fs_exec_transfers: "rp_fs_exec rp ap q k = Some (reply, k') \<Longrightarrow> kernel_inv k \<Longrightarrow> transfers k k'"
  by (auto dest: rp_fs_exec_fields)

lemma console_read_transfers:
  "console_read rp ap n k = Some (res, k') \<Longrightarrow> kernel_inv k \<Longrightarrow> transfers k k'"
  by (auto simp: console_read_def console_ready_read_def bind_eq_Some_conv split: if_splits)

lemma console_write_transfers:
  "console_write rp data k = Some (res, k') \<Longrightarrow> kernel_inv k \<Longrightarrow> transfers k k'"
  by (auto simp: console_write_def bind_eq_Some_conv)

lemma pipe_read_transfers:
  "pipe_read x n k = (res, k') \<Longrightarrow> kernel_inv k \<Longrightarrow> unat x < 16 \<Longrightarrow> transfers k k'"
  by (simp add: transfers_def pipe_read_within(2-4) within_inv [OF pipe_read_within(1)])

lemma pipe_write_transfers:
  "pipe_write x data k = (res, k') \<Longrightarrow> kernel_inv k \<Longrightarrow> unat x < 16 \<Longrightarrow> transfers k k'"
  by (simp add: transfers_def pipe_write_within(2-4) within_inv [OF pipe_write_within(1)])

lemma fd_read_transfers:
  assumes "fd_read rp task fd n k = Some (res, k')" and "kernel_inv k" and "task < MAX_PROCS"
  shows "transfers k k'"
proof (cases "fd_resolve_rw task FD_FLAG_READ fd k")
  case (Inl e)
  then show ?thesis using assms by (simp add: fd_read_def)
next
  case (Inr r)
  obtain x ty dev where r: "r = (x, ty, dev)" by (cases r)
  note x = fd_resolve_rw_Inr [OF Inr [unfolded r] assms(3)]
  have x16: "unat x < 16" using is_openD(1) [OF assms(2) x(1)] x(2) by simp
  show ?thesis
    using assms(1,2) Inr r x16
    by (auto simp: fd_read_def dev_read_def split: if_splits dest: console_read_transfers pipe_read_transfers)
qed

lemma fd_write_transfers:
  assumes "fd_write rp task fd data k = Some (res, k')" and "kernel_inv k" and "task < MAX_PROCS"
  shows "transfers k k'"
proof (cases "fd_resolve_rw task FD_FLAG_WRITE fd k")
  case (Inl e)
  then show ?thesis using assms by (simp add: fd_write_def)
next
  case (Inr r)
  obtain x ty dev where r: "r = (x, ty, dev)" by (cases r)
  note x = fd_resolve_rw_Inr [OF Inr [unfolded r] assms(3)]
  have x16: "unat x < 16" using is_openD(1) [OF assms(2) x(1)] x(2) by simp
  show ?thesis
    using assms(1,2) Inr r x16
    by (auto simp: fd_write_def dev_write_def split: if_splits dest: console_write_transfers pipe_write_transfers)
qed

lemma ksys_read_transfers:
  assumes "ksys_read rp task fd n k = Some (res, k')" and "kernel_inv k" and "task < MAX_PROCS"
  shows "transfers k k'"
  using assms
  by (cases "fd_resolve_rw task FD_FLAG_READ fd k")
    (auto simp: ksys_read_def Let_def bind_eq_Some_conv split: if_splits
      dest: rp_fs_exec_transfers fd_read_transfers)

lemma ksys_write_transfers:
  assumes "ksys_write rp task fd data k = Some (res, k')" and "kernel_inv k" and "task < MAX_PROCS"
  shows "transfers k k'"
  using assms
  by (cases "fd_resolve_rw task FD_FLAG_WRITE fd k")
    (auto simp: ksys_write_def Let_def bind_eq_Some_conv split: if_splits
      dest: rp_fs_exec_transfers fd_write_transfers)

lemma ksys_fs_exec_handle_transfers:
  "ksys_fs_exec_handle rp ap resolved request k = Some (res, k') \<Longrightarrow> kernel_inv k \<Longrightarrow> transfers k k'"
  by (auto simp: ksys_fs_exec_handle_def bind_eq_Some_conv split: sum.splits dest: rp_fs_exec_transfers)

lemma ksys_fs_exec_no_handle_transfers:
  "ksys_fs_exec_no_handle rp ap request k = Some (res, k') \<Longrightarrow> kernel_inv k \<Longrightarrow> transfers k k'"
  by (auto simp: ksys_fs_exec_no_handle_def bind_eq_Some_conv split: sum.splits dest: rp_fs_exec_transfers)

lemma open_object_fd_result:
  assumes "open_object_fd rp task request ty flags k = Some (res, k')" and "kernel_inv k" and "task < MAX_PROCS"
    and "ty \<noteq> OBJ_NONE"
  shows "within {task} k k'" and "res = Inl e \<Longrightarrow> proc_fd_obj k' = proc_fd_obj k"
    and "res = Inr fd \<Longrightarrow> fd < MAX_FDS \<and> proc_fd_obj k ! fd_slot task fd = FD_NONE
      \<and> (\<exists>x. x \<noteq> FD_NONE \<and> proc_fd_obj k' = (proc_fd_obj k)[fd_slot task fd := x] \<and> open_type (opens k' ! unat x) = ty)"
proof -
  have "within {task} k k' \<and> (\<forall>e. res = Inl e \<longrightarrow> proc_fd_obj k' = proc_fd_obj k)
    \<and> (\<forall>fd. res = Inr fd \<longrightarrow> fd < MAX_FDS \<and> proc_fd_obj k ! fd_slot task fd = FD_NONE
      \<and> (\<exists>x. x \<noteq> FD_NONE \<and> proc_fd_obj k' = (proc_fd_obj k)[fd_slot task fd := x] \<and> open_type (opens k' ! unat x) = ty))"
  proof (cases "fd_alloc_open k")
    case (Inl e)
    then show ?thesis using assms by (auto simp: open_object_fd_def)
  next
    case x: (Inr x)
    note xx = fd_alloc_open_Inr [OF x kernel_invD(3) [OF assms(2)]]
    have ff: "x \<noteq> FD_NONE" using xx(1) by auto
    show ?thesis
    proof (cases "fd_find_free_current task k")
      case (Inl e)
      then show ?thesis
        using assms(1) x within_free [OF assms(2) xx(1,3), of "{task}"] by (auto simp: open_object_fd_def)
    next
      case fd: (Inr fd)
      note fdd = fd_find_free_Inr [OF fd kernel_invD(1) [OF assms(2)] assms(3)]
      obtain reply k1 where e: "rp_fs_exec rp task request k = Some (reply, k1)"
        using assms(1) x fd by (auto simp: open_object_fd_def bind_eq_Some_conv)
      then obtain r where k1: "k1 = k\<lparr>rp_state := r\<rparr>" by (auto dest: rp_fs_exec_fields)
      have inv1: "kernel_inv k1" and o1: "opens k1 = opens k" and s1: "proc_fd_obj k1 = proc_fd_obj k"
        and w1: "within {task} k k1" using assms(2) k1 by simp_all
      show ?thesis
      proof (cases "rp_failed reply")
        case True
        then have "res = Inl (rp_err reply)" "k' = fd_free_open x k1"
          using assms(1) x fd e by (simp_all add: open_object_fd_def)
        then show ?thesis
          using within_trans [OF w1 within_free [OF inv1 xx(1)]] xx(3) o1 s1 by simp
      next
        case False
        let ?f = "\<lambda>obj. obj\<lparr>open_file_handle := ucast (rp_res0 reply), open_type := ty, open_flags := flags,
            open_dev := rp_flags reply\<rparr>"
        define k2 where "k2 = upd_open x ?f k1"
        have k2: "within {task} k1 k2" unfolding k2_def
          using xx o1 object_pipe [OF inv1 xx(1)] by (intro within_upd_open_unused [OF inv1 xx(1)]) simp_all
        note inv2 = within_inv [OF k2]
        have ty2: "open_type (opens k2 ! unat x) = ty"
          using xx(1) kernel_invD(3) [OF inv1] by (simp add: k2_def)
        have k3: "within {task} k2 (fd_attach task fd x flags k2)"
          using fdd s1 xx(1) ty2 assms(4) by (intro within_attach [OF inv2 assms(3)]) (simp_all add: k2_def live_def)
        have "res = Inr fd" and k': "k' = fd_attach task fd x flags k2"
          using assms(1) x fd e False by (simp_all add: open_object_fd_def k2_def Let_def)
        moreover have "proc_fd_obj k' = (proc_fd_obj k)[fd_slot task fd := x]" by (simp add: k' k2_def s1)
        moreover have "open_type (opens k' ! unat x) = ty"
          unfolding k' using opens_attach(1) [OF inv2 xx(1)] ty2 by simp
        moreover have "within {task} k k'" unfolding k' by (rule within_trans [OF w1 within_trans [OF k2 k3]])
        ultimately show ?thesis using fdd ff by auto
      qed
    qed
  qed
  then show "within {task} k k'" and "res = Inl e \<Longrightarrow> proc_fd_obj k' = proc_fd_obj k"
    and "res = Inr fd \<Longrightarrow> fd < MAX_FDS \<and> proc_fd_obj k ! fd_slot task fd = FD_NONE
      \<and> (\<exists>x. x \<noteq> FD_NONE \<and> proc_fd_obj k' = (proc_fd_obj k)[fd_slot task fd := x] \<and> open_type (opens k' ! unat x) = ty)"
    by auto
qed

text \<open>Both open calls, with the failure of the path check added.\<close>

definition opens_one :: "neox_pid_t \<Rightarrow> byte \<Rightarrow> 'r kernel \<Rightarrow> byte + neox_fd_t \<Rightarrow> 'r kernel \<Rightarrow> bool" where
  "opens_one task ty k res k' \<longleftrightarrow> within {task} k k' \<and>
     (case res of
        Inl e \<Rightarrow> proc_fd_obj k' = proc_fd_obj k
      | Inr fd \<Rightarrow> fd < MAX_FDS \<and> proc_fd_obj k ! fd_slot task fd = FD_NONE
          \<and> (\<exists>x. x \<noteq> FD_NONE \<and> proc_fd_obj k' = (proc_fd_obj k)[fd_slot task fd := x] \<and> open_type (opens k' ! unat x) = ty))"

lemma ksys_open_result:
  assumes "ksys_open rp task path mode k = Some (res, k')" and "kernel_inv k" and "task < MAX_PROCS"
  shows "opens_one task OBJ_FILE k res k'"
proof (cases "ksys_fs_uppercase_path path")
  case (Inr p)
  then have "open_object_fd rp task (Fs_Open p mode) OBJ_FILE (open_mode_flags mode) k = Some (res, k')"
    using assms(1) by (simp add: ksys_open_def)
  from open_object_fd_result [OF this assms(2,3)] show ?thesis by (simp add: opens_one_def split: sum.split)
qed (use assms in \<open>auto simp: ksys_open_def opens_one_def\<close>)

lemma ksys_opendir_result:
  assumes "ksys_opendir rp task path k = Some (res, k')" and "kernel_inv k" and "task < MAX_PROCS"
  shows "opens_one task OBJ_DIR k res k'"
proof (cases "ksys_fs_uppercase_path path")
  case (Inr p)
  then have "open_object_fd rp task (Fs_Opendir p) OBJ_DIR FD_FLAG_READ k = Some (res, k')"
    using assms(1) by (simp add: ksys_opendir_def)
  from open_object_fd_result [OF this assms(2,3)] show ?thesis by (simp add: opens_one_def split: sum.split)
qed (use assms in \<open>auto simp: ksys_opendir_def opens_one_def\<close>)

lemma fd_close_within: "fd_close rp task fd k = Some (res, k') \<Longrightarrow> kernel_inv k \<Longrightarrow> within {task} k k'"
  by (simp add: fd_close_def fd_close_pid_within(1))

lemma ksys_closedir_within:
  "ksys_closedir rp task fd k = Some (res, k') \<Longrightarrow> kernel_inv k \<Longrightarrow> within {task} k k'"
  by (auto simp: ksys_closedir_def split: sum.splits dest: fd_close_within)

section \<open>Interference\<close>

text \<open>A call of another process that does not install a descriptor in this one.\<close>

definition call_ok :: "neox_pid_t \<Rightarrow> neox_pid_t \<times> kcall \<Rightarrow> bool" where
  "call_ok task qc \<longleftrightarrow> (case qc of (q, c) \<Rightarrow> q \<noteq> task \<and> q < MAX_PROCS \<and>
     (case c of C_Clone _ target _ \<Rightarrow> target \<noteq> task | _ \<Rightarrow> True))"

lemma fs_call_transfers:
  "ksys_seek rp q fd offset whence k = Some (res, k') \<Longrightarrow> kernel_inv k \<Longrightarrow> transfers k k'"
  "ksys_tell rp q fd k = Some (res, k') \<Longrightarrow> kernel_inv k \<Longrightarrow> transfers k k'"
  "ksys_readdir rp q fd k = Some (res, k') \<Longrightarrow> kernel_inv k \<Longrightarrow> transfers k k'"
  "ksys_load_file_to_memory rp q path n k = Some (res, k') \<Longrightarrow> kernel_inv k \<Longrightarrow> transfers k k'"
  "ksys_save_memory_to_file rp q path data k = Some (res, k') \<Longrightarrow> kernel_inv k \<Longrightarrow> transfers k k'"
  by (simp_all add: ksys_seek_def ksys_tell_def ksys_readdir_def ksys_load_file_to_memory_def ksys_save_memory_to_file_def
      ksys_fs_exec_handle_transfers ksys_fs_exec_no_handle_transfers)

text \<open>The calls that only move data: no descriptor and no object of the tables changes its owner.\<close>

definition data_call :: "kcall \<Rightarrow> bool" where
  "data_call c \<longleftrightarrow> (case c of
     C_Read _ _ \<Rightarrow> True | C_Write _ _ \<Rightarrow> True | C_Seek _ _ _ \<Rightarrow> True | C_Tell _ \<Rightarrow> True | C_Readdir _ \<Rightarrow> True | C_Delete _ \<Rightarrow> True
   | C_Rename _ _ \<Rightarrow> True | C_Chdir _ \<Rightarrow> True | C_Mkdir _ \<Rightarrow> True | C_Rmdir _ \<Rightarrow> True | C_Getcwd _ \<Rightarrow> True | C_Load _ _ \<Rightarrow> True
   | C_Save _ _ \<Rightarrow> True | _ \<Rightarrow> False)"

lemma data_call_transfers:
  assumes "other_call rp q c k = Some k'" and "kernel_inv k" and "q < MAX_PROCS" and "data_call c"
  shows "transfers k k'"
  using assms by (cases c) (auto simp: other_call_def data_call_def
    dest: ksys_read_transfers ksys_write_transfers fs_call_transfers ksys_fs_exec_no_handle_transfers)

text \<open>Every other call changes the row of the caller only, or that of the process it copies to.\<close>

lemma table_call_within:
  assumes "other_call rp q c k = Some k'" and "kernel_inv k" and "q < MAX_PROCS" and "\<not> data_call c"
  shows "within {case c of C_Clone fd target target_fd \<Rightarrow> target | _ \<Rightarrow> q} k k'"
proof (cases c)
  case (C_Open path mode)
  then show ?thesis using assms(1) ksys_open_result [OF _ assms(2,3)] by (auto simp: other_call_def opens_one_def)
next
  case (C_Opendir path)
  then show ?thesis using assms(1) ksys_opendir_result [OF _ assms(2,3)] by (auto simp: other_call_def opens_one_def)
next
  case (C_Dup fd)
  then show ?thesis using assms(1) fd_dup_within [OF _ assms(2,3), of fd "fst (fd_dup q fd k)" k'] by (auto simp: other_call_def)
next
  case (C_Dup2 a b)
  then show ?thesis using assms(1) fd_dup2_within [OF _ assms(2,3), of a b "fst (fd_dup2 q a b k)" k'] by (auto simp: other_call_def)
next
  case C_Pipe
  then show ?thesis using assms(1) pipe_create_result(1) [OF _ assms(2,3), of "fst (pipe_create q k)" k'] by (auto simp: other_call_def)
qed (use assms in \<open>auto simp: other_call_def data_call_def
    dest: fd_close_within ksys_closedir_within fd_clone_between_within fd_close_process_within\<close>)

lemma other_call_view:
  assumes "other_call rp q c k = Some k'" and "kernel_inv k" and "call_ok task (q, c)" and "task < MAX_PROCS"
  shows "kernel_inv k' \<and> same_view task k k'"
proof -
  have q: "q \<noteq> task" "q < MAX_PROCS" using assms(3) by (simp_all add: call_ok_def)
  have "\<exists>S. within S k k' \<and> task \<notin> S"
  proof (cases "data_call c")
    case True
    show ?thesis using transfers_within [OF data_call_transfers [OF assms(1,2) q(2) True], of "{}"] by blast
  next
    case False
    have "task \<noteq> (case c of C_Clone fd target target_fd \<Rightarrow> target | _ \<Rightarrow> q)"
      using q(1) assms(3) by (auto simp: call_ok_def split: kcall.splits)
    then show ?thesis using table_call_within [OF assms(1,2) q(2) False] by blast
  qed
  then show ?thesis using assms(4) by (auto simp: within_def)
qed

lemma run_others_view:
  "run_others rp b k = Some k' \<Longrightarrow> kernel_inv k \<Longrightarrow> \<forall>qc \<in> set b. call_ok task qc \<Longrightarrow> task < MAX_PROCS \<Longrightarrow>
   kernel_inv k' \<and> same_view task k k'"
proof (induction b arbitrary: k)
  case (Cons qc b)
  obtain q c where qc: "qc = (q, c)" by (cases qc)
  obtain k1 where k1: "other_call rp q c k = Some k1" "run_others rp b k1 = Some k'"
    using Cons.prems(1) qc by (auto simp: bind_eq_Some_conv)
  note s1 = other_call_view [OF k1(1) Cons.prems(2) _ Cons.prems(4)]
  show ?case using s1 Cons.IH [OF k1(2)] Cons.prems(3,4) qc by (auto intro: same_view_trans)
qed simp

lemma gated_result:
  assumes "gated rp f bs k = Some (x, k', bs')" and "kernel_inv k" and "task < MAX_PROCS"
    and "\<forall>b \<in> set bs. \<forall>qc \<in> set b. call_ok task qc"
    and blocked: "\<And>k1 wt k2. kernel_inv k1 \<Longrightarrow> f k1 = Some (Blocked wt, k2) \<Longrightarrow> transfers k1 k2"
  obtains k1 where "kernel_inv k1" and "same_view task k k1" and "f k1 = Some (Finished x, k')"
    and "set bs' \<subseteq> set bs"
proof -
  have "\<exists>k1. kernel_inv k1 \<and> same_view task k k1 \<and> f k1 = Some (Finished x, k') \<and> set bs' \<subseteq> set bs"
    using assms(1,2,4)
  proof (induction bs arbitrary: k)
    case Nil
    then obtain res k1 where "f k = Some (res, k1)" by (auto simp: bind_eq_Some_conv)
    with Nil show ?case by (intro exI [of _ k]) (auto split: pass.splits)
  next
    case (Cons b bs)
    obtain k1 where k1: "run_others rp b k = Some k1" using Cons.prems(1) by (auto simp: bind_eq_Some_conv)
    obtain res k2 where f: "f k1 = Some (res, k2)" using Cons.prems(1) k1 by (auto simp: bind_eq_Some_conv)
    have v1: "kernel_inv k1" "same_view task k k1"
      using run_others_view [OF k1 Cons.prems(2)] Cons.prems(3) assms(3) by auto
    show ?case
    proof (cases res)
      case (Finished y)
      then show ?thesis using Cons.prems(1) k1 f v1 by (intro exI [of _ k1]) auto
    next
      case (Blocked wt)
      have g: "gated rp f bs k2 = Some (x, k', bs')" using Cons.prems(1) k1 f Blocked by simp
      have t: "transfers k1 k2" using blocked v1(1) f Blocked by simp
      then have v2: "kernel_inv k2" "same_view task k1 k2"
        using transfers_within [OF t, of "{}"] assms(3) by (auto simp: within_def)
      from Cons.IH [OF g v2(1)] Cons.prems(3) obtain k3 where
        "kernel_inv k3" "same_view task k2 k3" "f k3 = Some (Finished x, k')" "set bs' \<subseteq> set bs" by auto
      then show ?thesis using v1 v2 by (intro exI [of _ k3]) (auto intro: same_view_trans)
    qed
  qed
  then show ?thesis using that by blast
qed

section \<open>The descriptor contract\<close>

definition machine_inv :: "neox_pid_t \<Rightarrow> ('r, 'z) machine_scheme \<Rightarrow> bool" where
  "machine_inv task w \<longleftrightarrow> task < MAX_PROCS \<and> kernel_inv (kern w)
     \<and> (\<forall>b \<in> set (schedule w). \<forall>qc \<in> set b. call_ok task qc)"

definition task_fds :: "neox_pid_t \<Rightarrow> ('r, 'z) machine_scheme \<Rightarrow> neox_fd_t set" where
  "task_fds task w = {fd. is_open task fd (kern w)}"

definition task_dirs :: "neox_pid_t \<Rightarrow> ('r, 'z) machine_scheme \<Rightarrow> neox_fd_t set" where
  "task_dirs task w = {fd. is_open task fd (kern w)
     \<and> open_type (opens (kern w) ! unat (proc_fd_obj (kern w) ! fd_slot task fd)) = OBJ_DIR}"

lemma same_view_slot:
  assumes "same_view task k k'" and "fd < MAX_FDS"
  shows "proc_fd_obj k' ! fd_slot task fd = proc_fd_obj k ! fd_slot task fd"
    and "proc_fd_flags k' ! fd_slot task fd = proc_fd_flags k ! fd_slot task fd"
    and "proc_fd_obj k ! fd_slot task fd \<noteq> FD_NONE \<Longrightarrow>
      (opens k' ! unat (proc_fd_obj k ! fd_slot task fd))\<lparr>open_refcnt := 0\<rparr>
        = (opens k ! unat (proc_fd_obj k ! fd_slot task fd))\<lparr>open_refcnt := 0\<rparr>"
  using assms fd_slot_row [OF assms(2), of task] by (auto simp: same_view_def)

lemma same_view_is_open: "same_view task k k' \<Longrightarrow> is_open task fd k' = is_open task fd k"
  using same_view_slot(1) [of task k k' fd] by (auto simp: is_open_def)

lemma same_view_type:
  assumes "same_view task k k'" and "is_open task fd k"
  shows "open_type (opens k' ! unat (proc_fd_obj k' ! fd_slot task fd))
    = open_type (opens k ! unat (proc_fd_obj k ! fd_slot task fd))"
proof -
  have fd: "fd < MAX_FDS" "proc_fd_obj k ! fd_slot task fd \<noteq> FD_NONE" using assms(2) by (simp_all add: is_open_def)
  from arg_cong [OF same_view_slot(3) [OF assms(1) fd], of open_type] same_view_slot(1) [OF assms(1) fd(1)]
  show ?thesis by simp
qed

lemma same_view_fds:
  assumes "same_view task (kern w) (kern w')"
  shows "task_fds task w' = task_fds task w" and "task_dirs task w' = task_dirs task w"
  using same_view_is_open [OF assms] same_view_type [OF assms] by (auto simp: task_fds_def task_dirs_def)

text \<open>One system call: others run, then one pass of the call.\<close>

lemma syscall_result:
  assumes "syscall rp f w = Some (x, w')" and "machine_inv task w"
    and "\<And>k1 wt k2. kernel_inv k1 \<Longrightarrow> f k1 = Some (Blocked wt, k2) \<Longrightarrow> transfers k1 k2"
  obtains k1 where "kernel_inv k1" and "same_view task (kern w) k1" and "f k1 = Some (Finished x, kern w')"
    and "kernel_inv (kern w') \<longrightarrow> machine_inv task w'"
proof -
  obtain k' bs' where g: "gated rp f (schedule w) (kern w) = Some (x, k', bs')"
    and w': "w' = w\<lparr>kern := k', schedule := bs'\<rparr>"
    using assms(1) by (auto simp: syscall_def bind_eq_Some_conv)
  have inv: "task < MAX_PROCS" "kernel_inv (kern w)" "\<forall>b \<in> set (schedule w). \<forall>qc \<in> set b. call_ok task qc"
    using assms(2) by (simp_all add: machine_inv_def)
  obtain k1 where "kernel_inv k1" "same_view task (kern w) k1" "f k1 = Some (Finished x, k')" "set bs' \<subseteq> set (schedule w)"
    by (rule gated_result [OF g inv(2,1,3) assms(3)])
  then show ?thesis using that [of k1] w' inv by (auto simp: machine_inv_def)
qed

lemma as_status_not_blocked: "as_status f d g k \<noteq> Some (Blocked wt, k')"
  by (auto simp: as_status_def bind_eq_Some_conv)

lemma as_status_Finished:
  assumes "as_status f d g k = Some (Finished (st, y), k')"
  obtains res where "f k = Some (res, k')" and "(st, y) = (case res of Inl e \<Rightarrow> (e, d) | Inr x \<Rightarrow> (NEOX_STATUS_OK, g x))"
  using assms by (auto simp: as_status_def bind_eq_Some_conv)

lemma syscall_status:
  assumes "syscall rp (as_status f d g) w = Some ((st, y), w')" and "machine_inv task w"
  obtains k1 res where "kernel_inv k1" and "same_view task (kern w) k1" and "f k1 = Some (res, kern w')"
    and "(st, y) = (case res of Inl e \<Rightarrow> (e, d) | Inr x \<Rightarrow> (NEOX_STATUS_OK, g x))"
    and "kernel_inv (kern w') \<longrightarrow> machine_inv task w'"
proof -
  obtain k1 where k1: "kernel_inv k1" "same_view task (kern w) k1" "as_status f d g k1 = Some (Finished (st, y), kern w')"
    "kernel_inv (kern w') \<longrightarrow> machine_inv task w'"
    by (rule syscall_result [OF assms]) (simp_all add: as_status_not_blocked)
  obtain res where "f k1 = Some (res, kern w')" "(st, y) = (case res of Inl e \<Rightarrow> (e, d) | Inr x \<Rightarrow> (NEOX_STATUS_OK, g x))"
    by (rule as_status_Finished [OF k1(3)])
  then show ?thesis using that k1 by blast
qed

text \<open>A pass that transfers leaves the descriptor table of the process alone.\<close>

lemma transfer_call_fds:
  assumes "same_view task (kern w) k1" and "transfers k1 (kern w')"
    and "kernel_inv (kern w') \<longrightarrow> machine_inv task w'" and "machine_inv task w"
  shows "machine_inv task w' \<and> task_fds task w' = task_fds task w \<and> task_dirs task w' = task_dirs task w"
proof -
  have t: "task < MAX_PROCS" using assms(4) by (simp add: machine_inv_def)
  have "within {} k1 (kern w')" by (rule transfers_within [OF assms(2)])
  then have "kernel_inv (kern w')" "same_view task k1 (kern w')" using t by (simp_all add: within_def)
  then show ?thesis using same_view_fds [of task w w'] assms(1,3) same_view_trans by blast
qed

lemma syscall_transfer_fds:
  assumes "syscall rp f w = Some (x, w')" and "machine_inv task w"
    and "\<And>k1 r k2. kernel_inv k1 \<Longrightarrow> f k1 = Some (r, k2) \<Longrightarrow> transfers k1 k2"
  shows "machine_inv task w' \<and> task_fds task w' = task_fds task w \<and> task_dirs task w' = task_dirs task w"
proof -
  obtain k1 where "kernel_inv k1" "same_view task (kern w) k1" "f k1 = Some (Finished x, kern w')"
    "kernel_inv (kern w') \<longrightarrow> machine_inv task w'"
    by (rule syscall_result [OF assms(1,2)]) (use assms(3) in auto)
  then show ?thesis using transfer_call_fds [OF _ assms(3)] assms(2) by blast
qed

text \<open>The effect of open on the descriptors.\<close>

lemma ksys_open_effect:
  assumes "ksys_open rp task path mode k = Some (res, k')" and "kernel_inv k" and "task < MAX_PROCS"
  shows "kernel_inv k' \<and> (\<forall>q < MAX_PROCS. q \<noteq> task \<longrightarrow> same_view q k k') \<and>
    (case res of
       Inl e \<Rightarrow> proc_fd_obj k' = proc_fd_obj k
     | Inr fd \<Rightarrow> fd < MAX_FDS \<and> \<not> is_open task fd k \<and> is_open task fd k'
         \<and> (\<exists>x. proc_fd_obj k' = (proc_fd_obj k)[fd_slot task fd := x] \<and> open_type (opens k' ! unat x) = OBJ_FILE))"
proof -
  have o: "opens_one task OBJ_FILE k res k'" by (rule ksys_open_result [OF assms])
  show ?thesis
  proof (cases res)
    case (Inr fd)
    then show ?thesis
      using o fd_slot_less [OF assms(3), of fd] kernel_invD(1) [OF assms(2)] assms(3)
      by (auto simp: opens_one_def within_def is_open_def)
  qed (use o in \<open>auto simp: opens_one_def within_def\<close>)
qed

end
