(* ===== verification/Kernel_Contract.thy ===== *)
theory Kernel_Contract
  imports Kernel_Os
begin

text \<open>
  The kernel provides what the C programs assume of the system: the descriptor contract for
  any interleaving with other processes, and the stream contracts for a file or the console
  when the process is not disturbed and the RP2350 transfers what it is asked to.
\<close>

section \<open>Descriptors\<close>

text \<open>What the kernel relies on: an RP request that fails reports a non-zero error code.\<close>

locale rp_errors =
  fixes rp :: "'r rp2350" and task :: neox_pid_t and base :: "('r, 'z) machine_scheme neox_os"
  assumes fs_error: "rp_fs rp q request r = Some (reply, r') \<Longrightarrow> rp_failed reply \<Longrightarrow> rp_err reply \<noteq> 0"

lemma kernel_os_sel [simp]:
  "neox_open (kernel_os rp task base) path mode w = flat2 (syscall rp (as_status (ksys_open rp task path mode) 0 id) w)"
  "neox_read (kernel_os rp task base) fd n w = flat3 (syscall rp (ksys_read rp task fd n) w)"
  "neox_write (kernel_os rp task base) fd data w = flat2 (syscall rp (ksys_write rp task fd data) w)"
  "neox_seek (kernel_os rp task base) fd offset whence w =
     flat2 (syscall rp (as_status (ksys_seek rp task fd offset whence) 0 rp_position) w)"
  "neox_close (kernel_os rp task base) fd w = status_only (syscall rp (as_status (fd_close rp task fd) () id) w)"
  "neox_opendir (kernel_os rp task base) path w = flat2 (syscall rp (as_status (ksys_opendir rp task path) 0 id) w)"
  "neox_readdir (kernel_os rp task base) fd w = flat3 (syscall rp (as_status (ksys_readdir rp task fd) (empty_entry, 0)
     (\<lambda>reply. (rp_entry reply, if rp_res0 reply = 0 then 1 else 0))) w)"
  "neox_closedir (kernel_os rp task base) fd w =
     status_only (syscall rp (as_status (ksys_closedir rp task fd) () id) w)"
  by (simp_all add: kernel_os_def)

lemma flat_Some [simp]:
  "status_only x = Some (st, w') \<longleftrightarrow> x = Some ((st, ()), w')"
  "flat2 y = Some (st, a, w') \<longleftrightarrow> y = Some ((st, a), w')"
  "flat3 z = Some (st, a, b, w') \<longleftrightarrow> z = Some ((st, a, b), w')"
  by (auto simp: status_only_def flat2_def flat3_def)

lemma is_open_update:
  assumes "kernel_inv k" and "task < MAX_PROCS" and "fd < MAX_FDS" and "proc_fd_obj k' = (proc_fd_obj k)[fd_slot task fd := x]"
  shows "is_open task fd' k' \<longleftrightarrow> (if fd' = fd then x \<noteq> FD_NONE else is_open task fd' k)"
  using assms fd_slot_inject [OF assms(3), of fd' task task] fd_slot_less [OF assms(2,3)] kernel_invD(1) [OF assms(1)]
  by (auto simp: is_open_def nth_list_update)

lemma close_open_set:
  assumes "fd_close rp task fd k = Some (res, k')" and "kernel_inv k" and "task < MAX_PROCS"
  shows "{x. is_open task x k'} = {x. is_open task x k} - {fd}"
proof (cases "is_open task fd k")
  case True
  then have "proc_fd_obj k' = (proc_fd_obj k)[fd_slot task fd := FD_NONE]" and fd: "fd < MAX_FDS"
    using fd_close_pid_within(2) [of rp task task fd k res k'] assms by (simp_all add: fd_close_def is_open_def)
  from is_open_update [OF assms(2,3) fd this(1)] show ?thesis by auto
next
  case False
  then have "k' = k" using assms(1) by (simp add: fd_close_def fd_close_pid_closed)
  with False show ?thesis by auto
qed

lemma opens_one_set:
  assumes "opens_one task ty k res k'" and "kernel_inv k" and "task < MAX_PROCS"
  shows "res = Inl e \<Longrightarrow> {x. is_open task x k'} = {x. is_open task x k}"
    and "res = Inr fd \<Longrightarrow> {x. is_open task x k'} = insert fd {x. is_open task x k} \<and> \<not> is_open task fd k
      \<and> open_type (opens k' ! unat (proc_fd_obj k' ! fd_slot task fd)) = ty"
proof -
  show "res = Inl e \<Longrightarrow> {x. is_open task x k'} = {x. is_open task x k}"
    using assms(1) by (simp add: opens_one_def is_open_def)
  assume "res = Inr fd"
  then obtain x where fd: "fd < MAX_FDS" "proc_fd_obj k ! fd_slot task fd = FD_NONE" and x: "x \<noteq> FD_NONE"
    "proc_fd_obj k' = (proc_fd_obj k)[fd_slot task fd := x]" "open_type (opens k' ! unat x) = ty"
    using assms(1) by (auto simp: opens_one_def)
  have "proc_fd_obj k' ! fd_slot task fd = x"
    using x(2) fd_slot_less [OF assms(3) fd(1)] kernel_invD(1) [OF assms(2)] by simp
  then show "{x. is_open task x k'} = insert fd {x. is_open task x k} \<and> \<not> is_open task fd k
      \<and> open_type (opens k' ! unat (proc_fd_obj k' ! fd_slot task fd)) = ty"
    using is_open_update [OF assms(2,3) fd(1) x(2)] x fd(2) by (auto simp: is_open_def)
qed

context rp_errors
begin

lemma open_object_error:
  assumes "open_object_fd rp task request ty flags k = Some (Inl e, k')"
  shows "e \<noteq> 0"
proof (cases "fd_alloc_open k")
  case (Inl e')
  then show ?thesis using assms by (auto simp: open_object_fd_def fd_alloc_open_def split: option.splits)
next
  case x: (Inr x)
  show ?thesis
  proof (cases "fd_find_free_current task k")
    case (Inl e')
    then show ?thesis using assms x by (auto simp: open_object_fd_def fd_find_free_current_def split: option.splits)
  next
    case (Inr fd)
    obtain reply k1 where "rp_fs_exec rp task request k = Some (reply, k1)"
      using assms x Inr by (auto simp: open_object_fd_def bind_eq_Some_conv)
    then show ?thesis
      using assms x Inr fs_error
      by (auto simp: open_object_fd_def Let_def rp_fs_exec_def bind_eq_Some_conv split: if_splits)
  qed
qed

lemma open_error:
  "ksys_open rp task path mode k = Some (Inl e, k') \<Longrightarrow> e \<noteq> 0"
  "ksys_opendir rp task path k = Some (Inl e, k') \<Longrightarrow> e \<noteq> 0"
  by (auto simp: ksys_open_def ksys_opendir_def ksys_fs_uppercase_path_def dest: open_object_error
      split: sum.splits if_splits)

text \<open>The common shape of the two open calls.\<close>

lemma open_call_fds:
  assumes "syscall rp (as_status f 0 id) w = Some ((st, fd), w')" and "machine_inv task w"
    and "\<And>k1 res k2. kernel_inv k1 \<Longrightarrow> f k1 = Some (res, k2) \<Longrightarrow> opens_one task ty k1 res k2"
    and "\<And>k1 e k2. f k1 = Some (Inl e, k2) \<Longrightarrow> e \<noteq> 0"
  shows "machine_inv task w'
    \<and> task_fds task w' = (if st = NEOX_STATUS_OK then insert fd (task_fds task w) else task_fds task w)
    \<and> (st = NEOX_STATUS_OK \<longrightarrow> fd \<notin> task_fds task w
        \<and> open_type (opens (kern w') ! unat (proc_fd_obj (kern w') ! fd_slot task fd)) = ty)"
proof -
  have t: "task < MAX_PROCS" using assms(2) by (simp add: machine_inv_def)
  obtain k1 res where k1: "kernel_inv k1" "same_view task (kern w) k1" "f k1 = Some (res, kern w')"
    and st: "(st, fd) = (case res of Inl e \<Rightarrow> (e, 0) | Inr x \<Rightarrow> (NEOX_STATUS_OK, id x))"
    and inv: "kernel_inv (kern w') \<longrightarrow> machine_inv task w'"
    by (rule syscall_status [OF assms(1,2)])
  have one: "opens_one task ty k1 res (kern w')" by (rule assms(3) [OF k1(1,3)])
  then have "machine_inv task w'" using inv by (simp add: opens_one_def within_def)
  moreover have fds: "task_fds task w = {x. is_open task x k1}"
    using same_view_is_open [OF k1(2)] by (simp add: task_fds_def)
  ultimately show ?thesis
    using opens_one_set [OF one k1(1) t] st assms(4) k1(3)
    by (cases res) (auto simp: task_fds_def)
qed

lemma closedir_call_fds:
  assumes "syscall rp (as_status (ksys_closedir rp task fd) () id) w = Some ((st, u), w')"
    and "machine_inv task w" and "fd \<in> task_dirs task w"
  shows "machine_inv task w' \<and> task_fds task w' = task_fds task w - {fd}"
proof -
  have t: "task < MAX_PROCS" using assms(2) by (simp add: machine_inv_def)
  obtain k1 res where k1: "kernel_inv k1" "same_view task (kern w) k1" "ksys_closedir rp task fd k1 = Some (res, kern w')"
    and inv: "kernel_inv (kern w') \<longrightarrow> machine_inv task w'"
    by (rule syscall_status [OF assms(1,2)])
  have d: "is_open task fd k1" "open_type (opens k1 ! unat (proc_fd_obj k1 ! fd_slot task fd)) = OBJ_DIR"
    using assms(3) same_view_is_open [OF k1(2)] same_view_type [OF k1(2)] by (auto simp: task_dirs_def)
  then have "fd_resolve_dir task fd k1 = Inr (proc_fd_obj k1 ! fd_slot task fd,
      open_file_handle (opens k1 ! unat (proc_fd_obj k1 ! fd_slot task fd)))"
    by (simp add: fd_resolve_dir_def fd_resolve_handle_def fd_lookup_def is_open_def not_le [symmetric])
  then have c: "fd_close rp task fd k1 = Some (res, kern w')" using k1(3) by (simp add: ksys_closedir_def)
  then have "machine_inv task w'" using inv within_inv [OF fd_close_within [OF c k1(1)]] by simp
  then show ?thesis
    using close_open_set [OF c k1(1) t] same_view_is_open [OF k1(2)] by (simp add: task_fds_def)
qed

lemma close_call_fds:
  assumes "syscall rp (as_status (fd_close rp task fd) () id) w = Some ((st, u), w')" and "machine_inv task w"
  shows "machine_inv task w' \<and> task_fds task w' = task_fds task w - {fd}"
proof -
  have t: "task < MAX_PROCS" using assms(2) by (simp add: machine_inv_def)
  obtain k1 res where k1: "kernel_inv k1" "same_view task (kern w) k1" "fd_close rp task fd k1 = Some (res, kern w')"
    and inv: "kernel_inv (kern w') \<longrightarrow> machine_inv task w'"
    by (rule syscall_status [OF assms])
  then have "machine_inv task w'" using within_inv [OF fd_close_within [OF k1(3,1)]] by simp
  then show ?thesis
    using close_open_set [OF k1(3,1) t] same_view_is_open [OF k1(2)] by (simp add: task_fds_def)
qed

lemma handle_call_transfers:
  "kernel_inv k1 \<Longrightarrow> ksys_readdir rp task fd k1 = Some (res, k2) \<Longrightarrow> transfers k1 k2"
  "kernel_inv k1 \<Longrightarrow> ksys_seek rp task fd offset whence k1 = Some (res, k2) \<Longrightarrow> transfers k1 k2"
  by (simp_all add: ksys_readdir_def ksys_seek_def ksys_fs_exec_handle_transfers)

lemma status_transfer_fds:
  assumes "syscall rp (as_status f d g) w = Some (x, w')" and "machine_inv task w"
    and "\<And>k1 r k2. kernel_inv k1 \<Longrightarrow> f k1 = Some (r, k2) \<Longrightarrow> transfers k1 k2"
  shows "machine_inv task w' \<and> task_fds task w' = task_fds task w \<and> task_dirs task w' = task_dirs task w"
  using assms(1,2)
  by (rule syscall_transfer_fds) (auto simp: as_status_def bind_eq_Some_conv dest: assms(3) [rotated])

end

sublocale rp_errors \<subseteq> kernel_fds: neox_descriptors "kernel_os rp task base" "task_fds task" "task_dirs task" "machine_inv task"
proof
  fix w w' :: "('r, 'z) machine_scheme" and path :: "byte list" and mode :: neox_open_mode and st :: neox_status_t and fd :: neox_fd_t
    and n k :: neox_size_t and data :: "byte list" and entry :: neox_dir_entry and fin :: byte
    and offset position :: "32 word" and whence :: neox_seek_whence
  assume inv: "machine_inv task w"
  then have t: "task < MAX_PROCS" by (simp add: machine_inv_def)
  show "0xFF \<notin> task_fds task w" by (simp add: task_fds_def is_open_def)
  show "machine_inv task w' \<and>
      task_fds task w' = (if st = NEOX_STATUS_OK then insert fd (task_fds task w) else task_fds task w) \<and>
      (st = NEOX_STATUS_OK \<longrightarrow> fd \<notin> task_fds task w)"
    if "neox_open (kernel_os rp task base) path mode w = Some (st, fd, w')"
    using open_call_fds [of "ksys_open rp task path mode" w st fd w' OBJ_FILE]
      inv ksys_open_result [OF _ _ t, of rp path mode] open_error(1) [of path mode] that by auto
  show "machine_inv task w' \<and>
      task_fds task w' = (if st = NEOX_STATUS_OK then insert fd (task_fds task w) else task_fds task w) \<and>
      (st = NEOX_STATUS_OK \<longrightarrow> fd \<notin> task_fds task w \<and> fd \<in> task_dirs task w')"
    if "neox_opendir (kernel_os rp task base) path w = Some (st, fd, w')"
    using open_call_fds [of "ksys_opendir rp task path" w st fd w' OBJ_DIR]
      inv ksys_opendir_result [OF _ _ t, of rp path] open_error(2) [of path] that
    by (auto simp: task_dirs_def task_fds_def)
  show "machine_inv task w' \<and> task_fds task w' = task_fds task w - {fd}"
    if "neox_close (kernel_os rp task base) fd w = Some (st, w')"
    using close_call_fds [OF _ inv] that by simp
  show "machine_inv task w' \<and> task_fds task w' = task_fds task w - {fd}"
    if "fd \<in> task_dirs task w" "neox_closedir (kernel_os rp task base) fd w = Some (st, w')"
    using closedir_call_fds [OF _ inv] that by simp
  show "machine_inv task w' \<and> task_fds task w' = task_fds task w \<and> task_dirs task w' = task_dirs task w"
    if "neox_read (kernel_os rp task base) fd n w = Some (st, k, data, w')"
    using syscall_transfer_fds [OF _ inv ksys_read_transfers [OF _ _ t]] that by simp
  show "machine_inv task w' \<and> task_fds task w' = task_fds task w \<and> task_dirs task w' = task_dirs task w"
    if "neox_write (kernel_os rp task base) fd data w = Some (st, k, w')"
    using syscall_transfer_fds [OF _ inv ksys_write_transfers [OF _ _ t]] that by simp
  show "machine_inv task w' \<and> task_fds task w' = task_fds task w \<and> task_dirs task w' = task_dirs task w"
    if "neox_readdir (kernel_os rp task base) fd w = Some (st, entry, fin, w')"
    by (rule status_transfer_fds [OF that [unfolded kernel_os_sel flat_Some] inv handle_call_transfers(1)])
  show "machine_inv task w' \<and> task_fds task w' = task_fds task w \<and> task_dirs task w' = task_dirs task w"
    if "neox_seek (kernel_os rp task base) fd offset whence w = Some (st, position, w')"
    by (rule status_transfer_fds [OF that [unfolded kernel_os_sel flat_Some] inv handle_call_transfers(2)])
qed

context rp_errors
begin

lemma kernel_descriptors:
  "neox_descriptors (kernel_os rp task base) (task_fds task) (task_dirs task) (machine_inv task)"
  by (rule kernel_fds.neox_descriptors_axioms)

end

section \<open>Streams\<close>

text \<open>What a descriptor of a process stands for on the RP side, and the transfer requests.\<close>

datatype backend = Bk_Console | Bk_File byte

definition backend_write ::
  "'r rp2350 \<Rightarrow> neox_pid_t \<Rightarrow> backend \<Rightarrow> byte list \<Rightarrow> 'r \<Rightarrow> ((neox_status_t \<times> neox_size_t) \<times> 'r) option" where
  "backend_write rp task b data r =
     (case b of
        Bk_Console \<Rightarrow> map_option (\<lambda>(res, r). (case res of Inl e \<Rightarrow> (e, 0) | Inr n \<Rightarrow> (NEOX_STATUS_OK, n), r))
          (rp_con_write rp data r)
      | Bk_File h \<Rightarrow> map_option (\<lambda>(reply, r). (if rp_failed reply then (rp_err reply, 0)
            else (NEOX_STATUS_OK, rp_res0 reply), r)) (rp_fs rp task (Fs_Write h data) r))"

definition file_read ::
  "'r rp2350 \<Rightarrow> neox_pid_t \<Rightarrow> byte \<Rightarrow> neox_size_t \<Rightarrow> 'r
   \<Rightarrow> ((neox_status_t \<times> neox_size_t \<times> byte list) \<times> 'r) option" where
  "file_read rp task h n r =
     map_option (\<lambda>(reply, r). (if rp_failed reply then (rp_err reply, 0, rp_stored reply)
       else (NEOX_STATUS_OK, rp_res0 reply, rp_stored reply), r)) (rp_fs rp task (Fs_Read h n) r)"

definition fd_backend :: "neox_pid_t \<Rightarrow> neox_fd_t \<Rightarrow> byte \<Rightarrow> backend \<Rightarrow> 'r kernel \<Rightarrow> bool" where
  "fd_backend task fd flag b k \<longleftrightarrow>
     is_open task fd k \<and> fd_get_flags_current task fd k AND flag \<noteq> 0 \<and>
     (let obj = opens k ! unat (proc_fd_obj k ! fd_slot task fd) in
      case b of
        Bk_Console \<Rightarrow> open_type obj = OBJ_DEVICE \<and> open_dev obj = DEV_CONSOLE
      | Bk_File h \<Rightarrow> open_type obj = OBJ_FILE \<and> open_file_handle obj = h)"

lemma fd_backend_resolve:
  assumes "fd_backend task fd flag b k"
  shows "fd_resolve_rw task flag fd k = (let x = proc_fd_obj k ! fd_slot task fd in
    Inr (x, open_type (opens k ! unat x), open_dev (opens k ! unat x)))"
  using assms
  by (auto simp: fd_backend_def fd_resolve_rw_def fd_lookup_def fd_check_perm_def fd_get_flags_current_def
      is_open_def Let_def not_le [symmetric])

lemma ksys_write_backend:
  assumes "fd_backend task fd FD_FLAG_WRITE b k"
  shows "ksys_write rp task fd data k =
    map_option (\<lambda>(res, r). (Finished res, k\<lparr>rp_state := r\<rparr>)) (backend_write rp task b data (rp_state k))"
proof (cases b)
  case Bk_Console
  then have ty: "open_type (opens k ! unat (proc_fd_obj k ! fd_slot task fd)) = OBJ_DEVICE"
    "open_dev (opens k ! unat (proc_fd_obj k ! fd_slot task fd)) = DEV_CONSOLE"
    using assms by (simp_all add: fd_backend_def Let_def)
  show ?thesis
    using fd_backend_resolve [OF assms] ty Bk_Console
    by (cases "rp_con_write rp data (rp_state k)")
      (auto simp: ksys_write_def fd_write_def dev_write_def console_write_def backend_write_def block_or_fail_def
        Let_def split: sum.splits)
next
  case (Bk_File h)
  then have ty: "open_type (opens k ! unat (proc_fd_obj k ! fd_slot task fd)) = OBJ_FILE"
    "open_file_handle (opens k ! unat (proc_fd_obj k ! fd_slot task fd)) = h"
    using assms by (simp_all add: fd_backend_def Let_def)
  show ?thesis
    using fd_backend_resolve [OF assms] ty Bk_File
    by (cases "rp_fs rp task (Fs_Write h data) (rp_state k)")
      (auto simp: ksys_write_def rp_fs_exec_def backend_write_def Let_def)
qed

lemma ksys_read_file:
  assumes "fd_backend task fd FD_FLAG_READ (Bk_File h) k"
  shows "ksys_read rp task fd n k =
    map_option (\<lambda>(res, r). (Finished res, k\<lparr>rp_state := r\<rparr>)) (file_read rp task h n (rp_state k))"
proof -
  have ty: "open_type (opens k ! unat (proc_fd_obj k ! fd_slot task fd)) = OBJ_FILE"
    "open_file_handle (opens k ! unat (proc_fd_obj k ! fd_slot task fd)) = h"
    using assms by (simp_all add: fd_backend_def Let_def)
  show ?thesis
    using fd_backend_resolve [OF assms] ty
    by (cases "rp_fs rp task (Fs_Read h n) (rp_state k)")
      (auto simp: ksys_read_def rp_fs_exec_def file_read_def Let_def)
qed

text \<open>
  The process runs undisturbed: the other processes make no call meanwhile, and the
  descriptors in \<open>uses\<close> stand for the given backends.
\<close>

definition undisturbed ::
  "neox_pid_t \<Rightarrow> (neox_fd_t \<times> byte \<times> backend) list \<Rightarrow> ('r \<Rightarrow> bool) \<Rightarrow> ('r, 'z) machine_scheme \<Rightarrow> bool" where
  "undisturbed task uses rinv w \<longleftrightarrow> machine_inv task w \<and> schedule w = []
     \<and> (\<forall>(fd, flag, b) \<in> set uses. fd_backend task fd flag b (kern w)) \<and> rinv (rp_state (kern w))"

lemma undisturbed_rp:
  assumes "undisturbed task uses rinv w" and "rinv r"
  shows "undisturbed task uses rinv (w\<lparr>kern := (kern w)\<lparr>rp_state := r\<rparr>, schedule := []\<rparr>)"
  using assms
  by (auto simp: undisturbed_def machine_inv_def fd_backend_def is_open_def fd_get_flags_current_def Let_def)

lemma syscall_quiet:
  assumes "schedule w = []" and "f (kern w) = map_option (\<lambda>(res, r). (Finished res, (kern w)\<lparr>rp_state := r\<rparr>)) x"
  shows "syscall rp f w = map_option (\<lambda>(res, r). (res, (w\<lparr>kern := (kern w)\<lparr>rp_state := r\<rparr>, schedule := []\<rparr>))) x"
  using assms by (cases x) (auto simp: syscall_def)

text \<open>The RP accepts some bytes of every write and keeps them in order.\<close>

locale rp_sink =
  fixes rp :: "'r rp2350" and task :: neox_pid_t and base :: "('r, 'z) machine_scheme neox_os"
    and uses :: "(neox_fd_t \<times> byte \<times> backend) list" and rinv :: "'r \<Rightarrow> bool"
    and fdo :: neox_fd_t and b :: backend and rout :: "'r \<Rightarrow> byte list"
  assumes sink_use: "(fdo, FD_FLAG_WRITE, b) \<in> set uses"
    and rp_writes: "rinv r \<Longrightarrow> 0 < length data \<Longrightarrow> length data < 65536 \<Longrightarrow>
      \<exists>n r'. backend_write rp task b data r = Some ((NEOX_STATUS_OK, of_nat n), r') \<and> 0 < n \<and> n \<le> length data
        \<and> rinv r' \<and> rout r' = rout r @ take n data"

text \<open>The RP hands out what is left of a file in order, nothing only at its end.\<close>

locale rp_source =
  fixes rp :: "'r rp2350" and task :: neox_pid_t and base :: "('r, 'z) machine_scheme neox_os"
    and uses :: "(neox_fd_t \<times> byte \<times> backend) list" and rinv :: "'r \<Rightarrow> bool"
    and fdi :: neox_fd_t and h :: byte and rinp :: "'r \<Rightarrow> byte list"
  assumes source_use: "(fdi, FD_FLAG_READ, Bk_File h) \<in> set uses"
    and rp_reads: "rinv r \<Longrightarrow> 0 < n \<Longrightarrow>
      \<exists>data r'. file_read rp task h n r = Some ((NEOX_STATUS_OK, of_nat (length data), data), r') \<and> length data \<le> unat n
        \<and> rinv r' \<and> rinp r = data @ rinp r' \<and> (data = [] \<longrightarrow> rinp r = [])"

context rp_sink
begin

lemma write_call:
  assumes "undisturbed task uses rinv w" and "backend_write rp task b data (rp_state (kern w)) = Some ((st, n), r')"
  shows "neox_write (kernel_os rp task base) fdo data w =
    Some (st, n, (w\<lparr>kern := (kern w)\<lparr>rp_state := r'\<rparr>, schedule := []\<rparr>))"
proof -
  have "schedule w = []" "fd_backend task fdo FD_FLAG_WRITE b (kern w)"
    using assms(1) sink_use by (auto simp: undisturbed_def)
  then show ?thesis
    using syscall_quiet [of w "ksys_write rp task fdo data" "backend_write rp task b data (rp_state (kern w))" rp] assms(2)
    by (simp add: ksys_write_backend)
qed

end

sublocale rp_sink \<subseteq> stream_out: neox_sink "kernel_os rp task base" fdo
    "\<lambda>w. rout (rp_state (kern w))" "undisturbed task uses rinv"
proof
  fix w w' :: "('r, 'z) machine_scheme" and data :: "byte list" and st :: neox_status_t and n :: neox_size_t
  assume w: "undisturbed task uses rinv w" and d: "0 < length data" "length data < 65536"
  then have "rinv (rp_state (kern w))" by (simp add: undisturbed_def)
  from rp_writes [OF this d] obtain m r' where
    r: "backend_write rp task b data (rp_state (kern w)) = Some ((NEOX_STATUS_OK, of_nat m), r')" "0 < m" "m \<le> length data"
    "rinv r'" "rout r' = rout (rp_state (kern w)) @ take m data" by blast
  note call = write_call [OF w r(1)]
  show "\<exists>st n w'. neox_write (kernel_os rp task base) fdo data w = Some (st, of_nat n, w') \<and> n \<le> length data
      \<and> undisturbed task uses rinv w' \<and> rout (rp_state (kern w')) = rout (rp_state (kern w)) @ take n data
      \<and> (st \<noteq> NEOX_STATUS_OK \<longrightarrow> n = 0)"
    using call r undisturbed_rp [OF w r(4)] by (intro exI conjI) (assumption | simp)+
  have "(of_nat m :: neox_size_t) \<noteq> 0" using r(2,3) d(2) by (simp add: size_of_nat_eq_0)
  then show "neox_write (kernel_os rp task base) fdo data w = Some (st, n, w') \<Longrightarrow> st = NEOX_STATUS_OK \<and> n \<noteq> 0"
    using call by auto
qed

context rp_source
begin

lemma read_call:
  assumes "undisturbed task uses rinv w" and "file_read rp task h n (rp_state (kern w)) = Some ((st, m, data), r')"
  shows "neox_read (kernel_os rp task base) fdi n w =
    Some (st, m, data, (w\<lparr>kern := (kern w)\<lparr>rp_state := r'\<rparr>, schedule := []\<rparr>))"
proof -
  have "schedule w = []" "fd_backend task fdi FD_FLAG_READ (Bk_File h) (kern w)"
    using assms(1) source_use by (auto simp: undisturbed_def)
  then show ?thesis
    using syscall_quiet [of w "ksys_read rp task fdi n" "file_read rp task h n (rp_state (kern w))" rp] assms(2)
    by (simp add: ksys_read_file)
qed

end

sublocale rp_source \<subseteq> stream_in: neox_source "kernel_os rp task base" fdi
    "\<lambda>w. rinp (rp_state (kern w))" "undisturbed task uses rinv"
proof
  fix w w' :: "('r, 'z) machine_scheme" and n k :: neox_size_t and st :: neox_status_t and data :: "byte list"
  assume w: "undisturbed task uses rinv w" and n: "0 < n"
  then have "rinv (rp_state (kern w))" by (simp add: undisturbed_def)
  from rp_reads [OF this n] obtain d r' where
    r: "file_read rp task h n (rp_state (kern w)) = Some ((NEOX_STATUS_OK, of_nat (length d), d), r')" "length d \<le> unat n"
    "rinv r'" "rinp (rp_state (kern w)) = d @ rinp r'" "d = [] \<longrightarrow> rinp (rp_state (kern w)) = []" by blast
  note call = read_call [OF w r(1)]
  show "\<exists>st data w'. neox_read (kernel_os rp task base) fdi n w = Some (st, of_nat (length data), data, w')
      \<and> length data \<le> unat n \<and> undisturbed task uses rinv w'
      \<and> (st = NEOX_STATUS_OK \<longrightarrow> rinp (rp_state (kern w)) = data @ rinp (rp_state (kern w'))
        \<and> (data = [] \<longrightarrow> rinp (rp_state (kern w)) = []))"
    using call r undisturbed_rp [OF w r(3)] by (intro exI conjI) (assumption | simp)+
  show "neox_read (kernel_os rp task base) fdi n w = Some (st, k, data, w') \<Longrightarrow> st = NEOX_STATUS_OK"
    using call by auto
qed

text \<open>A file read into a descriptor on another backend, without interference on the RP side.\<close>

locale rp_channel =
  rp_source rp task base uses rinv fdi h rinp + rp_sink rp task base uses rinv fdo b rout
  for rp :: "'r rp2350" and task and base :: "('r, 'z) machine_scheme neox_os" and uses rinv fdi h rinp fdo b rout +
  assumes rp_read_keeps: "rinv r \<Longrightarrow> file_read rp task h n r = Some (x, r') \<Longrightarrow> rout r' = rout r"
    and rp_write_keeps: "rinv r \<Longrightarrow> backend_write rp task b data r = Some (y, r') \<Longrightarrow> rinp r' = rinp r"

sublocale rp_channel \<subseteq> channel: neox_channel "kernel_os rp task base" fdi
    "\<lambda>w. rinp (rp_state (kern w))" fdo "\<lambda>w. rout (rp_state (kern w))" "undisturbed task uses rinv"
proof
  fix w w' :: "('r, 'z) machine_scheme" and n k :: neox_size_t and st :: neox_status_t and data :: "byte list"
  assume w: "undisturbed task uses rinv w"
  have q: "schedule w = []" "rinv (rp_state (kern w))" using w by (simp_all add: undisturbed_def)
  have bi: "fd_backend task fdi FD_FLAG_READ (Bk_File h) (kern w)" and bo: "fd_backend task fdo FD_FLAG_WRITE b (kern w)"
    using w source_use sink_use by (auto simp: undisturbed_def)
  show "rout (rp_state (kern w')) = rout (rp_state (kern w))"
    if "neox_read (kernel_os rp task base) fdi n w = Some (st, k, data, w')"
    using that rp_read_keeps [OF q(2)]
      syscall_quiet [of w "ksys_read rp task fdi n" "file_read rp task h n (rp_state (kern w))" rp] q(1)
    by (auto simp: ksys_read_file [OF bi])
  show "rinp (rp_state (kern w')) = rinp (rp_state (kern w))"
    if "neox_write (kernel_os rp task base) fdo data w = Some (st, k, w')"
    using that rp_write_keeps [OF q(2)]
      syscall_quiet [of w "ksys_write rp task fdo data" "backend_write rp task b data (rp_state (kern w))" rp] q(1)
    by (auto simp: ksys_write_backend [OF bo])
qed

text \<open>The standard output of a process.\<close>

locale rp_stdout = rp_sink rp task base uses rinv NEOX_STDOUT_FD b rout
  for rp :: "'r rp2350" and task and base :: "('r, 'z) machine_scheme neox_os" and uses rinv b rout

sublocale rp_stdout \<subseteq> stdout: neox_stdout "kernel_os rp task base"
    "\<lambda>w. rout (rp_state (kern w))" "undisturbed task uses rinv"
  by unfold_locales

context rp_stdout
begin

lemma kernel_stdout:
  "neox_stdout (kernel_os rp task base) (\<lambda>w. rout (rp_state (kern w))) (undisturbed task uses rinv)"
  by (rule stdout.neox_stdout_axioms)

end

context rp_channel
begin

lemma kernel_channel:
  "neox_channel (kernel_os rp task base) fdi (\<lambda>w. rinp (rp_state (kern w))) fdo
     (\<lambda>w. rout (rp_state (kern w))) (undisturbed task uses rinv)"
  by (rule channel.neox_channel_axioms)

end

section \<open>Waiting for a pipe\<close>

text \<open>The descriptor is the reading end of pipe \<open>i\<close>.\<close>

definition reads_pipe :: "neox_pid_t \<Rightarrow> neox_fd_t \<Rightarrow> byte \<Rightarrow> 'r kernel \<Rightarrow> bool" where
  "reads_pipe task fd i k \<longleftrightarrow> is_open task fd k \<and> fd_get_flags_current task fd k AND FD_FLAG_READ \<noteq> 0 \<and>
     (let obj = opens k ! unat (proc_fd_obj k ! fd_slot task fd) in
      open_type obj = OBJ_PIPE \<and> open_pipe_mode obj = PIPE_END_READ \<and> open_pipe obj = i \<and> i \<noteq> PIPE_NONE)"

lemma reads_pipe_resolve:
  assumes "reads_pipe task fd i k" and "pipe_state (pipes k ! unat i) \<noteq> 0"
  shows "fd_resolve_rw task FD_FLAG_READ fd k = (let x = proc_fd_obj k ! fd_slot task fd in
      Inr (x, OBJ_PIPE, open_dev (opens k ! unat x)))"
    and "pipe_resolve_endpoint PIPE_END_READ (proc_fd_obj k ! fd_slot task fd) k = Inr i"
  using assms
  by (auto simp: reads_pipe_def fd_resolve_rw_def fd_lookup_def fd_check_perm_def fd_get_flags_current_def
      is_open_def Let_def pipe_resolve_endpoint_def not_le [symmetric])

lemma reads_pipe_view:
  assumes "reads_pipe task fd i k" and "same_view task k k'"
  shows "reads_pipe task fd i k'"
proof -
  let ?s = "fd_slot task fd"
  have op: "is_open task fd k" using assms(1) by (simp add: reads_pipe_def)
  then have "?s \<in> row_slots task" "proc_fd_obj k ! ?s \<noteq> FD_NONE" by (simp_all add: is_open_def fd_slot_row)
  then have v: "proc_fd_obj k' ! ?s = proc_fd_obj k ! ?s" "proc_fd_flags k' ! ?s = proc_fd_flags k ! ?s"
    "(opens k' ! unat (proc_fd_obj k ! ?s))\<lparr>open_refcnt := 0\<rparr> = (opens k ! unat (proc_fd_obj k ! ?s))\<lparr>open_refcnt := 0\<rparr>"
    using assms(2) by (auto simp: same_view_def)
  from v(3) have "open_type (opens k' ! unat (proc_fd_obj k ! ?s)) = open_type (opens k ! unat (proc_fd_obj k ! ?s))"
    "open_pipe_mode (opens k' ! unat (proc_fd_obj k ! ?s)) = open_pipe_mode (opens k ! unat (proc_fd_obj k ! ?s))"
    "open_pipe (opens k' ! unat (proc_fd_obj k ! ?s)) = open_pipe (opens k ! unat (proc_fd_obj k ! ?s))"
    by (metis open_object.select_convs open_object.surjective open_object.update_convs(2))+
  then show ?thesis using assms(1) v by (simp add: reads_pipe_def is_open_def fd_get_flags_current_def Let_def)
qed

lemma ksys_read_pipe:
  assumes "kernel_inv k" and "reads_pipe task fd i k" and "pipe_state (pipes k ! unat i) \<noteq> 0" and "n \<noteq> 0"
  defines "p \<equiv> pipes k ! unat i"
  shows "pipe_bytes p = [] \<Longrightarrow> ksys_read rp task fd n k =
      Some (if pipe_state p AND PIPE_STATE_WRITE_OPEN \<noteq> 0 then Blocked (Wait_Pipe_Read i)
        else Finished (NEOX_STATUS_OK, 0, []), k)"
    and "pipe_bytes p \<noteq> [] \<Longrightarrow> \<exists>k'. ksys_read rp task fd n k =
      Some (Finished (NEOX_STATUS_OK, of_nat (min (unat n) (length (pipe_bytes p))), take (unat n) (pipe_bytes p)), k')"
proof -
  let ?x = "proc_fd_obj k ! fd_slot task fd"
  note r = reads_pipe_resolve [OF assms(2,3)]
  have x: "unat ?x < 16" "open_pipe (opens k ! unat ?x) = i"
    using assms(1,2) is_openD(1) [OF assms(1)] by (auto simp: reads_pipe_def Let_def)
  show "pipe_bytes p = [] \<Longrightarrow> ksys_read rp task fd n k =
      Some (if pipe_state p AND PIPE_STATE_WRITE_OPEN \<noteq> 0 then Blocked (Wait_Pipe_Read i)
        else Finished (NEOX_STATUS_OK, 0, []), k)"
    using pipe_read_result(1) [OF r(2) assms(1) x(1) assms(4)] r(1) x(2)
    by (simp add: ksys_read_def fd_read_def Let_def p_def block_or_fail_def)
  assume ne: "pipe_bytes p \<noteq> []"
  obtain p' where "pipe_read ?x n k = (Inr (take (unat n) (pipe_bytes p)), upd_pipe i (\<lambda>_. p') k)"
    using pipe_read_result(2) [OF r(2) assms(1) x(1) assms(4)] ne by (auto simp: p_def)
  then show "\<exists>k'. ksys_read rp task fd n k =
      Some (Finished (NEOX_STATUS_OK, of_nat (min (unat n) (length (pipe_bytes p))), take (unat n) (pipe_bytes p)), k')"
    using r(1) x(2) by (simp add: ksys_read_def fd_read_def Let_def min.commute)
qed

text \<open>A blocked pass leaves the tables alone and is tried again after the next batch.\<close>

lemma gated_idle:
  "f k = Some (Blocked wt, k) \<Longrightarrow> gated rp f (replicate m [] @ bs) k = gated rp f bs k"
  by (induction m) simp_all

lemma pipe_read_resumes:
  assumes "machine_inv task w" and "schedule w = replicate m [] @ b # rest"
    and "reads_pipe task fd i (kern w)" and "pipe_state (pipes (kern w) ! unat i) AND PIPE_STATE_WRITE_OPEN \<noteq> 0"
    and "pipe_bytes (pipes (kern w) ! unat i) = []" and "n \<noteq> 0"
    and "run_others rp b (kern w) = Some k1" and "pipe_state (pipes k1 ! unat i) \<noteq> 0"
    and "pipe_bytes (pipes k1 ! unat i) = d" and "d \<noteq> []"
  shows "\<exists>w'. neox_read (kernel_os rp task base) fd n w =
      Some (NEOX_STATUS_OK, of_nat (min (unat n) (length d)), take (unat n) d, w') \<and> schedule w' = rest"
proof -
  have inv: "kernel_inv (kern w)" "task < MAX_PROCS" "\<forall>qc \<in> set b. call_ok task qc"
    using assms(1,2) by (auto simp: machine_inv_def)
  have k1: "kernel_inv k1" "same_view task (kern w) k1" using run_others_view [OF assms(7) inv(1,3,2)] by simp_all
  have st: "pipe_state (pipes (kern w) ! unat i) \<noteq> 0" using assms(4) by auto
  have "gated rp (ksys_read rp task fd n) (schedule w) (kern w) =
      gated rp (ksys_read rp task fd n) (b # rest) (kern w)"
    unfolding assms(2) by (rule gated_idle) (use ksys_read_pipe(1) [OF inv(1) assms(3) st assms(6,5)] assms(4) in simp)
  moreover obtain k' where "ksys_read rp task fd n k1 =
      Some (Finished (NEOX_STATUS_OK, of_nat (min (unat n) (length d)), take (unat n) d), k')"
    using ksys_read_pipe(2) [OF k1(1) reads_pipe_view [OF assms(3) k1(2)] assms(8,6)] assms(9,10) by auto
  ultimately show ?thesis using assms(7) by (simp add: syscall_def flat3_def)
qed

end
