(* ===== verification/Kernel_Wait.thy ===== *)
theory Kernel_Wait
  imports Kernel_Gate Kernel_Contract
begin

text \<open>
  Waiting for a pipe with the scheduler (\<open>ksys_io_block\<close> of \<^verbatim>\<open>src/kernel/ksys_io.asm\<close>,
  the end of \<open>sched_block_current\<close> of \<^verbatim>\<open>scheduler.asm\<close>, the wake-up at the end of \<open>pipe_write\<close>). A read that
  finds an empty pipe first releases the gate and then, in a second step, commits its wait; a
  write makes one waiting reader ready.
\<close>

section \<open>Routines\<close>

fun wait_code :: "wait \<Rightarrow> byte \<times> byte" where
  "wait_code Wait_Console = (WAIT_CONSOLE, 0)"
| "wait_code (Wait_Pipe_Read i) = (WAIT_PIPE_READ, i)"
| "wait_code (Wait_Pipe_Write i) = (WAIT_PIPE_WRITE, i)"

definition sched_commit_wait :: "neox_pid_t \<Rightarrow> wait \<Rightarrow> sched \<Rightarrow> sched" where
  "sched_commit_wait active_pid wt s = (case wait_code wt of (reason, object) \<Rightarrow> proc_set_wait active_pid reason object s)"

text \<open>A write call with its effect on the processes that wait for the pipe.\<close>

definition write_wake :: "neox_pid_t \<Rightarrow> neox_fd_t \<Rightarrow> (neox_status_t \<times> neox_size_t) pass \<Rightarrow> 'r kernel \<Rightarrow> sched \<Rightarrow> sched" where
  "write_wake active_pid fd res k s =
     (case (res, fd_resolve_rw active_pid FD_FLAG_WRITE fd k) of
        (Finished (e, m), Inr (x, ty, dev)) \<Rightarrow>
          if ty = OBJ_PIPE \<and> e = NEOX_STATUS_OK \<and> m \<noteq> 0
          then snd (scheduler_wake_one WAIT_PIPE_READ (open_pipe (opens k ! unat x)) s) else s
      | _ \<Rightarrow> s)"

definition write_and_wake ::
  "'r rp2350 \<Rightarrow> neox_pid_t \<Rightarrow> neox_fd_t \<Rightarrow> byte list \<Rightarrow> 'r kernel \<times> sched
   \<Rightarrow> ((neox_status_t \<times> neox_size_t) pass \<times> 'r kernel \<times> sched) option" where
  "write_and_wake rp active_pid fd data ks =
     (case ksys_write rp active_pid fd data (fst ks) of
        None \<Rightarrow> None
      | Some (res, k') \<Rightarrow> Some (res, k', write_wake active_pid fd res (fst ks) (snd ks)))"

section \<open>The writing end\<close>

definition writes_pipe :: "neox_pid_t \<Rightarrow> neox_fd_t \<Rightarrow> byte \<Rightarrow> 'r kernel \<Rightarrow> bool" where
  "writes_pipe task fd i k \<longleftrightarrow> is_open task fd k \<and> fd_get_flags_current task fd k AND FD_FLAG_WRITE \<noteq> 0 \<and>
     (let obj = opens k ! unat (proc_fd_obj k ! fd_slot task fd) in
      open_type obj = OBJ_PIPE \<and> open_pipe_mode obj = PIPE_END_WRITE \<and> open_pipe obj = i \<and> i \<noteq> PIPE_NONE)"

lemma writes_pipe_resolve:
  assumes "writes_pipe task fd i k" and "pipe_state (pipes k ! unat i) \<noteq> 0"
  shows "fd_resolve_rw task FD_FLAG_WRITE fd k = (let x = proc_fd_obj k ! fd_slot task fd in
      Inr (x, OBJ_PIPE, open_dev (opens k ! unat x)))"
    and "pipe_resolve_endpoint PIPE_END_WRITE (proc_fd_obj k ! fd_slot task fd) k = Inr i"
  using assms
  by (auto simp: writes_pipe_def fd_resolve_rw_def fd_lookup_def fd_check_perm_def fd_get_flags_current_def
      is_open_def Let_def pipe_resolve_endpoint_def not_le [symmetric])

text \<open>A write into an empty pipe stores some bytes and wakes one reader, if one waits.\<close>

lemma write_and_wake_empty:
  assumes "kernel_inv k" and "writes_pipe task fd i k" and "pipe_state (pipes k ! unat i) AND PIPE_STATE_READ_OPEN \<noteq> 0"
    and "pipe_bytes (pipes k ! unat i) = []" and "data \<noteq> []" and "length data < 65536"
  shows "\<exists>p'. pipe_bytes p' = take 64 data \<and> pipe_state p' = pipe_state (pipes k ! unat i) \<and> pipe_wf p' \<and>
    (\<forall>s. write_and_wake rp task fd data (k, s) = Some (Finished (NEOX_STATUS_OK, of_nat (min (length data) 64)),
      upd_pipe i (\<lambda>_. p') k, snd (scheduler_wake_one WAIT_PIPE_READ i s)))"
proof -
  let ?x = "proc_fd_obj k ! fd_slot task fd" and ?n = "min (length data) 64"
  have st: "pipe_state (pipes k ! unat i) \<noteq> 0" using assms(3) by auto
  note r = writes_pipe_resolve [OF assms(2) st]
  have x: "unat ?x < 16" "open_pipe (opens k ! unat ?x) = i"
    using assms(1,2) is_openD(1) [OF assms(1)] by (auto simp: writes_pipe_def Let_def)
  have n: "?n \<noteq> 0" "(of_nat ?n :: neox_size_t) \<noteq> 0" using assms(5) by (simp_all add: size_of_nat_eq_0)
  obtain p' where p': "pipe_write ?x data k = (Inr (of_nat ?n), upd_pipe i (\<lambda>_. p') k)" "pipe_wf p'"
    "pipe_bytes p' = take ?n data" "pipe_state p' = pipe_state (pipes k ! unat i)"
    using pipe_write_result(3) [OF r(2) assms(1) x(1) _ assms(6,3)] assms(4,5) n(1) by auto
  have "ksys_write rp task fd data k = Some (Finished (NEOX_STATUS_OK, of_nat ?n), upd_pipe i (\<lambda>_. p') k)"
    using r(1) p'(1) by (simp add: ksys_write_def fd_write_def Let_def)
  moreover have "take ?n data = take 64 data" by (simp add: min_def)
  ultimately show ?thesis using p' r(1) x(2) n(2)
    by (intro exI [of _ p']) (simp add: write_and_wake_def write_wake_def Let_def)
qed

section \<open>Both orders\<close>

lemma only_waiter_woken:
  assumes "sched_wf s" and "normal x" and "waits_for r ob s x" and "\<And>y. normal y \<Longrightarrow> waits_for r ob s y \<Longrightarrow> y = x"
  shows "proc_states (snd (scheduler_wake_one r ob s)) ! unat x = PROC_READY"
proof -
  obtain y where y: "normal y" "waits_for r ob s y" "scheduler_wake_one r ob s = (True, proc_wake y s)"
    using scheduler_wake_one_result [OF assms(1), of r ob] assms(2,3) by (meson if_P)
  then show ?thesis using assms(4) [OF y(1,2)] wake_ready(1) [OF assms(1) normalD(1) [OF assms(2)] assms(3)] by simp
qed

lemma block_then_write:
  assumes "sched_wf s" and "normal x" and "\<forall>y. normal y \<longrightarrow> \<not> waits_for WAIT_PIPE_READ i s y"
  shows "proc_states (snd (scheduler_wake_one WAIT_PIPE_READ i
    (sched_step (Switch x) (sched_commit_wait x (Wait_Pipe_Read i) s)))) ! unat x = PROC_READY"
proof -
  let ?b = "sched_commit_wait x (Wait_Pipe_Read i) s"
  have b: "sched_wf ?b" using assms(1) by (simp add: sched_commit_wait_def)
  have w: "waits_for WAIT_PIPE_READ i (sched_step (Switch x) ?b) y \<longleftrightarrow> y = x" if "normal y" for y
    using switch_keeps_waiters [OF b that] set_wait_waits [OF assms(1) normalD [OF assms(2)]] set_wait_other [of y x]
      assms(3) that
    by (cases "y = x") (simp_all add: sched_commit_wait_def)
  show ?thesis by (rule only_waiter_woken [OF sched_step_wf [OF b] assms(2)]) (use w assms(2) in simp_all)
qed

lemma write_then_block:
  assumes "sched_wf s" and "normal x" and "\<forall>y. normal y \<longrightarrow> \<not> waits_for WAIT_PIPE_READ i s y"
  shows "waits_for WAIT_PIPE_READ i (sched_commit_wait x (Wait_Pipe_Read i) (sched_step (Switch w)
    (snd (scheduler_wake_one WAIT_PIPE_READ i (sched_step (Switch x) s))))) x"
proof -
  have wf: "sched_wf (sched_step (Switch w) (snd (scheduler_wake_one WAIT_PIPE_READ i (sched_step (Switch x) s))))"
    by (intro sched_step_wf wake_one_wf assms(1))
  show ?thesis using set_wait_waits [OF wf normalD [OF assms(2)]] by (simp add: sched_commit_wait_def)
qed

lemma wake_up_race:
  assumes "kernel_inv k" and "reads_pipe r fd i k" and "writes_pipe w fd' i k"
    and "pipe_state (pipes k ! unat i) AND PIPE_STATE_READ_OPEN \<noteq> 0" and "pipe_state (pipes k ! unat i) AND PIPE_STATE_WRITE_OPEN \<noteq> 0"
    and "pipe_bytes (pipes k ! unat i) = []" and "n \<noteq> 0" and "data \<noteq> []" and "length data < 65536"
    and "sched_wf s" and "normal r" and "\<forall>y. normal y \<longrightarrow> \<not> waits_for WAIT_PIPE_READ i s y"
  shows "ksys_read rp r fd n k = Some (Blocked (Wait_Pipe_Read i), k) \<and> (\<exists>res k' s1 s2 m got k''.
      write_and_wake rp w fd' data (k, sched_step (Switch r) (sched_commit_wait r (Wait_Pipe_Read i) s)) = Some (res, k', s1)
      \<and> proc_states s1 ! unat r = PROC_READY
      \<and> write_and_wake rp w fd' data (k, sched_step (Switch r) s) = Some (res, k', s2)
      \<and> waits_for WAIT_PIPE_READ i (sched_commit_wait r (Wait_Pipe_Read i) (sched_step (Switch w) s2)) r
      \<and> ksys_read rp r fd n k' = Some (Finished (NEOX_STATUS_OK, m, got), k'') \<and> got \<noteq> [])"
proof -
  have st: "pipe_state (pipes k ! unat i) \<noteq> 0" using assms(4) by auto
  obtain p' where p': "pipe_bytes p' = take 64 data" "pipe_state p' = pipe_state (pipes k ! unat i)" "pipe_wf p'"
    and wr: "\<forall>s. write_and_wake rp w fd' data (k, s) = Some (Finished (NEOX_STATUS_OK, of_nat (min (length data) 64)),
      upd_pipe i (\<lambda>_. p') k, snd (scheduler_wake_one WAIT_PIPE_READ i s))"
    using write_and_wake_empty [OF assms(1,3,4,6,8,9)] by blast
  let ?k = "upd_pipe i (\<lambda>_. p') k"
  let ?x = "proc_fd_obj k ! fd_slot r fd"
  have "unat ?x < 16" using assms(1,2) is_openD(1) [OF assms(1)] by (auto simp: reads_pipe_def Let_def)
  then have i: "unat i < 8" by (rule pipe_resolve_Inr(1) [OF reads_pipe_resolve(2) [OF assms(2) st] assms(1)])
  have k: "kernel_inv ?k" using kernel_inv_upd_pipe [OF assms(1)] p'(3) by simp
  have p: "pipes ?k ! unat i = p'" using i kernel_invD(4) [OF assms(1)] by simp
  have rd: "reads_pipe r fd i ?k" using assms(2) by (simp add: reads_pipe_def is_open_def fd_get_flags_current_def)
  obtain k'' where "ksys_read rp r fd n ?k = Some (Finished (NEOX_STATUS_OK,
      of_nat (min (unat n) (length (take 64 data))), take (unat n) (take 64 data)), k'')"
    using ksys_read_pipe(2) [OF k rd _ assms(7), unfolded p p'(1,2), OF st] assms(8) by auto
  moreover have "take (unat n) (take 64 data) \<noteq> []" using assms(7,8) by (simp add: unat_gt_0)
  moreover have "ksys_read rp r fd n k = Some (Blocked (Wait_Pipe_Read i), k)"
    using ksys_read_pipe(1) [OF assms(1,2) st assms(7,6)] assms(5) by simp
  ultimately show ?thesis using wr block_then_write [OF assms(10-12)] write_then_block [OF assms(10-12)] by blast
qed

end
