(* ===== verification/Kernel_Timer.thy ===== *)
theory Kernel_Timer
  imports Kernel_Sched
begin

text \<open>
  Sleeping processes, \<^verbatim>\<open>src/kernel/timer.asm\<close> and \<open>ksys_sleep\<close> of \<^verbatim>\<open>ksys_proc.asm\<close>: a table of
  eight timers, each with its process and the 16-bit tick at which it is due. The low and
  high bytes of a tick are one 16-bit word; the borrow of the two-byte subtraction is that of
  the word.

  The lemmas: a sleeping process keeps its timer while others sleep, timers expire and the
  tick counter wraps around; it is woken by the first scheduler pass after its time, not
  before.
\<close>

section \<open>Routines\<close>

abbreviation (input) TIMER_NONE :: byte where "TIMER_NONE \<equiv> 0xFF"
abbreviation (input) WAIT_TIMER :: byte where "WAIT_TIMER \<equiv> 4"

record timers =
  timer_pid :: "neox_pid_t list"
  timer_until :: "16 word list"
  system_ticks :: "16 word"

definition timer_init :: "timers \<Rightarrow> timers" where
  "timer_init t = t\<lparr>timer_pid := map (\<lambda>_. TIMER_NONE) (timer_pid t), timer_until := map (\<lambda>_. 0) (timer_until t)\<rparr>"

definition timer_alloc :: "timers \<Rightarrow> byte option" where
  "timer_alloc t = scan_table (\<lambda>p. p = TIMER_NONE) (timer_pid t) 0"

definition timer_free :: "byte \<Rightarrow> timers \<Rightarrow> timers" where
  "timer_free x t =
     t\<lparr>timer_pid := (timer_pid t)[unat x := TIMER_NONE], timer_until := (timer_until t)[unat x := 0]\<rparr>"

definition timer_start_current :: "neox_pid_t \<Rightarrow> byte \<Rightarrow> timers \<Rightarrow> byte option \<times> timers" where
  "timer_start_current active_pid duration t =
     (case timer_alloc t of
        None \<Rightarrow> (None, t)
      | Some x \<Rightarrow> (Some x, t\<lparr>timer_pid := (timer_pid t)[unat x := active_pid],
          timer_until := (timer_until t)[unat x := system_ticks t + ucast duration]\<rparr>))"

text \<open>The sign of the 16-bit difference.\<close>

definition timer_pending :: "byte \<Rightarrow> timers \<Rightarrow> bool" where
  "timer_pending x t \<longleftrightarrow> 0x8000 \<le> system_ticks t - timer_until t ! unat x"

definition timer_commit_current :: "neox_pid_t \<Rightarrow> byte \<Rightarrow> timers \<Rightarrow> bool \<times> timers" where
  "timer_commit_current active_pid x t =
     (if x \<ge> 8 then (False, t)
      else if timer_pid t ! unat x \<noteq> active_pid then (False, t)
      else if timer_pending x t then (True, t) else (False, timer_free x t))"

text \<open>One round of the loop of \<open>scheduler_wake_timers\<close>, and the loop.\<close>

definition wake_timer :: "byte \<Rightarrow> timers \<times> sched \<Rightarrow> timers \<times> sched" where
  "wake_timer x ts =
     (let t = fst ts; s = snd ts; p = timer_pid t ! unat x in
      if p = TIMER_NONE then ts
      else if timer_pending x t then ts
      else if waits_for WAIT_TIMER x s p then (timer_free x t, proc_wake p s)
      else (timer_free x t, s))"

definition scheduler_wake_timers :: "timers \<times> sched \<Rightarrow> timers \<times> sched" where
  "scheduler_wake_timers = fold wake_timer [0, 1, 2, 3, 4, 5, 6, 7]"

definition scheduler_tick :: "timers \<Rightarrow> timers" where
  "scheduler_tick t = t\<lparr>system_ticks := system_ticks t + 1\<rparr>"

text \<open>The call: an error, an immediate return, or the caller sleeps.\<close>

datatype sleep_result = Sleep_Error byte | Sleep_Elapsed | Sleep_Blocked

definition ksys_sleep :: "neox_pid_t \<Rightarrow> byte \<Rightarrow> timers \<times> sched \<Rightarrow> sleep_result \<times> timers \<times> sched" where
  "ksys_sleep active_pid duration ts =
     (if duration = 0 then (Sleep_Elapsed, ts)
      else case timer_start_current active_pid duration (fst ts) of
          (None, t) \<Rightarrow> (Sleep_Error EAGAIN, t, snd ts)
        | (Some x, t) \<Rightarrow>
            (case timer_commit_current active_pid x t of
               (False, t) \<Rightarrow> (Sleep_Elapsed, t, snd ts)
             | (True, t) \<Rightarrow> (Sleep_Blocked, t, proc_set_wait active_pid WAIT_TIMER x (snd ts))))"

text \<open>What happens while a process sleeps: ticks, scheduler passes, other processes.\<close>

datatype timer_event = Tick | Pass | Other_Sleep neox_pid_t byte | Other_Event sched_event

fun timer_step :: "timer_event \<Rightarrow> timers \<times> sched \<Rightarrow> timers \<times> sched" where
  "timer_step Tick ts = (scheduler_tick (fst ts), snd ts)"
| "timer_step Pass ts = scheduler_wake_timers ts"
| "timer_step (Other_Sleep y duration) ts = snd (ksys_sleep y duration ts)"
| "timer_step (Other_Event e) ts = (fst ts, sched_step e (snd ts))"

definition ticks_in :: "timer_event list \<Rightarrow> nat" where
  "ticks_in es = length (filter (\<lambda>e. e = Tick) es)"

text \<open>Events that do not address process \<open>x\<close>: none wakes or changes it for another reason.\<close>

fun spares :: "neox_pid_t \<Rightarrow> timer_event \<Rightarrow> bool" where
  "spares x (Other_Sleep y duration) \<longleftrightarrow> normal y \<and> y \<noteq> x"
| "spares x (Other_Event (Set_Wait y reason object)) \<longleftrightarrow> y \<noteq> x"
| "spares x (Other_Event (Wake_One reason object)) \<longleftrightarrow> reason \<noteq> WAIT_TIMER"
| "spares x (Other_Event (Set_State y st)) \<longleftrightarrow> y \<noteq> x"
| "spares x _ \<longleftrightarrow> True"

section \<open>A sleeping process\<close>

definition timers_wf :: "timers \<times> sched \<Rightarrow> bool" where
  "timers_wf ts \<longleftrightarrow> length (timer_pid (fst ts)) = 8 \<and> length (timer_until (fst ts)) = 8 \<and> sched_wf (snd ts)
     \<and> (\<forall>p \<in> set (timer_pid (fst ts)). p = TIMER_NONE \<or> p < MAX_PROCS)"

text \<open>Process \<open>x\<close> waits for timer \<open>i\<close>, which is due at tick \<open>u\<close>.\<close>

definition asleep :: "neox_pid_t \<Rightarrow> byte \<Rightarrow> 16 word \<Rightarrow> timers \<times> sched \<Rightarrow> bool" where
  "asleep x i u ts \<longleftrightarrow> timer_pid (fst ts) ! unat i = x \<and> timer_until (fst ts) ! unat i = u
     \<and> waits_for WAIT_TIMER i (snd ts) x"

text \<open>Process \<open>x\<close> has been woken.\<close>

definition awake :: "neox_pid_t \<Rightarrow> timers \<times> sched \<Rightarrow> bool" where
  "awake x ts \<longleftrightarrow> proc_states (snd ts) ! unat x = PROC_READY \<or> proc_states (snd ts) ! unat x = PROC_RUNNING"

lemma timer_alloc_Some:
  assumes "timer_alloc t = Some x" and "length (timer_pid t) = 8"
  shows "unat x < 8" and "timer_pid t ! unat x = TIMER_NONE"
  using scan_table_Some [of "\<lambda>p. p = TIMER_NONE" "timer_pid t" 0 x] assms by (auto simp: timer_alloc_def)

lemma set_update_all: "P z \<Longrightarrow> \<forall>y \<in> set xs. P y \<Longrightarrow> \<forall>y \<in> set (xs[i := z]). P y"
  using set_update_subset_insert [of xs i z] by auto

lemmas timer_pids_update = set_update_all [where P = "\<lambda>p. p = TIMER_NONE \<or> p < MAX_PROCS"]

lemma timer_free_wf: "timers_wf (timer_free x t, s)" if "timers_wf (t, s)"
  using that timer_pids_update [of TIMER_NONE "timer_pid t" "unat x"] by (simp add: timers_wf_def timer_free_def)

lemma timer_start_wf: "timers_wf (snd (timer_start_current p d t), s)" if "timers_wf (t, s)" "p < MAX_PROCS"
  using that timer_pids_update [of p "timer_pid t"]
  by (simp add: timers_wf_def timer_start_current_def split: option.split)

lemma timers_wf_sched: "timers_wf (t, s) \<Longrightarrow> sched_wf s' \<Longrightarrow> timers_wf (t, s')"
  by (simp add: timers_wf_def)

lemma wake_timer_wf: "timers_wf (wake_timer j ts)" if "timers_wf ts"
proof -
  obtain t s where ts: "ts = (t, s)" by (cases ts)
  have "sched_wf s" using that ts by (simp add: timers_wf_def)
  then show ?thesis using that ts timer_free_wf [of t s j] timers_wf_sched [of "timer_free j t" s]
    by (simp add: wake_timer_def Let_def)
qed

lemma ksys_sleep_wf:
  assumes "timers_wf ts" and "y < MAX_PROCS" shows "timers_wf (snd (ksys_sleep y d ts))"
proof -
  obtain t s where ts: "ts = (t, s)" by (cases ts)
  obtain r t1 where st: "timer_start_current y d t = (r, t1)" by (cases "timer_start_current y d t")
  have t1: "timers_wf (t1, s')" if "sched_wf s'" for s'
    using timer_start_wf [OF assms(1) [unfolded ts] assms(2), of d] st that by (simp add: timers_wf_def)
  have s: "sched_wf s" using assms(1) ts by (simp add: timers_wf_def)
  show ?thesis using ts st t1 s timer_free_wf [OF t1 [OF s]] assms(1)
    by (auto simp: ksys_sleep_def timer_commit_current_def split: option.split)
qed

lemma ksys_sleep_ticks: "system_ticks (fst (snd (ksys_sleep y d ts))) = system_ticks (fst ts)"
  by (auto simp: ksys_sleep_def timer_start_current_def timer_commit_current_def timer_free_def
      split: option.split bool.split prod.split)

lemma wake_timer_ticks: "system_ticks (fst (wake_timer j ts)) = system_ticks (fst ts)"
  by (simp add: wake_timer_def Let_def timer_free_def)

subsection \<open>Staying asleep\<close>

lemma sleep_spares_sleeper:
  assumes "timers_wf ts" and "asleep x i u ts" and "unat i < 8" and "normal x" and "y \<noteq> x" and "normal y"
  shows "asleep x i u (snd (ksys_sleep y d ts))"
proof (cases "timer_alloc (fst ts)")
  case None
  then show ?thesis using assms(2) by (simp add: ksys_sleep_def timer_start_current_def)
next
  case (Some j)
  have j: "unat j \<noteq> unat i"
    using timer_alloc_Some(2) [OF Some] assms(1,2,4) by (auto simp: timers_wf_def asleep_def normal_def)
  then show ?thesis using assms(2,5) Some set_wait_other [of x y]
    by (auto simp: ksys_sleep_def timer_start_current_def timer_commit_current_def timer_free_def asleep_def)
qed

lemma event_spares_sleeper:
  assumes "timers_wf ts" and "asleep x i u ts" and "normal x" and "spares x (Other_Event e)"
  shows "asleep x i u (fst ts, sched_step e (snd ts))"
proof -
  have wf: "sched_wf (snd ts)" using assms(1) by (simp add: timers_wf_def)
  have "waits_for WAIT_TIMER i (sched_step e (snd ts)) x = waits_for WAIT_TIMER i (snd ts) x"
  proof (cases e)
    case (Switch p)
    then show ?thesis using switch_keeps_waiters [OF wf assms(3)] by simp
  next
    case (Set_Wait y r ob)
    then show ?thesis using set_wait_other [of x y] assms(4) by simp
  next
    case (Wake_One r ob)
    then show ?thesis using wake_one_other [OF wf assms(3), of r ob WAIT_TIMER i] assms(4) by simp
  next
    case (Set_State y st)
    then show ?thesis using assms(4) by (simp add: waits_for_def proc_set_state_def word_unat_eq_iff)
  qed
  then show ?thesis using assms(2) by (simp add: asleep_def)
qed

lemma wake_timer_spares_sleeper:
  assumes "timers_wf ts" and "asleep x i u ts" and "j \<noteq> i \<or> timer_pending i (fst ts)"
  shows "asleep x i u (wake_timer j ts) \<and> timer_pending i (fst (wake_timer j ts)) = timer_pending i (fst ts)"
proof (cases "j = i")
  case True
  then show ?thesis using assms by (simp add: wake_timer_def Let_def)
next
  case False
  then have ji: "unat j \<noteq> unat i" by (simp add: word_unat_eq_iff)
  have "waits_for WAIT_TIMER i (proc_wake p (snd ts)) x" if "waits_for WAIT_TIMER j (snd ts) p" for p
  proof -
    have "p \<noteq> x" using that assms(2) False by (auto simp: asleep_def waits_for_def)
    then show ?thesis using wake_other [of x p] assms(2) by (simp add: asleep_def)
  qed
  then show ?thesis using assms(2) ji
    by (simp add: wake_timer_def Let_def asleep_def timer_free_def timer_pending_def)
qed

lemma pass_before_due:
  assumes "timers_wf ts" and "asleep x i u ts" and "timer_pending i (fst ts)"
  shows "timers_wf (fold wake_timer js ts) \<and> asleep x i u (fold wake_timer js ts)"
  using assms
proof (induction js arbitrary: ts)
  case (Cons j js)
  from wake_timer_spares_sleeper [OF Cons.prems(1,2), of j] Cons.prems(3) show ?case
    using Cons.IH [OF wake_timer_wf [OF Cons.prems(1)]] by simp
qed simp

subsection \<open>Waking up\<close>

lemma awake_wake:
  assumes "sched_wf s" and "awake x (t, s)" shows "awake x (t', proc_wake p s)"
  using assms by (cases "unat p = unat x") (auto simp: awake_def proc_wake_def proc_set_state_def proc_clear_wait_def)

lemma awake_wake_timer: "timers_wf ts \<Longrightarrow> awake x ts \<Longrightarrow> awake x (wake_timer j ts)"
  using awake_wake [of "snd ts" x "fst ts"]
  by (cases ts) (auto simp: wake_timer_def Let_def timers_wf_def awake_def)

lemma awake_fold: "timers_wf ts \<Longrightarrow> awake x ts \<Longrightarrow> timers_wf (fold wake_timer js ts) \<and> awake x (fold wake_timer js ts)"
  by (induction js arbitrary: ts) (simp_all add: wake_timer_wf awake_wake_timer)

lemma wake_timer_due:
  assumes "timers_wf ts" and "asleep x i u ts" and "\<not> timer_pending i (fst ts)" and "normal x"
  shows "awake x (wake_timer i ts)"
proof -
  have "sched_wf (snd ts)" "waits_for WAIT_TIMER i (snd ts) x" "timer_pid (fst ts) ! unat i = x"
    using assms(1,2) by (simp_all add: timers_wf_def asleep_def)
  moreover have "x \<noteq> TIMER_NONE" using assms(4) by (auto simp: normal_def)
  ultimately show ?thesis using assms(3) wake_ready(1) [OF _ normalD(1) [OF assms(4)]]
    by (simp add: wake_timer_def Let_def awake_def)
qed

lemma pass_when_due:
  assumes "timers_wf ts" and "asleep x i u ts" and "\<not> timer_pending i (fst ts)" and "normal x" and "i \<in> set js"
  shows "awake x (fold wake_timer js ts)"
  using assms
proof (induction js arbitrary: ts)
  case (Cons j js)
  show ?case
  proof (cases "j = i")
    case True
    then show ?thesis
      using awake_fold [OF wake_timer_wf [OF Cons.prems(1)] wake_timer_due [OF Cons.prems(1-4)]] by simp
  next
    case False
    from wake_timer_spares_sleeper [OF Cons.prems(1,2), of j] False show ?thesis
      using Cons.IH [OF wake_timer_wf [OF Cons.prems(1)]] Cons.prems(3-5) by simp
  qed
qed simp

subsection \<open>Runs\<close>

text \<open>The sign of the difference tells whether \<open>n\<close> ticks are fewer than the duration, also when the
  counter has wrapped around.\<close>

lemma pending_iff:
  fixes d :: byte
  assumes "n < 0x8000" and "system_ticks t = T + of_nat n" and "timer_until t ! unat i = T + ucast d"
  shows "timer_pending i t \<longleftrightarrow> n < unat d"
proof -
  have n: "unat (of_nat n :: 16 word) = n" using assms(1) by (simp add: unat_of_nat take_bit_eq_mod)
  have d256: "unat d < 256" using unsigned_less [of d, where ?'a = nat] by simp
  then have d: "unat (ucast d :: 16 word) = unat d" by (simp add: unsigned_ucast_eq take_bit_eq_mod)
  have "system_ticks t - timer_until t ! unat i = of_nat n - ucast d" using assms(2,3) by simp
  then show ?thesis using n d d256 assms(1) by (auto simp: timer_pending_def word_le_nat_alt unat_sub_if')
qed

lemma switch_spares_awake:
  assumes "sched_wf s" and "awake x (t, s)" and "normal x"
  shows "awake x (t, sched_switch_context (sched_save p s))"
proof -
  have x: "unat x < length (proc_states s)" using assms(1,3) by (simp add: sched_wf_def normal_unat)
  let ?s = "sched_save p s"
  have "awake x (t, ?s) \<and> unat x < length (proc_states ?s)"
    using assms(2) x by (cases "unat x = unat p") (auto simp: awake_def sched_save_def proc_set_state_def)
  then show ?thesis
    by (cases "unat x = unat (sched_pick_next ?s)")
      (auto simp: awake_def sched_switch_context_def proc_set_running_def Let_def)
qed

lemma event_spares_awake:
  assumes "sched_wf s" and "awake x (t, s)" and "normal x" and "spares x (Other_Event e)"
  shows "awake x (t, sched_step e s)"
proof (cases e)
  case (Switch p)
  then show ?thesis using switch_spares_awake [OF assms(1-3)] by simp
next
  case (Wake_One r ob)
  then show ?thesis using awake_wake [OF assms(1,2)] assms(2) by (simp add: scheduler_wake_one_def split: option.split)
qed (use assms(2,4) in \<open>auto simp: awake_def proc_set_wait_def proc_set_state_def word_unat_eq_iff\<close>)

lemma sleep_spares_awake: "awake x ts \<Longrightarrow> y \<noteq> x \<Longrightarrow> awake x (snd (ksys_sleep y d ts))"
  by (auto simp: ksys_sleep_def awake_def proc_set_wait_def proc_set_state_def word_unat_eq_iff
      split: option.split bool.split prod.split)

lemma fold_wake_ticks: "system_ticks (fst (fold wake_timer js ts)) = system_ticks (fst ts)"
  by (induction js arbitrary: ts) (simp_all add: wake_timer_ticks)

lemma byte_below_eight: "i \<in> set [0, 1, 2, 3, 4, 5, 6, 7]" if "unat i < 8" for i :: byte
proof -
  have "unat i \<in> {0, 1, 2, 3, 4, 5, 6, 7}" using that by auto
  then show ?thesis by (auto simp: word_unat_eq_iff)
qed

text \<open>The state of the sleeper after \<open>n\<close> ticks.\<close>

definition sleeper :: "neox_pid_t \<Rightarrow> byte \<Rightarrow> 16 word \<Rightarrow> byte \<Rightarrow> nat \<Rightarrow> timers \<times> sched \<Rightarrow> bool" where
  "sleeper x i T d n ts \<longleftrightarrow> timers_wf ts \<and> system_ticks (fst ts) = T + of_nat n
     \<and> (asleep x i (T + ucast d) ts \<or> awake x ts \<and> unat d \<le> n)"

lemma sleeper_pass:
  assumes "sleeper x i T d n ts" and "n < 0x8000" and "normal x" and "unat i < 8"
  shows "sleeper x i T d n (timer_step Pass ts)" and "unat d \<le> n \<Longrightarrow> awake x (timer_step Pass ts)"
proof -
  let ?ts = "fold wake_timer [0, 1, 2, 3, 4, 5, 6, 7] ts"
  have wf: "timers_wf ts" and tk: "system_ticks (fst ts) = T + of_nat n" using assms(1) by (simp_all add: sleeper_def)
  have "timers_wf ?ts \<and> (if n < unat d then asleep x i (T + ucast d) ?ts else awake x ?ts)"
  proof (cases "awake x ts \<and> unat d \<le> n")
    case True
    then show ?thesis using awake_fold [OF wf, of x "[0, 1, 2, 3, 4, 5, 6, 7]"] by simp
  next
    case False
    then have a: "asleep x i (T + ucast d) ts" using assms(1) by (auto simp: sleeper_def)
    have p: "timer_pending i (fst ts) \<longleftrightarrow> n < unat d"
      by (rule pending_iff [OF assms(2) tk]) (use a in \<open>simp add: asleep_def\<close>)
    have "timers_wf (fold wake_timer [0, 1, 2, 3, 4, 5, 6, 7] ts)" using wf by (simp add: wake_timer_wf)
    then show ?thesis
      using pass_before_due [OF wf a, of "[0, 1, 2, 3, 4, 5, 6, 7]"] p
        pass_when_due [OF wf a _ assms(3) byte_below_eight [OF assms(4)]]
      by (cases "n < unat d") (simp_all del: fold_simps)
  qed
  moreover have "system_ticks (fst ?ts) = T + of_nat n" using fold_wake_ticks [of "[0, 1, 2, 3, 4, 5, 6, 7]" ts] tk by simp
  ultimately show "sleeper x i T d n (timer_step Pass ts)" and "unat d \<le> n \<Longrightarrow> awake x (timer_step Pass ts)"
    by (auto simp: sleeper_def scheduler_wake_timers_def simp del: fold_simps split: if_splits)
qed

lemma sleeper_step:
  assumes "sleeper x i T d n ts" and "n < 0x8000" and "normal x" and "unat i < 8" and "spares x e"
  shows "sleeper x i T d (if e = Tick then Suc n else n) (timer_step e ts)"
proof (cases e)
  case Tick
  then show ?thesis using assms(1)
    by (auto simp: sleeper_def scheduler_tick_def timers_wf_def asleep_def awake_def)
next
  case Pass
  then show ?thesis using sleeper_pass(1) [OF assms(1-4)] by simp
next
  case (Other_Sleep y dd)
  then have y: "normal y" "y \<noteq> x" using assms(5) by simp_all
  have wf: "timers_wf ts" using assms(1) by (simp add: sleeper_def)
  show ?thesis using Other_Sleep assms(1) y ksys_sleep_wf [OF wf normalD(1) [OF y(1)]] ksys_sleep_ticks [of y dd ts]
      sleep_spares_sleeper [OF wf _ assms(4,3) y(2,1)] sleep_spares_awake [of x ts y dd]
    by (auto simp: sleeper_def)
next
  case (Other_Event ev)
  have wf: "timers_wf ts" "sched_wf (snd ts)" using assms(1) by (simp_all add: sleeper_def timers_wf_def)
  show ?thesis
    using Other_Event assms(1,3,5) event_spares_sleeper [OF wf(1)] event_spares_awake [OF wf(2), of x "fst ts"]
      sched_step_wf [OF wf(2), of ev]
    by (auto simp: sleeper_def timers_wf_def)
qed

lemma sleeper_run:
  assumes "sleeper x i T d n ts" and "n + ticks_in es < 0x8000" and "normal x" and "unat i < 8" and "\<forall>e \<in> set es. spares x e"
  shows "sleeper x i T d (n + ticks_in es) (fold timer_step es ts)"
  using assms
proof (induction es arbitrary: n ts)
  case (Cons e es)
  have n: "n < 0x8000" "(if e = Tick then Suc n else n) + ticks_in es = n + ticks_in (e # es)"
    using Cons.prems(2) by (simp_all add: ticks_in_def)
  have e: "spares x e" "\<forall>e \<in> set es. spares x e" using Cons.prems(5) by simp_all
  from Cons.IH [OF sleeper_step [OF Cons.prems(1) n(1) Cons.prems(3,4) e(1)] _ Cons.prems(3,4) e(2)] show ?case
    using Cons.prems(2) unfolding n(2) by simp
qed (simp add: ticks_in_def)

text \<open>The call arms a free timer, and fails only when there is none.\<close>

lemma ksys_sleep_result:
  assumes "timers_wf ts" and "normal x" and "d \<noteq> 0"
  shows "if \<exists>p \<in> set (timer_pid (fst ts)). p = TIMER_NONE
    then \<exists>i. unat i < 8 \<and> fst (ksys_sleep x d ts) = Sleep_Blocked
      \<and> sleeper x i (system_ticks (fst ts)) d 0 (snd (ksys_sleep x d ts))
    else ksys_sleep x d ts = (Sleep_Error EAGAIN, ts)"
proof (cases "timer_alloc (fst ts)")
  case None
  then have "\<forall>p \<in> set (timer_pid (fst ts)). p \<noteq> TIMER_NONE" by (simp add: timer_alloc_def scan_table_None)
  then show ?thesis using None assms(3) by (auto simp: ksys_sleep_def timer_start_current_def)
next
  case (Some i)
  obtain t s where ts: "ts = (t, s)" by (cases ts)
  have len: "length (timer_pid t) = 8" "length (timer_until t) = 8" and s: "sched_wf s"
    using assms(1) ts by (simp_all add: timers_wf_def)
  note i = timer_alloc_Some [OF Some [unfolded ts fst_conv] len(1)]
  let ?t = "t\<lparr>timer_pid := (timer_pid t)[unat i := x], timer_until := (timer_until t)[unat i := system_ticks t + ucast d]\<rparr>"
  have "timer_pending i ?t" using pending_iff [of 0 ?t "system_ticks t" i d] len i(1) assms(3) by (simp add: unat_gt_0)
  then have r: "ksys_sleep x d ts = (Sleep_Blocked, ?t, proc_set_wait x WAIT_TIMER i s)"
    using Some ts i(1) len assms(3)
    by (simp add: ksys_sleep_def timer_start_current_def timer_commit_current_def word_le_nat_alt)
  have "sleeper x i (system_ticks t) d 0 (?t, proc_set_wait x WAIT_TIMER i s)"
    using ksys_sleep_wf [OF assms(1) normalD(1) [OF assms(2)], of d] r len i(1) set_wait_waits [OF s normalD [OF assms(2)]]
    by (simp add: sleeper_def asleep_def)
  moreover have "\<exists>p \<in> set (timer_pid (fst ts)). p = TIMER_NONE"
    using i len ts nth_mem [of "unat i" "timer_pid t"] by auto
  ultimately show ?thesis using i(1) r ts by auto
qed

end
