(* ===== verification/Kernel_Machine.thy ===== *)
theory Kernel_Machine
  imports Kernel_Timer Kernel_Fd
begin

unbundle bit_operations_syntax

text \<open>
  Three byte-level routines of the kernel under the word-level model: the 8-by-8 multiplication
  of \<^verbatim>\<open>src/kernel/math8.asm\<close> that finds the row of a process in a table, the two-byte tick counter
  of \<^verbatim>\<open>scheduler.asm\<close> with its read in \<^verbatim>\<open>ksys_time.asm\<close>, and the scheduler guard of
  \<^verbatim>\<open>sched_lock.asm\<close>.

  The lemmas: the shift-and-add loop computes the product, so the row of a process is where the
  table model has it; the counter of two bytes is one of sixteen bits; a read that timer
  interrupts disturb gives a value the counter really had, and needs a second pass only when
  the high byte changes under it; the guard has at most one holder.
\<close>

section \<open>Multiplication\<close>

text \<open>\<open>ror\<close>: the carry comes in at the top, the lowest bit leaves as the carry.\<close>

definition ror :: "bool \<Rightarrow> byte \<Rightarrow> bool \<times> byte" where
  "ror c x = (bit x 0, drop_bit 1 x OR (if c then 0x80 else 0))"

definition mul8u_round :: "byte \<Rightarrow> bool \<times> byte \<times> byte \<Rightarrow> bool \<times> byte \<times> byte" where
  "mul8u_round factor2 s =
     (case s of (c, a, factor1) \<Rightarrow>
        let (c, a) = (if c then (256 \<le> unat a + unat factor2, a + factor2) else (c, a));
            (c, a) = ror c a;
            (c, factor1) = ror c factor1
        in (c, a, factor1))"

definition mul8u_core :: "byte \<Rightarrow> byte \<Rightarrow> byte \<times> byte" where
  "mul8u_core factor1 factor2 =
     (let (c, factor1) = ror False factor1;
          (c, a, factor1) = (mul8u_round factor2 ^^ 8) (c, 0, factor1)
      in (factor1, a))"

definition mul8u :: "byte \<Rightarrow> byte \<Rightarrow> byte \<times> byte" where
  "mul8u a x = mul8u_core a x"

text \<open>The three registers as one number of seventeen bits, the carry lowest.\<close>

definition registers :: "bool \<times> byte \<times> byte \<Rightarrow> nat" where
  "registers s = (case s of (c, a, factor1) \<Rightarrow> 2 * (256 * unat a + unat factor1) + of_bool c)"

lemma ror_value:
  assumes "ror c x = (c', x')"
  shows "2 * unat x' + of_bool c' = 256 * of_bool c + unat x"
proof -
  have h: "unat (drop_bit 1 x) = unat x div 2" by (simp add: drop_bit_eq_div unat_div)
  have "odd (unat x) \<longleftrightarrow> bit x 0" using bit_unsigned_iff [of x 0, where ?'a = nat] by (simp only: bit_0) simp
  then have b: "unat x = 2 * (unat x div 2) + of_bool (bit x 0)" by (cases "bit x 0") simp_all
  have "\<not> bit x 8" using bit_imp_le_length [of x 8] by auto
  then have "drop_bit 1 x AND 0x80 = 0"
    using and_exp_eq_0_iff_not_bit [of "drop_bit 1 x" 7] by (simp add: bit_drop_bit_eq)
  then have "drop_bit 1 x OR 0x80 = drop_bit 1 x + 0x80" by (simp add: disjunctive_add_eq_or)
  moreover have "unat (drop_bit 1 x + 0x80) = unat x div 2 + 128"
  proof -
    have "unat (y + 0x80) = unat y + 128" if "unat y < 128" for y :: byte using that by (simp add: unat_word_ariths)
    then show ?thesis using unsigned_less [of x, where ?'a = nat] h by simp
  qed
  ultimately show ?thesis using assms b h by (auto simp: ror_def)
qed

text \<open>A round adds \<open>factor2\<close> at the top when the lowest bit is set and shifts one place.\<close>

lemma mul8u_round_value:
  "registers (mul8u_round f s) = registers s div 2 + (if fst s then 256 * unat f else 0)"
proof -
  obtain c a m where s: "s = (c, a, m)" by (cases s)
  define c0 a0 where "c0 = (c \<and> 256 \<le> unat a + unat f)" and "a0 = (if c then a + f else a)"
  have a0: "256 * of_bool c0 + unat a0 = unat a + (if c then unat f else 0)"
    using unsigned_less [of a, where ?'a = nat] unsigned_less [of f, where ?'a = nat]
    by (auto simp: c0_def a0_def unat_word_ariths mod_if)
  obtain c1 a1 where r1: "ror c0 a0 = (c1, a1)" by fastforce
  obtain c2 m2 where r2: "ror c1 m = (c2, m2)" by fastforce
  have "mul8u_round f (c, a, m) = (c2, a1, m2)"
    using r1 r2 by (cases c) (simp_all add: mul8u_round_def c0_def a0_def)
  then show ?thesis
    using ror_value [OF r1] ror_value [OF r2] a0 by (auto simp: s registers_def)
qed

lemma registers_parity: "fst s \<longleftrightarrow> odd (registers s)"
  by (cases s) (simp add: registers_def)

text \<open>
  After \<open>k\<close> rounds the low end holds the bits of the multiplicand that are left and the high end the
  product with the bits that are done.
\<close>

lemma mul8u_rounds:
  assumes "registers s = m" and "m < 256" and "k \<le> 8"
  shows "registers ((mul8u_round f ^^ k) s) = m div 2 ^ k + (m mod 2 ^ k) * unat f * 2 ^ (9 - k)"
  using assms(3)
proof (induction k)
  case 0
  then show ?case using assms(1) by simp
next
  case (Suc k)
  let ?s = "(mul8u_round f ^^ k) s"
  define q where "q = (m mod 2 ^ k) * unat f * 2 ^ (8 - k)"
  have v: "registers ?s = m div 2 ^ k + 2 * q"
  proof -
    have "9 - k = Suc (8 - k)" using Suc(2) by simp
    then show ?thesis using Suc by (simp add: q_def)
  qed
  have odd: "fst ?s \<longleftrightarrow> odd (m div 2 ^ k)" by (simp add: registers_parity v)
  have "registers (mul8u_round f ?s) = m div 2 ^ k div 2 + q + (if odd (m div 2 ^ k) then 256 * unat f else 0)"
    using mul8u_round_value [of f ?s] v odd by simp
  moreover have "m mod 2 ^ Suc k = m mod 2 ^ k + 2 ^ k * (m div 2 ^ k mod 2)"
    by (simp add: mod_mult2_eq power_Suc2 add.commute del: power_Suc)
  moreover have "2 ^ k * 2 ^ (8 - k) = (256 :: nat)" using Suc(2) by (simp flip: power_add)
  ultimately show ?case
    by (cases "odd (m div 2 ^ k)") (simp_all add: q_def div_mult2_eq [symmetric] algebra_simps odd_iff_mod_2_eq_one)
qed

lemma mul8u_product: "unat (fst (mul8u a x)) + 256 * unat (snd (mul8u a x)) = unat a * unat x"
proof -
  obtain c f where r: "ror False a = (c, f)" by fastforce
  have "registers (c, 0, f) = unat a" using ror_value [OF r] by (simp add: registers_def)
  from mul8u_rounds [OF this, of 8 x] have v: "registers ((mul8u_round x ^^ 8) (c, 0, f)) = 2 * (unat a * unat x)"
    using unsigned_less [of a, where ?'a = nat] by simp
  obtain c' h l where e: "(mul8u_round x ^^ 8) (c, 0, f) = (c', h, l)" by (metis prod_cases3)
  have "mul8u a x = (l, h)" by (simp add: mul8u_def mul8u_core_def r e)
  moreover have "\<not> c'" using v registers_parity [of "(c', h, l)"] unfolding e by simp
  ultimately show ?thesis using v unfolding e by (simp add: registers_def)
qed

text \<open>The row of a process in the descriptor table is where the table model has it.\<close>

lemma fd_calc_pid_offset_bytes:
  "unat (fst (mul8u task 6)) + 256 * unat (snd (mul8u task 6)) = fd_calc_pid_offset task"
  by (simp add: mul8u_product fd_calc_pid_offset_def)

section \<open>The tick counter\<close>

type_synonym ticks = "byte \<times> byte"

text \<open>The low and the high byte; the high byte steps when the low byte wraps to zero.\<close>

definition scheduler_tick_bytes :: "ticks \<Rightarrow> ticks" where
  "scheduler_tick_bytes t = (case t of (lo, hi) \<Rightarrow> let lo = lo + 1 in if lo \<noteq> 0 then (lo, hi) else (lo, hi + 1))"

text \<open>
  The read loop. The timer interrupt may come between any two instructions: a pass takes the number
  of ticks before its second read, before its third and before the next pass. The list of passes
  is what the hardware does; the loop has not returned when it is used up.
\<close>

fun ksys_ticks :: "(nat \<times> nat \<times> nat) list \<Rightarrow> ticks \<Rightarrow> ((byte \<times> byte) \<times> ticks) option" where
  "ksys_ticks [] t = None"
| "ksys_ticks ((m, n, l) # passes) t =
     (let x = snd t; t = (scheduler_tick_bytes ^^ m) t;
          a = fst t; t = (scheduler_tick_bytes ^^ n) t
      in if x = snd t then Some ((a, x), t)
         else ksys_ticks passes ((scheduler_tick_bytes ^^ l) t))"

definition ticks_value :: "ticks \<Rightarrow> nat" where
  "ticks_value t = unat (fst t) + 256 * unat (snd t)"

lemma ticks_value_less: "ticks_value t < 65536"
  using unsigned_less [of "fst t", where ?'a = nat] unsigned_less [of "snd t", where ?'a = nat]
  by (simp add: ticks_value_def)

lemma ticks_high: "unat (snd t) = ticks_value t div 256"
  using unsigned_less [of "fst t", where ?'a = nat] by (simp add: ticks_value_def)

lemma ticks_value_inject:
  assumes "ticks_value t = ticks_value t'"
  shows "t = t'"
proof -
  have "unat (snd t) = unat (snd t')" by (simp only: ticks_high assms)
  moreover from this have "unat (fst t) = unat (fst t')" using assms by (simp add: ticks_value_def)
  ultimately show ?thesis by (simp add: prod_eq_iff word_unat_eq_iff)
qed

lemma tick_value: "ticks_value (scheduler_tick_bytes t) = Suc (ticks_value t) mod 65536"
proof -
  obtain lo hi where t: "t = (lo, hi)" by (cases t)
  have b: "unat lo < 256" "unat hi < 256"
    using unsigned_less [of lo, where ?'a = nat] unsigned_less [of hi, where ?'a = nat] by simp_all
  have s: "unat (w + 1) = Suc (unat w) mod 256" for w :: byte by (simp add: unat_word_ariths)
  have z: "lo + 1 = 0 \<longleftrightarrow> unat lo = 255"
    using b s [of lo] by (auto simp: word_unat_eq_iff mod_if split: if_splits)
  show ?thesis
    using b s [of lo] s [of hi] z by (cases "unat lo = 255") (auto simp: t scheduler_tick_bytes_def ticks_value_def Let_def mod_if)
qed

lemma ticks_value_funpow: "ticks_value ((scheduler_tick_bytes ^^ k) t) = (ticks_value t + k) mod 65536"
  by (induction k) (simp_all add: ticks_value_less tick_value mod_Suc_eq)

lemma ticks_high_funpow: "unat (snd ((scheduler_tick_bytes ^^ k) t)) = (ticks_value t + k) div 256 mod 256"
proof -
  have "x mod 65536 div 256 = x div 256 mod 256" for x :: nat using mod_mult2_eq [of x 256 256] by simp
  then show ?thesis by (simp only: ticks_high ticks_value_funpow)
qed

lemma block_bounds: "256 * (x div 256) \<le> x \<and> x < 256 * (x div 256) + 256" for x :: nat
  using mult_div_mod_eq [of 256 x] mod_less_divisor [of 256 x] by linarith

text \<open>The two bytes are the 16-bit counter of the timer model.\<close>

lemma scheduler_tick_refines:
  assumes "system_ticks ts = of_nat (ticks_value t)"
  shows "system_ticks (scheduler_tick ts) = of_nat (ticks_value (scheduler_tick_bytes t))"
proof -
  have "(of_nat (Suc (ticks_value t) mod 65536) :: 16 word) = of_nat (Suc (ticks_value t))"
    by (simp only: word_of_nat_eq_iff) (simp add: take_bit_eq_mod)
  then show ?thesis by (simp add: assms scheduler_tick_def tick_value add.commute)
qed

text \<open>
  When the high byte is the same before and after, and the interrupts between cannot have taken the
  counter all the way round, the pair read is the counter at the second read.
\<close>

lemma ticks_pass:
  assumes "snd ((scheduler_tick_bytes ^^ (m + n)) t) = snd t" and "m + n < 65281"
  shows "(fst ((scheduler_tick_bytes ^^ m) t), snd t) = (scheduler_tick_bytes ^^ m) t"
proof -
  let ?v = "ticks_value t"
  have a: "?v div 256 < 256" using ticks_value_less [of t] by simp
  have "unat (snd ((scheduler_tick_bytes ^^ (m + n)) t)) = unat (snd t)" by (simp only: assms(1))
  then have e: "(?v + (m + n)) div 256 mod 256 = ?v div 256" by (simp only: ticks_high_funpow ticks_high [of t])
  have "(?v + (m + n)) div 256 < ?v div 256 + 256"
    using block_bounds [of ?v] block_bounds [of "?v + (m + n)"] assms(2) by linarith
  then have "(?v + (m + n)) div 256 = ?v div 256"
    using e a div_le_mono [of ?v "?v + (m + n)" 256] by (auto simp: mod_if split: if_splits)
  then have "(?v + m) div 256 = ?v div 256"
    using div_le_mono [of "?v + m" "?v + (m + n)" 256] div_le_mono [of ?v "?v + m" 256] by simp
  then have "unat (snd ((scheduler_tick_bytes ^^ m) t)) = unat (snd t)"
    using a by (simp only: ticks_high_funpow ticks_high [of t]) simp
  then show ?thesis by (simp add: prod_eq_iff word_unat_eq_iff)
qed

text \<open>
  Two passes are enough unless 256 ticks come within them: the high byte changes once in that
  time, so it is stable in one of the two. What a stable pass returns is not torn.
\<close>

lemma high_changes_once:
  assumes "snd ((scheduler_tick_bytes ^^ a) t) \<noteq> snd t" and "a \<le> b" and "b \<le> c" and "c < 256"
  shows "snd ((scheduler_tick_bytes ^^ b) t) = snd ((scheduler_tick_bytes ^^ c) t)"
proof -
  let ?v = "ticks_value t"
  have "(?v + a) div 256 \<noteq> ?v div 256"
    using assms(1) ticks_high_funpow [of a t] ticks_high_funpow [of 0 t] by (auto simp: word_unat_eq_iff)
  then have "(?v + b) div 256 = (?v + c) div 256"
    using block_bounds [of ?v] block_bounds [of "?v + c"] assms(2-4) div_le_mono [of ?v "?v + a" 256]
      div_le_mono [of "?v + a" "?v + b" 256] div_le_mono [of "?v + b" "?v + c" 256] by linarith
  then show ?thesis by (simp add: word_unat_eq_iff ticks_high_funpow)
qed

lemma ksys_ticks_two_passes:
  assumes "m + n + l + m' + n' < 256"
  shows "\<exists>v t' i j. ksys_ticks ((m, n, l) # (m', n', l') # passes) t = Some (v, t')
    \<and> v = (scheduler_tick_bytes ^^ i) t \<and> t' = (scheduler_tick_bytes ^^ j) v \<and> i + j < 256"
proof -
  let ?f = "\<lambda>k t. (scheduler_tick_bytes ^^ k) t"
  have e: "?f b (?f a u) = ?f (a + b) u" for a b u by (simp add: funpow_add add.commute [of a])
  define u where "u = ?f (m + n + l) t"
  show ?thesis
  proof (cases "snd (?f (m + n) t) = snd t")
    case True
    have v: "(fst (?f m t), snd t) = ?f m t" by (rule ticks_pass [OF True]) (use assms in simp)
    have "ksys_ticks ((m, n, l) # (m', n', l') # passes) t = Some (?f m t, ?f n (?f m t))"
      using True v by (simp add: Let_def e)
    then show ?thesis using assms by (intro exI [of _ "?f m t"] exI [of _ "?f n (?f m t)"] exI [of _ m] exI [of _ n]) simp
  next
    case False
    then have s: "snd (?f (m' + n') u) = snd u"
      using high_changes_once [of "m + n" t "m + n + l" "m + n + l + m' + n'"] assms by (simp add: u_def e add.assoc)
    have v: "(fst (?f m' u), snd u) = ?f m' u" by (rule ticks_pass [OF s]) (use assms in simp)
    have "ksys_ticks ((m, n, l) # (m', n', l') # passes) t = Some (?f m' u, ?f n' (?f m' u))"
      using False s v by (simp add: Let_def e u_def [symmetric])
    moreover have "?f m' u = ?f (m + n + l + m') t" by (simp add: u_def e)
    ultimately show ?thesis using assms
      by (intro exI [of _ "?f m' u"] exI [of _ "?f n' (?f m' u)"] exI [of _ "m + n + l + m'"] exI [of _ n']) simp
  qed
qed

section \<open>The scheduler guard\<close>

text \<open>
  The guard bit and the interrupt mask of the processor. A successful entry leaves interrupts
  masked; one that finds the bit set restores the mask of its caller.
\<close>

record guard =
  sched_lock :: byte
  irq_masked :: bool

definition sched_lock_try_enter :: "guard \<Rightarrow> bool \<times> guard" where
  "sched_lock_try_enter g =
     (let busy = sched_lock g AND 1 \<noteq> 0; g' = g\<lparr>sched_lock := sched_lock g OR 1, irq_masked := True\<rparr>
      in if busy then (False, g'\<lparr>irq_masked := irq_masked g\<rparr>) else (True, g'))"

definition sched_lock_leave :: "guard \<Rightarrow> guard" where
  "sched_lock_leave g = (if sched_lock g AND 1 = 0 then g else g\<lparr>sched_lock := sched_lock g AND NOT 1\<rparr>)"

text \<open>
  Any number of parties that use the guard: each may try to enter, and only a holder leaves. The
  interrupt mask may change in between in any way.
\<close>

inductive guard_step :: "'p set \<times> guard \<Rightarrow> 'p set \<times> guard \<Rightarrow> bool" where
  enter: "sched_lock_try_enter g = (ok, g') \<Longrightarrow> guard_step (H, g) (if ok then insert p H else H, g')"
| leave: "p \<in> H \<Longrightarrow> guard_step (H, g) (H - {p}, sched_lock_leave g)"
| mask: "guard_step (H, g) (H, g\<lparr>irq_masked := b\<rparr>)"

definition guard_inv :: "'p set \<times> guard \<Rightarrow> bool" where
  "guard_inv s \<longleftrightarrow> (if sched_lock (snd s) AND 1 = 0 then fst s = {} else \<exists>p. fst s = {p})"

lemma guard_step_inv: "guard_step s s' \<Longrightarrow> guard_inv s \<Longrightarrow> guard_inv s'"
proof (induction rule: guard_step.induct)
  case (enter g ok g' H p)
  have "(sched_lock g OR 1) AND 1 = 1" by (simp add: bit_eq_iff bit_simps)
  with enter show ?case by (auto simp: guard_inv_def sched_lock_try_enter_def Let_def split: if_splits)
next
  case (leave p H g)
  have "(sched_lock g AND NOT 1) AND 1 = 0" by (simp add: and.assoc)
  with leave show ?case by (auto simp: guard_inv_def sched_lock_leave_def split: if_splits)
next
  case (mask H g b)
  then show ?case by (simp add: guard_inv_def split: if_splits)
qed

theorem guard_exclusive:
  assumes "guard_step\<^sup>*\<^sup>* ({}, \<lparr>sched_lock = 0, irq_masked = b\<rparr>) (H, g)"
  shows "H = {} \<or> (\<exists>p. H = {p})" and "fst (sched_lock_try_enter g) \<longleftrightarrow> H = {}"
proof -
  have "guard_inv ({}, \<lparr>sched_lock = 0, irq_masked = b\<rparr>)" by (simp add: guard_inv_def)
  with assms have "guard_inv (H, g)" by (induction rule: rtranclp_induct) (blast intro: guard_step_inv)+
  then show "H = {} \<or> (\<exists>p. H = {p})" and "fst (sched_lock_try_enter g) \<longleftrightarrow> H = {}"
    by (auto simp: guard_inv_def sched_lock_try_enter_def Let_def split: if_splits)
qed

end
