(* ===== verification/Kernel_Proc.thy ===== *)
theory Kernel_Proc
  imports Kernel_Timer Kernel_Gate Kernel_Os
begin

text \<open>
  Processes: the table of MMU contexts (\<^verbatim>\<open>src/kernel/context.asm\<close>), creation, exit, zombies and
  signals (\<^verbatim>\<open>process_control.asm\<close>), spawning (\<^verbatim>\<open>spawn.asm\<close>) and the calls of \<^verbatim>\<open>ksys_proc.asm\<close>.

  The state \<open>system\<close> extends the machine of \<open>Kernel_Os\<close> by the scheduler, the two gates, the
  timers and the arrays of \<^verbatim>\<open>shared_state.asm\<close> that describe processes. A call is one pass under
  the process gate: it is finished, or the caller has been put to sleep and tries again. The
  file I/O gate, which some routines take inside, is taken to be granted unless the caller
  owns it already, and is free again at the end; \<open>None\<close> stands for a request to the RP2350 that
  is never answered. Saved stacks are left out.
\<close>

section \<open>State\<close>

abbreviation (input) MAX_CONTEXTS :: byte where "MAX_CONTEXTS \<equiv> 10"
abbreviation (input) CTX_INVALID :: byte where "CTX_INVALID \<equiv> 0"
abbreviation (input) CTX_RESERVED :: byte where "CTX_RESERVED \<equiv> 1"
abbreviation (input) CTX_PRELOADED_FREE :: byte where "CTX_PRELOADED_FREE \<equiv> 2"
abbreviation (input) CTX_IN_USE :: byte where "CTX_IN_USE \<equiv> 4"

abbreviation (input) WAIT_PROC :: byte where "WAIT_PROC \<equiv> 5"
abbreviation (input) EXIT_OK :: byte where "EXIT_OK \<equiv> 0"
abbreviation (input) SIG_KILL :: byte where "SIG_KILL \<equiv> 9"
abbreviation (input) SIG_CONT :: byte where "SIG_CONT \<equiv> 18"
abbreviation (input) SIG_STOP :: byte where "SIG_STOP \<equiv> 19"
abbreviation (input) PROC_FLAG_FOREGROUND :: byte where "PROC_FLAG_FOREGROUND \<equiv> 4"
abbreviation (input) PROC_FLAGS_CREATE_MASK :: byte where "PROC_FLAGS_CREATE_MASK \<equiv> 0x0E"
abbreviation (input) SPAWN_LAUNCH_NONE :: byte where "SPAWN_LAUNCH_NONE \<equiv> 0xFF"
abbreviation (input) SPAWN_FD_CLOSED :: byte where "SPAWN_FD_CLOSED \<equiv> 0xFF"
abbreviation (input) SPAWN_LINE_MAX :: byte where "SPAWN_LINE_MAX \<equiv> 64"
abbreviation (input) NO_PID :: neox_pid_t where "NO_PID \<equiv> 0xFF"
abbreviation (input) NO_CONTEXT :: byte where "NO_CONTEXT \<equiv> 0xFF"

record 'r system = "'r machine" +
  sch :: sched
  file_gate :: gate
  proc_gate :: gate
  tmr :: timers
  proc_parent_pid :: "neox_pid_t list"
  proc_context :: "byte list"
  proc_entry :: "16 word list"
  proc_exit_code :: "byte list"
  proc_launch_id :: "byte list"
  proc_launch_line_len :: "byte list"
  proc_launch_line :: "byte list list"
  context_state :: "byte list"
  context_owner_pid :: "neox_pid_t list"

abbreviation state_of :: "'r system \<Rightarrow> neox_pid_t \<Rightarrow> byte" where
  "state_of y x \<equiv> proc_states (sch y) ! unat x"

definition set_state :: "neox_pid_t \<Rightarrow> byte \<Rightarrow> 'r system \<Rightarrow> 'r system" where
  "set_state x st y = y\<lparr>sch := proc_set_state x st (sch y)\<rparr>"

definition clear_wait :: "neox_pid_t \<Rightarrow> 'r system \<Rightarrow> 'r system" where
  "clear_wait x y = y\<lparr>sch := proc_clear_wait x (sch y)\<rparr>"

definition wake :: "neox_pid_t \<Rightarrow> 'r system \<Rightarrow> 'r system" where
  "wake x y = y\<lparr>sch := proc_wake x (sch y)\<rparr>"

definition set_signal :: "neox_pid_t \<Rightarrow> byte \<Rightarrow> 'r system \<Rightarrow> 'r system" where
  "set_signal x v y = y\<lparr>kern := (kern y)\<lparr>proc_signal_pending := (proc_signal_pending (kern y))[unat x := v]\<rparr>\<rparr>"

definition set_flags :: "neox_pid_t \<Rightarrow> byte \<Rightarrow> 'r system \<Rightarrow> 'r system" where
  "set_flags x v y = y\<lparr>kern := (kern y)\<lparr>proc_flags := (proc_flags (kern y))[unat x := v]\<rparr>\<rparr>"

definition set_exit_code :: "neox_pid_t \<Rightarrow> byte \<Rightarrow> 'r system \<Rightarrow> 'r system" where
  "set_exit_code x v y = y\<lparr>proc_exit_code := (proc_exit_code y)[unat x := v]\<rparr>"

section \<open>Contexts\<close>

definition ctx_init_table :: "'r system \<Rightarrow> 'r system" where
  "ctx_init_table y = y\<lparr>context_state := CTX_RESERVED # replicate 9 CTX_PRELOADED_FREE,
     context_owner_pid := replicate 10 NO_PID\<rparr>"

definition ctx_alloc_preloaded_for_pid :: "neox_pid_t \<Rightarrow> 'r system \<Rightarrow> (byte \<times> 'r system) option" where
  "ctx_alloc_preloaded_for_pid x y =
     (case scan_table (\<lambda>st. st = CTX_PRELOADED_FREE) (drop 1 (context_state y)) 1 of
        None \<Rightarrow> None
      | Some c \<Rightarrow> Some (c, y\<lparr>context_state := (context_state y)[unat c := CTX_IN_USE],
          context_owner_pid := (context_owner_pid y)[unat c := x]\<rparr>))"

definition ctx_free_for_pid :: "neox_pid_t \<Rightarrow> 'r system \<Rightarrow> 'r system" where
  "ctx_free_for_pid x y =
     (case scan_table (\<lambda>(st, owner). owner = x \<and> st = CTX_IN_USE)
         (drop 1 (zip (context_state y) (context_owner_pid y))) 1 of
        None \<Rightarrow> y
      | Some c \<Rightarrow> y\<lparr>context_state := (context_state y)[unat c := CTX_PRELOADED_FREE],
          context_owner_pid := (context_owner_pid y)[unat c := NO_PID]\<rparr>)"

section \<open>Creation\<close>

definition proc_find_free_pid :: "'r system \<Rightarrow> neox_pid_t option" where
  "proc_find_free_pid y = scan_table (\<lambda>st. st = PROC_EMPTY) (drop 1 (proc_states (sch y))) 1"

definition proc_clear_launch_state :: "neox_pid_t \<Rightarrow> 'r system \<Rightarrow> 'r system" where
  "proc_clear_launch_state x y = y\<lparr>proc_launch_id := (proc_launch_id y)[unat x := SPAWN_LAUNCH_NONE],
     proc_launch_line_len := (proc_launch_line_len y)[unat x := 0]\<rparr>"

text \<open>Whether the caller owns the file I/O gate already, so that it cannot acquire it.\<close>

definition owns_file_gate :: "neox_pid_t \<Rightarrow> 'r system \<Rightarrow> bool" where
  "owns_file_gate active_pid y \<longleftrightarrow> gate_byte (file_gate y) AND 1 \<noteq> 0 \<and> gate_owner (file_gate y) = active_pid"

text \<open>The fields that a new process starts with.\<close>

definition proc_init_slot :: "neox_pid_t \<Rightarrow> byte \<Rightarrow> neox_pid_t \<Rightarrow> 16 word \<Rightarrow> 'r system \<Rightarrow> 'r system" where
  "proc_init_slot x c parent entry y =
     (let y = y\<lparr>proc_parent_pid := (proc_parent_pid y)[unat x := parent], proc_context := (proc_context y)[unat x := c],
            proc_entry := (proc_entry y)[unat x := entry]\<rparr>
      in set_flags x 0 (proc_clear_launch_state x (set_exit_code x EXIT_OK (set_signal x 0 (clear_wait x y)))))"

definition proc_alloc_preloaded_common ::
  "bool \<Rightarrow> neox_pid_t \<Rightarrow> neox_pid_t \<Rightarrow> 16 word \<Rightarrow> 'r system \<Rightarrow> neox_pid_t option \<times> 'r system" where
  "proc_alloc_preloaded_common boot active_pid parent entry y =
     (case proc_find_free_pid y of
        None \<Rightarrow> (None, y)
      | Some x \<Rightarrow>
          (case ctx_alloc_preloaded_for_pid x y of
             None \<Rightarrow> (None, y)
           | Some (c, y) \<Rightarrow>
               let y = proc_init_slot x c parent entry y in
               if owns_file_gate active_pid y then (None, ctx_free_for_pid x y)
               else
                 (case (if boot then fd_init_process x (kern y) else fd_clear_process_slots x (kern y)) of
                    (Inl e, k) \<Rightarrow> (None, ctx_free_for_pid x (y\<lparr>kern := k\<rparr>))
                  | (Inr _, k) \<Rightarrow>
                      (Some x, if boot then set_state x PROC_NEW (y\<lparr>kern := k\<rparr>) else y\<lparr>kern := k\<rparr>))))"

section \<open>The process gate\<close>

datatype 'a proc_pass = Proc_Finished 'a | Proc_Blocked

text \<open>A routine between the acquisition and the release of the process gate.\<close>

definition with_proc_gate ::
  "neox_pid_t \<Rightarrow> 'a \<Rightarrow> ('r system \<Rightarrow> ('a proc_pass \<times> 'r system) option) \<Rightarrow> 'r system
   \<Rightarrow> ('a proc_pass \<times> 'r system) option" where
  "with_proc_gate active_pid busy f y =
     (case gate_acquire LOCK_ID_PROC active_pid (proc_gate y, sch y) of
        (Acquired, g, s) \<Rightarrow> do {
          (res, y) \<leftarrow> f (y\<lparr>proc_gate := g, sch := s\<rparr>);
          let (_, g, s) = gate_release active_pid (proc_gate y, sch y) in
          Some (res, y\<lparr>proc_gate := g, sch := s\<rparr>) }
      | (Recursive, g, s) \<Rightarrow> Some (Proc_Finished busy, y\<lparr>proc_gate := g, sch := s\<rparr>)
      | (Waiting, g, s) \<Rightarrow> Some (Proc_Blocked, y\<lparr>proc_gate := g, sch := s\<rparr>))"

definition proc_create ::
  "neox_pid_t \<Rightarrow> 16 word \<Rightarrow> byte \<Rightarrow> 'r system \<Rightarrow> (neox_pid_t option proc_pass \<times> 'r system) option" where
  "proc_create active_pid entry flags = with_proc_gate active_pid None (\<lambda>y.
     if flags AND NOT PROC_FLAGS_CREATE_MASK \<noteq> 0 then Some (Proc_Finished None, y)
     else case proc_alloc_preloaded_common True active_pid active_pid entry y of
         (None, y) \<Rightarrow> Some (Proc_Finished None, y)
       | (Some x, y) \<Rightarrow> Some (Proc_Finished (Some x), set_flags x flags y))"

section \<open>Termination\<close>

text \<open>The fields that are reset when a slot becomes empty.\<close>

definition clear_process_slot :: "neox_pid_t \<Rightarrow> 'r system \<Rightarrow> 'r system" where
  "clear_process_slot x y =
     (let y = ctx_free_for_pid x (proc_clear_launch_state x (set_signal x 0 (clear_wait x y)));
          y = y\<lparr>proc_parent_pid := (proc_parent_pid y)[unat x := NO_PID], proc_context := (proc_context y)[unat x := NO_CONTEXT],
            proc_entry := (proc_entry y)[unat x := 0]\<rparr>
      in set_state x PROC_EMPTY (set_flags x 0 y))"

definition proc_terminate :: "'r rp2350 \<Rightarrow> neox_pid_t \<Rightarrow> neox_pid_t \<Rightarrow> byte \<Rightarrow> 'r system \<Rightarrow> 'r system option" where
  "proc_terminate rp active_pid x code y =
     (if x = IDLE_PID \<or> x \<ge> MAX_PROCS then Some y
      else let y = set_exit_code x code y in
        if owns_file_gate active_pid y then Some y
        else do {
          (_, k) \<leftarrow> fd_close_process rp active_pid x (kern y);
          Some (clear_process_slot x (y\<lparr>kern := k\<rparr>)) })"

definition live_parent :: "neox_pid_t \<Rightarrow> 'r system \<Rightarrow> bool" where
  "live_parent x y \<longleftrightarrow> (let p = proc_parent_pid y ! unat x in
     FIRST_TASK_PID \<le> p \<and> p < MAX_PROCS \<and> state_of y p \<noteq> PROC_EMPTY \<and> state_of y p \<noteq> PROC_ZOMBIE)"

text \<open>The parent is woken if it waits for exactly this child.\<close>

definition wake_waiting_parent :: "neox_pid_t \<Rightarrow> 'r system \<Rightarrow> 'r system" where
  "wake_waiting_parent x y =
     (let p = proc_parent_pid y ! unat x in if waits_for WAIT_PROC x (sch y) p then wake p y else y)"

definition proc_exit_lifecycle ::
  "'r rp2350 \<Rightarrow> neox_pid_t \<Rightarrow> neox_pid_t \<Rightarrow> byte \<Rightarrow> 'r system \<Rightarrow> 'r system option" where
  "proc_exit_lifecycle rp active_pid x code y =
     (if x = IDLE_PID \<or> x \<ge> MAX_PROCS then Some y
      else let y = set_exit_code x code y in
        if \<not> live_parent x y \<or> owns_file_gate active_pid y then proc_terminate rp active_pid x code y
        else do {
          (r, k) \<leftarrow> fd_close_process rp active_pid x (kern y);
          let y = y\<lparr>kern := k\<rparr> in
          case r of
            Inl e \<Rightarrow> proc_terminate rp active_pid x code y
          | Inr _ \<Rightarrow> Some (wake_waiting_parent x (set_state x PROC_ZOMBIE (set_signal x 0 (clear_wait x y)))) })"

text \<open>The exit call up to the point where the process yields for the last time.\<close>

definition ksys_exit :: "'r rp2350 \<Rightarrow> neox_pid_t \<Rightarrow> byte \<Rightarrow> 'r system \<Rightarrow> (unit proc_pass \<times> 'r system) option" where
  "ksys_exit rp active_pid code y =
     (if active_pid = IDLE_PID then Some (Proc_Finished (), y)
      else with_proc_gate active_pid () (\<lambda>y. do {
        y \<leftarrow> proc_exit_lifecycle rp active_pid active_pid code y;
        Some (Proc_Finished (), y) }) y)"

definition proc_reap_waited_child ::
  "'r rp2350 \<Rightarrow> neox_pid_t \<Rightarrow> neox_pid_t \<Rightarrow> 'r system \<Rightarrow> (byte option \<times> 'r system) option" where
  "proc_reap_waited_child rp active_pid x y =
     (if x = IDLE_PID \<or> x \<ge> MAX_PROCS \<or> state_of y x \<noteq> PROC_ZOMBIE then Some (None, y)
      else let code = proc_exit_code y ! unat x in do {
        y \<leftarrow> proc_terminate rp active_pid x code y;
        Some (Some code, y) })"

definition scheduler_wake_console_owner :: "'r system \<Rightarrow> 'r system" where
  "scheduler_wake_console_owner y =
     (let x = console_owner_pid (kern y) in
      if FIRST_TASK_PID \<le> x \<and> x < MAX_PROCS \<and> state_of y x = PROC_BLOCKED
         \<and> wait_reasons (sch y) ! unat x = WAIT_CONSOLE
      then wake x y else y)"

text \<open>The console passes from one owner to another.\<close>

definition console_pass :: "neox_pid_t \<Rightarrow> neox_pid_t \<Rightarrow> 'r system \<Rightarrow> 'r system" where
  "console_pass owner new_owner y =
     (if console_owner_pid (kern y) = owner
      then scheduler_wake_console_owner (y\<lparr>kern := (kern y)\<lparr>console_owner_pid := new_owner\<rparr>\<rparr>) else y)"

definition waitpid_locked ::
  "'r rp2350 \<Rightarrow> neox_pid_t \<Rightarrow> neox_pid_t \<Rightarrow> 'r system \<Rightarrow> ((byte + byte) proc_pass \<times> 'r system) option" where
  "waitpid_locked rp active_pid x y =
     (if x \<ge> MAX_PROCS then Some (Proc_Finished (Inl EINVAL), y)
      else if x = IDLE_PID then Some (Proc_Finished (Inl EINVAL), y)
      else if proc_parent_pid y ! unat x \<noteq> active_pid then Some (Proc_Finished (Inl EINVAL), y)
      else if state_of y x = PROC_ZOMBIE then do {
        (res, y) \<leftarrow> proc_reap_waited_child rp active_pid x y;
        case res of
          None \<Rightarrow> Some (Proc_Finished (Inl EINVAL), y)
        | Some code \<Rightarrow> Some (Proc_Finished (Inr code), console_pass x active_pid y) }
      else if state_of y x = PROC_EMPTY then Some (Proc_Finished (Inl EINVAL), y)
      else Some (Proc_Blocked, y\<lparr>sch := proc_set_wait active_pid WAIT_PROC x (sch y)\<rparr>))"

definition ksys_waitpid ::
  "'r rp2350 \<Rightarrow> neox_pid_t \<Rightarrow> neox_pid_t \<Rightarrow> 'r system \<Rightarrow> ((byte + byte) proc_pass \<times> 'r system) option" where
  "ksys_waitpid rp active_pid x = with_proc_gate active_pid (Inl EAGAIN) (waitpid_locked rp active_pid x)"

section \<open>Spawning\<close>

definition spawn_validate_mapped_fd :: "neox_fd_t \<Rightarrow> bool" where
  "spawn_validate_mapped_fd fd \<longleftrightarrow> fd = SPAWN_FD_CLOSED \<or> fd < MAX_FDS"

definition spawn_clone_mapped_fd_locked ::
  "'r rp2350 \<Rightarrow> neox_pid_t \<Rightarrow> neox_pid_t \<Rightarrow> neox_fd_t \<Rightarrow> neox_fd_t \<Rightarrow> 'r kernel \<Rightarrow> ((byte + unit) \<times> 'r kernel) option" where
  "spawn_clone_mapped_fd_locked rp active_pid child fd target k =
     (if fd = SPAWN_FD_CLOSED then Some (Inr (), k) else fd_clone_between rp active_pid active_pid fd child target k)"

text \<open>The three descriptors and the working directory of the child, until the first failure.\<close>

fun spawn_clone_fds ::
  "'r rp2350 \<Rightarrow> neox_pid_t \<Rightarrow> neox_pid_t \<Rightarrow> (neox_fd_t \<times> neox_fd_t) list \<Rightarrow> 'r kernel \<Rightarrow> ((byte + unit) \<times> 'r kernel) option" where
  "spawn_clone_fds rp active_pid child [] k = Some (Inr (), k)"
| "spawn_clone_fds rp active_pid child ((target, fd) # rest) k = do {
     (r, k) \<leftarrow> spawn_clone_mapped_fd_locked rp active_pid child fd target k;
     case r of Inl e \<Rightarrow> Some (Inl e, k) | Inr _ \<Rightarrow> spawn_clone_fds rp active_pid child rest k }"

definition spawn_attach ::
  "'r rp2350 \<Rightarrow> neox_pid_t \<Rightarrow> neox_pid_t \<Rightarrow> neox_spawn_resident_args \<Rightarrow> 'r kernel \<Rightarrow> ((byte + unit) \<times> 'r kernel) option" where
  "spawn_attach rp active_pid child args k = do {
     (r, k) \<leftarrow> spawn_clone_fds rp active_pid child
       [(NEOX_STDIN_FD, stdin_fd args), (NEOX_STDOUT_FD, stdout_fd args), (NEOX_STDERR_FD, stderr_fd args)] k;
     case r of
       Inl e \<Rightarrow> Some (Inl e, k)
     | Inr _ \<Rightarrow> do {
         (reply, k) \<leftarrow> rp_fs_exec rp active_pid (Fs_Cwd_Clone child) k;
         Some (if rp_failed reply then Inl (rp_err reply) else Inr (), k) } }"

definition spawn_clear_process_slot_locked :: "neox_pid_t \<Rightarrow> 'r system \<Rightarrow> 'r system" where
  "spawn_clear_process_slot_locked x y = clear_process_slot x (set_exit_code x EXIT_OK y)"

definition spawn_rollback_child_locked ::
  "'r rp2350 \<Rightarrow> neox_pid_t \<Rightarrow> neox_pid_t \<Rightarrow> 'r system \<Rightarrow> 'r system option" where
  "spawn_rollback_child_locked rp active_pid x y = do {
     (_, k) \<leftarrow> fd_close_process rp active_pid x (kern y);
     Some (spawn_clear_process_slot_locked x (y\<lparr>kern := k\<rparr>)) }"

definition spawn_set_launch :: "neox_pid_t \<Rightarrow> byte \<Rightarrow> byte list \<Rightarrow> 'r system \<Rightarrow> 'r system" where
  "spawn_set_launch x selector line y =
     y\<lparr>proc_launch_id := (proc_launch_id y)[unat x := selector],
       proc_launch_line_len := (proc_launch_line_len y)[unat x := of_nat (length line)],
       proc_launch_line := (proc_launch_line y)[unat x :=
         line @ 0 # drop (Suc (length line)) (proc_launch_line y ! unat x)]\<rparr>"

text \<open>From the allocated slot to the published child, or back.\<close>

definition spawn_child ::
  "'r rp2350 \<Rightarrow> neox_pid_t \<Rightarrow> neox_spawn_resident_args \<Rightarrow> neox_pid_t \<Rightarrow> 'r system
   \<Rightarrow> ((byte + neox_pid_t) proc_pass \<times> 'r system) option" where
  "spawn_child rp active_pid args x y = do {
     line \<leftarrow> cslice (argument_line args) 0 (ucast (argument_length args));
     let y = spawn_set_launch x (launch_id args) line (proc_clear_launch_state x (set_flags x (spawn_flags args) y)) in
     if owns_file_gate active_pid y
     then Some (Proc_Finished (Inl EAGAIN), spawn_clear_process_slot_locked x y)
     else do {
       (r, k) \<leftarrow> spawn_attach rp active_pid x args (kern y);
       let y = y\<lparr>kern := k\<rparr> in
       case r of
         Inl e \<Rightarrow> do {
           y \<leftarrow> spawn_rollback_child_locked rp active_pid x y;
           Some (Proc_Finished (Inl e), y) }
       | Inr _ \<Rightarrow>
           let y = set_state x PROC_NEW y;
               y = (if spawn_flags args AND PROC_FLAG_FOREGROUND \<noteq> 0 then console_pass active_pid x y else y)
           in Some (Proc_Finished (Inr x), y) } }"

definition spawn_locked ::
  "'r rp2350 \<Rightarrow> neox_pid_t \<Rightarrow> 16 word \<Rightarrow> neox_spawn_resident_args \<Rightarrow> 'r system
   \<Rightarrow> ((byte + neox_pid_t) proc_pass \<times> 'r system) option" where
  "spawn_locked rp active_pid entry args y =
     (if argument_length args \<ge> SPAWN_LINE_MAX then Some (Proc_Finished (Inl EINVAL), y)
      else if \<not> spawn_validate_mapped_fd (stdin_fd args) then Some (Proc_Finished (Inl EBADF), y)
      else if \<not> spawn_validate_mapped_fd (stdout_fd args) then Some (Proc_Finished (Inl EBADF), y)
      else if \<not> spawn_validate_mapped_fd (stderr_fd args) then Some (Proc_Finished (Inl EBADF), y)
      else if spawn_flags args AND NOT PROC_FLAGS_CREATE_MASK \<noteq> 0 then Some (Proc_Finished (Inl EINVAL), y)
      else case proc_alloc_preloaded_common False active_pid active_pid entry y of
          (None, y) \<Rightarrow> Some (Proc_Finished (Inl ENOMEM), y)
        | (Some x, y) \<Rightarrow> spawn_child rp active_pid args x y)"

definition ksys_spawn_resident ::
  "'r rp2350 \<Rightarrow> neox_pid_t \<Rightarrow> 16 word \<Rightarrow> neox_spawn_resident_args \<Rightarrow> 'r system
   \<Rightarrow> ((byte + neox_pid_t) proc_pass \<times> 'r system) option" where
  "ksys_spawn_resident rp active_pid entry args = with_proc_gate active_pid (Inl EAGAIN) (spawn_locked rp active_pid entry args)"

text \<open>What the child reads back.\<close>

definition ksys_get_launch_id :: "neox_pid_t \<Rightarrow> 'r system \<Rightarrow> byte + byte" where
  "ksys_get_launch_id active_pid y =
     (if active_pid \<ge> MAX_PROCS then Inl EINVAL
      else if proc_launch_id y ! unat active_pid = SPAWN_LAUNCH_NONE then Inl EINVAL
      else Inr (proc_launch_id y ! unat active_pid))"

definition ksys_get_launch_line ::
  "neox_pid_t \<Rightarrow> byte \<Rightarrow> 'r system \<Rightarrow> ((byte + byte list) proc_pass \<times> 'r system) option" where
  "ksys_get_launch_line active_pid buffer_size = with_proc_gate active_pid (Inl EAGAIN) (\<lambda>y.
     Some (Proc_Finished
       (if active_pid \<ge> MAX_PROCS then Inl EINVAL
        else if buffer_size = 0 then Inl EINVAL
        else if proc_launch_line_len y ! unat active_pid \<ge> buffer_size then Inl EINVAL
        else Inr (take (unat (proc_launch_line_len y ! unat active_pid)) (proc_launch_line y ! unat active_pid))), y))"

section \<open>Signals and zombies\<close>

definition proc_mark_zombie :: "neox_pid_t \<Rightarrow> byte \<Rightarrow> 'r system \<Rightarrow> (bool \<times> 'r system) option" where
  "proc_mark_zombie x code y =
     (if x = IDLE_PID \<or> x \<ge> MAX_PROCS \<or> state_of y x = PROC_EMPTY then Some (False, y)
      else if state_of y x = PROC_ZOMBIE then Some (True, y)
      else
        let y = set_signal x 0 (set_exit_code x code y);
            reason = wait_reasons (sch y) ! unat x; object = wait_objects (sch y) ! unat x
        in do {
          y \<leftarrow> (if reason = WAIT_TIMER then Some (y\<lparr>tmr := timer_free object (tmr y)\<rparr>)
            else if reason = WAIT_LOCK \<and> object = LOCK_ID_FILE_IO
            then map_option (\<lambda>g. y\<lparr>file_gate := g\<rparr>) (gate_cancel_wait x (file_gate y))
            else if reason = WAIT_LOCK \<and> object = LOCK_ID_PROC
            then map_option (\<lambda>g. y\<lparr>proc_gate := g\<rparr>) (gate_cancel_wait x (proc_gate y))
            else Some y);
          let y = set_state x PROC_ZOMBIE (clear_wait x y); p = proc_parent_pid y ! unat x in
          Some (True, if FIRST_TASK_PID \<le> p \<and> p < MAX_PROCS then wake_waiting_parent x y else y) })"

definition proc_send_signal ::
  "neox_pid_t \<Rightarrow> neox_pid_t \<Rightarrow> byte \<Rightarrow> 'r system \<Rightarrow> ((byte + unit) \<times> 'r system) option" where
  "proc_send_signal active_pid x signal y =
     (if x = IDLE_PID \<or> x \<ge> MAX_PROCS then Some (Inl EINVAL, y)
      else if state_of y x = PROC_EMPTY \<or> state_of y x = PROC_ZOMBIE then Some (Inl EINVAL, y)
      else if signal \<noteq> SIG_KILL then Some (Inr (), set_signal x signal y)
      else if x = gate_owner (file_gate y) then Some (Inl EAGAIN, y)
      else if x = gate_owner (proc_gate y) \<and> x \<noteq> active_pid then Some (Inl EAGAIN, y)
      else do {
        (ok, y) \<leftarrow> proc_mark_zombie x 0xFF y;
        Some (if ok then Inr () else Inl EINVAL, y) })"

definition ksys_signal ::
  "neox_pid_t \<Rightarrow> neox_pid_t \<Rightarrow> byte \<Rightarrow> 'r system \<Rightarrow> ((byte + unit) proc_pass \<times> 'r system) option" where
  "ksys_signal active_pid x signal y =
     (if signal \<noteq> SIG_STOP \<and> signal \<noteq> SIG_CONT \<and> signal \<noteq> SIG_KILL \<and> signal \<noteq> SIG_INT
      then Some (Proc_Finished (Inl EINVAL), y)
      else with_proc_gate active_pid (Inl EAGAIN) (\<lambda>y. do {
        (r, y) \<leftarrow> proc_send_signal active_pid x signal y;
        Some (Proc_Finished r, y) }) y)"

definition proc_apply_scheduler_signal :: "neox_pid_t \<Rightarrow> 'r system \<Rightarrow> (bool \<times> 'r system) option" where
  "proc_apply_scheduler_signal x y =
     (let signal = proc_signal_pending (kern y) ! unat x;
          owner = (x = gate_owner (file_gate y) \<or> x = gate_owner (proc_gate y)) in
      if signal = SIG_STOP then
        (if owner then Some (False, y)
         else if state_of y x = PROC_NEW \<or> state_of y x = PROC_READY \<or> state_of y x = PROC_RUNNING
         then Some (True, set_state x PROC_STOPPED (clear_wait x (set_signal x 0 y)))
         else Some (False, y))
      else if signal = SIG_CONT then
        (if state_of y x = PROC_STOPPED then Some (True, set_state x PROC_READY (clear_wait x (set_signal x 0 y)))
         else Some (True, set_signal x 0 y))
      else if signal = SIG_INT then
        (if owner then Some (False, y)
         else if proc_flags (kern y) ! unat x AND PROC_FLAG_SIGINT_INTERRUPT \<noteq> 0 then
           (if state_of y x = PROC_BLOCKED \<and> wait_reasons (sch y) ! unat x = WAIT_CONSOLE
            then Some (True, wake x y) else Some (False, y))
         else do { (_, y) \<leftarrow> proc_mark_zombie x 0xFE y; Some (True, y) })
      else Some (False, y))"

fun apply_signals :: "neox_pid_t list \<Rightarrow> 'r system \<Rightarrow> 'r system option" where
  "apply_signals [] y = Some y"
| "apply_signals (x # xs) y = do { (_, y) \<leftarrow> proc_apply_scheduler_signal x y; apply_signals xs y }"

definition scheduler_apply_pending_signals :: "'r system \<Rightarrow> 'r system option" where
  "scheduler_apply_pending_signals = apply_signals [1, 2, 3, 4, 5, 6, 7]"

text \<open>The idle task removes zombies that nobody waits for, one at a time, while both gates are free.\<close>

definition orphan_zombie :: "'r system \<Rightarrow> neox_pid_t \<Rightarrow> bool" where
  "orphan_zombie y x \<longleftrightarrow> state_of y x = PROC_ZOMBIE \<and> \<not> live_parent x y"

definition proc_reap_zombies :: "'r rp2350 \<Rightarrow> neox_pid_t \<Rightarrow> 'r system \<Rightarrow> (bool \<times> 'r system) option" where
  "proc_reap_zombies rp active_pid y =
     (case scan_table (orphan_zombie y) [1, 2, 3, 4, 5, 6, 7] 1 of
        None \<Rightarrow> Some (False, y)
      | Some x \<Rightarrow>
          if gate_byte (proc_gate y) OR gate_byte (file_gate y) \<noteq> 0 then Some (False, y)
          else do {
            y \<leftarrow> proc_terminate rp active_pid x (proc_exit_code y ! unat x) y;
            Some (True, y) })"

section \<open>Process information\<close>

definition ksys_getprocinfo :: "neox_pid_t \<Rightarrow> 'r system \<Rightarrow> byte + neox_process_info" where
  "ksys_getprocinfo x y =
     (if x \<ge> MAX_PROCS then Inl EINVAL
      else Inr \<lparr>pid = x, parent_pid = proc_parent_pid y ! unat x, proc_state = state_of y x,
        wait_reason = wait_reasons (sch y) ! unat x, signal_pending = proc_signal_pending (kern y) ! unat x,
        wait_object = wait_objects (sch y) ! unat x,
        held_gate_mask = (if x = gate_owner (file_gate y) then 1 else 0)
          OR (if x = gate_owner (proc_gate y) then 2 else 0)\<rparr>)"

end
