(* ===== verification/Kernel_Proc_Inv.thy ===== *)
theory Kernel_Proc_Inv
  imports Kernel_Proc
begin

text \<open>
  The invariant of the process table: every live process owns exactly one MMU context, no two
  share one, and an empty slot has neither a context nor a descriptor. A process that is being
  created has a context but is not yet published, so the invariant takes the set of the
  processes that own one.
\<close>

section \<open>Contexts\<close>

definition contexts_for :: "neox_pid_t set \<Rightarrow> byte list \<Rightarrow> byte list \<Rightarrow> neox_pid_t list \<Rightarrow> bool" where
  "contexts_for L pc cs co \<longleftrightarrow> length pc = 8 \<and> length cs = 10 \<and> length co = 10 \<and> (\<forall>x \<in> L. normal x)
     \<and> (\<forall>c. 0 < c \<longrightarrow> c < 10 \<longrightarrow> cs ! c = CTX_PRELOADED_FREE
          \<or> cs ! c = CTX_IN_USE \<and> co ! c \<in> L \<and> unat (pc ! unat (co ! c)) = c)
     \<and> (\<forall>x \<in> L. 0 < unat (pc ! unat x) \<and> unat (pc ! unat x) < 10
          \<and> cs ! unat (pc ! unat x) = CTX_IN_USE \<and> co ! unat (pc ! unat x) = x)"

lemma contexts_lengths: "contexts_for L pc cs co \<Longrightarrow> length pc = 8 \<and> length cs = 10 \<and> length co = 10"
  by (simp add: contexts_for_def)

lemma contexts_owned:
  assumes "contexts_for L pc cs co" and "x \<in> L"
  shows "normal x" and "0 < unat (pc ! unat x)" and "unat (pc ! unat x) < 10"
    and "cs ! unat (pc ! unat x) = CTX_IN_USE" and "co ! unat (pc ! unat x) = x"
  using assms by (simp_all add: contexts_for_def)

lemma contexts_owner:
  assumes "contexts_for L pc cs co" and "0 < c" and "c < 10" and "cs ! c = CTX_IN_USE"
  shows "co ! c \<in> L" and "unat (pc ! unat (co ! c)) = c"
proof -
  have "cs ! c = CTX_PRELOADED_FREE \<or> cs ! c = CTX_IN_USE \<and> co ! c \<in> L \<and> unat (pc ! unat (co ! c)) = c"
    using assms(1-3) by (simp add: contexts_for_def)
  then show "co ! c \<in> L" and "unat (pc ! unat (co ! c)) = c" using assms(4) by simp_all
qed

text \<open>No two processes share a context.\<close>

lemma contexts_distinct:
  "contexts_for L pc cs co \<Longrightarrow> x \<in> L \<Longrightarrow> z \<in> L \<Longrightarrow> pc ! unat x = pc ! unat z \<Longrightarrow> x = z"
  using contexts_owned(5) by metis

text \<open>What one context has to satisfy.\<close>

definition context_ok :: "neox_pid_t set \<Rightarrow> byte list \<Rightarrow> byte list \<Rightarrow> neox_pid_t list \<Rightarrow> nat \<Rightarrow> bool" where
  "context_ok L pc cs co c \<longleftrightarrow> cs ! c = CTX_PRELOADED_FREE
     \<or> cs ! c = CTX_IN_USE \<and> co ! c \<in> L \<and> unat (pc ! unat (co ! c)) = c"

lemma contexts_forI:
  assumes "length pc = 8" and "length cs = 10" and "length co = 10" and "\<And>x. x \<in> L \<Longrightarrow> normal x"
    and "\<And>c. 0 < c \<Longrightarrow> c < 10 \<Longrightarrow> context_ok L pc cs co c"
    and "\<And>x. x \<in> L \<Longrightarrow> 0 < unat (pc ! unat x) \<and> unat (pc ! unat x) < 10
      \<and> cs ! unat (pc ! unat x) = CTX_IN_USE \<and> co ! unat (pc ! unat x) = x"
  shows "contexts_for L pc cs co"
  using assms by (simp add: contexts_for_def context_ok_def)

lemma contexts_ok: "contexts_for L pc cs co \<Longrightarrow> 0 < c \<Longrightarrow> c < 10 \<Longrightarrow> context_ok L pc cs co c"
  by (simp add: contexts_for_def context_ok_def)

lemma contexts_other:
  assumes "contexts_for L pc cs co" and "x \<notin> L"
  shows "contexts_for L (pc[unat x := z]) cs co"
proof (rule contexts_forI)
  have ne: "unat x \<noteq> unat w" if "w \<in> L" for w using that assms(2) word_unat_eq_iff by metis
  show "context_ok L (pc[unat x := z]) cs co c" if "0 < c" "c < 10" for c
    using contexts_ok [OF assms(1) that] ne by (auto simp: context_ok_def)
  show "0 < unat (pc[unat x := z] ! unat w) \<and> unat (pc[unat x := z] ! unat w) < 10
      \<and> cs ! unat (pc[unat x := z] ! unat w) = CTX_IN_USE \<and> co ! unat (pc[unat x := z] ! unat w) = w" if "w \<in> L" for w
    using contexts_owned [OF assms(1) that] ne [OF that] by simp
qed (use contexts_lengths [OF assms(1)] contexts_owned(1) [OF assms(1)] in auto)

lemma contexts_alloc:
  assumes "contexts_for L pc cs co" and "x \<notin> L" and "normal x" and "0 < unat c" and "unat c < 10"
    and "cs ! unat c = CTX_PRELOADED_FREE"
  shows "contexts_for (insert x L) (pc[unat x := c]) (cs[unat c := CTX_IN_USE]) (co[unat c := x])"
proof (rule contexts_forI)
  have len: "length pc = 8" "length cs = 10" "length co = 10" "unat x < 8"
    using contexts_lengths [OF assms(1)] assms(3) by (simp_all add: normal_unat)
  have ne: "unat x \<noteq> unat w" if "w \<in> L" for w using that assms(2) word_unat_eq_iff by metis
  have nc: "unat c \<noteq> unat (pc ! unat w)" if "w \<in> L" for w
    using contexts_owned(4) [OF assms(1) that] assms(6) by auto
  show "context_ok (insert x L) (pc[unat x := c]) (cs[unat c := CTX_IN_USE]) (co[unat c := x]) d" if "0 < d" "d < 10" for d
    using contexts_ok [OF assms(1) that] ne len assms(5) by (cases "d = unat c") (auto simp: context_ok_def)
  show "0 < unat (pc[unat x := c] ! unat w) \<and> unat (pc[unat x := c] ! unat w) < 10
      \<and> cs[unat c := CTX_IN_USE] ! unat (pc[unat x := c] ! unat w) = CTX_IN_USE
      \<and> co[unat c := x] ! unat (pc[unat x := c] ! unat w) = w" if "w \<in> insert x L" for w
    using that contexts_owned [OF assms(1), of w] ne [of w] nc [of w] len assms(4,5) by (cases "w = x") simp_all
qed (use contexts_lengths [OF assms(1)] contexts_owned(1) [OF assms(1)] assms(3) in auto)

lemma contexts_release:
  assumes "contexts_for L pc cs co" and "x \<in> L" and "c = unat (pc ! unat x)"
  shows "contexts_for (L - {x}) (pc[unat x := z]) (cs[c := CTX_PRELOADED_FREE]) (co[c := w])"
proof (rule contexts_forI)
  note x = contexts_owned [OF assms(1,2), folded assms(3)]
  have len: "length pc = 8" "length cs = 10" "length co = 10" "unat x < 8"
    using contexts_lengths [OF assms(1)] x(1) by (simp_all add: normal_unat)
  have ne: "unat x \<noteq> unat v" if "v \<noteq> x" for v using that word_unat_eq_iff by metis
  have nc: "c \<noteq> unat (pc ! unat v)" if "v \<in> L - {x}" for v
    using that contexts_owned(5) [OF assms(1), of v] x(5) by auto
  show "context_ok (L - {x}) (pc[unat x := z]) (cs[c := CTX_PRELOADED_FREE]) (co[c := w]) d" if "0 < d" "d < 10" for d
  proof (cases "d = c")
    case False
    then have "co ! d \<noteq> x" if "unat (pc ! unat (co ! d)) = d" using that assms(3) by auto
    then show ?thesis using contexts_ok [OF assms(1) that] False ne by (auto simp: context_ok_def)
  qed (use len x(3) in \<open>simp add: context_ok_def\<close>)
  show "0 < unat (pc[unat x := z] ! unat v) \<and> unat (pc[unat x := z] ! unat v) < 10
      \<and> cs[c := CTX_PRELOADED_FREE] ! unat (pc[unat x := z] ! unat v) = CTX_IN_USE
      \<and> co[c := w] ! unat (pc[unat x := z] ! unat v) = v" if "v \<in> L - {x}" for v
    using that contexts_owned [OF assms(1), of v] ne [of v] nc [OF that] by simp
qed (use contexts_lengths [OF assms(1)] contexts_owned(1) [OF assms(1)] in auto)

text \<open>There are more contexts than processes, so one is always free for a new process.\<close>

lemma contexts_room:
  assumes "contexts_for L pc cs co"
  shows "\<exists>c. 0 < c \<and> c < 10 \<and> cs ! c = CTX_PRELOADED_FREE"
proof (rule ccontr)
  assume "\<nexists>c. 0 < c \<and> c < 10 \<and> cs ! c = CTX_PRELOADED_FREE"
  then have use: "cs ! c = CTX_IN_USE" if "0 < c" "c < 10" for c using assms that by (auto simp: contexts_for_def)
  have "inj_on (\<lambda>c. unat (co ! c)) {1..<10}"
  proof (rule inj_onI)
    fix c d assume "c \<in> {1..<10}" "d \<in> {1..<10}" "unat (co ! c) = unat (co ! d)"
    moreover have "unat (pc ! unat (co ! e)) = e" if "e \<in> {1..<10}" for e
      using that by (intro contexts_owner(2) [OF assms] use) auto
    ultimately show "c = d" by metis
  qed
  moreover have "(\<lambda>c. unat (co ! c)) ` {1..<10} \<subseteq> {1..<8}"
  proof
    fix n assume "n \<in> (\<lambda>c. unat (co ! c)) ` {1..<10}"
    then obtain c where c: "0 < c" "c < 10" "n = unat (co ! c)" by (auto simp: Suc_le_eq)
    have "co ! c \<in> L" by (rule contexts_owner(1) [OF assms c(1,2) use [OF c(1,2)]])
    then show "n \<in> {1..<8}" using assms c(3) by (auto simp: contexts_for_def normal_unat)
  qed
  ultimately have "card {1..<10 :: nat} \<le> card {1..<8 :: nat}" using card_inj_on_le by blast
  then show False by simp
qed

section \<open>The invariant\<close>

definition sized :: "'r system \<Rightarrow> bool" where
  "sized y \<longleftrightarrow> length (proc_parent_pid y) = 8 \<and> length (proc_entry y) = 8 \<and> length (proc_exit_code y) = 8
     \<and> length (proc_launch_id y) = 8 \<and> length (proc_launch_line_len y) = 8 \<and> length (proc_launch_line y) = 8
     \<and> list_all (\<lambda>line. length line = 64) (proc_launch_line y)
     \<and> length (proc_flags (kern y)) = 8 \<and> length (proc_signal_pending (kern y)) = 8"

definition inv_with :: "neox_pid_t set \<Rightarrow> 'r system \<Rightarrow> bool" where
  "inv_with L y \<longleftrightarrow> sized y \<and> sched_wf (sch y) \<and> kernel_inv (kern y) \<and> devices_bound (kern y)
     \<and> contexts_for L (proc_context y) (context_state y) (context_owner_pid y)
     \<and> (\<forall>x. normal x \<longrightarrow> x \<notin> L \<longrightarrow> (\<forall>fd. \<not> is_open x fd (kern y)))"

definition live_pids :: "'r system \<Rightarrow> neox_pid_t set" where
  "live_pids y = {x. normal x \<and> state_of y x \<noteq> PROC_EMPTY}"

definition system_inv :: "'r system \<Rightarrow> bool" where
  "system_inv y \<longleftrightarrow> inv_with (live_pids y) y"

lemma inv_withD:
  assumes "inv_with L y"
  shows "sized y" and "sched_wf (sch y)" and "kernel_inv (kern y)" and "devices_bound (kern y)"
    and "contexts_for L (proc_context y) (context_state y) (context_owner_pid y)"
    and "\<And>x fd. normal x \<Longrightarrow> x \<notin> L \<Longrightarrow> \<not> is_open x fd (kern y)"
  using assms by (auto simp: inv_with_def)

lemma inv_with_normal: "inv_with L y \<Longrightarrow> x \<in> L \<Longrightarrow> normal x"
  using contexts_owned(1) inv_withD(5) by blast

text \<open>Fields outside the tables of the kernel.\<close>

lemma kernel_control_fields [simp]:
  "kernel_inv (k\<lparr>proc_flags := f\<rparr>) = kernel_inv k" "devices_bound (k\<lparr>proc_flags := f\<rparr>) = devices_bound k"
  "devices_bound (k\<lparr>proc_signal_pending := s\<rparr>) = devices_bound k"
  "devices_bound (k\<lparr>console_owner_pid := c\<rparr>) = devices_bound k"
  "is_open x fd (k\<lparr>proc_flags := f\<rparr>) = is_open x fd k" "is_open x fd (k\<lparr>proc_signal_pending := s\<rparr>) = is_open x fd k"
  "is_open x fd (k\<lparr>console_owner_pid := c\<rparr>) = is_open x fd k" "is_open x fd (k\<lparr>rp_state := r\<rparr>) = is_open x fd k"
  by (simp_all add: kernel_inv_def devices_bound_def is_open_def)

lemma inv_with_fields [simp]:
  "inv_with L (set_state x st y) = inv_with L y" "inv_with L (clear_wait x y) = inv_with L y"
  "inv_with L (wake x y) = inv_with L y" "inv_with L (set_signal x v y) = inv_with L y"
  "inv_with L (set_flags x v y) = inv_with L y" "inv_with L (set_exit_code x v y) = inv_with L y"
  "inv_with L (proc_clear_launch_state x y) = inv_with L y"
  "inv_with L (y\<lparr>proc_gate := g\<rparr>) = inv_with L y" "inv_with L (y\<lparr>file_gate := g\<rparr>) = inv_with L y"
  "inv_with L (y\<lparr>tmr := t\<rparr>) = inv_with L y"
  "inv_with L (y\<lparr>proc_parent_pid := (proc_parent_pid y)[i := p]\<rparr>) = inv_with L y"
  "inv_with L (y\<lparr>proc_entry := (proc_entry y)[i := en]\<rparr>) = inv_with L y"
  "inv_with L (y\<lparr>kern := (kern y)\<lparr>console_owner_pid := c\<rparr>\<rparr>) = inv_with L y"
  by (simp_all add: inv_with_def sized_def set_state_def clear_wait_def wake_def set_signal_def set_flags_def
      set_exit_code_def proc_clear_launch_state_def)

lemma inv_with_sched: "inv_with L y \<Longrightarrow> sched_wf s \<Longrightarrow> inv_with L (y\<lparr>sch := s\<rparr>)"
  by (simp add: inv_with_def sized_def)

lemma live_pids_sched: "live_pids (y\<lparr>sch := s\<rparr>) = {x. normal x \<and> proc_states s ! unat x \<noteq> PROC_EMPTY}"
  by (simp add: live_pids_def)

lemma live_pids_fields [simp]:
  "live_pids (clear_wait x y) = live_pids y" "live_pids (set_signal x v y) = live_pids y"
  "live_pids (set_flags x v y) = live_pids y" "live_pids (set_exit_code x v y) = live_pids y"
  "live_pids (proc_clear_launch_state x y) = live_pids y" "live_pids (y\<lparr>proc_gate := g\<rparr>) = live_pids y"
  "live_pids (y\<lparr>file_gate := g\<rparr>) = live_pids y" "live_pids (y\<lparr>tmr := t\<rparr>) = live_pids y"
  "live_pids (y\<lparr>kern := k\<rparr>) = live_pids y"
  by (simp_all add: live_pids_def clear_wait_def proc_clear_wait_def set_signal_def set_flags_def set_exit_code_def
      proc_clear_launch_state_def)

lemma states_wake: "proc_states (proc_wake x s) ! unat z = (if proc_states s ! unat x = PROC_BLOCKED \<and> z = x \<and> unat x < length (proc_states s)
    then PROC_READY else proc_states s ! unat z)"
  by (auto simp: proc_wake_def proc_set_state_def proc_clear_wait_def nth_list_update list_update_beyond not_less word_unat_eq_iff)

lemma live_pids_wake [simp]: "live_pids (wake x y) = live_pids y"
  by (auto simp: live_pids_def wake_def states_wake)

lemma live_pids_set_state:
  assumes "sched_wf (sch y)" and "normal x"
  shows "live_pids (set_state x st y) = (if st = PROC_EMPTY then live_pids y - {x} else insert x (live_pids y))"
  using assms
  by (auto simp: live_pids_def set_state_def proc_set_state_def sched_wf_def normal_unat nth_list_update word_unat_eq_iff)

section \<open>Kernel operations\<close>

text \<open>Descriptor operations change neither flags nor signals nor the console.\<close>

definition same_control :: "'r kernel \<Rightarrow> 'r kernel \<Rightarrow> bool" where
  "same_control k k' \<longleftrightarrow> proc_flags k' = proc_flags k \<and> proc_signal_pending k' = proc_signal_pending k
     \<and> console_owner_pid k' = console_owner_pid k"

lemma same_control_refl [simp]: "same_control k k"
  by (simp add: same_control_def)

lemma same_control_trans [trans]: "same_control k k' \<Longrightarrow> same_control k' k'' \<Longrightarrow> same_control k k''"
  by (simp add: same_control_def)

lemma same_control_updates [simp]:
  "same_control k (upd_open x f k') = same_control k k'" "same_control k (upd_pipe i g k') = same_control k k'"
  "same_control k (set_slot_obj j ob fl k') = same_control k k'" "same_control k (k'\<lparr>rp_state := r\<rparr>) = same_control k k'"
  by (simp_all add: same_control_def upd_open_def upd_pipe_def set_slot_obj_def)

lemma same_control_routines [simp]:
  "same_control k (fd_attach task fd ob fl k') = same_control k k'" "same_control k (fd_free_open x k') = same_control k k'"
  "same_control k (pipe_close_endpoint x k') = same_control k k'" "same_control k (fd_detach i k') = same_control k k'"
  by (simp_all add: fd_attach_def fd_free_open_def pipe_close_endpoint_def pipe_free_def fd_detach_def Let_def)

lemma rp_fs_exec_control: "rp_fs_exec rp ap q k = Some (reply, k') \<Longrightarrow> same_control k k'"
  by (auto dest: rp_fs_exec_fields)

lemma fd_close_pid_control:
  assumes "fd_close_pid rp ap task fd k = Some (res, k')" and "kernel_inv k"
  shows "same_control k k'"
proof (cases "is_open task fd k")
  case False
  then show ?thesis using assms by (auto simp: fd_close_pid_closed)
next
  case True
  then show ?thesis
    using assms(1) fd_close_pid_open [OF assms(2) True, of rp ap]
    by (auto simp: fd_last_close_def Let_def bind_eq_Some_conv split: if_splits dest!: rp_fs_exec_fields)
qed

text \<open>What an operation on descriptors keeps of a kernel.\<close>

definition fd_op :: "neox_pid_t set \<Rightarrow> 'r kernel \<Rightarrow> 'r kernel \<Rightarrow> bool" where
  "fd_op S k k' \<longleftrightarrow> within S k k' \<and> devices_bound k' \<and> same_control k k'"

lemma fd_op_refl [simp]: "fd_op S k k \<longleftrightarrow> kernel_inv k \<and> devices_bound k"
  by (simp add: fd_op_def)

lemma fd_opD:
  assumes "fd_op S k k'"
  shows "within S k k'" and "kernel_inv k'" and "devices_bound k'" and "same_control k k'"
  using assms by (auto simp: fd_op_def intro: within_inv)

lemma fd_op_trans [trans]: "fd_op S k k' \<Longrightarrow> fd_op S k' k'' \<Longrightarrow> fd_op S k k''"
  by (auto simp: fd_op_def intro: within_trans same_control_trans)

lemma fd_op_rp: "rp_fs_exec rp ap q k = Some (reply, k') \<Longrightarrow> kernel_inv k \<Longrightarrow> devices_bound k \<Longrightarrow> fd_op S k k'"
  by (auto simp: fd_op_def dest!: rp_fs_exec_fields)

lemma fd_close_pid_op:
  "fd_close_pid rp ap task fd k = Some (res, k') \<Longrightarrow> kernel_inv k \<Longrightarrow> devices_bound k \<Longrightarrow> fd_op {task} k k'"
  by (simp add: fd_op_def fd_close_pid_within(1) devices_bound_close_pid fd_close_pid_control)

lemma close_slots_op:
  "close_slots rp ap task fds k = Some (res, k') \<Longrightarrow> kernel_inv k \<Longrightarrow> devices_bound k \<Longrightarrow> fd_op {task} k k'"
proof (induction fds arbitrary: k)
  case (Cons fd fds)
  obtain r k1 where c: "fd_close_pid rp ap task fd k = Some (r, k1)"
    using Cons.prems(1) by (auto simp: bind_eq_Some_conv)
  note k1 = fd_close_pid_op [OF c Cons.prems(2,3)]
  have "k' = k1 \<or> close_slots rp ap task fds k1 = Some (res, k')"
    using Cons.prems(1) c by (auto split: sum.splits if_splits)
  then show ?case using k1 Cons.IH [OF _ fd_opD(2,3) [OF k1]] by (auto intro: fd_op_trans)
qed simp

lemma fd_close_process_op:
  "fd_close_process rp ap task k = Some (res, k') \<Longrightarrow> kernel_inv k \<Longrightarrow> devices_bound k \<Longrightarrow> fd_op {task} k k'"
  by (auto simp: fd_close_process_def simp del: close_slots.simps split: if_splits dest: close_slots_op)

lemma devices_bound_attach [simp]: "devices_bound k \<Longrightarrow> devices_bound (fd_attach task fd ob fl k)"
  by (auto simp: fd_attach_def device_bound_def intro!: devices_bound_upd_open)

lemma fd_clone_between_op:
  assumes "fd_clone_between rp ap p fd task target k = Some (res, k')" and "kernel_inv k" and "devices_bound k"
  shows "fd_op {task} k k'"
proof -
  have "k' = k \<or> (\<exists>r k1. fd_close_pid rp ap task target k = Some (r, k1) \<and> (k' = k1 \<or> (\<exists>ob fl. k' = fd_attach task target ob fl k1)))"
  proof (cases "fd_close_pid rp ap task target k")
    case None
    then show ?thesis using assms(1) by (auto simp: fd_clone_between_def Let_def split: if_splits)
  next
    case (Some rk)
    then show ?thesis using assms(1) by (cases rk; cases "fst rk") (auto simp: fd_clone_between_def Let_def split: if_splits)
  qed
  then have "devices_bound k'" and "same_control k k'"
    using assms(2,3) by (auto dest: devices_bound_close_pid fd_close_pid_control)
  then show ?thesis using fd_clone_between_within [OF assms(1,2)] by (simp add: fd_op_def)
qed

lemma inv_with_kern:
  assumes "inv_with L y" and "fd_op S (kern y) k" and "\<And>x fd. x \<in> S \<Longrightarrow> normal x \<Longrightarrow> x \<notin> L \<Longrightarrow> \<not> is_open x fd k"
  shows "inv_with L (y\<lparr>kern := k\<rparr>)"
proof -
  note i = inv_withD [OF assms(1)] and k = fd_opD [OF assms(2)]
  have "\<not> is_open x fd k" if "normal x" "x \<notin> L" for x fd
  proof (cases "x \<in> S")
    case False
    then have "same_view x (kern y) k" using k(1) normalD(1) [OF that(1)] by (simp add: within_def)
    then show ?thesis using same_view_is_open i(6) [OF that] by blast
  qed (use assms(3) that in simp)
  moreover have "sized (y\<lparr>kern := k\<rparr>)" using i(1) k(4) by (simp add: sized_def same_control_def)
  ultimately show ?thesis using i k by (simp add: inv_with_def)
qed


section \<open>Slots\<close>

lemma inv_with_contexts:
  assumes "inv_with L y" and "contexts_for M pc cs co" and "\<And>x fd. normal x \<Longrightarrow> x \<notin> M \<Longrightarrow> \<not> is_open x fd (kern y)"
  shows "inv_with M (y\<lparr>proc_context := pc, context_state := cs, context_owner_pid := co\<rparr>)"
  using assms by (simp add: inv_with_def sized_def)

lemma ctx_alloc_result:
  assumes "inv_with L y"
  shows "\<exists>c. 0 < unat c \<and> unat c < 10 \<and> context_state y ! unat c = CTX_PRELOADED_FREE
    \<and> ctx_alloc_preloaded_for_pid x y = Some (c, y\<lparr>context_state := (context_state y)[unat c := CTX_IN_USE],
        context_owner_pid := (context_owner_pid y)[unat c := x]\<rparr>)"
proof -
  note ctx = inv_withD(5) [OF assms]
  have len: "length (context_state y) = 10" using contexts_lengths [OF ctx] by simp
  obtain c where c: "0 < c" "c < 10" "context_state y ! c = CTX_PRELOADED_FREE" using contexts_room [OF ctx] by blast
  have "drop 1 (context_state y) ! (c - 1) \<in> set (drop 1 (context_state y))" using c len by (intro nth_mem) simp
  then have "CTX_PRELOADED_FREE \<in> set (drop 1 (context_state y))" using c len by simp
  then obtain d where d: "scan_table (\<lambda>st. st = CTX_PRELOADED_FREE) (drop 1 (context_state y)) 1 = Some d"
    using scan_table_None [of "\<lambda>st. st = CTX_PRELOADED_FREE"] by (metis option.exhaust)
  from scan_table_Some [OF d] len have "1 \<le> unat d \<and> unat d < 10 \<and> context_state y ! unat d = CTX_PRELOADED_FREE" by auto
  with d show ?thesis by (auto simp: ctx_alloc_preloaded_for_pid_def)
qed

lemma ctx_free_result:
  assumes "inv_with L y"
  shows "ctx_free_for_pid x y = (if x \<in> L
    then let c = unat (proc_context y ! unat x) in y\<lparr>context_state := (context_state y)[c := CTX_PRELOADED_FREE],
        context_owner_pid := (context_owner_pid y)[c := NO_PID]\<rparr>
    else y)"
proof -
  note ctx = inv_withD(5) [OF assms]
  let ?p = "\<lambda>(st, owner). owner = x \<and> st = CTX_IN_USE" and ?t = "drop 1 (zip (context_state y) (context_owner_pid y))"
  have len: "length (context_state y) = 10" "length (context_owner_pid y) = 10" using contexts_lengths [OF ctx] by simp_all
  show ?thesis
  proof (cases "scan_table ?p ?t 1")
    case None
    have "x \<notin> L"
    proof
      assume "x \<in> L"
      note x = contexts_owned [OF ctx this]
      let ?c = "unat (proc_context y ! unat x)"
      have "?t ! (?c - 1) \<in> set ?t" using x(2,3) len by (intro nth_mem) auto
      moreover have "?t ! (?c - 1) = (CTX_IN_USE, x)" using x len by simp
      ultimately show False using None [unfolded scan_table_None] by auto
    qed
    then show ?thesis using None by (simp add: ctx_free_for_pid_def)
  next
    case (Some c)
    from scan_table_Some [OF Some] len have "0 < unat c" "unat c < 10" "context_state y ! unat c = CTX_IN_USE"
      "context_owner_pid y ! unat c = x" by auto
    then show ?thesis using Some contexts_owner [OF ctx, of "unat c"] by (simp add: ctx_free_for_pid_def Let_def)
  qed
qed

text \<open>Clearing a slot whose descriptors are closed takes the process out of the table.\<close>

lemma clear_process_slot_inv:
  assumes "inv_with L y" and "normal x" and "\<And>fd. \<not> is_open x fd (kern y)"
  shows "inv_with (L - {x}) (clear_process_slot x y)" and "live_pids (clear_process_slot x y) = live_pids y - {x}"
proof -
  let ?y = "proc_clear_launch_state x (set_signal x 0 (clear_wait x y))"
  have i: "inv_with L ?y" using assms(1) by simp
  note ctx = inv_withD(5) [OF i]
  have no: "\<not> is_open z fd (kern ?y)" if "normal z" "z \<notin> L - {x}" for z fd
    using inv_withD(6) [OF assms(1) that(1), of fd] that(2) assms(3) by (auto simp: proc_clear_launch_state_def set_signal_def clear_wait_def)
  show "inv_with (L - {x}) (clear_process_slot x y)"
  proof (cases "x \<in> L")
    case True
    from inv_with_contexts [OF i contexts_release [OF ctx True refl, of NO_CONTEXT NO_PID] no] True
    show ?thesis unfolding clear_process_slot_def Let_def ctx_free_result [OF i]
      by (simp add: inv_with_def sized_def set_flags_def set_state_def)
  next
    case False
    from inv_with_contexts [OF i contexts_other [OF ctx False, of NO_CONTEXT]] no False
    show ?thesis unfolding clear_process_slot_def Let_def ctx_free_result [OF i]
      by (simp add: inv_with_def sized_def set_flags_def set_state_def)
  qed
  show "live_pids (clear_process_slot x y) = live_pids y - {x}"
    unfolding clear_process_slot_def Let_def ctx_free_result [OF i] Let_def
    using inv_withD(2) [OF assms(1)] assms(2)
    by (subst live_pids_set_state)
      (auto simp: live_pids_def set_flags_def proc_clear_launch_state_def set_signal_def clear_wait_def proc_clear_wait_def sched_wf_def)
qed


section \<open>Termination\<close>

lemma kern_of_updates [simp]:
  "kern (set_exit_code x v y) = kern y" "kern (clear_wait x y) = kern y" "kern (set_state x st y) = kern y"
  "kern (wake x y) = kern y" "kern (proc_clear_launch_state x y) = kern y"
  by (simp_all add: set_exit_code_def clear_wait_def set_state_def wake_def proc_clear_launch_state_def)

lemma system_inv_wake [simp]: "system_inv (wake x y) = system_inv y"
  by (simp add: system_inv_def)

lemma system_inv_console [simp]: "system_inv (y\<lparr>kern := (kern y)\<lparr>console_owner_pid := c\<rparr>\<rparr>) = system_inv y"
  by (simp add: system_inv_def)

lemma system_inv_fields [simp]:
  "system_inv (set_exit_code x v y) = system_inv y" "system_inv (clear_wait x y) = system_inv y"
  "system_inv (set_signal x v y) = system_inv y" "system_inv (set_flags x v y) = system_inv y"
  "system_inv (y\<lparr>proc_gate := g\<rparr>) = system_inv y" "system_inv (y\<lparr>file_gate := g\<rparr>) = system_inv y"
  "system_inv (y\<lparr>tmr := t\<rparr>) = system_inv y"
  by (simp_all add: system_inv_def)

lemma system_inv_set_state:
  "system_inv y \<Longrightarrow> x \<in> live_pids y \<Longrightarrow> st \<noteq> PROC_EMPTY \<Longrightarrow> system_inv (set_state x st y)"
  by (auto simp: system_inv_def live_pids_set_state inv_withD(2) inv_with_normal insert_absorb)

text \<open>A routine that puts no process into an empty slot and empties none.\<close>

lemma system_inv_sched:
  assumes "system_inv y" and "sched_wf s" and "\<And>z. normal z \<Longrightarrow> (proc_states s ! unat z = PROC_EMPTY) = (state_of y z = PROC_EMPTY)"
  shows "system_inv (y\<lparr>sch := s\<rparr>)"
proof -
  have "live_pids (y\<lparr>sch := s\<rparr>) = live_pids y" using assms(3) by (auto simp: live_pids_def)
  then show ?thesis using assms(1,2) by (simp add: system_inv_def inv_with_sched)
qed

lemma normal_guard: "normal x \<Longrightarrow> \<not> (x = IDLE_PID \<or> x \<ge> MAX_PROCS)"
  by (simp add: normalD not_le)

lemma normal_iff_guard: "normal x \<longleftrightarrow> \<not> (x = IDLE_PID \<or> x \<ge> MAX_PROCS)"
  using unat_eq_zero [of x] by (auto simp: normal_unat word_le_nat_alt)

lemma close_process_inv:
  assumes "inv_with L y" and "normal x" and "fd_close_process rp ap x (kern y) = Some (r, k)"
  shows "r = Inr ()" and "inv_with L (y\<lparr>kern := k\<rparr>)" and "\<not> is_open x fd k" and "fd_op {x} (kern y) k"
proof -
  note i = inv_withD [OF assms(1)]
  show op: "fd_op {x} (kern y) k" by (rule fd_close_process_op [OF assms(3) i(3,4)])
  have all: "r = Inr () \<and> (\<forall>fd. \<not> is_open x fd k)" by (rule fd_close_process_all [OF assms(3) i(3,4) normalD(1) [OF assms(2)]])
  then show "r = Inr ()" and "\<not> is_open x fd k" by simp_all
  show "inv_with L (y\<lparr>kern := k\<rparr>)" by (rule inv_with_kern [OF assms(1) op]) (use all in simp)
qed

lemma proc_terminate_result:
  assumes "proc_terminate rp ap x code y = Some y'" and "inv_with L y" and "normal x" and "\<not> owns_file_gate ap y"
  obtains k where "fd_op {x} (kern y) k" and "\<And>fd. \<not> is_open x fd k"
    and "y' = clear_process_slot x (set_exit_code x code (y\<lparr>kern := k\<rparr>))"
    and "inv_with (L - {x}) y'" and "live_pids y' = live_pids y - {x}"
proof -
  have ow: "\<not> owns_file_gate ap (set_exit_code x code y)" using assms(4) by (simp add: owns_file_gate_def set_exit_code_def)
  obtain r k where k: "fd_close_process rp ap x (kern y) = Some (r, k)"
    and y': "y' = clear_process_slot x ((set_exit_code x code y)\<lparr>kern := k\<rparr>)"
    using assms(1) ow normal_guard [OF assms(3)] by (auto simp: proc_terminate_def Let_def bind_eq_Some_conv)
  have eq: "(set_exit_code x code y)\<lparr>kern := k\<rparr> = set_exit_code x code (y\<lparr>kern := k\<rparr>)" by (simp add: set_exit_code_def)
  note c = close_process_inv [OF assms(2,3) k]
  have i: "inv_with L (set_exit_code x code (y\<lparr>kern := k\<rparr>))" using c(2) by simp
  have no: "\<not> is_open x fd (kern (set_exit_code x code (y\<lparr>kern := k\<rparr>)))" for fd using c(3) by simp
  show thesis
    by (rule that [OF c(4,3) y' [unfolded eq]])
      (simp_all add: y' eq clear_process_slot_inv [OF i assms(3) no])
qed

lemma proc_terminate_inv:
  assumes "proc_terminate rp ap x code y = Some y'" and "system_inv y"
  shows "system_inv y'"
proof (cases "normal x \<and> \<not> owns_file_gate ap y")
  case True
  then obtain k where "inv_with (live_pids y - {x}) y'" "live_pids y' = live_pids y - {x}"
    using proc_terminate_result [OF assms(1) assms(2) [unfolded system_inv_def]] by blast
  then show ?thesis by (simp add: system_inv_def)
next
  case False
  then have "y' = y \<or> y' = set_exit_code x code y"
    using assms(1) by (auto simp: proc_terminate_def Let_def normal_iff_guard owns_file_gate_def set_exit_code_def split: if_splits)
  then show ?thesis using assms(2) by auto
qed

lemma wake_waiting_parent_inv [simp]: "system_inv (wake_waiting_parent x y) = system_inv y"
  by (simp add: wake_waiting_parent_def Let_def)

lemma console_pass_inv [simp]: "system_inv (console_pass p q y) = system_inv y"
  by (simp add: console_pass_def scheduler_wake_console_owner_def Let_def)

lemma proc_exit_lifecycle_inv:
  assumes "proc_exit_lifecycle rp ap x code y = Some y'" and "system_inv y" and "x \<in> live_pids y"
  shows "system_inv y'"
proof -
  have n: "normal x" using assms(3) by (simp add: live_pids_def)
  consider "proc_terminate rp ap x code (set_exit_code x code y) = Some y'"
    | r k where "fd_close_process rp ap x (kern y) = Some (r, k)"
      "(case r of Inl e \<Rightarrow> proc_terminate rp ap x code ((set_exit_code x code y)\<lparr>kern := k\<rparr>)
        | Inr _ \<Rightarrow> Some (wake_waiting_parent x (set_state x PROC_ZOMBIE (set_signal x 0 (clear_wait x
            ((set_exit_code x code y)\<lparr>kern := k\<rparr>)))))) = Some y'"
    using assms(1) normal_guard [OF n] by (auto simp: proc_exit_lifecycle_def Let_def bind_eq_Some_conv split: if_splits)
  then show ?thesis
  proof cases
    case 1
    then show ?thesis by (rule proc_terminate_inv) (use assms(2) in simp)
  next
    case 2
    note c = close_process_inv [OF _ n 2(1), of "live_pids y"]
    let ?y = "set_signal x 0 (clear_wait x ((set_exit_code x code y)\<lparr>kern := k\<rparr>))"
    have eq: "(set_exit_code x code y)\<lparr>kern := k\<rparr> = set_exit_code x code (y\<lparr>kern := k\<rparr>)" by (simp add: set_exit_code_def)
    have i: "system_inv ?y" "x \<in> live_pids ?y" using c assms(2,3) by (simp_all add: system_inv_def eq)
    have "system_inv (set_state x PROC_ZOMBIE ?y)" by (rule system_inv_set_state [OF i]) simp
    moreover have "r = Inr ()" using c(1) assms(2) by (simp add: system_inv_def)
    ultimately show ?thesis using 2(2) by auto
  qed
qed


section \<open>The gate\<close>

text \<open>The three ways of a pass. A release wakes at most one process.\<close>

lemma with_proc_gate_cases:
  assumes "with_proc_gate ap busy f y = Some (res, y')"
  obtains (Recursive) g where "res = Proc_Finished busy" and "y' = y\<lparr>proc_gate := g\<rparr>"
  | (Waiting) g where "res = Proc_Blocked" and "y' = y\<lparr>proc_gate := g, sch := proc_set_wait ap WAIT_LOCK LOCK_ID_PROC (sch y)\<rparr>"
  | (Acquired) g y1 g' where "gate_byte (proc_gate y) AND 1 = 0" and "gate_owner g = ap" and "f (y\<lparr>proc_gate := g\<rparr>) = Some (res, y1)"
      and "y' = y1\<lparr>proc_gate := g'\<rparr> \<or> (\<exists>x. y' = wake x (y1\<lparr>proc_gate := g'\<rparr>))"
proof -
  obtain r g s where acq: "gate_acquire LOCK_ID_PROC ap (proc_gate y, sch y) = (r, g, s)" by (metis prod_cases3)
  then have rs: "r = Acquired \<and> s = sch y \<and> gate_owner g = ap \<and> gate_byte (proc_gate y) AND 1 = 0 \<or> r = Recursive \<and> s = sch y
      \<or> r = Waiting \<and> s = proc_set_wait ap WAIT_LOCK LOCK_ID_PROC (sch y)"
    by (auto simp: gate_acquire_def Let_def split: if_splits)
  show thesis
  proof (cases r)
    case 1: Acquired
    have y: "y\<lparr>proc_gate := g, sch := s\<rparr> = y\<lparr>proc_gate := g\<rparr>" using rs 1 by simp
    obtain y1 where f: "f (y\<lparr>proc_gate := g\<rparr>) = Some (res, y1)"
      and y': "y' = (case gate_release ap (proc_gate y1, sch y1) of (_, g, s) \<Rightarrow> y1\<lparr>proc_gate := g, sch := s\<rparr>)"
      using assms acq 1 y by (auto simp: with_proc_gate_def bind_eq_Some_conv case_prod_beta)
    obtain b g' s' where rel: "gate_release ap (proc_gate y1, sch y1) = (b, g', s')" by (metis prod_cases3)
    then have "s' = sch y1 \<or> (\<exists>x. s' = proc_wake x (sch y1))"
      by (auto simp: gate_release_def Let_def split: if_splits option.splits)
    then have "y' = y1\<lparr>proc_gate := g'\<rparr> \<or> (\<exists>x. y' = wake x (y1\<lparr>proc_gate := g'\<rparr>))"
      using y' rel by (auto simp: wake_def)
    then show thesis using Acquired rs 1 f by blast
  next
    case 2: Recursive
    then show thesis using assms acq rs Recursive [of g] by (simp add: with_proc_gate_def)
  next
    case 3: Waiting
    then show thesis using assms acq rs Waiting [of g] by (simp add: with_proc_gate_def)
  qed
qed

lemma system_inv_set_wait:
  assumes "system_inv y" and "ap \<in> live_pids y"
  shows "system_inv (y\<lparr>sch := proc_set_wait ap r ob (sch y)\<rparr>)"
proof (rule system_inv_sched [OF assms(1)])
  have wf: "sched_wf (sch y)" using assms(1) inv_withD(2) by (auto simp: system_inv_def)
  then show "sched_wf (proc_set_wait ap r ob (sch y))" by simp
  show "(proc_states (proc_set_wait ap r ob (sch y)) ! unat z = PROC_EMPTY) = (state_of y z = PROC_EMPTY)" if "normal z" for z
    using assms(2) wf
    by (auto simp: live_pids_def proc_set_wait_def proc_set_state_def nth_list_update sched_wf_def normal_unat word_unat_eq_iff)
qed

lemma with_proc_gate_inv:
  assumes "with_proc_gate ap busy f y = Some (res, y')" and "system_inv y" and "ap \<in> live_pids y"
    and "\<And>y res y'. f y = Some (res, y') \<Longrightarrow> system_inv y \<Longrightarrow> ap \<in> live_pids y \<Longrightarrow> system_inv y'"
  shows "system_inv y'"
  using assms(1)
proof (cases rule: with_proc_gate_cases)
  case (Recursive g)
  then show ?thesis using assms(2) by simp
next
  case (Waiting g)
  then show ?thesis using system_inv_set_wait [of "y\<lparr>proc_gate := g\<rparr>" ap] assms(2,3) by simp
next
  case (Acquired g y1 g')
  have "system_inv y1" by (rule assms(4) [OF Acquired(3)]) (use assms(2,3) in simp_all)
  then show ?thesis using Acquired(4) by auto
qed

section \<open>Waiting\<close>

lemma reap_waited_inv:
  "proc_reap_waited_child rp ap x y = Some (res, y') \<Longrightarrow> system_inv y \<Longrightarrow> system_inv y'"
  by (auto simp: proc_reap_waited_child_def Let_def bind_eq_Some_conv split: if_splits dest: proc_terminate_inv)

lemma waitpid_locked_inv:
  "waitpid_locked rp ap x y = Some (res, y') \<Longrightarrow> system_inv y \<Longrightarrow> ap \<in> live_pids y \<Longrightarrow> system_inv y'"
  by (auto simp: waitpid_locked_def bind_eq_Some_conv system_inv_set_wait split: if_splits option.splits)
    (erule (1) reap_waited_inv)+


section \<open>Creation\<close>

text \<open>
  What the kernel keeps of a process beside its scheduling state and its descriptors, and
  that a routine works on one process only.
\<close>

definition proc_view :: "neox_pid_t \<Rightarrow> 'r system \<Rightarrow> neox_pid_t \<times> byte \<times> 16 word \<times> byte \<times> byte \<times> byte \<times> byte list \<times> byte \<times> byte" where
  "proc_view z y = (let i = unat z in (proc_parent_pid y ! i, proc_context y ! i, proc_entry y ! i, proc_exit_code y ! i,
     proc_launch_id y ! i, proc_launch_line_len y ! i, proc_launch_line y ! i,
     proc_flags (kern y) ! i, proc_signal_pending (kern y) ! i))"

definition sched_view :: "neox_pid_t \<Rightarrow> sched \<Rightarrow> byte \<times> byte \<times> byte" where
  "sched_view z s = (proc_states s ! unat z, wait_reasons s ! unat z, wait_objects s ! unat z)"

definition only :: "neox_pid_t \<Rightarrow> 'r system \<Rightarrow> 'r system \<Rightarrow> bool" where
  "only x y y' \<longleftrightarrow> (\<forall>z. z < MAX_PROCS \<longrightarrow> z \<noteq> x \<longrightarrow> proc_view z y' = proc_view z y
       \<and> sched_view z (sch y') = sched_view z (sch y) \<and> same_view z (kern y) (kern y'))
     \<and> proc_gate y' = proc_gate y \<and> file_gate y' = file_gate y \<and> tmr y' = tmr y"

lemma only_refl [simp]: "only x y y"
  by (simp add: only_def)

lemma only_trans [trans]: "only x y y' \<Longrightarrow> only x y' y'' \<Longrightarrow> only x y y''"
  by (auto simp: only_def intro: same_view_trans)

lemma same_view_flags [simp]: "same_view z k (k'\<lparr>proc_flags := f\<rparr>) = same_view z k k'"
  by (simp add: same_view_def)

lemma sched_view_updates [simp]:
  "z \<noteq> x \<Longrightarrow> sched_view z (proc_set_state x st s) = sched_view z s" "z \<noteq> x \<Longrightarrow> sched_view z (proc_clear_wait x s) = sched_view z s"
  "z \<noteq> x \<Longrightarrow> sched_view z (proc_set_wait x r ob s) = sched_view z s" "z \<noteq> x \<Longrightarrow> sched_view z (proc_wake x s) = sched_view z s"
  by (simp_all add: sched_view_def proc_set_state_def proc_clear_wait_def proc_set_wait_def proc_wake_def word_unat_eq_iff)

lemma proc_view_updates [simp]:
  "proc_view z (set_state x st y) = proc_view z y" "proc_view z (clear_wait x y) = proc_view z y"
  "proc_view z (wake x y) = proc_view z y" "z \<noteq> x \<Longrightarrow> proc_view z (set_signal x v y) = proc_view z y"
  "z \<noteq> x \<Longrightarrow> proc_view z (set_flags x v y) = proc_view z y" "z \<noteq> x \<Longrightarrow> proc_view z (set_exit_code x v y) = proc_view z y"
  "z \<noteq> x \<Longrightarrow> proc_view z (proc_clear_launch_state x y) = proc_view z y"
  "z \<noteq> x \<Longrightarrow> proc_view z (spawn_set_launch x sel line y) = proc_view z y"
  "z \<noteq> x \<Longrightarrow> proc_view z (y\<lparr>proc_parent_pid := (proc_parent_pid y)[unat x := p], proc_context := (proc_context y)[unat x := c],
     proc_entry := (proc_entry y)[unat x := en]\<rparr>) = proc_view z y"
  "proc_view z (y\<lparr>context_state := cs\<rparr>) = proc_view z y" "proc_view z (y\<lparr>context_owner_pid := co\<rparr>) = proc_view z y"
  by (simp_all add: proc_view_def Let_def set_state_def clear_wait_def wake_def set_signal_def set_flags_def set_exit_code_def
      proc_clear_launch_state_def spawn_set_launch_def word_unat_eq_iff)

lemma field_updates [simp]:
  "sch (set_signal x v y) = sch y" "sch (set_flags x v y) = sch y" "sch (set_exit_code x v y) = sch y"
  "sch (proc_clear_launch_state x y) = sch y" "sch (spawn_set_launch x sel line y) = sch y"
  "sch (set_state x st y) = proc_set_state x st (sch y)" "sch (clear_wait x y) = proc_clear_wait x (sch y)"
  "sch (wake x y) = proc_wake x (sch y)" "kern (spawn_set_launch x sel line y) = kern y"
  "kern (set_signal x v y) = (kern y)\<lparr>proc_signal_pending := (proc_signal_pending (kern y))[unat x := v]\<rparr>"
  "kern (set_flags x v y) = (kern y)\<lparr>proc_flags := (proc_flags (kern y))[unat x := v]\<rparr>"
  by (simp_all add: set_state_def clear_wait_def wake_def set_signal_def set_flags_def set_exit_code_def
      proc_clear_launch_state_def spawn_set_launch_def)

lemma gate_updates [simp]:
  "proc_gate (set_state x st y) = proc_gate y" "file_gate (set_state x st y) = file_gate y" "tmr (set_state x st y) = tmr y"
  "proc_gate (clear_wait x y) = proc_gate y" "file_gate (clear_wait x y) = file_gate y" "tmr (clear_wait x y) = tmr y"
  "proc_gate (set_signal x v y) = proc_gate y" "file_gate (set_signal x v y) = file_gate y" "tmr (set_signal x v y) = tmr y"
  "proc_gate (set_flags x v y) = proc_gate y" "file_gate (set_flags x v y) = file_gate y" "tmr (set_flags x v y) = tmr y"
  "proc_gate (set_exit_code x v y) = proc_gate y" "file_gate (set_exit_code x v y) = file_gate y" "tmr (set_exit_code x v y) = tmr y"
  "proc_gate (proc_clear_launch_state x y) = proc_gate y" "file_gate (proc_clear_launch_state x y) = file_gate y"
  "tmr (proc_clear_launch_state x y) = tmr y" "proc_gate (spawn_set_launch x sel line y) = proc_gate y"
  "file_gate (spawn_set_launch x sel line y) = file_gate y" "tmr (spawn_set_launch x sel line y) = tmr y"
  by (simp_all add: set_state_def clear_wait_def set_signal_def set_flags_def set_exit_code_def
      proc_clear_launch_state_def spawn_set_launch_def)

lemma only_updates [simp]:
  "only x y (set_state x st y') = only x y y'" "only x y (clear_wait x y') = only x y y'"
  "only x y (set_signal x v y') = only x y y'" "only x y (set_flags x v y') = only x y y'"
  "only x y (set_exit_code x v y') = only x y y'" "only x y (proc_clear_launch_state x y') = only x y y'"
  "only x y (spawn_set_launch x sel line y') = only x y y'"
  "only x y (y'\<lparr>proc_parent_pid := (proc_parent_pid y')[unat x := p], proc_context := (proc_context y')[unat x := c],
     proc_entry := (proc_entry y')[unat x := en]\<rparr>) = only x y y'"
  "only x y (y'\<lparr>context_state := cs\<rparr>) = only x y y'" "only x y (y'\<lparr>context_owner_pid := co\<rparr>) = only x y y'"
  by (simp_all add: only_def cong: conj_cong)

lemma only_kern: "only x y y' \<Longrightarrow> fd_op {x} (kern y') k \<Longrightarrow> only x y (y'\<lparr>kern := k\<rparr>)"
  by (auto simp: only_def fd_op_def within_def same_control_def proc_view_def Let_def intro: same_view_trans)

lemma only_ctx_free [simp]: "only x y (ctx_free_for_pid z y') = only x y y'"
  by (simp add: ctx_free_for_pid_def split: option.split)

lemma only_clear_process_slot [simp]: "only x y (clear_process_slot x y') = only x y y'"
  by (simp add: clear_process_slot_def Let_def)

lemma proc_find_free_pid_result:
  assumes "sched_wf (sch y)"
  shows "case proc_find_free_pid y of None \<Rightarrow> \<forall>x. normal x \<longrightarrow> x \<in> live_pids y | Some x \<Rightarrow> normal x \<and> x \<notin> live_pids y"
proof (cases "proc_find_free_pid y")
  case None
  then have all: "\<forall>st \<in> set (drop 1 (proc_states (sch y))). st \<noteq> PROC_EMPTY"
    by (simp add: proc_find_free_pid_def scan_table_None)
  have "state_of y x \<noteq> PROC_EMPTY" if "normal x" for x
  proof -
    have "drop 1 (proc_states (sch y)) ! (unat x - 1) \<in> set (drop 1 (proc_states (sch y)))"
      using that assms by (intro nth_mem) (auto simp: sched_wf_def normal_unat)
    then show ?thesis using all that assms by (auto simp: sched_wf_def normal_unat)
  qed
  then show ?thesis using None by (simp add: live_pids_def)
next
  case (Some x)
  then have "scan_table (\<lambda>st. st = PROC_EMPTY) (drop 1 (proc_states (sch y))) 1 = Some x" by (simp add: proc_find_free_pid_def)
  from scan_table_Some [OF this] assms have "1 \<le> unat x \<and> unat x < 8 \<and> state_of y x = PROC_EMPTY"
    by (auto simp: sched_wf_def)
  then show ?thesis using Some by (simp add: live_pids_def normal_unat)
qed

lemma fold_clear_fields:
  "same_control k (fold (\<lambda>fd. set_slot_obj (fd_slot task fd) FD_NONE 0) fds k)
   \<and> devices_bound (fold (\<lambda>fd. set_slot_obj (fd_slot task fd) FD_NONE 0) fds k) = devices_bound k
   \<and> (\<forall>i. i \<notin> fd_slot task ` set fds \<longrightarrow>
        proc_fd_flags (fold (\<lambda>fd. set_slot_obj (fd_slot task fd) FD_NONE 0) fds k) ! i = proc_fd_flags k ! i)"
proof (induction fds arbitrary: k)
  case (Cons fd fds)
  have "same_control k (set_slot_obj (fd_slot task fd) FD_NONE 0 k)" by simp
  from same_control_trans [OF this] Cons.IH [of "set_slot_obj (fd_slot task fd) FD_NONE 0 k"] show ?case by simp
qed simp

lemma fd_clear_process_slots_op:
  assumes "kernel_inv k" and "devices_bound k" and p: "x < MAX_PROCS" and "\<And>fd. \<not> is_open x fd k"
  shows "\<exists>k'. fd_clear_process_slots x k = (Inr (), k') \<and> fd_op {x} k k' \<and> (\<forall>fd. \<not> is_open x fd k') \<and> opens k' = opens k"
proof -
  define k' where "k' = fold (\<lambda>fd. set_slot_obj (fd_slot x fd) FD_NONE 0) [0, 1, 2, 3, 4, 5] k"
  have free: "proc_fd_obj k ! fd_slot x fd = FD_NONE" if "fd \<in> set [0, 1, 2, 3, 4, 5]" for fd
    using assms(4) [of fd] p that by (auto simp: is_open_def)
  have c: "kernel_inv k' \<and> proc_fd_obj k' = proc_fd_obj k \<and> opens k' = opens k"
    unfolding k'_def by (rule clear_free_slots [OF assms(1) free])
  have f: "same_control k k' \<and> devices_bound k' = devices_bound k
    \<and> (\<forall>i. i \<notin> fd_slot x ` set [0, 1, 2, 3, 4, 5] \<longrightarrow> proc_fd_flags k' ! i = proc_fd_flags k ! i)"
    unfolding k'_def by (rule fold_clear_fields)
  have "same_view z k k'" if "z < MAX_PROCS" "z \<noteq> x" for z
  proof -
    have "i \<notin> fd_slot x ` set [0, 1, 2, 3, 4, 5]" if "i \<in> row_slots z" for i
      using that other_row [of _ z x] \<open>z \<noteq> x\<close> by auto
    then show ?thesis unfolding same_view_def using c f by simp
  qed
  then have "fd_op {x} k k'" using c f assms(2) by (simp add: fd_op_def within_def)
  moreover have "\<not> is_open x fd k'" for fd using c assms(4) [of fd] by (simp add: is_open_def)
  moreover have "fd_clear_process_slots x k = (Inr (), k')" using p by (simp add: fd_clear_process_slots_def not_le k'_def)
  moreover have "opens k' = opens k" using c by simp
  ultimately show ?thesis by blast
qed


lemma only_init_slot [simp]: "only x y (proc_init_slot x c p en y') = only x y y'"
  by (simp add: proc_init_slot_def Let_def)

lemma init_slot_fields [simp]:
  "sch (proc_init_slot x c p en y) = proc_clear_wait x (sch y)" "file_gate (proc_init_slot x c p en y) = file_gate y"
  "context_state (proc_init_slot x c p en y) = context_state y"
  "context_owner_pid (proc_init_slot x c p en y) = context_owner_pid y"
  "proc_context (proc_init_slot x c p en y) = (proc_context y)[unat x := c]"
  "proc_parent_pid (proc_init_slot x c p en y) = (proc_parent_pid y)[unat x := p]"
  "proc_entry (proc_init_slot x c p en y) = (proc_entry y)[unat x := en]"
  "proc_exit_code (proc_init_slot x c p en y) = (proc_exit_code y)[unat x := EXIT_OK]"
  "kern (proc_init_slot x c p en y) = (kern y)\<lparr>proc_flags := (proc_flags (kern y))[unat x := 0],
     proc_signal_pending := (proc_signal_pending (kern y))[unat x := 0]\<rparr>"
  by (simp_all add: proc_init_slot_def Let_def set_flags_def proc_clear_launch_state_def set_exit_code_def set_signal_def clear_wait_def)

lemma sized_init_slot [simp]: "sized (proc_init_slot x c p en y) = sized y"
  by (simp add: sized_def) (simp add: proc_init_slot_def Let_def set_flags_def proc_clear_launch_state_def set_exit_code_def
      set_signal_def clear_wait_def)

text \<open>The slot with its context, before it is published.\<close>

lemma init_slot_inv:
  assumes "inv_with L y" and "normal x" and "x \<notin> L" and "0 < unat c" and "unat c < 10" and "context_state y ! unat c = CTX_PRELOADED_FREE"
  shows "inv_with (insert x L) (proc_init_slot x c p en
    (y\<lparr>context_state := (context_state y)[unat c := CTX_IN_USE], context_owner_pid := (context_owner_pid y)[unat c := x]\<rparr>))"
proof -
  note i = inv_withD [OF assms(1)]
  have "contexts_for (insert x L) ((proc_context y)[unat x := c]) ((context_state y)[unat c := CTX_IN_USE]) ((context_owner_pid y)[unat c := x])"
    by (rule contexts_alloc [OF i(5) assms(3,2,4-6)])
  moreover have "sized (y\<lparr>context_state := cs, context_owner_pid := co\<rparr>)" for cs co using i(1) by (simp add: sized_def)
  ultimately show ?thesis using i by (simp add: inv_with_def)
qed

lemma ctx_free_inv:
  assumes "inv_with L y" and "x \<in> L" and "\<And>fd. \<not> is_open x fd (kern y)"
  shows "inv_with (L - {x}) (ctx_free_for_pid x y)"
proof -
  let ?c = "unat (proc_context y ! unat x)"
  have "contexts_for (L - {x}) (proc_context y) ((context_state y)[?c := CTX_PRELOADED_FREE]) ((context_owner_pid y)[?c := NO_PID])"
    using contexts_release [OF inv_withD(5) [OF assms(1)] assms(2) refl, of "proc_context y ! unat x" NO_PID] by simp
  moreover have "\<not> is_open z fd (kern y)" if "normal z" "z \<notin> L - {x}" for z fd
    using that inv_withD(6) [OF assms(1), of z] assms(3) by (cases "z = x") simp_all
  ultimately have "inv_with (L - {x}) (y\<lparr>proc_context := proc_context y, context_state := (context_state y)[?c := CTX_PRELOADED_FREE],
      context_owner_pid := (context_owner_pid y)[?c := NO_PID]\<rparr>)"
    by (rule inv_with_contexts [OF assms(1)])
  then show ?thesis using assms(2) by (simp add: ctx_free_result [OF assms(1)] Let_def)
qed

text \<open>The process that is being created has its context and nothing else.\<close>

definition prepared :: "neox_pid_t \<Rightarrow> neox_pid_t \<Rightarrow> 16 word \<Rightarrow> 'r system \<Rightarrow> 'r system \<Rightarrow> bool" where
  "prepared x parent entry y y' \<longleftrightarrow> inv_with (insert x (live_pids y)) y' \<and> only x y y' \<and> sch y' = proc_clear_wait x (sch y)
     \<and> proc_parent_pid y' ! unat x = parent \<and> proc_entry y' ! unat x = entry \<and> proc_exit_code y' ! unat x = EXIT_OK
     \<and> proc_signal_pending (kern y') ! unat x = 0 \<and> console_owner_pid (kern y') = console_owner_pid (kern y)
     \<and> (\<forall>fd. \<not> is_open x fd (kern y'))"

lemma proc_alloc_result:
  assumes "system_inv y"
  shows "case proc_find_free_pid y of
      None \<Rightarrow> proc_alloc_preloaded_common False ap p en y = (None, y)
    | Some x \<Rightarrow> \<exists>y'. if owns_file_gate ap y
        then proc_alloc_preloaded_common False ap p en y = (None, y') \<and> inv_with (live_pids y) y' \<and> only x y y'
          \<and> sch y' = proc_clear_wait x (sch y) \<and> console_owner_pid (kern y') = console_owner_pid (kern y)
        else proc_alloc_preloaded_common False ap p en y = (Some x, y') \<and> prepared x p en y y'"
proof (cases "proc_find_free_pid y")
  case None
  then show ?thesis by (simp add: proc_alloc_preloaded_common_def)
next
  case (Some x)
  have i: "inv_with (live_pids y) y" using assms by (simp add: system_inv_def)
  have x: "normal x" "x \<notin> live_pids y" using proc_find_free_pid_result [OF inv_withD(2) [OF i]] Some by simp_all
  obtain c where c: "0 < unat c" "unat c < 10" "context_state y ! unat c = CTX_PRELOADED_FREE"
    and al: "ctx_alloc_preloaded_for_pid x y = Some (c, y\<lparr>context_state := (context_state y)[unat c := CTX_IN_USE],
      context_owner_pid := (context_owner_pid y)[unat c := x]\<rparr>)"
    using ctx_alloc_result [OF i] by blast
  define y1 where "y1 = proc_init_slot x c p en (y\<lparr>context_state := (context_state y)[unat c := CTX_IN_USE],
      context_owner_pid := (context_owner_pid y)[unat c := x]\<rparr>)"
  have i1: "inv_with (insert x (live_pids y)) y1" unfolding y1_def by (rule init_slot_inv [OF i x c])
  have o1: "only x y y1" "sch y1 = proc_clear_wait x (sch y)" "file_gate y1 = file_gate y" by (simp_all add: y1_def)
  have ow: "owns_file_gate ap y1 = owns_file_gate ap y" using o1(3) by (simp add: owns_file_gate_def)
  have no: "\<not> is_open x fd (kern y1)" for fd using inv_withD(6) [OF i x] by (simp add: y1_def)
  show ?thesis
  proof (cases "owns_file_gate ap y")
    case True
    have "inv_with (live_pids y) (ctx_free_for_pid x y1)" using ctx_free_inv [OF i1 _ no] x(2) by simp
    moreover have "only x y (ctx_free_for_pid x y1)" using o1 by simp
    moreover have "sch (ctx_free_for_pid x y1) = proc_clear_wait x (sch y)"
      "console_owner_pid (kern (ctx_free_for_pid x y1)) = console_owner_pid (kern y)"
      using o1 by (simp_all add: ctx_free_result [OF i1] Let_def) (simp add: y1_def)
    ultimately show ?thesis
      using Some al True ow by (simp add: proc_alloc_preloaded_common_def Let_def flip: y1_def)
  next
    case False
    obtain k where k: "fd_clear_process_slots x (kern y1) = (Inr (), k)" "fd_op {x} (kern y1) k" "\<forall>fd. \<not> is_open x fd k"
      using fd_clear_process_slots_op [OF inv_withD(3,4) [OF i1] normalD(1) [OF x(1)] no] by blast
    have "inv_with (insert x (live_pids y)) (y1\<lparr>kern := k\<rparr>)" by (rule inv_with_kern [OF i1 k(2)]) simp
    moreover have "only x y (y1\<lparr>kern := k\<rparr>)" by (rule only_kern [OF o1(1) k(2)])
    ultimately have "prepared x p en y (y1\<lparr>kern := k\<rparr>)"
      using o1 k x(1) fd_opD(4) [OF k(2)] inv_withD(1) [OF i]
      by (simp add: prepared_def same_control_def) (simp add: y1_def sized_def normal_unat)
    then show ?thesis
      using Some al False ow k(1) by (simp add: proc_alloc_preloaded_common_def Let_def flip: y1_def)
  qed
qed


end
