(* ===== verification/Kernel_Spawn.thy ===== *)
theory Kernel_Spawn
  imports Kernel_Proc_Inv
begin

text \<open>
  Spawning: a call either publishes a child that has the descriptors, the launch line and the
  flags it was given, or leaves no trace in the process table; in both cases every process
  that existed before keeps what it had.
\<close>

section \<open>Descriptors of the child\<close>

lemma fd_clone_to_free:
  assumes "fd_clone_between rp ap ap fd x t k = Some (r, k')" and "ap < MAX_PROCS" and "x < MAX_PROCS" and "t < MAX_FDS"
    and "ap \<noteq> x" and "\<not> is_open x t k"
  shows "if is_open ap fd k then r = Inr () \<and> k' = fd_attach x t (proc_fd_obj k ! fd_slot ap fd) (proc_fd_flags k ! fd_slot ap fd) k
    else r = Inl EBADF \<and> k' = k"
proof -
  have c: "fd_close_pid rp ap x t k = Some (Inl EBADF, k)"
    using fd_close_pid_closed [OF assms(6), of rp ap] assms(3) by (simp add: not_le)
  show ?thesis
    using assms(1-5) c by (auto simp: fd_clone_between_def is_open_def Let_def not_le [symmetric] split: if_splits)
qed

text \<open>What the child gets for one mapped descriptor.\<close>

definition mapped_obj :: "neox_pid_t \<Rightarrow> neox_fd_t \<Rightarrow> 'r kernel \<Rightarrow> byte" where
  "mapped_obj ap fd k = (if fd = SPAWN_FD_CLOSED then FD_NONE else proc_fd_obj k ! fd_slot ap fd)"

definition mapped_flags :: "neox_pid_t \<Rightarrow> neox_fd_t \<Rightarrow> neox_pid_t \<Rightarrow> neox_fd_t \<Rightarrow> 'r kernel \<Rightarrow> byte" where
  "mapped_flags ap fd x t k = (if fd = SPAWN_FD_CLOSED then proc_fd_flags k ! fd_slot x t else proc_fd_flags k ! fd_slot ap fd)"

definition mappable :: "neox_pid_t \<Rightarrow> neox_fd_t \<Rightarrow> 'r kernel \<Rightarrow> bool" where
  "mappable ap fd k \<longleftrightarrow> fd = SPAWN_FD_CLOSED \<or> is_open ap fd k"

lemma spawn_clone_result:
  assumes "spawn_clone_mapped_fd_locked rp ap x fd t k = Some (r, k')" and "kernel_inv k" and "devices_bound k"
    and "ap < MAX_PROCS" and "x < MAX_PROCS" and "t < MAX_FDS" and "ap \<noteq> x" and "\<not> is_open x t k"
  shows "fd_op {x} k k'" and "r = (if mappable ap fd k then Inr () else Inl EBADF)"
    and "mappable ap fd k \<Longrightarrow> proc_fd_obj k' = (proc_fd_obj k)[fd_slot x t := mapped_obj ap fd k]"
    and "mappable ap fd k \<Longrightarrow> proc_fd_flags k' = (proc_fd_flags k)[fd_slot x t := mapped_flags ap fd x t k]"
    and "\<not> mappable ap fd k \<Longrightarrow> k' = k"
proof -
  have none: "proc_fd_obj k ! fd_slot x t = FD_NONE" using assms(5,6,8) by (simp add: is_open_def)
  show "fd_op {x} k k'" using assms(1-3) by (auto simp: spawn_clone_mapped_fd_locked_def split: if_splits dest: fd_clone_between_op)
  have c: "if fd = SPAWN_FD_CLOSED then r = Inr () \<and> k' = k
    else if is_open ap fd k then r = Inr () \<and> k' = fd_attach x t (proc_fd_obj k ! fd_slot ap fd) (proc_fd_flags k ! fd_slot ap fd) k
    else r = Inl EBADF \<and> k' = k"
    using assms(1) fd_clone_to_free [OF _ assms(4-8)] by (auto simp: spawn_clone_mapped_fd_locked_def split: if_splits)
  then show "r = (if mappable ap fd k then Inr () else Inl EBADF)" by (auto simp: mappable_def split: if_splits)
  show "proc_fd_obj k' = (proc_fd_obj k)[fd_slot x t := mapped_obj ap fd k]" if "mappable ap fd k"
    using c that none by (auto simp: mappable_def mapped_obj_def list_update_same_conv split: if_splits) (metis list_update_id)
  show "proc_fd_flags k' = (proc_fd_flags k)[fd_slot x t := mapped_flags ap fd x t k]" if "mappable ap fd k"
    using c that by (auto simp: mappable_def mapped_flags_def split: if_splits)
  show "k' = k" if "\<not> mappable ap fd k" using c that by (auto simp: mappable_def split: if_splits)
qed

lemma mapped_other_row:
  assumes "proc_fd_obj k' = (proc_fd_obj k)[fd_slot x t := v]" and "proc_fd_flags k' = (proc_fd_flags k)[fd_slot x t := w]"
    and "ap \<noteq> x" and "t < MAX_FDS" and "spawn_validate_mapped_fd fd"
  shows "mapped_obj ap fd k' = mapped_obj ap fd k" and "mappable ap fd k' = mappable ap fd k"
    and "s < MAX_FDS \<Longrightarrow> s \<noteq> t \<Longrightarrow> mapped_flags ap fd x s k' = mapped_flags ap fd x s k"
    and "s < MAX_FDS \<Longrightarrow> s \<noteq> t \<Longrightarrow> is_open x s k' = is_open x s k"
  using assms fd_slot_inject [of fd t ap x] fd_slot_inject [of s t x x]
  by (auto simp: mapped_obj_def mappable_def mapped_flags_def is_open_def spawn_validate_mapped_fd_def)

lemma spawn_clone_fds_op:
  "spawn_clone_fds rp ap x l k = Some (r, k') \<Longrightarrow> kernel_inv k \<Longrightarrow> devices_bound k \<Longrightarrow> fd_op {x} k k'"
proof (induction l arbitrary: k)
  case (Cons a l)
  obtain t fd where a: "a = (t, fd)" by (cases a)
  obtain r1 k1 where c: "spawn_clone_mapped_fd_locked rp ap x fd t k = Some (r1, k1)"
    using Cons.prems(1) a by (auto simp: bind_eq_Some_conv)
  then have o1: "fd_op {x} k k1"
    using Cons.prems(2,3) by (auto simp: spawn_clone_mapped_fd_locked_def split: if_splits dest: fd_clone_between_op)
  have "k' = k1 \<or> spawn_clone_fds rp ap x l k1 = Some (r, k')" using Cons.prems(1) a c by (auto split: sum.splits)
  then show ?case using o1 Cons.IH [OF _ fd_opD(2,3) [OF o1]] by (auto intro: fd_op_trans)
qed simp

lemma spawn_attach_cases:
  assumes "spawn_attach rp ap x args k = Some (r, k')"
  obtains r1 k1 where "spawn_clone_fds rp ap x [(NEOX_STDIN_FD, stdin_fd args), (NEOX_STDOUT_FD, stdout_fd args),
      (NEOX_STDERR_FD, stderr_fd args)] k = Some (r1, k1)"
    and "case r1 of Inl e \<Rightarrow> r = Inl e \<and> k' = k1
      | Inr _ \<Rightarrow> \<exists>reply. rp_fs_exec rp ap (Fs_Cwd_Clone x) k1 = Some (reply, k')
          \<and> r = (if rp_failed reply then Inl (rp_err reply) else Inr ())"
proof -
  obtain r1 k1 where c: "spawn_clone_fds rp ap x [(NEOX_STDIN_FD, stdin_fd args), (NEOX_STDOUT_FD, stdout_fd args),
      (NEOX_STDERR_FD, stderr_fd args)] k = Some (r1, k1)"
    using assms by (auto simp: spawn_attach_def bind_eq_Some_conv simp del: spawn_clone_fds.simps)
  show thesis
    by (rule that [OF c]) (use assms c in \<open>cases r1; auto simp: spawn_attach_def bind_eq_Some_conv simp del: spawn_clone_fds.simps\<close>)
qed

lemma spawn_attach_op:
  assumes "spawn_attach rp ap x args k = Some (r, k')" and "kernel_inv k" and "devices_bound k"
  shows "fd_op {x} k k'"
  using assms(1)
proof (cases rule: spawn_attach_cases)
  case (1 r1 k1)
  note o1 = spawn_clone_fds_op [OF 1(1) assms(2,3)]
  show ?thesis using 1(2) o1 fd_op_trans [OF o1 fd_op_rp [OF _ fd_opD(2,3) [OF o1]]] by (cases r1) auto
qed

text \<open>
  The child's descriptors share the objects of the parent's, with the same permissions. The
  routine fails exactly when a mapped descriptor of the parent is not open.
\<close>

lemma spawn_clone_fds_result:
  assumes "spawn_clone_fds rp ap x l k = Some (r, k')" and "kernel_inv k" and "devices_bound k"
    and "ap < MAX_PROCS" and "x < MAX_PROCS" and "ap \<noteq> x"
    and "distinct (map fst l)" and "\<forall>(t, fd) \<in> set l. t < MAX_FDS \<and> spawn_validate_mapped_fd fd \<and> \<not> is_open x t k"
  shows "if \<forall>(t, fd) \<in> set l. mappable ap fd k
    then r = Inr () \<and> (\<forall>t. t < MAX_FDS \<longrightarrow>
      proc_fd_obj k' ! fd_slot x t = (case map_of l t of None \<Rightarrow> proc_fd_obj k ! fd_slot x t | Some fd \<Rightarrow> mapped_obj ap fd k)
      \<and> proc_fd_flags k' ! fd_slot x t = (case map_of l t of None \<Rightarrow> proc_fd_flags k ! fd_slot x t | Some fd \<Rightarrow> mapped_flags ap fd x t k))
    else r = Inl EBADF"
  using assms(1-3,7,8)
proof (induction l arbitrary: k)
  case (Cons a l)
  obtain t fd where a: "a = (t, fd)" by (cases a)
  obtain r1 k1 where c: "spawn_clone_mapped_fd_locked rp ap x fd t k = Some (r1, k1)"
    using Cons.prems(1) a by (auto simp: bind_eq_Some_conv)
  have t: "t < MAX_FDS" "\<not> is_open x t k" using Cons.prems(5) a by simp_all
  note r = spawn_clone_result [OF c Cons.prems(2,3) assms(4,5) t(1) assms(6) t(2)]
  show ?case
  proof (cases "mappable ap fd k")
    case False
    then show ?thesis using Cons.prems(1) a c r(2) by auto
  next
    case True
    note m = mapped_other_row [OF r(3,4) [OF True] assms(6) t(1)]
    have rest: "spawn_clone_fds rp ap x l k1 = Some (r, k')" using Cons.prems(1) a c r(2) True by simp
    have nt: "s \<noteq> t" if "(s, fd') \<in> set l" for s fd' using that Cons.prems(4) a by force
    have l: "\<forall>(s, fd') \<in> set l. s < MAX_FDS \<and> spawn_validate_mapped_fd fd' \<and> \<not> is_open x s k1"
      using Cons.prems(5) a m(4) nt by fastforce
    have ih: "if \<forall>(t, fd) \<in> set l. mappable ap fd k1
      then r = Inr () \<and> (\<forall>t. t < MAX_FDS \<longrightarrow>
        proc_fd_obj k' ! fd_slot x t = (case map_of l t of None \<Rightarrow> proc_fd_obj k1 ! fd_slot x t | Some fd \<Rightarrow> mapped_obj ap fd k1)
        \<and> proc_fd_flags k' ! fd_slot x t = (case map_of l t of None \<Rightarrow> proc_fd_flags k1 ! fd_slot x t | Some fd \<Rightarrow> mapped_flags ap fd x t k1))
      else r = Inl EBADF"
      by (rule Cons.IH [OF rest fd_opD(2,3) [OF r(1)] _ l]) (use Cons.prems(4) in simp)
    have fd': "mappable ap fd' k1 = mappable ap fd' k" "mapped_obj ap fd' k1 = mapped_obj ap fd' k"
      "mapped_flags ap fd' x s k1 = mapped_flags ap fd' x s k" if "(s, fd') \<in> set l" for s fd'
      using that Cons.prems(5) a m(1-3) [of fd'] m(3) [of fd' s] nt [OF that] by auto
    have here: "map_of l t = None" using nt by (force simp: map_of_eq_None_iff)
    have len: "fd_slot x t < 48" "length (proc_fd_obj k) = 48" "length (proc_fd_flags k) = 48"
      using fd_slot_less [OF assms(5) t(1)] kernel_invD(1,2) [OF Cons.prems(2)] by simp_all
    have all: "(\<forall>(t, fd) \<in> set l. mappable ap fd k1) \<longleftrightarrow> (\<forall>(t, fd) \<in> set (a # l). mappable ap fd k)"
      using fd'(1) a True by auto
    show ?thesis
    proof (cases "\<forall>(t, fd) \<in> set l. mappable ap fd k1")
      case mp: True
      have "proc_fd_obj k' ! fd_slot x s = (case map_of (a # l) s of None \<Rightarrow> proc_fd_obj k ! fd_slot x s | Some fd \<Rightarrow> mapped_obj ap fd k)
        \<and> proc_fd_flags k' ! fd_slot x s = (case map_of (a # l) s of None \<Rightarrow> proc_fd_flags k ! fd_slot x s | Some fd \<Rightarrow> mapped_flags ap fd x s k)"
        if s: "s < MAX_FDS" for s
        using ih mp s a here r(3,4) [OF True] len fd_slot_inject [OF s t(1), of x x] fd'(2,3) [OF map_of_SomeD]
        by (cases "s = t") (auto split: option.splits)
      then show ?thesis using ih mp all by simp
    next
      case False
      then have "\<not> (\<forall>(t, fd) \<in> set (a # l). mappable ap fd k)" "r = Inl EBADF" using ih unfolding all by (simp_all only: if_False not_False_eq_True)
      then show ?thesis by (simp only: if_False not_False_eq_True)
    qed
  qed
qed simp

section \<open>The launch line\<close>

lemma inv_with_set_launch:
  assumes "inv_with L y" and "length line < 64" and "normal x"
  shows "inv_with L (spawn_set_launch x sel line y)"
proof -
  have sz: "sized y" by (rule inv_withD(1) [OF assms(1)])
  have row: "length (proc_launch_line y ! unat x) = 64"
    using sz assms(3) by (simp add: sized_def list_all_length normal_unat)
  have "list_all (\<lambda>l. length l = 64) ((proc_launch_line y)[unat x := line @ 0 # drop (Suc (length line)) (proc_launch_line y ! unat x)])"
    using sz row assms(2) by (auto simp: sized_def list_all_iff dest!: subsetD [OF set_update_subset_insert])
  then have "sized (spawn_set_launch x sel line y)" using sz by (simp add: sized_def) (simp add: spawn_set_launch_def)
  moreover have "proc_context (spawn_set_launch x sel line y) = proc_context y" "context_state (spawn_set_launch x sel line y) = context_state y"
    "context_owner_pid (spawn_set_launch x sel line y) = context_owner_pid y" by (simp_all add: spawn_set_launch_def)
  ultimately show ?thesis using assms(1) by (simp add: inv_with_def)
qed

text \<open>What the child reads back is what the parent passed.\<close>

definition launch_of :: "neox_pid_t \<Rightarrow> 'r system \<Rightarrow> byte \<times> byte list" where
  "launch_of x y = (proc_launch_id y ! unat x,
     take (unat (proc_launch_line_len y ! unat x)) (proc_launch_line y ! unat x))"

lemma launch_of_set:
  assumes "sized y" and "normal x" and "length line < 64"
  shows "launch_of x (spawn_set_launch x sel line y) = (sel, line)"
    and "proc_launch_line_len (spawn_set_launch x sel line y) ! unat x = of_nat (length line)"
  using assms by (simp_all add: launch_of_def spawn_set_launch_def sized_def normal_unat unat_byte_of_nat)

lemma cslice_line:
  assumes "cslice buf 0 (ucast (n :: byte)) = Some line"
  shows "line = take (unat n) buf" and "length line = unat n"
proof -
  have "unat n < 256" using unsigned_less [of n, where ?'a = nat] by simp
  then have "unat (ucast n :: neox_size_t) = unat n" by (simp add: unsigned_ucast_eq take_bit_eq_mod)
  then show "line = take (unat n) buf" and "length line = unat n" using assms by (auto simp: cslice_def split: if_splits)
qed


section \<open>The call\<close>

text \<open>A failed call leaves the slot empty; a successful one publishes the child.\<close>

definition withdrawn :: "neox_pid_t \<Rightarrow> 'r system \<Rightarrow> 'r system \<Rightarrow> bool" where
  "withdrawn x y y' \<longleftrightarrow> inv_with (live_pids y) y' \<and> live_pids y' = live_pids y \<and> only x y y'
     \<and> console_owner_pid (kern y') = console_owner_pid (kern y)"

definition child_fd :: "neox_spawn_resident_args \<Rightarrow> neox_fd_t \<Rightarrow> neox_fd_t" where
  "child_fd args t = (if t = NEOX_STDIN_FD then stdin_fd args else if t = NEOX_STDOUT_FD then stdout_fd args
     else if t = NEOX_STDERR_FD then stderr_fd args else SPAWN_FD_CLOSED)"

definition published :: "neox_pid_t \<Rightarrow> 16 word \<Rightarrow> neox_spawn_resident_args \<Rightarrow> neox_pid_t \<Rightarrow> 'r system \<Rightarrow> 'r system \<Rightarrow> bool" where
  "published ap entry args x y y' \<longleftrightarrow> inv_with (insert x (live_pids y)) y' \<and> live_pids y' = insert x (live_pids y) \<and> only x y y'
     \<and> sched_view x (sch y') = (PROC_NEW, WAIT_NONE, 0) \<and> proc_parent_pid y' ! unat x = ap \<and> proc_entry y' ! unat x = entry
     \<and> proc_flags (kern y') ! unat x = spawn_flags args \<and> proc_signal_pending (kern y') ! unat x = 0
     \<and> launch_of x y' = (launch_id args, take (unat (argument_length args)) (argument_line args))
     \<and> (\<forall>t. t < MAX_FDS \<longrightarrow> proc_fd_obj (kern y') ! fd_slot x t = mapped_obj ap (child_fd args t) (kern y)
         \<and> (child_fd args t \<noteq> SPAWN_FD_CLOSED \<longrightarrow>
             proc_fd_flags (kern y') ! fd_slot x t = proc_fd_flags (kern y) ! fd_slot ap (child_fd args t)))
     \<and> console_owner_pid (kern y') = (if spawn_flags args AND PROC_FLAG_FOREGROUND \<noteq> 0 \<and> console_owner_pid (kern y) = ap
         then x else console_owner_pid (kern y))"

lemma clear_slot_withdrawn:
  assumes "inv_with (insert x (live_pids y)) y1" and "only x y y1" and "normal x" and "x \<notin> live_pids y"
    and "\<And>fd. \<not> is_open x fd (kern y1)" and "live_pids y1 - {x} = live_pids y"
    and "console_owner_pid (kern y1) = console_owner_pid (kern y)"
  shows "withdrawn x y (spawn_clear_process_slot_locked x y1)"
proof -
  have no: "\<not> is_open x fd (kern (set_exit_code x EXIT_OK y1))" for fd using assms(5) by simp
  have i: "inv_with (insert x (live_pids y)) (set_exit_code x EXIT_OK y1)" using assms(1) by simp
  have "console_owner_pid (kern (clear_process_slot x z)) = console_owner_pid (kern z)" for z :: "'a system"
    by (simp add: clear_process_slot_def ctx_free_for_pid_def Let_def split: option.split)
  then show ?thesis
    using clear_process_slot_inv [OF i assms(3) no] assms(2,4,6,7)
    by (simp add: withdrawn_def spawn_clear_process_slot_locked_def)
qed

lemma live_pids_same_states: "proc_states (sch y') = proc_states (sch y) \<Longrightarrow> live_pids y' = live_pids y"
  by (simp add: live_pids_def)

lemma console_pass_new:
  assumes "state_of y x = PROC_NEW"
  shows "console_pass ap x y = y\<lparr>kern := (kern y)\<lparr>console_owner_pid := if console_owner_pid (kern y) = ap then x else console_owner_pid (kern y)\<rparr>\<rparr>"
  using assms by (simp add: console_pass_def scheduler_wake_console_owner_def)


lemma mapped_same_view:
  assumes "same_view ap k k'" and "spawn_validate_mapped_fd fd"
  shows "mapped_obj ap fd k' = mapped_obj ap fd k" and "mappable ap fd k' = mappable ap fd k"
    and "fd \<noteq> SPAWN_FD_CLOSED \<Longrightarrow> proc_fd_flags k' ! fd_slot ap fd = proc_fd_flags k ! fd_slot ap fd"
  using assms same_view_is_open [OF assms(1), of fd] fd_slot_row [of fd ap]
  by (auto simp: mapped_obj_def mappable_def spawn_validate_mapped_fd_def same_view_def)

text \<open>The slot with its launch line and flags, before the descriptors are attached.\<close>

lemma launch_prepared:
  assumes "prepared x ap en y y1" and "normal x" and "length line < 64"
    and y2_def: "y2 = spawn_set_launch x sel line (proc_clear_launch_state x (set_flags x fl y1))"
  shows "prepared x ap en y y2" and "launch_of x y2 = (sel, line)" and "proc_flags (kern y2) ! unat x = fl"
proof -
  let ?y = "proc_clear_launch_state x (set_flags x fl y1)"
  have i: "inv_with (insert x (live_pids y)) ?y" using assms(1) by (simp add: prepared_def)
  note sz = inv_withD(1) [OF i]
  have f: "proc_parent_pid y2 = proc_parent_pid y1" "proc_entry y2 = proc_entry y1" "proc_exit_code y2 = proc_exit_code y1"
    by (simp_all add: y2_def spawn_set_launch_def proc_clear_launch_state_def set_flags_def)
  show "prepared x ap en y y2"
    using assms(1) f inv_with_set_launch [OF i assms(3,2)] by (simp add: prepared_def y2_def)
  show "launch_of x y2 = (sel, line)" unfolding y2_def by (rule launch_of_set(1) [OF sz assms(2,3)])
  show "proc_flags (kern y2) ! unat x = fl" using sz assms(2) by (simp add: y2_def sized_def normal_unat)
qed

lemma prepared_live: "prepared x ap en y y1 \<Longrightarrow> live_pids y1 = live_pids y"
  by (rule live_pids_same_states) (simp add: prepared_def proc_clear_wait_def)

lemma rollback_withdrawn:
  assumes "prepared x ap en y y2" and "normal x" and "x \<notin> live_pids y" and "fd_op {x} (kern y2) k"
    and "spawn_rollback_child_locked rp ap x (y2\<lparr>kern := k\<rparr>) = Some y'"
  shows "withdrawn x y y'"
proof -
  have i2: "inv_with (insert x (live_pids y)) y2" and o2: "only x y y2"
    and c2: "console_owner_pid (kern y2) = console_owner_pid (kern y)" using assms(1) by (simp_all add: prepared_def)
  have i3: "inv_with (insert x (live_pids y)) (y2\<lparr>kern := k\<rparr>)" by (rule inv_with_kern [OF i2 assms(4)]) simp
  obtain r k' where k': "fd_close_process rp ap x k = Some (r, k')"
    and y': "y' = spawn_clear_process_slot_locked x (y2\<lparr>kern := k'\<rparr>)"
    using assms(5) by (auto simp: spawn_rollback_child_locked_def bind_eq_Some_conv)
  note c = close_process_inv [OF i3 assms(2), of rp ap r k', simplified, OF k']
  have o4: "only x y (y2\<lparr>kern := k'\<rparr>)" using only_kern [OF only_kern [OF o2 assms(4)], of k'] c(4) by simp
  have "console_owner_pid k' = console_owner_pid (kern y)"
    using fd_opD(4) [OF assms(4)] fd_opD(4) [OF c(4)] c2 by (simp add: same_control_def)
  then show ?thesis unfolding y'
    using clear_slot_withdrawn [OF c(2) o4 assms(2,3)] c(3) prepared_live [OF assms(1)] assms(3) by simp
qed

lemma spawn_attach_fds:
  assumes "spawn_attach rp ap x args k = Some (Inr (), k')" and "kernel_inv k" and "devices_bound k"
    and "ap < MAX_PROCS" and "x < MAX_PROCS" and "ap \<noteq> x" and "\<And>fd. \<not> is_open x fd k"
    and "\<forall>fd \<in> {stdin_fd args, stdout_fd args, stderr_fd args}. spawn_validate_mapped_fd fd" and "t < MAX_FDS"
  shows "proc_fd_obj k' ! fd_slot x t = mapped_obj ap (child_fd args t) k"
    and "child_fd args t \<noteq> SPAWN_FD_CLOSED \<Longrightarrow> proc_fd_flags k' ! fd_slot x t = proc_fd_flags k ! fd_slot ap (child_fd args t)"
proof -
  let ?l = "[(NEOX_STDIN_FD, stdin_fd args), (NEOX_STDOUT_FD, stdout_fd args), (NEOX_STDERR_FD, stderr_fd args)]"
  obtain r1 k1 where c: "spawn_clone_fds rp ap x ?l k = Some (r1, k1)"
    and r1: "case r1 of Inl e \<Rightarrow> Inr () = Inl e \<and> k' = k1
      | Inr _ \<Rightarrow> \<exists>reply. rp_fs_exec rp ap (Fs_Cwd_Clone x) k1 = Some (reply, k')
          \<and> Inr () = (if rp_failed reply then Inl (rp_err reply) else Inr ())"
    using spawn_attach_cases [OF assms(1)] by blast
  have r: "r1 = Inr ()" and k': "proc_fd_obj k' = proc_fd_obj k1" "proc_fd_flags k' = proc_fd_flags k1"
    using r1 by (cases r1; auto dest: rp_fs_exec_fields)+
  have "proc_fd_obj k1 ! fd_slot x t = (case map_of ?l t of None \<Rightarrow> proc_fd_obj k ! fd_slot x t | Some fd \<Rightarrow> mapped_obj ap fd k)
      \<and> proc_fd_flags k1 ! fd_slot x t = (case map_of ?l t of None \<Rightarrow> proc_fd_flags k ! fd_slot x t | Some fd \<Rightarrow> mapped_flags ap fd x t k)"
    using spawn_clone_fds_result [OF c assms(2-6)] assms(7-9) r by (auto split: if_splits)
  moreover have "proc_fd_obj k ! fd_slot x t = FD_NONE" using assms(5,7,9) by (auto simp: is_open_def)
  ultimately show "proc_fd_obj k' ! fd_slot x t = mapped_obj ap (child_fd args t) k"
    and "child_fd args t \<noteq> SPAWN_FD_CLOSED \<Longrightarrow> proc_fd_flags k' ! fd_slot x t = proc_fd_flags k ! fd_slot ap (child_fd args t)"
    using k' by (auto simp: child_fd_def mapped_obj_def mapped_flags_def split: if_splits)
qed

lemma only_console [simp]: "only x y (y'\<lparr>kern := (kern y')\<lparr>console_owner_pid := c\<rparr>\<rparr>) = only x y y'"
  by (simp add: only_def proc_view_def)

lemma attached_published:
  assumes "prepared x ap en y y2" and "normal x" and "x \<notin> live_pids y" and "ap < MAX_PROCS" and "ap \<noteq> x"
    and "spawn_attach rp ap x args (kern y2) = Some (Inr (), k)"
    and "launch_of x y2 = (launch_id args, take (unat (argument_length args)) (argument_line args))"
    and "proc_flags (kern y2) ! unat x = spawn_flags args"
    and "\<forall>fd \<in> {stdin_fd args, stdout_fd args, stderr_fd args}. spawn_validate_mapped_fd fd"
  defines "y3 \<equiv> set_state x PROC_NEW (y2\<lparr>kern := k\<rparr>)"
  shows "published ap en args x y (if spawn_flags args AND PROC_FLAG_FOREGROUND \<noteq> 0 then console_pass ap x y3 else y3)"
proof -
  note p = assms(1) [unfolded prepared_def]
  have i2: "inv_with (insert x (live_pids y)) y2" and o2: "only x y y2" and no: "\<And>fd. \<not> is_open x fd (kern y2)" using p by simp_all
  note iv = inv_withD [OF i2]
  note op = spawn_attach_op [OF assms(6) iv(3,4)]
  have i3: "inv_with (insert x (live_pids y)) (y2\<lparr>kern := k\<rparr>)" by (rule inv_with_kern [OF i2 op]) simp
  have o3: "only x y (y2\<lparr>kern := k\<rparr>)" by (rule only_kern [OF o2 op])
  have ap: "same_view ap (kern y) (kern y2)" using o2 assms(4,5) by (simp add: only_def)
  have st: "state_of y3 x = PROC_NEW" "sched_view x (sch y3) = (PROC_NEW, WAIT_NONE, 0)"
    using iv(2) p assms(2) by (simp_all add: y3_def sched_view_def proc_set_state_def proc_clear_wait_def sched_wf_def normal_unat)
  have lv: "live_pids y3 = insert x (live_pids y)"
    using live_pids_set_state [of "y2\<lparr>kern := k\<rparr>" x] iv(2) assms(2) prepared_live [OF assms(1)] by (simp add: y3_def)
  have fds: "proc_fd_obj (kern y3) ! fd_slot x t = mapped_obj ap (child_fd args t) (kern y)
      \<and> (child_fd args t \<noteq> SPAWN_FD_CLOSED \<longrightarrow>
          proc_fd_flags (kern y3) ! fd_slot x t = proc_fd_flags (kern y) ! fd_slot ap (child_fd args t))" if "t < MAX_FDS" for t
  proof -
    have v: "spawn_validate_mapped_fd (child_fd args t)" using assms(9) by (auto simp: child_fd_def spawn_validate_mapped_fd_def)
    show ?thesis
      using spawn_attach_fds [OF assms(6) iv(3,4) assms(4) normalD(1) [OF assms(2)] assms(5) no assms(9) that]
        mapped_same_view [OF ap v] by (simp add: y3_def)
  qed
  have ctl: "console_owner_pid k = console_owner_pid (kern y)" "proc_flags k = proc_flags (kern y2)"
    "proc_signal_pending k = proc_signal_pending (kern y2)" using fd_opD(4) [OF op] p by (simp_all add: same_control_def)
  have "published ap en args x y (y3\<lparr>kern := (kern y3)\<lparr>console_owner_pid :=
      if spawn_flags args AND PROC_FLAG_FOREGROUND \<noteq> 0 \<and> console_owner_pid (kern y3) = ap then x else console_owner_pid (kern y3)\<rparr>\<rparr>)"
  proof -
    have "inv_with (insert x (live_pids y)) y3" "only x y y3" using i3 o3 by (simp_all add: y3_def)
    then have c: "inv_with (insert x (live_pids y)) (y3\<lparr>kern := (kern y3)\<lparr>console_owner_pid := c\<rparr>\<rparr>)"
      "only x y (y3\<lparr>kern := (kern y3)\<lparr>console_owner_pid := c\<rparr>\<rparr>)" for c by simp_all
    have kk: "kern y3 = k" by (simp add: y3_def)
    have "launch_of x y3 = launch_of x y2" "proc_parent_pid y3 = proc_parent_pid y2"
      "proc_entry y3 = proc_entry y2" by (simp_all add: y3_def launch_of_def set_state_def)
    then show ?thesis unfolding published_def using lv st(2) p ctl assms(7,8) fds c [unfolded kk] kk by (simp add: launch_of_def)
  qed
  then show ?thesis using console_pass_new [OF st(1), of ap] by (cases "spawn_flags args AND PROC_FLAG_FOREGROUND = 0") auto
qed


lemma spawn_child_result:
  assumes "spawn_child rp ap args x y1 = Some (res, y')" and "prepared x ap en y y1" and "normal x" and "x \<notin> live_pids y"
    and "ap < MAX_PROCS" and "ap \<noteq> x" and "argument_length args < SPAWN_LINE_MAX"
    and "\<forall>fd \<in> {stdin_fd args, stdout_fd args, stderr_fd args}. spawn_validate_mapped_fd fd"
    and "\<not> owns_file_gate ap y"
  shows "(\<exists>e. res = Proc_Finished (Inl e) \<and> withdrawn x y y') \<or> res = Proc_Finished (Inr x) \<and> published ap en args x y y'"
proof -
  obtain line where line: "cslice (argument_line args) 0 (ucast (argument_length args)) = Some line"
    using assms(1) by (auto simp: spawn_child_def bind_eq_Some_conv)
  note l = cslice_line [OF line]
  have len: "length line < 64" using l(2) assms(7) by (simp add: word_less_nat_alt)
  define y2 where "y2 = spawn_set_launch x (launch_id args) line (proc_clear_launch_state x (set_flags x (spawn_flags args) y1))"
  note p2 = launch_prepared [OF assms(2,3) len y2_def]
  have ow: "\<not> owns_file_gate ap y2" using assms(9) p2(1) by (simp add: owns_file_gate_def prepared_def only_def)
  note run = assms(1) [unfolded spawn_child_def line, simplified, folded y2_def]
  obtain r k where k: "spawn_attach rp ap x args (kern y2) = Some (r, k)" using run ow by (auto simp: Let_def bind_eq_Some_conv)
  show ?thesis
  proof (cases r)
    case (Inl e)
    have inv: "kernel_inv (kern y2)" "devices_bound (kern y2)" using p2(1) inv_withD(3,4) by (auto simp: prepared_def)
    obtain y3 where "spawn_rollback_child_locked rp ap x (y2\<lparr>kern := k\<rparr>) = Some y3" "res = Proc_Finished (Inl e)" "y' = y3"
      using run ow k Inl by (auto simp: Let_def bind_eq_Some_conv)
    then show ?thesis using rollback_withdrawn [OF p2(1) assms(3,4) spawn_attach_op [OF k inv]] by blast
  next
    case (Inr u)
    have "res = Proc_Finished (Inr x)"
      "y' = (if spawn_flags args AND PROC_FLAG_FOREGROUND \<noteq> 0 then console_pass ap x (set_state x PROC_NEW (y2\<lparr>kern := k\<rparr>))
        else set_state x PROC_NEW (y2\<lparr>kern := k\<rparr>))"
      using run ow k Inr by (auto simp: Let_def)
    then show ?thesis
      using attached_published [OF p2(1) assms(3-6) _ _ p2(3) assms(8), of rp k] k Inr p2(2) l(1) by simp
  qed
qed

text \<open>The body under the process gate.\<close>

lemma withdrawn_self: "system_inv y \<Longrightarrow> withdrawn x y y"
  by (simp add: withdrawn_def system_inv_def)

lemma spawn_locked_result:
  assumes "spawn_locked rp ap en args y = Some (res, y')" and "system_inv y" and "ap \<in> live_pids y"
  shows "\<exists>x. x \<notin> live_pids y \<and> ((\<exists>e. res = Proc_Finished (Inl e) \<and> withdrawn x y y' \<and> (normal x \<or> y' = y))
    \<or> normal x \<and> res = Proc_Finished (Inr x) \<and> published ap en args x y y')"
proof (cases "argument_length args < SPAWN_LINE_MAX
    \<and> (\<forall>fd \<in> {stdin_fd args, stdout_fd args, stderr_fd args}. spawn_validate_mapped_fd fd)
    \<and> spawn_flags args AND NOT PROC_FLAGS_CREATE_MASK = 0")
  case False
  then have "y' = y \<and> (\<exists>e. res = Proc_Finished (Inl e))"
    using assms(1) by (auto simp: spawn_locked_def not_le split: if_splits)
  moreover have "IDLE_PID \<notin> live_pids y" by (simp add: live_pids_def normal_def)
  ultimately show ?thesis using withdrawn_self [OF assms(2)] by blast
next
  case True
  then have v: "\<not> argument_length args \<ge> SPAWN_LINE_MAX" "\<forall>fd \<in> {stdin_fd args, stdout_fd args, stderr_fd args}. spawn_validate_mapped_fd fd"
    "spawn_flags args AND NOT PROC_FLAGS_CREATE_MASK = 0" by (simp_all add: not_le)
  have run: "(case proc_alloc_preloaded_common False ap ap en y of (None, y) \<Rightarrow> Some (Proc_Finished (Inl ENOMEM), y)
      | (Some x, y) \<Rightarrow> spawn_child rp ap args x y) = Some (res, y')"
    using assms(1) v by (simp add: spawn_locked_def)
  have ap: "normal ap" using assms(3) by (simp add: live_pids_def)
  have id: "IDLE_PID \<notin> live_pids y" by (simp add: live_pids_def normal_def)
  show ?thesis
  proof (cases "proc_find_free_pid y")
    case None
    then have "y' = y" "res = Proc_Finished (Inl ENOMEM)" using run proc_alloc_result [OF assms(2), of ap ap en] by simp_all
    then show ?thesis using withdrawn_self [OF assms(2)] id by blast
  next
    case (Some x)
    have wf: "sched_wf (sch y)" using assms(2) inv_withD(2) by (auto simp: system_inv_def)
    have x: "normal x" "x \<notin> live_pids y" using proc_find_free_pid_result [OF wf] Some by simp_all
    then have ne: "ap \<noteq> x" using assms(3) by auto
    obtain y1 where y1: "if owns_file_gate ap y
        then proc_alloc_preloaded_common False ap ap en y = (None, y1) \<and> inv_with (live_pids y) y1 \<and> only x y y1
          \<and> sch y1 = proc_clear_wait x (sch y) \<and> console_owner_pid (kern y1) = console_owner_pid (kern y)
        else proc_alloc_preloaded_common False ap ap en y = (Some x, y1) \<and> prepared x ap en y y1"
      using proc_alloc_result [OF assms(2), of ap ap en] Some by auto
    show ?thesis
    proof (cases "owns_file_gate ap y")
      case True
      then have "live_pids y1 = live_pids y" using y1 by (intro live_pids_same_states) (simp add: proc_clear_wait_def)
      then have "res = Proc_Finished (Inl ENOMEM)" "withdrawn x y y'" using y1 run True by (simp_all add: withdrawn_def)
      then show ?thesis using x by blast
    next
      case False
      then show ?thesis
        using y1 run spawn_child_result [OF _ _ x normalD(1) [OF ap] ne _ v(2) False, of rp y1 res y' en] v(1) x by (auto simp: not_le)
    qed
  qed
qed

lemma spawn_locked_inv:
  "spawn_locked rp ap en args y = Some (res, y') \<Longrightarrow> system_inv y \<Longrightarrow> ap \<in> live_pids y \<Longrightarrow> system_inv y'"
  using spawn_locked_result [of rp ap en args y res y'] by (auto simp: withdrawn_def published_def system_inv_def)

text \<open>What the processes that existed before keep: everything, but one of them may be woken.\<close>

definition bystanders :: "neox_pid_t set \<Rightarrow> 'r system \<Rightarrow> 'r system \<Rightarrow> bool" where
  "bystanders L y y' \<longleftrightarrow> (\<forall>z \<in> L. proc_view z y' = proc_view z y \<and> same_view z (kern y) (kern y')
     \<and> (state_of y' z = state_of y z \<or> state_of y z = PROC_BLOCKED \<and> state_of y' z = PROC_READY))"

lemma only_bystanders:
  assumes "only x y y'" and "x \<notin> L" and "\<And>z. z \<in> L \<Longrightarrow> normal z"
  shows "bystanders L y y'"
  using assms normalD(1) by (auto simp: bystanders_def only_def sched_view_def)

lemma bystanders_wake:
  assumes "bystanders L y y'" shows "bystanders L y (wake x y')"
  using assms by (auto simp: bystanders_def states_wake)

lemma bystanders_gate [simp]:
  "bystanders L (y\<lparr>proc_gate := g\<rparr>) y' = bystanders L y y'" "bystanders L y (y'\<lparr>proc_gate := g\<rparr>) = bystanders L y y'"
  by (simp_all add: bystanders_def proc_view_def)


text \<open>What the caller asked for, as the child finds it.\<close>

definition spawned :: "neox_pid_t \<Rightarrow> 16 word \<Rightarrow> neox_spawn_resident_args \<Rightarrow> neox_pid_t \<Rightarrow> 'r system \<Rightarrow> 'r system \<Rightarrow> bool" where
  "spawned ap entry args x y y' \<longleftrightarrow> state_of y' x = PROC_NEW \<and> proc_parent_pid y' ! unat x = ap \<and> proc_entry y' ! unat x = entry
     \<and> proc_flags (kern y') ! unat x = spawn_flags args \<and> proc_signal_pending (kern y') ! unat x = 0
     \<and> launch_of x y' = (launch_id args, take (unat (argument_length args)) (argument_line args))
     \<and> (\<forall>t. t < MAX_FDS \<longrightarrow> proc_fd_obj (kern y') ! fd_slot x t = mapped_obj ap (child_fd args t) (kern y)
         \<and> (child_fd args t \<noteq> SPAWN_FD_CLOSED \<longrightarrow>
             proc_fd_flags (kern y') ! fd_slot x t = proc_fd_flags (kern y) ! fd_slot ap (child_fd args t)))
     \<and> console_owner_pid (kern y') = (if spawn_flags args AND PROC_FLAG_FOREGROUND \<noteq> 0 \<and> console_owner_pid (kern y) = ap
         then x else console_owner_pid (kern y))"

lemma published_spawned: "published ap entry args x y y' \<Longrightarrow> spawned ap entry args x y y'"
  by (auto simp: published_def spawned_def sched_view_def)

lemma spawned_gate [simp]:
  "spawned ap entry args x (y\<lparr>proc_gate := g\<rparr>) y' = spawned ap entry args x y y'"
  "spawned ap entry args x y (y'\<lparr>proc_gate := g\<rparr>) = spawned ap entry args x y y'"
  by (simp_all add: spawned_def launch_of_def)

lemma spawned_wake: "spawned ap entry args x y y' \<Longrightarrow> spawned ap entry args x y (wake w y')"
  by (auto simp: spawned_def launch_of_def states_wake) (auto simp: wake_def)

text \<open>The tables of descriptors before and after a failed call.\<close>

lemma same_rows_obj:
  assumes "kernel_inv k" and "kernel_inv k'" and "\<And>z. z < MAX_PROCS \<Longrightarrow> z \<noteq> x \<Longrightarrow> same_view z k k'"
    and "x < MAX_PROCS \<Longrightarrow> \<forall>fd. \<not> is_open x fd k \<and> \<not> is_open x fd k'"
  shows "proc_fd_obj k' = proc_fd_obj k"
proof (rule nth_equalityI)
  show "length (proc_fd_obj k') = length (proc_fd_obj k)" using kernel_invD(1) [OF assms(1)] kernel_invD(1) [OF assms(2)] by simp
  fix i assume "i < length (proc_fd_obj k')"
  then have i: "i < 48" using kernel_invD(1) [OF assms(2)] by simp
  define z fd :: byte where "z = of_nat (i div 6)" and "fd = of_nat (i mod 6)"
  have u: "unat z = i div 6" "unat fd = i mod 6" using i by (simp_all add: z_def fd_def unat_byte_of_nat)
  have z: "z < MAX_PROCS" "fd < MAX_FDS" using u i by (simp_all add: word_less_nat_alt less_mult_imp_div_less)
  have s: "i = fd_slot z fd" using u by (simp add: fd_slot_def fd_calc_pid_offset_def)
  show "proc_fd_obj k' ! i = proc_fd_obj k ! i"
  proof (cases "z = x")
    case True
    then show ?thesis using assms(4) z s by (auto simp: is_open_def)
  next
    case False
    then show ?thesis using assms(3) [OF z(1) False] fd_slot_row [OF z(2), of z] s by (simp add: same_view_def)
  qed
qed

lemma withdrawn_obj:
  assumes "withdrawn x y y'" and "system_inv y" and "x \<notin> live_pids y" and "normal x"
  shows "proc_fd_obj (kern y') = proc_fd_obj (kern y)"
proof (rule same_rows_obj [where x = x])
  have i: "inv_with (live_pids y) y" "inv_with (live_pids y) y'" using assms(1,2) by (simp_all add: withdrawn_def system_inv_def)
  then show "kernel_inv (kern y)" "kernel_inv (kern y')" using inv_withD(3) by blast+
  show "\<forall>fd. \<not> is_open x fd (kern y) \<and> \<not> is_open x fd (kern y')" using inv_withD(6) [OF i(1) assms(4,3)] inv_withD(6) [OF i(2) assms(4,3)] by blast
qed (use assms(1) in \<open>auto simp: withdrawn_def only_def\<close>)


section \<open>All or nothing\<close>

lemma spawn_result:
  assumes "ksys_spawn_resident rp ap entry args y = Some (Proc_Finished r, y')" and "system_inv y" and "ap \<in> live_pids y"
  shows "system_inv y' \<and> bystanders (live_pids y) y y'
    \<and> (case r of
         Inl e \<Rightarrow> live_pids y' = live_pids y \<and> proc_fd_obj (kern y') = proc_fd_obj (kern y)
           \<and> console_owner_pid (kern y') = console_owner_pid (kern y)
       | Inr x \<Rightarrow> normal x \<and> x \<notin> live_pids y \<and> live_pids y' = insert x (live_pids y) \<and> spawned ap entry args x y y')"
proof -
  have inv: "system_inv y'"
    by (rule with_proc_gate_inv [OF assms(1) [unfolded ksys_spawn_resident_def] assms(2,3) spawn_locked_inv])
  have n: "z \<in> live_pids y \<Longrightarrow> normal z" for z by (simp add: live_pids_def)
  from assms(1) [unfolded ksys_spawn_resident_def] show ?thesis
  proof (cases rule: with_proc_gate_cases)
    case (Recursive g)
    then show ?thesis using inv by (simp add: bystanders_def proc_view_def)
  next
    case (Waiting g)
    then show ?thesis by simp
  next
    case (Acquired g y1 g')
    have i: "system_inv (y\<lparr>proc_gate := g\<rparr>)" "ap \<in> live_pids (y\<lparr>proc_gate := g\<rparr>)" using assms(2,3) by simp_all
    obtain x where x: "x \<notin> live_pids y" and res: "(\<exists>e. r = Inl e \<and> withdrawn x (y\<lparr>proc_gate := g\<rparr>) y1 \<and> (normal x \<or> y1 = y\<lparr>proc_gate := g\<rparr>))
        \<or> normal x \<and> r = Inr x \<and> published ap entry args x (y\<lparr>proc_gate := g\<rparr>) y1"
      using spawn_locked_result [OF Acquired(3) i] by auto
    have o: "only x (y\<lparr>proc_gate := g\<rparr>) y1" using res by (auto simp: withdrawn_def published_def)
    have u: "bystanders (live_pids y) y y1" using only_bystanders [OF o x n] by simp
    then have u': "bystanders (live_pids y) y y'" using Acquired(4) by (auto intro!: bystanders_wake)
    have kk: "kern y' = kern y1" and lv: "live_pids y' = live_pids y1" using Acquired(4) by auto
    show ?thesis
    proof (cases r)
      case (Inl e)
      then have w: "withdrawn x (y\<lparr>proc_gate := g\<rparr>) y1" and nx: "normal x \<or> y1 = y\<lparr>proc_gate := g\<rparr>" using res by auto
      have "proc_fd_obj (kern y1) = proc_fd_obj (kern y)" using nx withdrawn_obj [OF w i(1)] x by auto
      then show ?thesis using inv u' kk lv w Inl by (simp add: withdrawn_def)
    next
      case (Inr x')
      then have p: "published ap entry args x (y\<lparr>proc_gate := g\<rparr>) y1" "normal x" "x' = x" using res by auto
      have "spawned ap entry args x y y'" using published_spawned [OF p(1)] Acquired(4) by (auto intro!: spawned_wake)
      then show ?thesis using inv u' lv p x Inr by (simp add: published_def)
    qed
  qed
qed


section \<open>The call succeeds when it can\<close>

lemma spawn_clone_total:
  assumes "ap < MAX_PROCS" and "x < MAX_PROCS" and "t < MAX_FDS" and "\<not> is_open x t k"
  shows "\<exists>r k'. spawn_clone_mapped_fd_locked rp ap x fd t k = Some (r, k')"
proof -
  have "fd_close_pid rp ap x t k = Some (Inl EBADF, k)"
    using fd_close_pid_closed [OF assms(4), of rp ap] assms(2) by (simp add: not_le)
  then show ?thesis by (simp add: spawn_clone_mapped_fd_locked_def fd_clone_between_def Let_def)
qed

lemma spawn_clone_fds_total:
  assumes "kernel_inv k" and "devices_bound k" and "ap < MAX_PROCS" and "x < MAX_PROCS" and "ap \<noteq> x"
    and "distinct (map fst l)" and "\<forall>(t, fd) \<in> set l. t < MAX_FDS \<and> spawn_validate_mapped_fd fd \<and> \<not> is_open x t k"
    and "\<forall>(t, fd) \<in> set l. mappable ap fd k"
  shows "\<exists>k'. spawn_clone_fds rp ap x l k = Some (Inr (), k')"
  using assms(1,2,6-8)
proof (induction l arbitrary: k)
  case (Cons a l)
  obtain t fd where a: "a = (t, fd)" by (cases a)
  have t: "t < MAX_FDS" "\<not> is_open x t k" using Cons.prems(4) a by simp_all
  obtain r k1 where c: "spawn_clone_mapped_fd_locked rp ap x fd t k = Some (r, k1)"
    using spawn_clone_total [OF assms(3,4) t] by blast
  note r = spawn_clone_result [OF c Cons.prems(1,2) assms(3,4) t(1) assms(5) t(2)]
  have m: "mappable ap fd k" using Cons.prems(5) a by simp
  note o = mapped_other_row [OF r(3,4) [OF m] assms(5) t(1)]
  have nt: "s \<noteq> t" if "(s, fd') \<in> set l" for s fd' using that Cons.prems(3) a by force
  have "\<exists>k'. spawn_clone_fds rp ap x l k1 = Some (Inr (), k')"
  proof (rule Cons.IH [OF fd_opD(2,3) [OF r(1)]])
    show "\<forall>(s, fd') \<in> set l. s < MAX_FDS \<and> spawn_validate_mapped_fd fd' \<and> \<not> is_open x s k1"
      using Cons.prems(4) a o(4) nt by fastforce
    show "\<forall>(s, fd') \<in> set l. mappable ap fd' k1" using Cons.prems(4,5) o(2) by fastforce
  qed (use Cons.prems(3) in simp)
  then show ?case using a c r(2) m by simp
qed simp

text \<open>What the RP promises: the working directory can be copied.\<close>

definition clones_cwd :: "'r rp2350 \<Rightarrow> neox_pid_t \<Rightarrow> bool" where
  "clones_cwd rp ap \<longleftrightarrow> (\<forall>x r. \<exists>reply r'. rp_fs rp ap (Fs_Cwd_Clone x) r = Some (reply, r') \<and> \<not> rp_failed reply)"

lemma spawn_attach_total:
  assumes "kernel_inv k" and "devices_bound k" and "ap < MAX_PROCS" and "x < MAX_PROCS" and "ap \<noteq> x" and "\<And>fd. \<not> is_open x fd k"
    and "\<forall>fd \<in> {stdin_fd args, stdout_fd args, stderr_fd args}. spawn_validate_mapped_fd fd \<and> mappable ap fd k" and "clones_cwd rp ap"
  shows "\<exists>k'. spawn_attach rp ap x args k = Some (Inr (), k')"
proof -
  let ?l = "[(NEOX_STDIN_FD, stdin_fd args), (NEOX_STDOUT_FD, stdout_fd args), (NEOX_STDERR_FD, stderr_fd args)]"
  obtain k1 where c: "spawn_clone_fds rp ap x ?l k = Some (Inr (), k1)"
    using spawn_clone_fds_total [OF assms(1-5), of ?l rp] assms(6,7) by auto
  obtain reply r' where "rp_fs rp ap (Fs_Cwd_Clone x) (rp_state k1) = Some (reply, r')" "\<not> rp_failed reply"
    using assms(8) unfolding clones_cwd_def by blast
  then show ?thesis using c by (simp add: spawn_attach_def rp_fs_exec_def del: spawn_clone_fds.simps)
qed

definition spawn_args_ok :: "neox_pid_t \<Rightarrow> neox_spawn_resident_args \<Rightarrow> 'r kernel \<Rightarrow> bool" where
  "spawn_args_ok ap args k \<longleftrightarrow> argument_length args < SPAWN_LINE_MAX \<and> unat (argument_length args) \<le> length (argument_line args)
     \<and> spawn_flags args AND NOT PROC_FLAGS_CREATE_MASK = 0
     \<and> (\<forall>fd \<in> {stdin_fd args, stdout_fd args, stderr_fd args}. fd = SPAWN_FD_CLOSED \<or> is_open ap fd k)"

lemma spawn_locked_total:
  assumes "system_inv y" and "ap \<in> live_pids y" and "\<not> owns_file_gate ap y" and "spawn_args_ok ap args (kern y)"
    and "normal z" and "z \<notin> live_pids y" and "clones_cwd rp ap"
  shows "\<exists>x y'. spawn_locked rp ap en args y = Some (Proc_Finished (Inr x), y')"
proof -
  note a = assms(4) [unfolded spawn_args_ok_def]
  have ap: "normal ap" using assms(2) by (simp add: live_pids_def)
  have wf: "sched_wf (sch y)" using assms(1) inv_withD(2) by (auto simp: system_inv_def)
  obtain x where x: "proc_find_free_pid y = Some x" "normal x" "x \<notin> live_pids y"
    using proc_find_free_pid_result [OF wf] assms(5,6) by (cases "proc_find_free_pid y") auto
  obtain y1 where al: "proc_alloc_preloaded_common False ap ap en y = (Some x, y1)" and p1: "prepared x ap en y y1"
    using proc_alloc_result [OF assms(1), of ap ap en] x(1) assms(3) by auto
  have "unat (argument_length args) < 256" using unsigned_less [of "argument_length args", where ?'a = nat] by simp
  then have "unat (ucast (argument_length args) :: neox_size_t) = unat (argument_length args)" by (simp add: unsigned_ucast_eq take_bit_eq_mod)
  then obtain line where line: "cslice (argument_line args) 0 (ucast (argument_length args)) = Some line" using a by (simp add: cslice_def)
  have len: "length line < 64" using cslice_line(2) [OF line] a by (simp add: word_less_nat_alt)
  define y2 where "y2 = spawn_set_launch x (launch_id args) line (proc_clear_launch_state x (set_flags x (spawn_flags args) y1))"
  note p2 = launch_prepared(1) [OF p1 x(2) len y2_def]
  have ow: "\<not> owns_file_gate ap y2" using assms(3) p2 by (simp add: owns_file_gate_def prepared_def only_def)
  have ne: "ap \<noteq> x" using assms(2) x(3) by auto
  have v: "\<forall>fd \<in> {stdin_fd args, stdout_fd args, stderr_fd args}. spawn_validate_mapped_fd fd" "\<not> argument_length args \<ge> SPAWN_LINE_MAX"
    using a by (auto simp: spawn_validate_mapped_fd_def is_open_def not_le)
  have "same_view ap (kern y) (kern y2)" using p2 normalD(1) [OF ap] ne by (simp add: prepared_def only_def)
  then have m: "\<forall>fd \<in> {stdin_fd args, stdout_fd args, stderr_fd args}. spawn_validate_mapped_fd fd \<and> mappable ap fd (kern y2)"
    using a v(1) mapped_same_view(2) [of ap "kern y" "kern y2"] by (auto simp: mappable_def)
  have i2: "inv_with (insert x (live_pids y)) y2" and no: "\<And>fd. \<not> is_open x fd (kern y2)" using p2 by (simp_all add: prepared_def)
  obtain k where "spawn_attach rp ap x args (kern y2) = Some (Inr (), k)"
    using spawn_attach_total [OF inv_withD(3,4) [OF i2] normalD(1) [OF ap] normalD(1) [OF x(2)] ne no m assms(7)] by blast
  then have "\<exists>y'. spawn_child rp ap args x y1 = Some (Proc_Finished (Inr x), y')"
    using line ow by (simp add: spawn_child_def flip: y2_def) (simp add: Let_def)
  then show ?thesis using al a v by (auto simp: spawn_locked_def)
qed

text \<open>A pass through a free gate is a pass of the body.\<close>

lemma with_proc_gate_free:
  assumes "gate_byte (proc_gate y) AND 1 = 0"
    and "f (y\<lparr>proc_gate := (proc_gate y)\<lparr>gate_byte := gate_byte (proc_gate y) OR 1, gate_owner := ap\<rparr>\<rparr>) = Some (res, y1)"
  shows "\<exists>y'. with_proc_gate ap busy f y = Some (res, y')"
  using assms by (simp add: with_proc_gate_def gate_acquire_def Let_def case_prod_beta)

lemma spawn_total:
  assumes "system_inv y" and "ap \<in> live_pids y" and "\<not> owns_file_gate ap y" and "spawn_args_ok ap args (kern y)"
    and "normal z" and "z \<notin> live_pids y" and "clones_cwd rp ap" and "gate_byte (proc_gate y) AND 1 = 0"
  shows "\<exists>x y'. ksys_spawn_resident rp ap en args y = Some (Proc_Finished (Inr x), y')"
proof -
  let ?y = "y\<lparr>proc_gate := (proc_gate y)\<lparr>gate_byte := gate_byte (proc_gate y) OR 1, gate_owner := ap\<rparr>\<rparr>"
  have "\<exists>x y1. spawn_locked rp ap en args ?y = Some (Proc_Finished (Inr x), y1)"
    by (rule spawn_locked_total [OF _ _ _ _ assms(5) _ assms(7)]) (use assms(1-4,6) in \<open>simp_all add: owns_file_gate_def\<close>)
  then obtain x y1 where "spawn_locked rp ap en args ?y = Some (Proc_Finished (Inr x), y1)" by blast
  from with_proc_gate_free [OF assms(8), of "spawn_locked rp ap en args", OF this] show ?thesis unfolding ksys_spawn_resident_def by metis
qed

text \<open>The child reads back what the parent passed.\<close>

lemma launch_round_trip:
  assumes "spawned ap entry args x y y'" and "system_inv y'" and "normal x" and "gate_byte (proc_gate y') AND 1 = 0"
    and "unat (argument_length args) \<le> length (argument_line args)" and "argument_length args < 64" and "argument_length args < n"
  shows "ksys_get_launch_id x y' = (if launch_id args = SPAWN_LAUNCH_NONE then Inl EINVAL else Inr (launch_id args))"
    and "\<exists>y''. ksys_get_launch_line x n y' =
      Some (Proc_Finished (Inr (take (unat (argument_length args)) (argument_line args))), y'')"
proof -
  let ?len = "proc_launch_line_len y' ! unat x" and ?line = "take (unat (argument_length args)) (argument_line args)"
  have l: "proc_launch_id y' ! unat x = launch_id args" "take (unat ?len) (proc_launch_line y' ! unat x) = ?line"
    using assms(1) by (simp_all add: spawned_def launch_of_def)
  have x: "\<not> MAX_PROCS \<le> x" using normalD(1) [OF assms(3)] by simp
  show "ksys_get_launch_id x y' = (if launch_id args = SPAWN_LAUNCH_NONE then Inl EINVAL else Inr (launch_id args))"
    using l x by (simp add: ksys_get_launch_id_def)
  have "sized y'" using assms(2) unfolding system_inv_def by (rule inv_withD(1))
  then have "length (proc_launch_line y' ! unat x) = 64" using assms(3) by (simp add: sized_def list_all_length normal_unat)
  then have "min (unat ?len) 64 = unat (argument_length args)" using arg_cong [OF l(2), of length] assms(5) by simp
  then have "?len = argument_length args" using assms(6) by (simp add: word_less_nat_alt word_unat_eq_iff min_def split: if_splits)
  then have "\<not> n \<le> ?len" "n \<noteq> 0" using assms(7) by auto
  then show "\<exists>y''. ksys_get_launch_line x n y' = Some (Proc_Finished (Inr ?line), y'')"
    using assms(4) l x by (simp add: ksys_get_launch_line_def with_proc_gate_def gate_acquire_def Let_def split: prod.split)
qed

lemma spawn_success_args:
  assumes "ksys_spawn_resident rp ap en args y = Some (Proc_Finished (Inr x), y')"
  shows "argument_length args < SPAWN_LINE_MAX \<and> unat (argument_length args) \<le> length (argument_line args)"
  using assms unfolding ksys_spawn_resident_def
proof (cases rule: with_proc_gate_cases)
  case (Acquired g y1 g')
  from Acquired obtain z y0 line where a: "argument_length args < SPAWN_LINE_MAX"
    and l: "cslice (argument_line args) 0 (ucast (argument_length args)) = Some line"
    by (auto simp: spawn_locked_def spawn_child_def bind_eq_Some_conv not_le split: if_splits prod.splits option.splits)
  from cslice_line [OF l] have "unat (argument_length args) \<le> length (argument_line args)" by (metis length_take min.cobounded1)
  with a show ?thesis by simp
qed simp_all

end
