(* ===== verification/Kernel_Exit.thy ===== *)
theory Kernel_Exit
  imports Kernel_Spawn
begin

text \<open>
  The end of a process: exit, signals, zombies and waiting. Every routine keeps the invariant
  of the process table; the exit code that a process passes is the one its parent reads, and
  a zombie stays until its parent waits for it or is gone.
\<close>

section \<open>Exit\<close>

lemma system_inv_wf: "system_inv y \<Longrightarrow> sched_wf (sch y)"
  unfolding system_inv_def by (rule inv_withD(2))

lemma ksys_exit_inv:
  assumes "ksys_exit rp ap code y = Some (res, y')" and "system_inv y" and "ap \<in> live_pids y"
  shows "system_inv y'"
proof -
  have run: "with_proc_gate ap () (\<lambda>y. do { y \<leftarrow> proc_exit_lifecycle rp ap ap code y; Some (Proc_Finished (), y) }) y = Some (res, y')"
    using assms(1,3) by (auto simp: ksys_exit_def live_pids_def normal_def split: if_splits)
  show ?thesis
    by (rule with_proc_gate_inv [OF run assms(2,3)]) (auto simp: bind_eq_Some_conv dest: proc_exit_lifecycle_inv)
qed

text \<open>With a live parent the process becomes a zombie that keeps its exit code.\<close>

lemma exit_zombie:
  assumes "proc_exit_lifecycle rp ap x code y = Some y'" and "system_inv y" and "x \<in> live_pids y" and "live_parent x y"
    and "\<not> owns_file_gate ap y"
  obtains y1 where "y' = wake_waiting_parent x y1" and "only x y y1" and "system_inv y1" and "live_pids y1 = live_pids y"
    and "state_of y1 x = PROC_ZOMBIE" and "proc_exit_code y1 ! unat x = code" and "proc_parent_pid y1 = proc_parent_pid y"
    and "\<forall>fd. \<not> is_open x fd (kern y1)" and "console_owner_pid (kern y1) = console_owner_pid (kern y)"
proof -
  have n: "normal x" and inv: "inv_with (live_pids y) y" using assms(2,3) by (simp_all add: live_pids_def system_inv_def)
  let ?c = "set_exit_code x code y"
  have g: "live_parent x ?c" "\<not> owns_file_gate ap ?c"
    using assms(4,5) by (simp_all add: live_parent_def owns_file_gate_def) (simp add: set_exit_code_def)
  obtain r k where k: "fd_close_process rp ap x (kern y) = Some (r, k)"
    and y': "(case r of Inl e \<Rightarrow> proc_terminate rp ap x code (?c\<lparr>kern := k\<rparr>)
      | Inr _ \<Rightarrow> Some (wake_waiting_parent x (set_state x PROC_ZOMBIE (set_signal x 0 (clear_wait x (?c\<lparr>kern := k\<rparr>)))))) = Some y'"
    using assms(1) normal_guard [OF n] g by (auto simp: proc_exit_lifecycle_def Let_def bind_eq_Some_conv)
  note c = close_process_inv [OF inv n k]
  define y1 where "y1 = set_state x PROC_ZOMBIE (set_signal x 0 (clear_wait x (?c\<lparr>kern := k\<rparr>)))"
  have eq: "?c\<lparr>kern := k\<rparr> = set_exit_code x code (y\<lparr>kern := k\<rparr>)" by (simp add: set_exit_code_def)
  have "system_inv (set_signal x 0 (clear_wait x (?c\<lparr>kern := k\<rparr>)))" using c(2) by (simp add: eq system_inv_def)
  then have i: "system_inv y1" unfolding y1_def by (rule system_inv_set_state) (use assms(3) in \<open>simp_all add: eq\<close>)
  have wf: "sched_wf (sch y)" and sz: "sized y" using inv_withD(1,2) [OF inv] by simp_all
  have lv: "live_pids y1 = live_pids y" unfolding y1_def
    by (subst live_pids_set_state) (use n assms(3) wf in \<open>auto simp: eq\<close>)
  have "only x y (y\<lparr>kern := k\<rparr>)" by (rule only_kern [OF only_refl c(4)])
  then have o: "only x y y1" by (simp add: y1_def eq)
  have st: "state_of y1 x = PROC_ZOMBIE" "proc_exit_code y1 ! unat x = code" "proc_parent_pid y1 = proc_parent_pid y"
    "console_owner_pid (kern y1) = console_owner_pid (kern y)"
    using wf sz n fd_opD(4) [OF c(4)]
    by (simp_all add: y1_def eq proc_set_state_def proc_clear_wait_def sched_wf_def normal_unat same_control_def)
      (simp_all add: set_exit_code_def set_state_def set_signal_def clear_wait_def sized_def)
  show thesis by (rule that [OF _ o i lv st(1-3) _ st(4)]) (use y' c(1,3) in \<open>simp_all add: y1_def\<close>)
qed

section \<open>Waiting\<close>

lemma waitpid_zombie:
  assumes "waitpid_locked rp ap x y = Some (res, y')" and "system_inv y" and "x \<in> live_pids y"
    and "proc_parent_pid y ! unat x = ap" and "state_of y x = PROC_ZOMBIE" and "\<not> owns_file_gate ap y"
  obtains y1 where "res = Proc_Finished (Inr (proc_exit_code y ! unat x))" and "y' = console_pass x ap y1" and "only x y y1"
    and "live_pids y1 = live_pids y - {x}" and "system_inv y1" and "console_owner_pid (kern y1) = console_owner_pid (kern y)"
proof -
  have n: "normal x" and inv: "inv_with (live_pids y) y" using assms(2,3) by (simp_all add: live_pids_def system_inv_def)
  note g = normal_guard [OF n]
  obtain y1 where t: "proc_terminate rp ap x (proc_exit_code y ! unat x) y = Some y1"
    and r: "res = Proc_Finished (Inr (proc_exit_code y ! unat x))" "y' = console_pass x ap y1"
    using assms(1,4,5) g by (auto simp: waitpid_locked_def proc_reap_waited_child_def Let_def bind_eq_Some_conv)
  obtain k where k: "fd_op {x} (kern y) k" "y1 = clear_process_slot x (set_exit_code x (proc_exit_code y ! unat x) (y\<lparr>kern := k\<rparr>))"
    and i: "inv_with (live_pids y - {x}) y1" "live_pids y1 = live_pids y - {x}"
    using proc_terminate_result [OF t inv n assms(6)] by metis
  have "only x y (y\<lparr>kern := k\<rparr>)" by (rule only_kern [OF only_refl k(1)])
  then have o: "only x y y1" by (simp add: k(2))
  have "console_owner_pid (kern y1) = console_owner_pid k"
    by (simp add: k(2) clear_process_slot_def ctx_free_for_pid_def Let_def split: option.split)
  then show thesis using that [OF r o i(2)] i fd_opD(4) [OF k(1)] by (simp add: system_inv_def same_control_def)
qed

section \<open>Signals\<close>

lemma proc_mark_zombie_inv:
  assumes "proc_mark_zombie x code y = Some (ok, y')" and "system_inv y"
  shows "system_inv y'"
proof (cases "normal x \<and> state_of y x \<noteq> PROC_EMPTY \<and> state_of y x \<noteq> PROC_ZOMBIE")
  case False
  then have "y' = y" using assms(1) by (auto simp: proc_mark_zombie_def normal_iff_guard split: if_splits)
  then show ?thesis using assms(2) by simp
next
  case True
  define y1 where "y1 = set_signal x 0 (set_exit_code x code y)"
  have i1: "system_inv y1" "x \<in> live_pids y1" using True assms(2) by (simp_all add: y1_def live_pids_def)
  obtain y2 where y2: "y2 = y1 \<or> (\<exists>t. y2 = y1\<lparr>tmr := t\<rparr>) \<or> (\<exists>g. y2 = y1\<lparr>file_gate := g\<rparr>) \<or> (\<exists>g. y2 = y1\<lparr>proc_gate := g\<rparr>)"
    and y': "y' = set_state x PROC_ZOMBIE (clear_wait x y2) \<or> y' = wake_waiting_parent x (set_state x PROC_ZOMBIE (clear_wait x y2))"
    using assms(1) True normal_guard [of x]
    by (auto simp: proc_mark_zombie_def Let_def bind_eq_Some_conv y1_def split: if_splits)
  have "system_inv (clear_wait x y2)" "x \<in> live_pids (clear_wait x y2)" using y2 i1 by auto
  then have "system_inv (set_state x PROC_ZOMBIE (clear_wait x y2))" by (rule system_inv_set_state) simp
  then show ?thesis using y' by auto
qed

lemma proc_send_signal_inv:
  "proc_send_signal ap x sig y = Some (r, y') \<Longrightarrow> system_inv y \<Longrightarrow> system_inv y'"
  by (auto simp: proc_send_signal_def bind_eq_Some_conv split: if_splits dest: proc_mark_zombie_inv)

lemma ksys_signal_inv:
  assumes "ksys_signal ap x sig y = Some (res, y')" and "system_inv y" and "ap \<in> live_pids y"
  shows "system_inv y'"
proof (cases "with_proc_gate ap (Inl EAGAIN) (\<lambda>y. do { (r, y) \<leftarrow> proc_send_signal ap x sig y; Some (Proc_Finished r, y) }) y = Some (res, y')")
  case True
  show ?thesis by (rule with_proc_gate_inv [OF True assms(2,3)]) (auto simp: bind_eq_Some_conv dest: proc_send_signal_inv)
next
  case False
  then show ?thesis using assms(1,2) by (auto simp: ksys_signal_def split: if_splits)
qed

lemma proc_apply_signal_inv:
  assumes "proc_apply_scheduler_signal x y = Some (b, y')" and "system_inv y" and "normal x"
  shows "system_inv y'"
proof -
  have st: "system_inv (set_state x st (clear_wait x (set_signal x 0 y)))" if "state_of y x \<noteq> PROC_EMPTY" "st \<noteq> PROC_EMPTY" for st
    by (rule system_inv_set_state) (use assms(2,3) that in \<open>simp_all add: live_pids_def proc_clear_wait_def\<close>)
  show ?thesis
    using assms(1,2) st [of PROC_STOPPED] st [of PROC_READY]
    by (auto simp: proc_apply_scheduler_signal_def Let_def bind_eq_Some_conv split: if_splits dest: proc_mark_zombie_inv)
qed

lemma apply_signals_inv:
  "apply_signals xs y = Some y' \<Longrightarrow> system_inv y \<Longrightarrow> \<forall>x \<in> set xs. normal x \<Longrightarrow> system_inv y'"
  by (induction xs arbitrary: y) (auto simp: bind_eq_Some_conv dest: proc_apply_signal_inv)

lemma scheduler_signals_inv: "scheduler_apply_pending_signals y = Some y' \<Longrightarrow> system_inv y \<Longrightarrow> system_inv y'"
  by (auto simp: scheduler_apply_pending_signals_def normal_unat simp del: apply_signals.simps dest!: apply_signals_inv)

lemma proc_reap_zombies_inv:
  "proc_reap_zombies rp ap y = Some (b, y') \<Longrightarrow> system_inv y \<Longrightarrow> system_inv y'"
  by (auto simp: proc_reap_zombies_def bind_eq_Some_conv split: option.splits if_splits dest: proc_terminate_inv)


section \<open>The exit code reaches the parent\<close>

lemma waits_view: "waits_for r ob s p \<longleftrightarrow> sched_view p s = (PROC_BLOCKED, r, ob)"
  by (auto simp: waits_for_def sched_view_def)

lemma gate_free_cases:
  assumes "with_proc_gate ap busy f y = Some (res, y')" and "gate_byte (proc_gate y) AND 1 = 0"
  obtains g y1 g' where "gate_owner g = ap" and "f (y\<lparr>proc_gate := g\<rparr>) = Some (res, y1)"
    and "y' = y1\<lparr>proc_gate := g'\<rparr> \<or> (\<exists>x. y' = wake x (y1\<lparr>proc_gate := g'\<rparr>))"
proof -
  let ?g = "(proc_gate y)\<lparr>gate_byte := gate_byte (proc_gate y) OR 1, gate_owner := ap\<rparr>"
  have ac: "gate_acquire LOCK_ID_PROC ap (proc_gate y, sch y) = (Acquired, ?g, sch y)"
    using assms(2) by (simp add: gate_acquire_def Let_def)
  have yy: "y\<lparr>proc_gate := ?g, sch := sch y\<rparr> = y\<lparr>proc_gate := ?g\<rparr>" by simp
  obtain y1 where f: "f (y\<lparr>proc_gate := ?g\<rparr>) = Some (res, y1)"
    and y': "y' = (case gate_release ap (proc_gate y1, sch y1) of (_, g, s) \<Rightarrow> y1\<lparr>proc_gate := g, sch := s\<rparr>)"
    using assms(1) ac yy by (auto simp: with_proc_gate_def bind_eq_Some_conv case_prod_beta)
  obtain b g' s' where rel: "gate_release ap (proc_gate y1, sch y1) = (b, g', s')" by (metis prod_cases3)
  then have "s' = sch y1 \<or> (\<exists>x. s' = proc_wake x (sch y1))"
    by (auto simp: gate_release_def Let_def split: if_splits option.splits)
  then have "y' = y1\<lparr>proc_gate := g'\<rparr> \<or> (\<exists>x. y' = wake x (y1\<lparr>proc_gate := g'\<rparr>))" using y' rel by (auto simp: wake_def)
  then show thesis using that [OF _ f] by simp
qed

lemma ready_wake: "state_of y z = PROC_READY \<or> state_of y z = PROC_ZOMBIE \<Longrightarrow> state_of (wake x y) z = state_of y z"
  by (auto simp: states_wake)

lemma exit_result:
  assumes "ksys_exit rp x code y = Some (res, y')" and "gate_byte (proc_gate y) AND 1 = 0" and "system_inv y" and "x \<in> live_pids y"
    and "proc_parent_pid y ! unat x = p" and "p \<in> live_pids y" and "state_of y p \<noteq> PROC_ZOMBIE" and "p \<noteq> x" and "\<not> owns_file_gate x y"
  shows "system_inv y' \<and> live_pids y' = live_pids y \<and> state_of y' x = PROC_ZOMBIE \<and> proc_exit_code y' ! unat x = code
    \<and> proc_parent_pid y' ! unat x = p \<and> (\<forall>fd. \<not> is_open x fd (kern y'))
    \<and> (waits_for WAIT_PROC x (sch y) p \<longrightarrow> state_of y' p = PROC_READY)"
proof -
  let ?f = "\<lambda>y. do { y \<leftarrow> proc_exit_lifecycle rp x x code y; Some (Proc_Finished (), y) }"
  have inv: "system_inv y'" by (rule ksys_exit_inv [OF assms(1,3,4)])
  have "x \<noteq> IDLE_PID" using assms(4) by (auto simp: live_pids_def normal_def)
  then have run: "with_proc_gate x () ?f y = Some (res, y')" using assms(1) by (simp add: ksys_exit_def)
  obtain g y2 g' where f: "?f (y\<lparr>proc_gate := g\<rparr>) = Some (res, y2)"
    and y': "y' = y2\<lparr>proc_gate := g'\<rparr> \<or> (\<exists>w. y' = wake w (y2\<lparr>proc_gate := g'\<rparr>))"
    using gate_free_cases [OF run assms(2)] by metis
  have ex: "proc_exit_lifecycle rp x x code (y\<lparr>proc_gate := g\<rparr>) = Some y2" using f by (auto simp: bind_eq_Some_conv)
  have np: "normal p" using assms(6) by (simp add: live_pids_def)
  have lp: "live_parent x (y\<lparr>proc_gate := g\<rparr>)"
    using assms(5-7) np by (simp add: live_parent_def live_pids_def normal_def Let_def)
  obtain y1 where y2: "y2 = wake_waiting_parent x y1" and o: "only x (y\<lparr>proc_gate := g\<rparr>) y1" and lv: "live_pids y1 = live_pids y"
    and st: "state_of y1 x = PROC_ZOMBIE" "proc_exit_code y1 ! unat x = code" "proc_parent_pid y1 ! unat x = p"
    and no: "\<forall>fd. \<not> is_open x fd (kern y1)" and i1: "system_inv y1"
  proof -
    have g0: "system_inv (y\<lparr>proc_gate := g\<rparr>)" "x \<in> live_pids (y\<lparr>proc_gate := g\<rparr>)" "\<not> owns_file_gate x (y\<lparr>proc_gate := g\<rparr>)"
      using assms(3,4,9) by (simp_all add: owns_file_gate_def)
    show thesis by (rule exit_zombie [OF ex g0(1,2) lp g0(3)]) (rule that, use assms(5) in auto)
  qed
  have sp: "sched_view p (sch y1) = sched_view p (sch y)" using o np normalD(1) assms(8) by (simp add: only_def)
  have y1wf: "unat p < length (proc_states (sch y1))"
    using np system_inv_wf [OF i1] by (simp add: sched_wf_def normal_unat)
  have w: "waits_for WAIT_PROC x (sch y) p \<longrightarrow> state_of y2 p = PROC_READY"
    using y2 st(3) sp y1wf by (auto simp: wake_waiting_parent_def waits_view Let_def states_wake sched_view_def)
  have s2: "state_of y2 x = PROC_ZOMBIE" using y2 st by (auto simp: wake_waiting_parent_def Let_def states_wake)
  have k2: "kern y2 = kern y1" "proc_exit_code y2 = proc_exit_code y1" "proc_parent_pid y2 = proc_parent_pid y1" "live_pids y2 = live_pids y1"
    using y2 by (auto simp: wake_waiting_parent_def Let_def) (auto simp: wake_def)
  show ?thesis
  proof -
    have "state_of y' x = PROC_ZOMBIE" "waits_for WAIT_PROC x (sch y) p \<longrightarrow> state_of y' p = PROC_READY"
      "kern y' = kern y2" "proc_exit_code y' = proc_exit_code y2" "proc_parent_pid y' = proc_parent_pid y2" "live_pids y' = live_pids y2"
      using y' w s2 by (auto simp: states_wake) (auto simp: wake_def)
    then show ?thesis using inv k2 lv st no by simp
  qed
qed


lemma waitpid_result:
  assumes "ksys_waitpid rp p x y = Some (res, y')" and "gate_byte (proc_gate y) AND 1 = 0" and "system_inv y" and "p \<in> live_pids y"
    and "x \<in> live_pids y" and "state_of y x = PROC_ZOMBIE" and "proc_parent_pid y ! unat x = p" and "\<not> owns_file_gate p y"
  shows "res = Proc_Finished (Inr (proc_exit_code y ! unat x)) \<and> system_inv y' \<and> live_pids y' = live_pids y - {x}
    \<and> console_owner_pid (kern y') = (if console_owner_pid (kern y) = x then p else console_owner_pid (kern y))"
proof -
  have inv: "system_inv y'"
    by (rule with_proc_gate_inv [OF assms(1) [unfolded ksys_waitpid_def] assms(3,4) waitpid_locked_inv])
  obtain g y2 g' where f: "waitpid_locked rp p x (y\<lparr>proc_gate := g\<rparr>) = Some (res, y2)"
    and y': "y' = y2\<lparr>proc_gate := g'\<rparr> \<or> (\<exists>w. y' = wake w (y2\<lparr>proc_gate := g'\<rparr>))"
    using gate_free_cases [OF assms(1) [unfolded ksys_waitpid_def] assms(2)] by metis
  have g0: "system_inv (y\<lparr>proc_gate := g\<rparr>)" "x \<in> live_pids (y\<lparr>proc_gate := g\<rparr>)" "proc_parent_pid (y\<lparr>proc_gate := g\<rparr>) ! unat x = p"
    "state_of (y\<lparr>proc_gate := g\<rparr>) x = PROC_ZOMBIE" "\<not> owns_file_gate p (y\<lparr>proc_gate := g\<rparr>)"
    using assms(3,5-8) by (simp_all add: owns_file_gate_def)
  obtain y1 where r: "res = Proc_Finished (Inr (proc_exit_code y ! unat x))" and y2: "y2 = console_pass x p y1"
    and lv: "live_pids y1 = live_pids y - {x}" and c: "console_owner_pid (kern y1) = console_owner_pid (kern y)"
    using waitpid_zombie [OF f g0] by auto
  have "live_pids y2 = live_pids y1" "console_owner_pid (kern y2) = (if console_owner_pid (kern y1) = x then p else console_owner_pid (kern y1))"
    using y2 by (simp_all add: console_pass_def scheduler_wake_console_owner_def Let_def)
  moreover have "kern y' = kern y2" "live_pids y' = live_pids y2" using y' by auto
  ultimately show ?thesis using r inv lv c by simp
qed


section \<open>Killing a process\<close>

text \<open>Whatever the process was doing, it ends: a killed process waits for nothing.\<close>

lemma gate_queue_distinct: "queue_is g ws \<Longrightarrow> distinct ws"
  by (simp add: queue_is_def)

lemma cancel_leaves_queue:
  assumes "queue_is g (gate_queue g)" and "x < MAX_PROCS"
  shows "\<exists>g'. gate_cancel_wait x g = Some g' \<and> x \<notin> set (gate_queue g') \<and> queue_is g' (gate_queue g') \<and> gate_owner g' = gate_owner g"
proof -
  obtain g' where "gate_cancel_wait x g = Some g'" "queue_is g' (remove1 x (gate_queue g))" "gate_owner g' = gate_owner g"
    using gate_cancel_queue [OF assms] by blast
  then show ?thesis using queue_isD [of g'] gate_queue_distinct [OF assms(1)] by auto
qed

definition queues_ok :: "'r system \<Rightarrow> bool" where
  "queues_ok y \<longleftrightarrow> queue_is (file_gate y) (gate_queue (file_gate y)) \<and> queue_is (proc_gate y) (gate_queue (proc_gate y))
     \<and> (\<forall>x. x \<in> set (gate_queue (file_gate y)) \<longrightarrow> waits_for WAIT_LOCK LOCK_ID_FILE_IO (sch y) x)
     \<and> (\<forall>x. x \<in> set (gate_queue (proc_gate y)) \<longrightarrow> waits_for WAIT_LOCK LOCK_ID_PROC (sch y) x)"

lemma mark_zombie_result:
  assumes "queues_ok y" and "system_inv y" and "x \<in> live_pids y" and "state_of y x \<noteq> PROC_ZOMBIE"
  shows "\<exists>y'. proc_mark_zombie x code y = Some (True, y') \<and> state_of y' x = PROC_ZOMBIE \<and> proc_exit_code y' ! unat x = code
    \<and> x \<notin> set (gate_queue (file_gate y')) \<and> x \<notin> set (gate_queue (proc_gate y'))
    \<and> queue_is (proc_gate y') (gate_queue (proc_gate y')) \<and> gate_owner (proc_gate y') = gate_owner (proc_gate y)
    \<and> live_pids y' = live_pids y
    \<and> (\<forall>p. p = proc_parent_pid y ! unat x \<longrightarrow> p \<noteq> x \<longrightarrow> normal p \<longrightarrow> waits_for WAIT_PROC x (sch y) p \<longrightarrow> state_of y' p = PROC_READY)"
proof -
  have n: "normal x" and wf: "sched_wf (sch y)" and sz: "sized y"
    using assms(2,3) system_inv_wf inv_withD(1) by (auto simp: live_pids_def system_inv_def)
  define y1 where "y1 = set_signal x 0 (set_exit_code x code y)"
  let ?r = "wait_reasons (sch y) ! unat x" and ?o = "wait_objects (sch y) ! unat x"
  have q: "queue_is (file_gate y) (gate_queue (file_gate y))" "queue_is (proc_gate y) (gate_queue (proc_gate y))"
    "x \<in> set (gate_queue (file_gate y)) \<Longrightarrow> ?r = WAIT_LOCK \<and> ?o = LOCK_ID_FILE_IO"
    "x \<in> set (gate_queue (proc_gate y)) \<Longrightarrow> ?r = WAIT_LOCK \<and> ?o = LOCK_ID_PROC"
    using assms(1) by (auto simp: queues_ok_def waits_for_def)
  obtain gf where gf: "gate_cancel_wait x (file_gate y) = Some gf" "x \<notin> set (gate_queue gf)"
    using cancel_leaves_queue [OF q(1) normalD(1) [OF n]] by blast
  obtain gp where gp: "gate_cancel_wait x (proc_gate y) = Some gp" "x \<notin> set (gate_queue gp)" "queue_is gp (gate_queue gp)"
    "gate_owner gp = gate_owner (proc_gate y)"
    using cancel_leaves_queue [OF q(2) normalD(1) [OF n]] by blast
  have "\<exists>y2. (if ?r = WAIT_TIMER then Some (y1\<lparr>tmr := timer_free ?o (tmr y1)\<rparr>)
      else if ?r = WAIT_LOCK \<and> ?o = LOCK_ID_FILE_IO then map_option (\<lambda>g. y1\<lparr>file_gate := g\<rparr>) (gate_cancel_wait x (file_gate y1))
      else if ?r = WAIT_LOCK \<and> ?o = LOCK_ID_PROC then map_option (\<lambda>g. y1\<lparr>proc_gate := g\<rparr>) (gate_cancel_wait x (proc_gate y1))
      else Some y1) = Some y2 \<and> x \<notin> set (gate_queue (file_gate y2)) \<and> x \<notin> set (gate_queue (proc_gate y2))
      \<and> queue_is (proc_gate y2) (gate_queue (proc_gate y2)) \<and> gate_owner (proc_gate y2) = gate_owner (proc_gate y)
      \<and> sch y2 = sch y \<and> proc_parent_pid y2 = proc_parent_pid y \<and> proc_exit_code y2 = (proc_exit_code y)[unat x := code]"
    (is "\<exists>y2. ?c = Some y2 \<and> _")
    using q gf gp by (auto simp: y1_def) (auto simp: set_signal_def set_exit_code_def)
  then obtain y2 where y2: "?c = Some y2" "x \<notin> set (gate_queue (file_gate y2))" "x \<notin> set (gate_queue (proc_gate y2))"
    "queue_is (proc_gate y2) (gate_queue (proc_gate y2)) \<and> gate_owner (proc_gate y2) = gate_owner (proc_gate y)"
    "sch y2 = sch y" "proc_parent_pid y2 = proc_parent_pid y" "proc_exit_code y2 = (proc_exit_code y)[unat x := code]" by blast
  define y3 where "y3 = set_state x PROC_ZOMBIE (clear_wait x y2)"
  let ?p = "proc_parent_pid y ! unat x"
  have p3: "proc_parent_pid y3 = proc_parent_pid y" "proc_exit_code y3 = (proc_exit_code y)[unat x := code]"
    using y2(6,7) by (simp_all add: y3_def set_state_def clear_wait_def)
  have run: "proc_mark_zombie x code y = Some (True, if FIRST_TASK_PID \<le> ?p \<and> ?p < MAX_PROCS then wake_waiting_parent x y3 else y3)"
  proof -
    have e1: "sch y1 = sch y" by (simp add: y1_def)
    have "\<not> (x = IDLE_PID \<or> x \<ge> MAX_PROCS \<or> state_of y x = PROC_EMPTY)" using normal_guard [OF n] assms(3) by (simp add: live_pids_def)
    then show ?thesis
      unfolding proc_mark_zombie_def Let_def y1_def [symmetric] e1 y2(1) using assms(4) p3(1) by (simp flip: y3_def)
  qed
  have s3: "state_of y3 x = PROC_ZOMBIE" using wf n y2(5) by (simp add: y3_def proc_set_state_def proc_clear_wait_def sched_wf_def normal_unat)
  have w3: "waits_for WAIT_PROC x (sch y3) p = waits_for WAIT_PROC x (sch y) p" if "p \<noteq> x" for p
    using that y2(5) by (simp add: waits_view y3_def)
  have wk: "state_of (wake_waiting_parent x y3) x = PROC_ZOMBIE" "file_gate (wake_waiting_parent x y3) = file_gate y2"
    "proc_gate (wake_waiting_parent x y3) = proc_gate y2" "proc_exit_code (wake_waiting_parent x y3) = proc_exit_code y3"
    using s3 by (auto simp: wake_waiting_parent_def Let_def states_wake) (auto simp: wake_def y3_def set_state_def clear_wait_def)
  have rd: "state_of (wake_waiting_parent x y3) ?p = PROC_READY" if "?p \<noteq> x" "normal ?p" "waits_for WAIT_PROC x (sch y) ?p"
    using that p3 w3 [OF that(1)] wf y2(5)
    by (auto simp: wake_waiting_parent_def Let_def states_wake waits_for_def) (auto simp: y3_def proc_set_state_def proc_clear_wait_def sched_wf_def normal_unat)
  have ec: "proc_exit_code y3 ! unat x = code" using p3(2) sz n by (simp add: sized_def normal_unat)
  have g3: "file_gate y3 = file_gate y2" "proc_gate y3 = proc_gate y2" by (simp_all add: y3_def)
  have "live_pids y2 = live_pids y" by (rule live_pids_same_states) (simp add: y2(5))
  then have l3: "live_pids y3 = live_pids y" using live_pids_set_state [of "clear_wait x y2" x] n wf y2(5) assms(3) by (auto simp: y3_def)
  then have "live_pids (wake_waiting_parent x y3) = live_pids y" by (simp add: wake_waiting_parent_def Let_def)
  then show ?thesis unfolding run using s3 wk rd ec g3 l3 y2(2-4) by (auto simp: normal_def)
qed


text \<open>A release passes the gate on and takes only the first waiter out of the queue.\<close>

lemma release_queue:
  assumes "queue_is g (gate_queue g)" and "x \<notin> set (gate_queue g)" and "gate_release ap (g, s) = (b, g', s')"
  shows "x \<notin> set (gate_queue g')"
proof (cases "gate_owner g = ap")
  case True
  let ?g = "g\<lparr>gate_owner := GATE_OWNER_NONE, gate_byte := gate_byte g AND 0xFE\<rparr>"
  have q: "queue_is ?g (gate_queue g)" using assms(1) by simp
  show ?thesis
  proof (cases "gate_queue g")
    case Nil
    then show ?thesis using assms(3) True gate_dequeue_queue [OF q] queue_isD [OF q] by (auto simp: gate_release_def Let_def)
  next
    case (Cons z ws)
    then obtain g2 where "gate_dequeue ?g = Some (z, g2)" "queue_is g2 ws" using gate_dequeue_queue [OF q] by auto
    then show ?thesis using assms(2,3) True Cons queue_isD [of g2 ws] by (auto simp: gate_release_def Let_def)
  qed
qed (use assms(2,3) in \<open>auto simp: gate_release_def Let_def\<close>)

lemma kill_result:
  assumes "system_inv y" and "queues_ok y" and "gate_byte (proc_gate y) AND 1 = 0" and "p \<in> live_pids y"
    and "x \<in> live_pids y" and "state_of y x \<noteq> PROC_ZOMBIE" and "x \<noteq> gate_owner (file_gate y)"
  shows "\<exists>y'. ksys_signal p x SIG_KILL y = Some (Proc_Finished (Inr ()), y') \<and> system_inv y' \<and> live_pids y' = live_pids y
    \<and> state_of y' x = PROC_ZOMBIE \<and> proc_exit_code y' ! unat x = 0xFF
    \<and> x \<notin> set (gate_queue (file_gate y')) \<and> x \<notin> set (gate_queue (proc_gate y'))
    \<and> (\<forall>q. q = proc_parent_pid y ! unat x \<longrightarrow> q \<noteq> x \<longrightarrow> normal q \<longrightarrow> waits_for WAIT_PROC x (sch y) q \<longrightarrow> state_of y' q = PROC_READY)"
proof -
  let ?g = "(proc_gate y)\<lparr>gate_byte := gate_byte (proc_gate y) OR 1, gate_owner := p\<rparr>"
  let ?y = "y\<lparr>proc_gate := ?g\<rparr>"
  have "queues_ok ?y" using assms(2) by (simp add: queues_ok_def) (simp add: gate_queue_def)
  then obtain y1 where m: "proc_mark_zombie x 0xFF ?y = Some (True, y1)" "state_of y1 x = PROC_ZOMBIE" "proc_exit_code y1 ! unat x = 0xFF"
    "x \<notin> set (gate_queue (file_gate y1))" "x \<notin> set (gate_queue (proc_gate y1))"
    "queue_is (proc_gate y1) (gate_queue (proc_gate y1))" "gate_owner (proc_gate y1) = p" "live_pids y1 = live_pids y"
    "\<forall>q. q = proc_parent_pid y ! unat x \<longrightarrow> q \<noteq> x \<longrightarrow> normal q \<longrightarrow> waits_for WAIT_PROC x (sch y) q \<longrightarrow> state_of y1 q = PROC_READY"
    using mark_zombie_result [of ?y x "0xFF"] assms(1,5,6) by auto
  have n: "normal x" "state_of y x \<noteq> PROC_EMPTY" using assms(5) by (simp_all add: live_pids_def)
  have send: "proc_send_signal p x SIG_KILL ?y = Some (Inr (), y1)"
    using m(1) normal_guard [OF n(1)] n(2) assms(6,7) by (simp add: proc_send_signal_def)
  obtain b g' s' where rel: "gate_release p (proc_gate y1, sch y1) = (b, g', s')" by (metis prod_cases3)
  have sg: "ksys_signal p x SIG_KILL y = Some (Proc_Finished (Inr ()), y1\<lparr>proc_gate := g', sch := s'\<rparr>)"
    using send rel assms(3) by (simp add: ksys_signal_def with_proc_gate_def gate_acquire_def Let_def)
  have inv: "system_inv (y1\<lparr>proc_gate := g', sch := s'\<rparr>)" by (rule ksys_signal_inv [OF sg assms(1,4)])
  have s': "s' = sch y1 \<or> (\<exists>z. s' = proc_wake z (sch y1))"
    using rel by (auto simp: gate_release_def Let_def split: if_splits option.splits)
  have st: "proc_states s' ! unat z = state_of y1 z" if "state_of y1 z = PROC_ZOMBIE \<or> state_of y1 z = PROC_READY" for z :: neox_pid_t
    using s' that by (auto simp: states_wake)
  have lv: "live_pids (y1\<lparr>proc_gate := g', sch := s'\<rparr>) = live_pids y" using s'
  proof
    assume "s' = sch y1"
    then show ?thesis using m(8) by simp
  next
    assume "\<exists>z. s' = proc_wake z (sch y1)"
    then obtain z where "s' = proc_wake z (sch y1)" ..
    then have "y1\<lparr>proc_gate := g', sch := s'\<rparr> = wake z (y1\<lparr>proc_gate := g'\<rparr>)" by (simp add: wake_def)
    then show ?thesis using m(8) by simp
  qed
  have q: "q = proc_parent_pid y ! unat x \<longrightarrow> q \<noteq> x \<longrightarrow> normal q \<longrightarrow> waits_for WAIT_PROC x (sch y) q \<longrightarrow> proc_states s' ! unat q = PROC_READY" for q
    using m(9) st by simp
  show ?thesis
    by (intro exI [of _ "y1\<lparr>proc_gate := g', sch := s'\<rparr>"] conjI)
      (use sg inv lv st m(2-5) release_queue [OF m(6,5) rel] q in simp_all)
qed


end
