(* ===== verification/Kernel_System.thy ===== *)
theory Kernel_System
  imports Kernel_Exit
begin

text \<open>
  The system as a whole: what a running process, the scheduler and the idle task can do next,
  as one step relation over the state of \<open>Kernel_Proc\<close>. Every step keeps the invariant of the
  process table and of the descriptors.
\<close>

section \<open>File calls\<close>

text \<open>What a file call keeps beside the descriptors of other processes.\<close>

definition keeps :: "'r kernel \<Rightarrow> 'r kernel \<Rightarrow> bool" where
  "keeps k k' \<longleftrightarrow> (devices_bound k \<longrightarrow> devices_bound k') \<and> proc_flags k' = proc_flags k
     \<and> length (proc_signal_pending k') = length (proc_signal_pending k)"

lemma keeps_refl [simp]: "keeps k k"
  by (simp add: keeps_def)

lemma keeps_trans [trans]: "keeps k k' \<Longrightarrow> keeps k' k'' \<Longrightarrow> keeps k k''"
  by (simp add: keeps_def)

lemma fd_op_keeps: "fd_op S k k' \<Longrightarrow> keeps k k'"
  by (simp add: fd_op_def keeps_def same_control_def)

lemma keeps_updates:
  "keeps k (k\<lparr>rp_state := r\<rparr>)" "keeps k (k\<lparr>console_owner_pid := c\<rparr>)" "keeps k (upd_pipe i g k)" "keeps k (set_slot_obj j ob fl k)"
  "keeps k (k\<lparr>proc_signal_pending := (proc_signal_pending k)[n := v]\<rparr>)"
  by (simp_all add: keeps_def upd_pipe_def set_slot_obj_def devices_bound_def)

lemma keeps_upd_open: "(\<And>obj. device_bound obj \<Longrightarrow> device_bound (f obj)) \<Longrightarrow> keeps k (upd_open x f k)"
  using devices_bound_upd_open [of k f x] by (simp add: keeps_def) (simp add: upd_open_def)

lemma keeps_routines:
  "keeps k (fd_attach task fd ob fl k)" "keeps k (fd_free_open x k)" "keeps k (fd_init_open x OBJ_PIPE fl k)"
  "keeps k (pipe_endpoint_init x i m k)" "keeps k (pipe_close_endpoint x k)" "keeps k (fd_detach j k)"
proof -
  show "keeps k (fd_free_open x k)" "keeps k (fd_init_open x OBJ_PIPE fl k)" "keeps k (pipe_endpoint_init x i m k)"
    unfolding fd_free_open_def fd_init_open_def pipe_endpoint_init_def by (rule keeps_upd_open; simp add: device_bound_def)+
  show "keeps k (fd_attach task fd ob fl k)" "keeps k (fd_detach j k)" unfolding fd_attach_def fd_detach_def
    by (rule keeps_trans [OF keeps_updates(4) keeps_upd_open]; simp add: device_bound_def)+
  show "keeps k (pipe_close_endpoint x k)"
    using devices_bound_close(3) [of k x] same_control_routines(3) [of k x k] by (simp add: keeps_def same_control_def)
qed

lemma open_object_keeps:
  assumes "open_object_fd rp task request ty flags k = Some (res, k')" and "ty \<noteq> OBJ_DEVICE"
  shows "keeps k k'"
proof -
  have up: "keeps k1 (upd_open x (\<lambda>obj. obj\<lparr>open_file_handle := h, open_type := ty, open_flags := flags, open_dev := d\<rparr>) k1)" for k1 x h d
    by (rule keeps_upd_open) (use assms(2) in \<open>simp add: device_bound_def\<close>)
  have rp: "keeps k k1" if "rp_fs_exec rp task request k = Some (reply, k1)" for reply k1
    using rp_fs_exec_fields [OF that] keeps_updates(1) by auto
  show ?thesis
    using assms(1)
    by (auto simp: open_object_fd_def Let_def bind_eq_Some_conv split: sum.splits if_splits
        intro: keeps_routines keeps_trans [OF rp keeps_routines(2)] keeps_trans [OF rp keeps_trans [OF up keeps_routines(1)]])
qed

lemma fd_dup_keeps: "keeps k (snd (fd_dup task fd k))"
  by (auto simp: fd_dup_def keeps_routines split: sum.split)

lemma fd_close_current_keeps: "keeps k (snd (fd_close_current task fd k))"
  by (auto simp: fd_close_current_def Let_def keeps_updates intro!: keeps_trans [OF keeps_updates(4) keeps_upd_open])
    (simp add: device_bound_def)

lemma fd_dup2_keeps: "keeps k (snd (fd_dup2 task fd fd' k))"
  using keeps_trans [OF fd_close_current_keeps [of k task fd'] keeps_routines(1)] fd_close_current_keeps [of k task fd']
  by (auto simp: fd_dup2_def Let_def case_prod_beta split: sum.split)

lemma pipe_alloc_keeps: "keeps k (snd (pipe_alloc k))"
  by (auto simp: pipe_alloc_def keeps_updates split: option.split)

lemma pipe_alloc_pair_keeps: "keeps k (snd (pipe_alloc_pair k))"
proof (cases "fd_alloc_open k")
  case (Inr r)
  define k1 where "k1 = fd_init_open r OBJ_PIPE FD_FLAG_READ k"
  have k1: "keeps k k1" unfolding k1_def by (rule keeps_routines)
  show ?thesis
  proof (cases "fd_alloc_open k1")
    case (Inl e)
    then show ?thesis using Inr keeps_trans [OF k1 keeps_routines(2)] by (simp add: pipe_alloc_pair_def Let_def k1_def)
  next
    case w: (Inr w)
    define k2 where "k2 = fd_init_open w OBJ_PIPE FD_FLAG_WRITE k1"
    have k2: "keeps k k2" unfolding k2_def by (rule keeps_trans [OF k1 keeps_routines(3)])
    obtain res k3 where a: "pipe_alloc k2 = (res, k3)" by (cases "pipe_alloc k2")
    have k3: "keeps k k3" using keeps_trans [OF k2 pipe_alloc_keeps] a by (metis snd_conv)
    show ?thesis
      using Inr w a keeps_trans [OF k3 keeps_trans [OF keeps_routines(2) keeps_routines(2)]]
        keeps_trans [OF k3 keeps_trans [OF keeps_routines(4) keeps_routines(4)]]
      by (cases res) (simp_all add: pipe_alloc_pair_def Let_def flip: k1_def k2_def)
  qed
qed (simp add: pipe_alloc_pair_def)

lemma pipe_release_pair_keeps: "keeps k (pipe_release_pair r w k)"
proof -
  have c: "keeps k1 (fd_free_open x (pipe_close_endpoint x k1))" for k1 x by (rule keeps_trans [OF keeps_routines(5) keeps_routines(2)])
  show ?thesis unfolding pipe_release_pair_def Let_def by (rule keeps_trans [OF c c])
qed

lemma pipe_create_keeps: "keeps k (snd (pipe_create task k))"
proof -
  obtain res k1 where a: "pipe_alloc_pair k = (res, k1)" by (cases "pipe_alloc_pair k")
  have k1: "keeps k k1" using pipe_alloc_pair_keeps [of k] a by simp
  note at = keeps_trans [OF k1 keeps_routines(1)]
  show ?thesis
    using k1 keeps_trans [OF k1 pipe_release_pair_keeps] keeps_trans [OF at keeps_routines(1)]
      keeps_trans [OF keeps_trans [OF at fd_close_current_keeps] pipe_release_pair_keeps]
    by (auto simp: pipe_create_def a Let_def split: sum.split)
qed

lemma transfers_devices: "transfers k k' \<Longrightarrow> devices_bound k' = devices_bound k"
  by (simp add: transfers_def devices_bound_def)


lemma pipe_transfer_keeps: "keeps k (snd (pipe_read x n k))" "keeps k (snd (pipe_write x data k))"
  by (auto simp: pipe_read_def pipe_write_def Let_def case_prod_beta keeps_updates split: sum.split)

lemma console_keeps:
  "console_read rp task n k = Some (r, k') \<Longrightarrow> keeps k k'" "console_write rp data k = Some (r', k') \<Longrightarrow> keeps k k'"
  by (auto simp: console_read_def console_ready_read_def console_write_def bind_eq_Some_conv keeps_updates split: if_splits
      intro: keeps_trans [OF keeps_updates(2) keeps_updates(1)])

lemma rp_keeps: "rp_fs_exec rp task q k = Some (reply, k') \<Longrightarrow> keeps k k'"
  using keeps_updates(1) by (auto dest!: rp_fs_exec_fields)

lemma pipe_keeps: "pipe_read x n k = (r, k') \<Longrightarrow> keeps k k'" "pipe_write x data k = (r', k') \<Longrightarrow> keeps k k'"
  using pipe_transfer_keeps(1) [of k x n] pipe_transfer_keeps(2) [of k x data] by simp_all

lemma fd_read_keeps: "fd_read rp task fd n k = Some (r, k') \<Longrightarrow> keeps k k'"
  by (cases "fd_resolve_rw task FD_FLAG_READ fd k")
    (auto simp: fd_read_def dev_read_def split: if_splits dest: console_keeps(1) pipe_keeps(1))

lemma fd_write_keeps: "fd_write rp task fd data k = Some (r, k') \<Longrightarrow> keeps k k'"
  by (cases "fd_resolve_rw task FD_FLAG_WRITE fd k")
    (auto simp: fd_write_def dev_write_def split: if_splits dest: console_keeps(2) pipe_keeps(2))

lemma ksys_read_keeps: "ksys_read rp task fd n k = Some (r, k') \<Longrightarrow> keeps k k'"
  by (cases "fd_resolve_rw task FD_FLAG_READ fd k")
    (auto simp: ksys_read_def Let_def bind_eq_Some_conv split: if_splits dest: rp_keeps fd_read_keeps)

lemma ksys_write_keeps: "ksys_write rp task fd data k = Some (r, k') \<Longrightarrow> keeps k k'"
  by (cases "fd_resolve_rw task FD_FLAG_WRITE fd k")
    (auto simp: ksys_write_def Let_def bind_eq_Some_conv split: if_splits dest: rp_keeps fd_write_keeps)

lemma exec_keeps:
  "ksys_fs_exec_handle rp task res q k = Some (r, k') \<Longrightarrow> keeps k k'"
  "ksys_fs_exec_no_handle rp task q' k = Some (r', k') \<Longrightarrow> keeps k k'"
  by (auto simp: ksys_fs_exec_handle_def ksys_fs_exec_no_handle_def bind_eq_Some_conv split: sum.splits dest: rp_keeps)

lemmas fs_call_defs = ksys_seek_def ksys_tell_def ksys_readdir_def ksys_load_file_to_memory_def ksys_save_memory_to_file_def

text \<open>The calls of a process on its own descriptors; copying between processes is part of spawning.\<close>

fun own_call :: "kcall \<Rightarrow> bool" where
  "own_call (C_Clone _ _ _) = False"
| "own_call _ = True"

lemma other_call_keeps:
  assumes "other_call rp q c k = Some k'" and "kernel_inv k" and "devices_bound k" and "own_call c"
  shows "keeps k k'"
  using assms fd_dup_keeps [of k] fd_dup2_keeps [of k] pipe_create_keeps [of k]
  by (cases c) (auto simp: other_call_def ksys_open_def ksys_opendir_def fd_close_def ksys_closedir_def fs_call_defs
      split: sum.splits dest: exec_keeps open_object_keeps ksys_read_keeps ksys_write_keeps fd_op_keeps [OF fd_close_pid_op] fd_op_keeps [OF fd_close_process_op])

lemma own_call_inv:
  assumes "other_call rp q c (kern y) = Some k" and "system_inv y" and "own_call c" and "q \<in> live_pids y"
  shows "system_inv (y\<lparr>kern := k\<rparr>)"
proof -
  have inv: "inv_with (live_pids y) y" and q: "q < MAX_PROCS" using assms(2,4) normalD(1) by (auto simp: system_inv_def live_pids_def)
  note i = inv_withD [OF inv]
  have ok: "call_ok z (q, c)" if "z \<noteq> q" for z using that q assms(3) by (cases c) (auto simp: call_ok_def)
  have v: "kernel_inv k \<and> same_view z (kern y) k" if "z < MAX_PROCS" "z \<noteq> q" for z
    by (rule other_call_view [OF assms(1) i(3) ok [OF that(2)] that(1)])
  have "IDLE_PID \<noteq> q" using assms(4) by (auto simp: live_pids_def normal_def)
  then have k: "kernel_inv k" using v [of IDLE_PID] by simp
  have kp: "keeps (kern y) k" by (rule other_call_keeps [OF assms(1) i(3,4) assms(3)])
  have "\<not> is_open x fd k" if "normal x" "x \<notin> live_pids y" for x fd
  proof -
    have "x \<noteq> q" using that(2) assms(4) by auto
    then have "same_view x (kern y) k" using v normalD(1) [OF that(1)] by simp
    then show ?thesis using same_view_is_open i(6) [OF that] by blast
  qed
  then show ?thesis using i k kp by (simp add: system_inv_def inv_with_def sized_def keeps_def)
qed

section \<open>Steps\<close>

text \<open>A process makes a call while it runs.\<close>

definition runs :: "neox_pid_t \<Rightarrow> 'r system \<Rightarrow> bool" where
  "runs p y \<longleftrightarrow> normal p \<and> state_of y p = PROC_RUNNING"

lemma runs_live: "runs p y \<Longrightarrow> p \<in> live_pids y"
  by (simp add: runs_def live_pids_def)

inductive system_step :: "'r rp2350 \<Rightarrow> 'r system \<Rightarrow> 'r system \<Rightarrow> bool" for rp where
  spawn: "\<lbrakk>runs p y; ksys_spawn_resident rp p entry args y = Some (res, y')\<rbrakk> \<Longrightarrow> system_step rp y y'"
| exit: "\<lbrakk>runs p y; ksys_exit rp p code y = Some (res, y')\<rbrakk> \<Longrightarrow> system_step rp y y'"
| waitpid: "\<lbrakk>runs p y; ksys_waitpid rp p x y = Some (res, y')\<rbrakk> \<Longrightarrow> system_step rp y y'"
| signal: "\<lbrakk>runs p y; ksys_signal p x sig y = Some (res, y')\<rbrakk> \<Longrightarrow> system_step rp y y'"
| launch_line: "\<lbrakk>runs p y; ksys_get_launch_line p n y = Some (res, y')\<rbrakk> \<Longrightarrow> system_step rp y y'"
| own_call: "\<lbrakk>runs p y; own_call c; other_call rp p c (kern y) = Some k\<rbrakk> \<Longrightarrow> system_step rp y (y\<lparr>kern := k\<rparr>)"
| block: "runs p y \<Longrightarrow> system_step rp y (y\<lparr>sch := proc_set_wait p reason object (sch y)\<rparr>)"
| wake: "system_step rp y (y\<lparr>sch := snd (scheduler_wake_one reason object (sch y))\<rparr>)"
| console: "system_step rp y (scheduler_wake_console_owner y)"
| sleep: "\<lbrakk>runs p y; ksys_sleep p d (tmr y, sch y) = (r, t, s)\<rbrakk> \<Longrightarrow> system_step rp y (y\<lparr>tmr := t, sch := s\<rparr>)"
| tick: "system_step rp y (y\<lparr>tmr := scheduler_tick (tmr y)\<rparr>)"
| timers: "scheduler_wake_timers (tmr y, sch y) = (t, s) \<Longrightarrow> system_step rp y (y\<lparr>tmr := t, sch := s\<rparr>)"
| signals: "scheduler_apply_pending_signals y = Some y' \<Longrightarrow> system_step rp y y'"
| switch: "p < MAX_PROCS \<Longrightarrow> system_step rp y (y\<lparr>sch := sched_step (Switch p) (sch y)\<rparr>)"
| reap: "proc_reap_zombies rp IDLE_PID y = Some (b, y') \<Longrightarrow> system_step rp y y'"


section \<open>The invariant\<close>

text \<open>The scheduler neither empties a slot nor fills one.\<close>

definition same_slots :: "sched \<Rightarrow> sched \<Rightarrow> bool" where
  "same_slots s s' \<longleftrightarrow> sched_wf s' \<and>
     (\<forall>z. normal z \<longrightarrow> (proc_states s' ! unat z = PROC_EMPTY) = (proc_states s ! unat z = PROC_EMPTY))"

lemma same_slots_refl [simp]: "same_slots s s = sched_wf s"
  by (simp add: same_slots_def)

lemma same_slots_trans [trans]: "same_slots s s' \<Longrightarrow> same_slots s' s'' \<Longrightarrow> same_slots s s''"
  by (simp add: same_slots_def)

lemma same_slots_wake: "sched_wf s \<Longrightarrow> same_slots s (proc_wake x s)"
  by (auto simp: same_slots_def states_wake)

lemma same_slots_wake_one: "sched_wf s \<Longrightarrow> same_slots s (snd (scheduler_wake_one r ob s))"
  by (auto simp: scheduler_wake_one_def same_slots_wake split: option.split)

lemma same_slots_wake_timers:
  "sched_wf (snd ts) \<Longrightarrow> same_slots (snd ts) (snd (fold wake_timer js ts))"
proof (induction js arbitrary: ts)
  case (Cons j js)
  have "same_slots (snd ts) (snd (wake_timer j ts))" using Cons.prems
    by (auto simp: wake_timer_def Let_def case_prod_beta same_slots_wake)
  then show ?case using Cons.IH [of "wake_timer j ts"] by (auto simp: same_slots_def)
qed simp

lemma same_slots_save:
  assumes "sched_wf s" shows "same_slots s (sched_save p s)"
proof -
  have "(proc_states (sched_save p s) ! unat z = PROC_EMPTY) = (proc_states s ! unat z = PROC_EMPTY)" if "normal z" for z
    using assms that by (cases "unat z = unat p") (auto simp: sched_save_def proc_set_state_def sched_wf_def normal_unat)
  then show ?thesis using assms by (simp add: same_slots_def)
qed

lemma same_slots_pick:
  assumes "sched_wf s" shows "same_slots s (sched_switch_context s)"
proof -
  let ?x = "sched_pick_next s"
  have "(proc_states (sched_switch_context s) ! unat z = PROC_EMPTY) = (proc_states s ! unat z = PROC_EMPTY)" if "normal z" for z
    using assms that sched_pick_cases [OF assms]
    by (cases "unat z = unat ?x") (auto simp: sched_switch_context_def proc_set_running_def Let_def runnable_def sched_wf_def normal_unat)
  then show ?thesis using sched_switch_facts(1) [OF assms] by (simp add: same_slots_def)
qed

lemma same_slots_switch: "sched_wf s \<Longrightarrow> same_slots s (sched_step (Switch p) s)"
  using same_slots_trans [OF same_slots_save same_slots_pick] by (simp add: same_slots_save same_slots_def)

lemma system_inv_same_slots: "system_inv y \<Longrightarrow> same_slots (sch y) s \<Longrightarrow> system_inv (y\<lparr>sch := s\<rparr>)"
  by (rule system_inv_sched) (auto simp: same_slots_def)

lemma ksys_sleep_sched: "ksys_sleep p d (t, s) = (r, t', s') \<Longrightarrow> s' = s \<or> (\<exists>i. s' = proc_set_wait p WAIT_TIMER i s)"
  by (auto simp: ksys_sleep_def split: if_splits prod.splits option.splits bool.splits)

lemma launch_line_inv:
  "ksys_get_launch_line p n y = Some (res, y') \<Longrightarrow> system_inv y \<Longrightarrow> p \<in> live_pids y \<Longrightarrow> system_inv y'"
  unfolding ksys_get_launch_line_def by (erule with_proc_gate_inv) auto

theorem system_step_inv:
  assumes "system_step rp y y'" and "system_inv y"
  shows "system_inv y'"
  using assms
proof (induction rule: system_step.induct)
  case (spawn p y entry args res y')
  then show ?case unfolding ksys_spawn_resident_def by (metis with_proc_gate_inv spawn_locked_inv runs_live)
next
  case (waitpid p y x res y')
  then show ?case unfolding ksys_waitpid_def by (metis with_proc_gate_inv waitpid_locked_inv runs_live)
next
  case (wake y reason object)
  have wf: "sched_wf (sch y)" using wake inv_withD(2) by (auto simp: system_inv_def)
  show ?case by (rule system_inv_same_slots [OF wake same_slots_wake_one [OF wf]])
next
  case (console y)
  then show ?case by (simp add: scheduler_wake_console_owner_def Let_def)
next
  case (sleep p y d r t s)
  have "system_inv (y\<lparr>tmr := t\<rparr>)" "p \<in> live_pids (y\<lparr>tmr := t\<rparr>)" using sleep by (simp_all add: runs_live)
  from system_inv_set_wait [OF this] this(1) show ?case using ksys_sleep_sched [OF sleep(2)] by auto
next
  case (timers y t s)
  have wf: "sched_wf (sch y)" using timers inv_withD(2) by (auto simp: system_inv_def)
  have "same_slots (sch y) s"
    using same_slots_wake_timers [of "(tmr y, sch y)" "[0, 1, 2, 3, 4, 5, 6, 7]"] timers(1) wf
    by (simp add: scheduler_wake_timers_def del: fold_simps)
  then show ?case using system_inv_same_slots [of "y\<lparr>tmr := t\<rparr>" s] timers(2) by simp
next
  case (switch p y)
  have wf: "sched_wf (sch y)" using switch inv_withD(2) by (auto simp: system_inv_def)
  show ?case by (rule system_inv_same_slots [OF switch(2) same_slots_switch [OF wf]])
qed (auto dest: runs_live intro: ksys_exit_inv ksys_signal_inv launch_line_inv own_call_inv system_inv_set_wait scheduler_signals_inv proc_reap_zombies_inv)


section \<open>No exit code is lost\<close>

text \<open>A zombie that is still there keeps its exit code and its parent.\<close>

definition stays :: "neox_pid_t \<Rightarrow> 'r system \<Rightarrow> 'r system \<Rightarrow> bool" where
  "stays x y y' \<longleftrightarrow> (state_of y x = PROC_ZOMBIE \<longrightarrow> state_of y' x = PROC_ZOMBIE
     \<and> proc_exit_code y' ! unat x = proc_exit_code y ! unat x \<and> proc_parent_pid y' ! unat x = proc_parent_pid y ! unat x)"

lemma stays_refl [simp]: "stays x y y"
  by (simp add: stays_def)

lemma stays_trans [trans]: "stays x y y' \<Longrightarrow> stays x y' y'' \<Longrightarrow> stays x y y''"
  by (auto simp: stays_def)

lemma stays_fields [simp]:
  "stays x y (y'\<lparr>proc_gate := g\<rparr>) = stays x y y'" "stays x (y\<lparr>proc_gate := g\<rparr>) y' = stays x y y'"
  "stays x y (y'\<lparr>file_gate := g\<rparr>) = stays x y y'" "stays x y (y'\<lparr>tmr := t\<rparr>) = stays x y y'"
  "stays x y (y'\<lparr>kern := k\<rparr>) = stays x y y'" "stays x y (set_signal z v y') = stays x y y'"
  "stays x y (clear_wait z y') = stays x y y'"
  by (auto simp: stays_def set_signal_def clear_wait_def proc_clear_wait_def)

lemma stays_wake: "stays x y y' \<Longrightarrow> stays x y (wake z y')"
  by (auto simp: stays_def states_wake) (auto simp: wake_def)

lemma stays_other:
  assumes "z \<noteq> x"
  shows "stays x y (set_state z st y') = stays x y y'" and "stays x y (set_exit_code z v y') = stays x y y'"
  using assms by (auto simp: stays_def proc_set_state_def word_unat_eq_iff) (auto simp: set_state_def set_exit_code_def)

lemma stays_only: "only z y y' \<Longrightarrow> x \<noteq> z \<Longrightarrow> x < MAX_PROCS \<Longrightarrow> stays x y y'"
  by (auto simp: stays_def only_def proc_view_def sched_view_def Let_def)

lemma stays_sched:
  "(proc_states s ! unat x = PROC_ZOMBIE \<longleftrightarrow> state_of y x = PROC_ZOMBIE) \<Longrightarrow> stays x y (y\<lparr>sch := s\<rparr>)"
  by (auto simp: stays_def)

lemma stays_wakes [intro]:
  "stays x y y' \<Longrightarrow> stays x y (wake_waiting_parent z y')" "stays x y y' \<Longrightarrow> stays x y (console_pass p q y')"
  by (simp_all add: wake_waiting_parent_def console_pass_def scheduler_wake_console_owner_def Let_def stays_wake)

lemma with_proc_gate_stays:
  assumes "with_proc_gate ap busy f y = Some (res, y')" and "ap \<noteq> x"
    and "\<And>g y1. f (y\<lparr>proc_gate := g\<rparr>) = Some (res, y1) \<Longrightarrow> stays x (y\<lparr>proc_gate := g\<rparr>) y1"
  shows "stays x y y'"
  using assms(1)
proof (cases rule: with_proc_gate_cases)
  case (Waiting g)
  have "stays x (y\<lparr>proc_gate := g\<rparr>) (y\<lparr>proc_gate := g, sch := proc_set_wait ap WAIT_LOCK LOCK_ID_PROC (sch y)\<rparr>)"
    using assms(2) by (simp add: stays_def proc_set_wait_def proc_set_state_def word_unat_eq_iff)
  then show ?thesis using Waiting by simp
next
  case (Acquired g y1 g')
  then show ?thesis using assms(3) [OF Acquired(3)] by (auto intro: stays_wake)
qed simp

lemma terminate_only:
  assumes "proc_terminate rp ap z code y = Some y'" and "system_inv y"
  shows "only z y y'"
proof (cases "normal z \<and> \<not> owns_file_gate ap y")
  case True
  then obtain k where k: "fd_op {z} (kern y) k" "y' = clear_process_slot z (set_exit_code z code (y\<lparr>kern := k\<rparr>))"
    using proc_terminate_result [OF assms(1) assms(2) [unfolded system_inv_def]] by metis
  have "only z y (y\<lparr>kern := k\<rparr>)" by (rule only_kern [OF only_refl k(1)])
  then show ?thesis by (simp add: k(2))
next
  case False
  then have "y' = y \<or> y' = set_exit_code z code y"
    using assms(1) by (auto simp: proc_terminate_def Let_def normal_iff_guard owns_file_gate_def set_exit_code_def split: if_splits)
  then show ?thesis by auto
qed


lemma exit_stays:
  assumes "proc_exit_lifecycle rp ap z code y = Some y'" and "system_inv y" and "z \<in> live_pids y" and "x \<noteq> z" and "x < MAX_PROCS"
  shows "stays x y y'"
proof -
  have n: "normal z" and inv: "inv_with (live_pids y) y" using assms(2,3) by (simp_all add: live_pids_def system_inv_def)
  let ?c = "set_exit_code z code y"
  have "proc_terminate rp ap z code ?c = Some y' \<or> (\<exists>r k. fd_close_process rp ap z (kern y) = Some (r, k) \<and>
      (proc_terminate rp ap z code (?c\<lparr>kern := k\<rparr>) = Some y'
       \<or> y' = wake_waiting_parent z (set_state z PROC_ZOMBIE (set_signal z 0 (clear_wait z (?c\<lparr>kern := k\<rparr>))))))"
  proof (cases "fd_close_process rp ap z (kern y)")
    case None
    then show ?thesis using assms(1) normal_guard [OF n] by (auto simp: proc_exit_lifecycle_def Let_def split: if_splits)
  next
    case (Some rk)
    then show ?thesis using assms(1) normal_guard [OF n]
      by (cases rk; cases "fst rk") (auto simp: proc_exit_lifecycle_def Let_def split: if_splits)
  qed
  then show ?thesis
  proof (elim disjE exE conjE)
    assume t: "proc_terminate rp ap z code ?c = Some y'"
    have "stays x ?c y'" by (rule stays_only [OF terminate_only [OF t] assms(4,5)]) (use assms(2) in simp)
    moreover have "stays x y ?c" using assms(4) by (simp add: stays_other)
    ultimately show ?thesis by (rule stays_trans [rotated])
  next
    fix r k assume k: "fd_close_process rp ap z (kern y) = Some (r, k)" and t: "proc_terminate rp ap z code (?c\<lparr>kern := k\<rparr>) = Some y'"
    have eq: "?c\<lparr>kern := k\<rparr> = set_exit_code z code (y\<lparr>kern := k\<rparr>)" by (simp add: set_exit_code_def)
    have "system_inv (?c\<lparr>kern := k\<rparr>)" using close_process_inv(2) [OF inv n k] by (simp add: eq system_inv_def)
    then have "stays x (?c\<lparr>kern := k\<rparr>) y'" by (rule stays_only [OF terminate_only [OF t] assms(4,5)])
    moreover have "stays x y (?c\<lparr>kern := k\<rparr>)" using assms(4) by (simp add: stays_other)
    ultimately show ?thesis by (rule stays_trans [rotated])
  next
    fix r k assume "y' = wake_waiting_parent z (set_state z PROC_ZOMBIE (set_signal z 0 (clear_wait z (?c\<lparr>kern := k\<rparr>))))"
    then show ?thesis using assms(4) by (auto intro!: stays_wakes simp: stays_other)
  qed
qed

lemma waitpid_stays:
  assumes "waitpid_locked rp ap z y = Some (res, y')" and "system_inv y" and "x < MAX_PROCS" and "ap \<noteq> x"
  shows "stays x y y' \<or> z = x \<and> proc_parent_pid y ! unat x = ap \<and> res = Proc_Finished (Inr (proc_exit_code y ! unat x))"
proof (cases "normal z \<and> proc_parent_pid y ! unat z = ap \<and> state_of y z = PROC_ZOMBIE")
  case True
  then obtain y1 where t: "proc_terminate rp ap z (proc_exit_code y ! unat z) y = Some y1"
    and r: "res = Proc_Finished (Inr (proc_exit_code y ! unat z))" "y' = console_pass z ap y1"
    using assms(1) normal_guard [of z] by (auto simp: waitpid_locked_def proc_reap_waited_child_def Let_def bind_eq_Some_conv)
  show ?thesis
  proof (cases "z = x")
    case False
    then have "stays x y y1" using stays_only [OF terminate_only [OF t assms(2)] _ assms(3)] by blast
    then show ?thesis using r(2) by auto
  qed (use r True in simp)
next
  case False
  have "stays x y (y\<lparr>sch := proc_set_wait ap WAIT_PROC z (sch y)\<rparr>)"
    using assms(4) by (simp add: stays_def proc_set_wait_def proc_set_state_def word_unat_eq_iff)
  moreover have "y' = y \<or> y' = y\<lparr>sch := proc_set_wait ap WAIT_PROC z (sch y)\<rparr>"
    using assms(1) False normal_iff_guard [of z] by (auto simp: waitpid_locked_def split: if_splits)
  ultimately show ?thesis by auto
qed

lemma mark_zombie_stays:
  assumes "proc_mark_zombie z code y = Some (ok, y')" and "normal x"
  shows "stays x y y'"
proof (cases "normal z \<and> state_of y z \<noteq> PROC_EMPTY \<and> state_of y z \<noteq> PROC_ZOMBIE")
  case False
  then have "y' = y" using assms(1) by (auto simp: proc_mark_zombie_def normal_iff_guard split: if_splits)
  then show ?thesis by simp
next
  case True
  define y1 where "y1 = set_signal z 0 (set_exit_code z code y)"
  obtain y2 where y2: "y2 = y1 \<or> (\<exists>t. y2 = y1\<lparr>tmr := t\<rparr>) \<or> (\<exists>g. y2 = y1\<lparr>file_gate := g\<rparr>) \<or> (\<exists>g. y2 = y1\<lparr>proc_gate := g\<rparr>)"
    and y': "y' = set_state z PROC_ZOMBIE (clear_wait z y2) \<or> y' = wake_waiting_parent z (set_state z PROC_ZOMBIE (clear_wait z y2))"
    using assms(1) True normal_guard [of z]
    by (auto simp: proc_mark_zombie_def Let_def bind_eq_Some_conv y1_def split: if_splits)
  show ?thesis
  proof (cases "z = x")
    case True
    then show ?thesis using \<open>normal z \<and> _\<close> by (simp add: stays_def)
  next
    case False
    then have "stays x y y2" using y2 by (auto simp: y1_def stays_other)
    then have "stays x y (set_state z PROC_ZOMBIE (clear_wait z y2))" using False by (simp add: stays_other)
    then show ?thesis using y' by auto
  qed
qed

lemma send_signal_stays: "proc_send_signal ap z sig y = Some (r, y') \<Longrightarrow> normal x \<Longrightarrow> stays x y y'"
  by (auto simp: proc_send_signal_def bind_eq_Some_conv split: if_splits dest: mark_zombie_stays)

lemma apply_signal_stays:
  assumes "proc_apply_scheduler_signal z y = Some (b, y')" and "normal x"
  shows "stays x y y'"
proof -
  have st: "stays x y (set_state z st (clear_wait z (set_signal z 0 y)))" if "state_of y z \<noteq> PROC_ZOMBIE" for st
  proof (cases "z = x")
    case True
    then show ?thesis using that by (simp add: stays_def)
  qed (simp add: stays_other)
  show ?thesis
    using assms st [of PROC_STOPPED] st [of PROC_READY]
    by (auto simp: proc_apply_scheduler_signal_def Let_def bind_eq_Some_conv split: if_splits dest: mark_zombie_stays intro: stays_wake)
qed

lemma apply_signals_stays: "apply_signals zs y = Some y' \<Longrightarrow> normal x \<Longrightarrow> stays x y y'"
  by (induction zs arbitrary: y) (auto simp: bind_eq_Some_conv dest: apply_signal_stays intro: stays_trans)

lemma reap_stays:
  assumes "proc_reap_zombies rp ap y = Some (b, y')" and "system_inv y" and "normal x" and "live_parent x y"
  shows "stays x y y'"
proof (cases "y' = y")
  case False
  then obtain z where z: "scan_table (orphan_zombie y) [1, 2, 3, 4, 5, 6, 7] 1 = Some z"
    and t: "proc_terminate rp ap z (proc_exit_code y ! unat z) y = Some y'"
    using assms(1) by (auto simp: proc_reap_zombies_def bind_eq_Some_conv simp del: scan_table.simps split: option.splits if_splits)
  have "1 \<le> unat z \<and> unat z < 8 \<and> orphan_zombie y ([1, 2, 3, 4, 5, 6, 7] ! (unat z - 1))"
    using scan_table_Some [OF z] by simp
  moreover have "[1, 2, 3, 4, 5, 6, 7] ! (unat z - 1) = z" if "1 \<le> unat z" "unat z < 8"
  proof -
    have "unat z \<in> {1, 2, 3, 4, 5, 6, 7}" using that by auto
    then show ?thesis by (auto simp: word_unat_eq_iff)
  qed
  ultimately have "x \<noteq> z" using assms(4) by (auto simp: orphan_zombie_def)
  then show ?thesis using stays_only [OF terminate_only [OF t assms(2)] _ normalD(1) [OF assms(3)]] by simp
qed simp


lemma set_wait_stays: "p \<noteq> x \<Longrightarrow> stays x y (y\<lparr>sch := proc_set_wait p r ob (sch y)\<rparr>)"
  by (simp add: stays_def proc_set_wait_def proc_set_state_def word_unat_eq_iff)

lemma wake_zombie: "proc_states s ! unat x = PROC_ZOMBIE \<Longrightarrow> proc_states (proc_wake z s) ! unat x = PROC_ZOMBIE"
  for x :: neox_pid_t
  unfolding states_wake by auto

lemma sched_wakes_stay:
  fixes x :: neox_pid_t
  assumes "proc_states s ! unat x = PROC_ZOMBIE"
  shows "proc_states (snd (scheduler_wake_one r ob s)) ! unat x = PROC_ZOMBIE"
    and "proc_states (snd (fold wake_timer js (t, s))) ! unat x = PROC_ZOMBIE"
proof -
  show "proc_states (snd (scheduler_wake_one r ob s)) ! unat x = PROC_ZOMBIE"
    using assms by (auto simp: scheduler_wake_one_def wake_zombie split: option.split)
  have "proc_states (snd ts) ! unat x = PROC_ZOMBIE \<Longrightarrow> proc_states (snd (fold wake_timer js ts)) ! unat x = PROC_ZOMBIE" for ts
    by (induction js arbitrary: ts) (auto simp: wake_timer_def Let_def case_prod_beta wake_zombie)
  then show "proc_states (snd (fold wake_timer js (t, s))) ! unat x = PROC_ZOMBIE" using assms by simp
qed

lemma switch_stays:
  assumes "sched_wf s" and "normal x" and "proc_states s ! unat x = PROC_ZOMBIE"
  shows "proc_states (sched_step (Switch p) s) ! unat x = PROC_ZOMBIE"
proof -
  let ?s = "sched_save p s"
  have z: "proc_states ?s ! unat x = PROC_ZOMBIE"
    using assms(3) by (cases "unat x = unat p") (auto simp: sched_save_def proc_set_state_def)
  have wf: "sched_wf ?s" using assms(1) by simp
  have "sched_pick_next ?s \<noteq> x" using sched_pick_cases [OF wf] z assms(2) by (auto simp: runnable_def normal_def)
  then have "unat (sched_pick_next ?s) \<noteq> unat x" by (simp add: word_unat_eq_iff)
  then show ?thesis using z wf assms(2)
    by (simp add: sched_switch_context_def proc_set_running_def Let_def sched_wf_def normal_unat nth_list_update_neq)
qed

text \<open>What each call of another process does to a process that has ended.\<close>

lemma ksys_spawn_stays:
  assumes "ksys_spawn_resident rp p entry args y = Some (res, y')" and "system_inv y" and "runs p y"
    and "normal x" and "state_of y x = PROC_ZOMBIE" and "p \<noteq> x"
  shows "stays x y y'"
  using assms(1) unfolding ksys_spawn_resident_def
proof (rule with_proc_gate_stays [OF _ assms(6)])
  fix g y1 assume f: "spawn_locked rp p entry args (y\<lparr>proc_gate := g\<rparr>) = Some (res, y1)"
  obtain z where z: "z \<notin> live_pids y" and o: "only z (y\<lparr>proc_gate := g\<rparr>) y1"
    using spawn_locked_result [OF f] assms(2) runs_live [OF assms(3)] by (auto simp: withdrawn_def published_def)
  have "x \<noteq> z" using z assms(4,5) by (auto simp: live_pids_def)
  then show "stays x (y\<lparr>proc_gate := g\<rparr>) y1" by (rule stays_only [OF o _ normalD(1) [OF assms(4)]])
qed

lemma ksys_exit_stays:
  assumes "ksys_exit rp p code y = Some (res, y')" and "system_inv y" and "runs p y" and "normal x"
    and "live_parent x y" and "p \<noteq> x"
  shows "stays x y y'"
proof -
  have "p \<noteq> IDLE_PID" using assms(3) by (auto simp: runs_def normal_def)
  then have run: "with_proc_gate p () (\<lambda>y. do { y \<leftarrow> proc_exit_lifecycle rp p p code y; Some (Proc_Finished (), y) }) y = Some (res, y')"
    using assms(1) by (simp add: ksys_exit_def)
  show ?thesis
    by (rule with_proc_gate_stays [OF run assms(6)])
      (use assms(2,4,5,6) runs_live [OF assms(3)] normalD(1) in \<open>auto simp: bind_eq_Some_conv dest!: exit_stays\<close>)
qed

lemma ksys_waitpid_stays:
  assumes "ksys_waitpid rp p z y = Some (res, y')" and "system_inv y" and "normal x" and "p \<noteq> x"
    and "\<not> (z = x \<and> proc_parent_pid y ! unat x = p \<and> res = Proc_Finished (Inr (proc_exit_code y ! unat x)))"
  shows "stays x y y'"
  using assms(1) unfolding ksys_waitpid_def
proof (rule with_proc_gate_stays [OF _ assms(4)])
  fix g y1 assume f: "waitpid_locked rp p z (y\<lparr>proc_gate := g\<rparr>) = Some (res, y1)"
  show "stays x (y\<lparr>proc_gate := g\<rparr>) y1"
    using waitpid_stays [OF f _ normalD(1) [OF assms(3)] assms(4)] assms(2,5) by auto
qed

lemma ksys_signal_stays:
  assumes "ksys_signal p z sig y = Some (res, y')" and "normal x" and "p \<noteq> x" and "state_of y x = PROC_ZOMBIE"
  shows "stays x y y'"
proof -
  have "y' = y \<or> with_proc_gate p (Inl EAGAIN) (\<lambda>y. do { (r, y) \<leftarrow> proc_send_signal p z sig y; Some (Proc_Finished r, y) }) y = Some (res, y')"
    using assms(1) by (auto simp: ksys_signal_def split: if_splits)
  then show ?thesis
    by (auto elim!: with_proc_gate_stays [OF _ assms(3)] simp: bind_eq_Some_conv simp del: stays_fields dest: send_signal_stays [OF _ assms(2)])
qed

lemma ksys_get_launch_line_stays:
  assumes "ksys_get_launch_line p n y = Some (res, y')" and "p \<noteq> x"
  shows "stays x y y'"
  using assms(1) unfolding ksys_get_launch_line_def by (rule with_proc_gate_stays [OF _ assms(2)]) auto

lemma runs_not_zombie: "runs p y \<Longrightarrow> state_of y x = PROC_ZOMBIE \<Longrightarrow> p \<noteq> x"
  by (auto simp: runs_def)

text \<open>
  The invariant of a child that has ended: it stays as it is until its parent waits for it, and
  then the parent gets its exit code.
\<close>

theorem zombie_step:
  assumes "system_step rp y y'" and "system_inv y" and "normal x" and "state_of y x = PROC_ZOMBIE" and "live_parent x y"
  shows "stays x y y' \<or> (\<exists>p. p = proc_parent_pid y ! unat x \<and>
    ksys_waitpid rp p x y = Some (Proc_Finished (Inr (proc_exit_code y ! unat x)), y'))"
  using assms
proof (induction rule: system_step.induct)
  case (spawn p y entry args res y')
  show ?case using ksys_spawn_stays [OF spawn(2,3,1,4,5) runs_not_zombie [OF spawn(1,5)]] ..
next
  case (exit p y code res y')
  show ?case using ksys_exit_stays [OF exit(2,3,1,4,6) runs_not_zombie [OF exit(1,5)]] ..
next
  case (waitpid p y z res y')
  show ?case using ksys_waitpid_stays [OF waitpid(2,3,4) runs_not_zombie [OF waitpid(1,5)]] waitpid(2) by auto
next
  case (signal p y z sig res y')
  show ?case using ksys_signal_stays [OF signal(2,4) runs_not_zombie [OF signal(1,5)] signal(5)] ..
next
  case (launch_line p y n res y')
  show ?case using ksys_get_launch_line_stays [OF launch_line(2) runs_not_zombie [OF launch_line(1,5)]] ..
next
  case (block p y reason object)
  show ?case using set_wait_stays [OF runs_not_zombie [OF block(1,4)]] ..
next
  case (wake y reason object)
  then show ?case using sched_wakes_stay(1) [of "sch y" x] by (simp add: stays_def)
next
  case (console y)
  then show ?case by (simp add: scheduler_wake_console_owner_def Let_def stays_wake)
next
  case (sleep p y d r t s)
  then have "p \<noteq> x" by (simp add: runs_not_zombie)
  then show ?case using ksys_sleep_sched [OF sleep(2)] set_wait_stays [of p x "y\<lparr>tmr := t\<rparr>"] by (auto simp: stays_def)
next
  case (timers y t s)
  then have "proc_states s ! unat x = PROC_ZOMBIE"
    using sched_wakes_stay(2) [of "sch y" x "[0, 1, 2, 3, 4, 5, 6, 7]" "tmr y"] by (simp add: scheduler_wake_timers_def del: fold_simps)
  then show ?case by (simp add: stays_def)
next
  case (signals y y')
  then show ?case unfolding scheduler_apply_pending_signals_def using apply_signals_stays by blast
next
  case (switch p y)
  then show ?case using switch_stays [OF system_inv_wf [OF switch(2)] switch(3,4), of p] by (simp add: stays_def)
next
  case (reap y b y')
  then show ?case using reap_stays by blast
qed simp_all


end
