(* ===== verification/Kernel_Room.thy ===== *)
theory Kernel_Room
  imports Kernel_System
begin

text \<open>
  Room in the tables of open objects and pipes of \<^verbatim>\<open>src/kernel/shared_state.asm\<close>: when enough entries
  are free, the routines of \<^verbatim>\<open>pipe.asm\<close> that create a pipe between two processes succeed. Boot
  relies on it, because it has no way to report that a pipe could not be created.
\<close>

text \<open>Free entries of the tables.\<close>

definition free_opens :: "'r kernel \<Rightarrow> nat" where
  "free_opens k = length (filter (\<lambda>ob. open_type ob = OBJ_NONE \<and> open_refcnt ob = 0) (opens k))"

definition free_pipes :: "'r kernel \<Rightarrow> nat" where
  "free_pipes k = length (filter (\<lambda>p. pipe_state p = 0) (pipes k))"

definition room :: "nat \<Rightarrow> 'r kernel \<Rightarrow> bool" where
  "room n k \<longleftrightarrow> 2 * n \<le> free_opens k \<and> n \<le> free_pipes k"

lemma length_filter_update:
  "i < length xs \<Longrightarrow> length (filter p (xs[i := v])) + of_bool (p (xs ! i)) = length (filter p xs) + of_bool (p v)"
proof (induction xs arbitrary: i)
  case (Cons x xs)
  then show ?case by (cases i) auto
qed simp

lemma free_opens_attach:
  assumes "open_type (opens k ! unat x) \<noteq> OBJ_NONE"
  shows "free_opens (fd_attach task fd x fl k) = free_opens k"
  using assms length_filter_update [of "unat x" "opens k" "\<lambda>ob. open_type ob = OBJ_NONE \<and> open_refcnt ob = 0"]
  by (cases "unat x < length (opens k)") (simp_all add: free_opens_def fd_attach_def set_slot_obj_def upd_open_def list_update_beyond)

lemma room_attach: "open_type (opens k ! unat x) \<noteq> OBJ_NONE \<Longrightarrow> room n (fd_attach task fd x fl k) = room n k"
  using free_opens_attach [of k x task fd fl] by (simp add: room_def free_pipes_def)

lemma fd_alloc_open_room:
  assumes "length (opens k) = 16" and "0 < free_opens k"
  obtains x where "fd_alloc_open k = Inr x" and "unat x < 16" and "free_opens k = Suc (free_opens (fd_init_open x OBJ_PIPE fl k))"
proof -
  let ?p = "\<lambda>ob. open_type ob = OBJ_NONE \<and> open_refcnt ob = 0"
  have "\<exists>ob \<in> set (opens k). ?p ob" using assms(2) unfolding free_opens_def by (metis (mono_tags, lifting) length_greater_0_conv filter_False)
  then obtain x where x: "scan_table ?p (opens k) 0 = Some x"
    using scan_table_None [of ?p "opens k" 0] by (cases "scan_table ?p (opens k) 0") auto
  have s: "unat x < 16" "?p (opens k ! unat x)" using scan_table_Some [OF x] assms(1) by auto
  show thesis
  proof (rule that [OF _ s(1)])
    show "fd_alloc_open k = Inr x" using x by (simp add: fd_alloc_open_def)
    show "free_opens k = Suc (free_opens (fd_init_open x OBJ_PIPE fl k))"
      using length_filter_update [of "unat x" "opens k" ?p] s assms(1) by (simp add: free_opens_def fd_init_open_def upd_open_def)
  qed
qed

lemma pipe_alloc_room:
  assumes "length (pipes k) = 8" and "0 < free_pipes k"
  obtains i where "pipe_alloc k = (Inr i, upd_pipe i (pipe_clear PIPE_STATE_USED) k)"
    and "free_pipes k = Suc (free_pipes (upd_pipe i (pipe_clear PIPE_STATE_USED) k))"
proof -
  let ?p = "\<lambda>p. pipe_state p = 0"
  have "\<exists>p \<in> set (pipes k). ?p p" using assms(2) unfolding free_pipes_def by (metis (mono_tags, lifting) length_greater_0_conv filter_False)
  then obtain i where i: "scan_table ?p (pipes k) 0 = Some i"
    using scan_table_None [of ?p "pipes k" 0] by (cases "scan_table ?p (pipes k) 0") auto
  have s: "unat i < 8" "?p (pipes k ! unat i)" using scan_table_Some [OF i] assms(1) by auto
  show thesis
  proof (rule that)
    show "pipe_alloc k = (Inr i, upd_pipe i (pipe_clear PIPE_STATE_USED) k)" using i by (simp add: pipe_alloc_def)
    show "free_pipes k = Suc (free_pipes (upd_pipe i (pipe_clear PIPE_STATE_USED) k))"
      using length_filter_update [of "unat i" "pipes k" ?p] s assms(1) by (simp add: free_pipes_def upd_pipe_def pipe_clear_def)
  qed
qed

lemma free_upd [simp]:
  "free_pipes (fd_init_open x ty fl k) = free_pipes k" "free_opens (upd_pipe i f k) = free_opens k"
  "free_pipes (pipe_endpoint_init x i m k) = free_pipes k" "free_opens (pipe_endpoint_init x i m k) = free_opens k"
proof -
  show "free_opens (pipe_endpoint_init x i m k) = free_opens k"
    using length_filter_update [of "unat x" "opens k" "\<lambda>ob. open_type ob = OBJ_NONE \<and> open_refcnt ob = 0"
        "(opens k ! unat x)\<lparr>open_pipe := i, open_pipe_mode := m\<rparr>"]
    by (cases "unat x < length (opens k)") (simp_all add: free_opens_def pipe_endpoint_init_def upd_open_def list_update_beyond)
qed (simp_all add: free_opens_def free_pipes_def fd_init_open_def upd_open_def upd_pipe_def pipe_endpoint_init_def)

text \<open>Two free objects and a free pipe are enough for a pair of ends.\<close>

lemma pipe_alloc_pair_room:
  assumes "kernel_inv k" and "room (Suc n) k"
  obtains r w k' where "pipe_alloc_pair k = (Inr (r, w), k')" and "room n k'"
    and "open_type (opens k' ! unat r) = OBJ_PIPE" and "open_type (opens k' ! unat w) = OBJ_PIPE"
proof -
  have len: "length (opens k) = 16" "length (pipes k) = 8" using kernel_invD(3,4) [OF assms(1)] by simp_all
  have f: "Suc (Suc (2 * n)) \<le> free_opens k" "Suc n \<le> free_pipes k" using assms(2) by (simp_all add: room_def)
  obtain r where r: "fd_alloc_open k = Inr r" "unat r < 16" "free_opens k = Suc (free_opens (fd_init_open r OBJ_PIPE FD_FLAG_READ k))"
    using fd_alloc_open_room [OF len(1), of FD_FLAG_READ] f(1) by auto
  define k1 where "k1 = fd_init_open r OBJ_PIPE FD_FLAG_READ k"
  have l1: "length (opens k1) = 16" "length (pipes k1) = 8" "0 < free_opens k1" using len r f(1) by (simp_all add: k1_def fd_init_open_def upd_open_def)
  obtain w where w: "fd_alloc_open k1 = Inr w" "unat w < 16" "free_opens k1 = Suc (free_opens (fd_init_open w OBJ_PIPE FD_FLAG_WRITE k1))"
    using fd_alloc_open_room [OF l1(1,3), of FD_FLAG_WRITE] by auto
  define k2 where "k2 = fd_init_open w OBJ_PIPE FD_FLAG_WRITE k1"
  have l2: "length (pipes k2) = 8" "0 < free_pipes k2" using l1 f(2) by (simp_all add: k2_def k1_def) (simp_all add: fd_init_open_def upd_open_def)
  obtain i where i: "pipe_alloc k2 = (Inr i, upd_pipe i (pipe_clear PIPE_STATE_USED) k2)"
    "free_pipes k2 = Suc (free_pipes (upd_pipe i (pipe_clear PIPE_STATE_USED) k2))"
    using pipe_alloc_room [OF l2] by auto
  let ?k = "pipe_endpoint_init w i PIPE_END_WRITE (pipe_endpoint_init r i PIPE_END_READ (upd_pipe i (pipe_clear PIPE_STATE_USED) k2))"
  show thesis
  proof (rule that)
    show "pipe_alloc_pair k = (Inr (r, w), ?k)" using r(1) w(1) i(1) by (simp add: pipe_alloc_pair_def Let_def flip: k1_def k2_def)
    show "room n ?k" using f r(3) w(3) i(2) by (simp add: room_def k1_def k2_def)
    show "open_type (opens ?k ! unat r) = OBJ_PIPE" "open_type (opens ?k ! unat w) = OBJ_PIPE" using len r(2) w(2)
      by (simp_all add: k1_def k2_def pipe_endpoint_init_def fd_init_open_def upd_open_def upd_pipe_def nth_list_update)
  qed
qed

lemma pipe_between_total:
  assumes "kernel_inv k" and "room (Suc n) k" and "r \<noteq> w" and "r < MAX_PROCS" and "w < MAX_PROCS" and "fd < MAX_FDS"
    and "proc_fd_obj k ! fd_slot r fd = FD_NONE" and "proc_fd_obj k ! fd_slot w fd = FD_NONE"
  shows "\<exists>k'. pipe_create_between_fd r w fd k = (Inr (), k') \<and> room n k'"
proof -
  obtain i j k1 where a: "pipe_alloc_pair k = (Inr (i, j), k1)" "room n k1"
    "open_type (opens k1 ! unat i) = OBJ_PIPE" "open_type (opens k1 ! unat j) = OBJ_PIPE"
    using pipe_alloc_pair_room [OF assms(1,2)] .
  note fo = pipe_alloc_pair_fields(1) [OF a(1)]
  let ?k2 = "fd_attach r fd i FD_FLAG_READ k1"
  have "fd_slot r fd \<noteq> fd_slot w fd" using fd_slot_inject [OF assms(6,6), of r w] assms(3) by simp
  then have s: "proc_fd_obj ?k2 ! fd_slot w fd = FD_NONE" using assms(8) fo by (simp add: nth_list_update_neq)
  have t: "open_type (opens ?k2 ! unat j) = OBJ_PIPE" using a(3,4)
    by (cases "unat i < length (opens k1)"; cases "i = j")
       (simp_all add: fd_attach_def upd_open_def set_slot_obj_def nth_list_update list_update_beyond)
  have "room n (fd_attach w fd j FD_FLAG_WRITE ?k2)" using room_attach [of ?k2 j n] room_attach [of k1 i n] a t by simp
  then show ?thesis using a(1) assms(3-8) s fo
    by (simp add: pipe_create_between_fd_def fd_attach_pid_fd_mode_def fd_check_free_pid_fd_def not_le [symmetric])
qed

end
