(* ===== verification/Kernel_Boot.thy ===== *)
theory Kernel_Boot
  imports Kernel_Room
begin

text \<open>
  The start of the system: \<^verbatim>\<open>kernel_main\<close> of \<^verbatim>\<open>src/kernel/main.asm\<close> with \<^verbatim>\<open>scheduler_init\<close>,
  \<^verbatim>\<open>ksys_io_init\<close> and \<^verbatim>\<open>tasks_init\<close>. The task table of the user image is the list of its
  entry points and flags; a task or a pipe that cannot be created stops the code in an endless
  loop, which is \<open>None\<close> here. The state that boot leaves satisfies the invariant of the system.
\<close>

section \<open>Initialisation\<close>

abbreviation (input) PROC_FLAG_IDLE :: byte where "PROC_FLAG_IDLE \<equiv> 1"

definition scheduler_init :: "'r system \<Rightarrow> 'r system" where
  "scheduler_init y = y\<lparr>
     sch := \<lparr>proc_states = replicate 8 PROC_EMPTY, wait_reasons = replicate 8 WAIT_NONE, wait_objects = replicate 8 0,
       sched_cursor_pid = IDLE_PID\<rparr>,
     tmr := (timer_init (tmr y))\<lparr>system_ticks := 0\<rparr>,
     proc_parent_pid := replicate 8 NO_PID,
     proc_context := 0 # replicate 7 NO_CONTEXT,
     proc_entry := replicate 8 0,
     proc_exit_code := replicate 8 0,
     kern := (kern y)\<lparr>proc_flags := PROC_FLAG_IDLE # replicate 7 0, proc_signal_pending := replicate 8 0,
       console_owner_pid := 0xFF\<rparr>\<rparr>"

definition ksys_io_init :: "'r system \<Rightarrow> 'r system" where
  "ksys_io_init y = y\<lparr>file_gate := gate_init (file_gate y), proc_gate := gate_init (proc_gate y)\<rparr>"

definition kernel_init :: "'r system \<Rightarrow> 'r system" where
  "kernel_init y =
     (let y = ksys_io_init (ctx_init_table (scheduler_init y));
          y = y\<lparr>kern := pipe_init_tables (fd_init_tables (kern y))\<rparr>
      in y\<lparr>kern := snd (fd_init_process IDLE_PID (kern y))\<rparr>)"

fun create_tasks :: "(16 word \<times> byte) list \<Rightarrow> 'r system \<Rightarrow> 'r system option" where
  "create_tasks [] y = Some y"
| "create_tasks ((entry, flags) # rest) y = do {
     (res, y) \<leftarrow> proc_create IDLE_PID entry flags y;
     case res of Proc_Finished (Some x) \<Rightarrow> create_tasks rest y | _ \<Rightarrow> None }"

definition static_pipe :: "neox_pid_t \<Rightarrow> neox_pid_t \<Rightarrow> neox_fd_t \<Rightarrow> 'r system \<Rightarrow> 'r system option" where
  "static_pipe reader writer fd y =
     (case pipe_create_between_fd reader writer fd (kern y) of
        (Inl e, k) \<Rightarrow> None | (Inr _, k) \<Rightarrow> Some (y\<lparr>kern := k\<rparr>))"

definition tasks_init :: "(16 word \<times> byte) list \<Rightarrow> 'r system \<Rightarrow> 'r system option" where
  "tasks_init tasks y = do {
     y \<leftarrow> create_tasks tasks y;
     if length tasks < 2 then Some y
     else do { y \<leftarrow> static_pipe 2 1 3 y; static_pipe 1 2 4 y } }"

definition kernel_main :: "(16 word \<times> byte) list \<Rightarrow> 'r system \<Rightarrow> 'r system option" where
  "kernel_main tasks y = do {
     y \<leftarrow> tasks_init tasks (kernel_init y);
     let s = proc_set_state IDLE_PID PROC_RUNNING (sch y) in
     Some (y\<lparr>sch := s\<lparr>sched_cursor_pid := IDLE_PID\<rparr>, kern := (kern y)\<lparr>console_owner_pid := 0xFF\<rparr>,
       proc_context := (proc_context y)[unat IDLE_PID := 0]\<rparr>) }"

section \<open>The state after initialisation\<close>

text \<open>The memory that the kernel is linked with.\<close>

definition system_storage :: "'r system \<Rightarrow> bool" where
  "system_storage y \<longleftrightarrow> kernel_storage (kern y) \<and> length (proc_launch_id y) = 8 \<and> length (proc_launch_line_len y) = 8
     \<and> length (proc_launch_line y) = 8 \<and> list_all (\<lambda>line. length line = 64) (proc_launch_line y)
     \<and> length (gate_next (file_gate y)) = 8 \<and> length (gate_next (proc_gate y)) = 8
     \<and> length (timer_pid (tmr y)) = 8 \<and> length (timer_until (tmr y)) = 8"

lemma boot_devices: "length (opens k) = 16 \<Longrightarrow> devices_bound (pipe_init_tables (fd_init_tables k))"
  by (auto simp: devices_bound_def list_all_length device_bound_def pipe_init_tables_def fd_init_tables_def Let_def nth_list_update)

lemma fd_init_process_op:
  assumes "kernel_inv k" and "devices_bound k" and "console_objects k" and "task < MAX_PROCS" and "\<And>fd. \<not> is_open task fd k"
  obtains k' where "fd_init_process task k = (Inr (), k')" and "fd_op {task} k k'" and "console_objects k'"
    and "proc_fd_obj k' = (proc_fd_obj k)[fd_slot task 0 := 0, fd_slot task 1 := 1, fd_slot task 2 := 2]"
    and "\<forall>n. room n k' = room n k"
proof -
  obtain k0 where c: "fd_clear_process_slots task k = (Inr (), k0)" and op0: "fd_op {task} k k0" and no: "\<forall>fd. \<not> is_open task fd k0"
    and o0: "opens k0 = opens k"
    using fd_clear_process_slots_op [OF assms(1,2,4,5)] by blast
  have p0: "pipes k0 = pipes k" using c assms(4) by (auto simp: fd_clear_process_slots_def simp flip: not_le)
  define k1 k2 k3 where "k1 = fd_attach task 0 0 FD_FLAG_READ k0" and "k2 = fd_attach task 1 1 FD_FLAG_WRITE k1"
    and "k3 = fd_attach task 2 2 FD_FLAG_WRITE k2"
  obtain k' where i: "fd_init_process task k = (Inr (), k')" "console_objects k'"
    "proc_fd_obj k' = (proc_fd_obj k)[fd_slot task 0 := 0, fd_slot task 1 := 1, fd_slot task 2 := 2]"
    using fd_init_process_inv [OF assms(1,3-5)] by blast
  have k': "k' = k3"
    using i(1) c assms(4) unfolding fd_init_process_def fd_clear_process_slots_def Let_def k1_def k2_def k3_def
    by (simp add: not_le [symmetric] del: fold_simps)
  have sl: "fd_slot task 0 \<noteq> fd_slot task 1" "fd_slot task 0 \<noteq> fd_slot task 2" "fd_slot task 1 \<noteq> fd_slot task 2"
    by (simp_all add: fd_slot_inject)
  have free: "proc_fd_obj k0 ! fd_slot task fd = FD_NONE" if "fd < MAX_FDS" for fd using no assms(4) that by (auto simp: is_open_def)
  have at: "fd_op {task} k (fd_attach task fd x fl q)"
    if "fd_op {task} k q" "console_objects q" "fd < MAX_FDS" "unat x < 3" "proc_fd_obj q ! fd_slot task fd = FD_NONE" for fd x fl q
    using within_trans [OF fd_opD(1) [OF that(1)] within_attach [OF fd_opD(2) [OF that(1)] assms(4) that(3,5) live_console [OF that(2,4)]]]
      fd_opD(3,4) [OF that(1)] by (simp add: fd_op_def)
  have c0: "console_objects k0" using assms(3) o0 by (simp add: console_objects_def)
  have o1: "fd_op {task} k k1" unfolding k1_def by (rule at [OF op0 c0]) (use free in simp_all)
  have c1: "console_objects k1" unfolding k1_def by (rule fd_attach_console [OF fd_opD(2) [OF op0] c0]) simp
  have o2: "fd_op {task} k k2" unfolding k2_def by (rule at [OF o1 c1]) (use free sl in \<open>simp_all add: k1_def\<close>)
  have c2: "console_objects k2" unfolding k2_def by (rule fd_attach_console [OF fd_opD(2) [OF o1] c1]) simp
  have "fd_op {task} k k3" unfolding k3_def by (rule at [OF o2 c2]) (use free sl in \<open>simp_all add: k1_def k2_def\<close>)
  moreover have "room n k3 = room n k" for n
  proof -
    have "room n k0 = room n k" using o0 p0 by (simp add: room_def free_opens_def free_pipes_def)
    moreover have "room n k1 = room n k0" unfolding k1_def by (rule room_attach) (use c0 in \<open>simp add: console_objects_def\<close>)
    moreover have "room n k2 = room n k1" unfolding k2_def by (rule room_attach) (use c1 in \<open>simp add: console_objects_def\<close>)
    moreover have "room n k3 = room n k2" unfolding k3_def by (rule room_attach) (use c2 in \<open>simp add: console_objects_def\<close>)
    ultimately show ?thesis by simp
  qed
  ultimately show thesis using that i k' by blast
qed

section \<open>Boot tasks\<close>

text \<open>A boot task: ready to run, child of the idle process, with the console on its descriptors.\<close>

definition boot_task :: "neox_pid_t \<Rightarrow> 16 word \<Rightarrow> byte \<Rightarrow> 'r system \<Rightarrow> bool" where
  "boot_task x entry flags y \<longleftrightarrow> state_of y x = PROC_NEW \<and> proc_parent_pid y ! unat x = IDLE_PID \<and> proc_entry y ! unat x = entry
     \<and> proc_flags (kern y) ! unat x = flags \<and> proc_signal_pending (kern y) ! unat x = 0
     \<and> (\<forall>t. t < 3 \<longrightarrow> proc_fd_obj (kern y) ! fd_slot x t = t)"

text \<open>The tables have room for two pipes, and no process uses more than the standard descriptors.\<close>

definition roomy :: "'r kernel \<Rightarrow> bool" where
  "roomy k \<longleftrightarrow> room 2 k \<and> (\<forall>x fd. normal x \<longrightarrow> 3 \<le> fd \<longrightarrow> fd < MAX_FDS \<longrightarrow> proc_fd_obj k ! fd_slot x fd = FD_NONE)"

lemma roomy_init:
  assumes "roomy k" and "\<forall>n. room n k' = room n k"
    and "proc_fd_obj k' = (proc_fd_obj k)[fd_slot x 0 := 0, fd_slot x 1 := 1, fd_slot x 2 := 2]"
  shows "roomy k'"
proof -
  have "fd_slot x t \<noteq> fd_slot z fd" if "t < 3" "3 \<le> fd" "fd < MAX_FDS" for t z fd
  proof -
    have "t < MAX_FDS" "t \<noteq> fd" using that by (auto simp: word_less_nat_alt word_le_nat_alt)
    then show ?thesis using fd_slot_inject [OF _ that(3), of t] by simp
  qed
  then show ?thesis using assms by (simp add: roomy_def nth_list_update_neq)
qed

lemma proc_alloc_boot:
  assumes "system_inv y" and "console_objects (kern y)" and "\<not> owns_file_gate ap y" and "proc_find_free_pid y = Some x" and "roomy (kern y)"
  obtains y' where "proc_alloc_preloaded_common True ap IDLE_PID en y = (Some x, y')" and "inv_with (insert x (live_pids y)) y'"
    and "live_pids y' = insert x (live_pids y)" and "only x y y'" and "console_objects (kern y')" and "boot_task x en 0 y'"
    and "roomy (kern y')"
proof -
  have i: "inv_with (live_pids y) y" using assms by (simp add: system_inv_def)
  note iv = inv_withD [OF i]
  have x: "normal x" "x \<notin> live_pids y" using proc_find_free_pid_result [OF iv(2)] assms(4) by simp_all
  note x8 = normalD(1) [OF x(1)]
  obtain c where c: "0 < unat c" "unat c < 10" "context_state y ! unat c = CTX_PRELOADED_FREE"
    and al: "ctx_alloc_preloaded_for_pid x y = Some (c, y\<lparr>context_state := (context_state y)[unat c := CTX_IN_USE],
      context_owner_pid := (context_owner_pid y)[unat c := x]\<rparr>)"
    using ctx_alloc_result [OF i] by blast
  define y1 where "y1 = proc_init_slot x c IDLE_PID en (y\<lparr>context_state := (context_state y)[unat c := CTX_IN_USE],
      context_owner_pid := (context_owner_pid y)[unat c := x]\<rparr>)"
  have i1: "inv_with (insert x (live_pids y)) y1" unfolding y1_def by (rule init_slot_inv [OF i x c])
  have o1: "only x y y1" "sch y1 = proc_clear_wait x (sch y)" "file_gate y1 = file_gate y" by (simp_all add: y1_def)
  have ow: "\<not> owns_file_gate ap y1" using o1(3) assms(3) by (simp add: owns_file_gate_def)
  have no: "\<not> is_open x fd (kern y1)" for fd using iv(6) [OF x] by (simp add: y1_def)
  have co: "console_objects (kern y1)" using assms(2) by (simp add: y1_def console_objects_def)
  note iv1 = inv_withD [OF i1]
  obtain k where k: "fd_init_process x (kern y1) = (Inr (), k)" "fd_op {x} (kern y1) k" "console_objects k"
    "proc_fd_obj k = (proc_fd_obj (kern y1))[fd_slot x 0 := 0, fd_slot x 1 := 1, fd_slot x 2 := 2]" "\<forall>n. room n k = room n (kern y1)"
    using fd_init_process_op [OF iv1(3,4) co x8 no] by blast
  have "roomy (kern y1)" using assms(5) by (simp add: roomy_def room_def free_opens_def free_pipes_def y1_def)
  then have rm: "roomy k" by (rule roomy_init [OF _ k(5,4)])
  define y' where "y' = set_state x PROC_NEW (y1\<lparr>kern := k\<rparr>)"
  have i2: "inv_with (insert x (live_pids y)) (y1\<lparr>kern := k\<rparr>)" by (rule inv_with_kern [OF i1 k(2)]) simp
  have "live_pids y1 = live_pids y" by (rule live_pids_same_states) (simp add: o1 proc_clear_wait_def)
  then have lv: "live_pids y' = insert x (live_pids y)" unfolding y'_def
    by (subst live_pids_set_state) (use iv1(2) x(1) in simp_all)
  have "only x y (y1\<lparr>kern := k\<rparr>)" by (rule only_kern [OF o1(1) k(2)])
  then have o: "only x y y'" by (simp add: y'_def)
  have fds: "proc_fd_obj k ! fd_slot x t = t" if "t < 3" for t
  proof -
    have "t = 0 \<or> t = 1 \<or> t = 2" using that by (auto simp: word_less_nat_alt word_unat_eq_iff)
    then show ?thesis
      using k(4) fd_slot_less [OF x8] kernel_invD(1) [OF iv1(3)] by (auto simp: fd_slot_inject nth_list_update)
  qed
  have "state_of y' x = PROC_NEW" using iv1(2) x(1) by (simp add: y'_def proc_set_state_def sched_wf_def normal_unat)
  moreover have "proc_parent_pid y' ! unat x = IDLE_PID" "proc_entry y' ! unat x = en"
    "proc_flags (kern y') ! unat x = 0" "proc_signal_pending (kern y') ! unat x = 0"
    using iv(1) x(1) fd_opD(4) [OF k(2)] by (simp_all add: y'_def same_control_def) (simp_all add: y1_def set_state_def sized_def normal_unat)
  ultimately have "boot_task x en 0 y'" using fds by (simp add: boot_task_def y'_def)
  moreover have "proc_alloc_preloaded_common True ap IDLE_PID en y = (Some x, y')"
    using assms(4) al ow k(1) by (simp add: proc_alloc_preloaded_common_def Let_def y'_def flip: y1_def)
  ultimately show thesis using that i2 lv o k(3) rm by (simp add: y'_def)
qed


text \<open>Nobody holds or waits for a gate.\<close>

definition quiet :: "'r system \<Rightarrow> bool" where
  "quiet y \<longleftrightarrow> gate_byte (proc_gate y) = 0 \<and> wait_head (proc_gate y) = GATE_OWNER_NONE \<and> gate_byte (file_gate y) = 0"

definition booting :: "'r system \<Rightarrow> bool" where
  "booting y \<longleftrightarrow> system_inv y \<and> console_objects (kern y) \<and> quiet y \<and> roomy (kern y)"

lemma boot_task_only:
  assumes "only x y y'" and "boot_task z en fl y" and "normal z" and "z \<noteq> x"
  shows "boot_task z en fl y'"
proof -
  have "proc_view z y' = proc_view z y" "sched_view z (sch y') = sched_view z (sch y)" "same_view z (kern y) (kern y')"
    using assms(1,3,4) normalD(1) by (auto simp: only_def)
  moreover have "fd_slot z t \<in> row_slots z" if "t < 3" for t using fd_slot_row [of t z] that by (simp add: word_less_nat_alt)
  ultimately show ?thesis using assms(2) by (auto simp: boot_task_def proc_view_def sched_view_def same_view_def Let_def)
qed

lemma proc_create_boot:
  assumes "booting y" and "fl AND NOT PROC_FLAGS_CREATE_MASK = 0" and "proc_find_free_pid y = Some x"
  obtains y' where "proc_create IDLE_PID en fl y = Some (Proc_Finished (Some x), y')" and "booting y'"
    and "live_pids y' = insert x (live_pids y)" and "boot_task x en fl y'"
    and "\<And>z e f. z \<in> live_pids y \<Longrightarrow> boot_task z e f y \<Longrightarrow> boot_task z e f y'"
proof -
  let ?g = "(proc_gate y)\<lparr>gate_byte := gate_byte (proc_gate y) OR 1, gate_owner := IDLE_PID\<rparr>"
  define y0 where "y0 = y\<lparr>proc_gate := ?g\<rparr>"
  have q: "gate_byte (proc_gate y) = 0" "wait_head (proc_gate y) = GATE_OWNER_NONE" "gate_byte (file_gate y) = 0"
    using assms(1) by (simp_all add: booting_def quiet_def)
  have f0: "system_inv y0" "console_objects (kern y0)" "\<not> owns_file_gate IDLE_PID y0" "proc_find_free_pid y0 = Some x" "roomy (kern y0)"
    using assms(1,3) q by (simp_all add: y0_def booting_def owns_file_gate_def proc_find_free_pid_def)
  have x: "normal x" "x \<notin> live_pids y"
    using proc_find_free_pid_result [of y] assms(1,3) inv_withD(2) by (auto simp: booting_def system_inv_def)
  obtain y1 where y1: "proc_alloc_preloaded_common True IDLE_PID IDLE_PID en y0 = (Some x, y1)" "inv_with (insert x (live_pids y)) y1"
    "live_pids y1 = insert x (live_pids y)" "only x y0 y1" "console_objects (kern y1)" "boot_task x en 0 y1" "roomy (kern y1)"
    using proc_alloc_boot [OF f0] by (auto simp: y0_def)
  have g1: "proc_gate y1 = ?g" "file_gate y1 = file_gate y" using y1(4) by (simp_all add: only_def y0_def)
  define y' where "y' = (set_flags x fl y1)\<lparr>proc_gate := ?g\<lparr>gate_owner := GATE_OWNER_NONE, gate_byte := 0\<rparr>\<rparr>"
  have "proc_create IDLE_PID en fl y = Some (Proc_Finished (Some x), y')"
    using y1(1) [unfolded y0_def] q assms(2) g1
    by (simp add: proc_create_def with_proc_gate_def gate_acquire_def gate_release_def gate_dequeue_def Let_def y'_def)
  moreover have lv: "live_pids y' = insert x (live_pids y)" using y1(3) by (simp add: y'_def)
  moreover have "booting y'"
    unfolding booting_def
  proof (intro conjI)
    show "system_inv y'" unfolding system_inv_def lv using y1(2) by (simp add: y'_def)
    show "quiet y'" using g1 q by (simp add: quiet_def y'_def)
    show "console_objects (kern y')" "roomy (kern y')" using y1(5,7)
      by (simp_all add: y'_def set_flags_def console_objects_def roomy_def room_def free_opens_def free_pipes_def)
  qed
  moreover have "boot_task x en fl y'"
    using y1(6) inv_withD(1) [OF y1(2)] x(1) by (simp add: boot_task_def y'_def sized_def normal_unat) (simp add: set_flags_def)
  moreover have "boot_task z e f y'" if "z \<in> live_pids y" "boot_task z e f y" for z e f
  proof -
    have "only x y0 (set_flags x fl y1)" using y1(4) by simp
    moreover have "boot_task z e f y0" using that(2) by (simp add: boot_task_def y0_def)
    moreover have "normal z" "z \<noteq> x" using that(1) x(2) by (auto simp: live_pids_def)
    ultimately have "boot_task z e f (set_flags x fl y1)" by (rule boot_task_only)
    then show ?thesis by (simp add: boot_task_def y'_def)
  qed
  ultimately show thesis using that by blast
qed

lemma free_pid_next:
  assumes "sched_wf (sch y)" and "live_pids y = {x. normal x \<and> unat x \<le> n}" and "n < 7"
  shows "proc_find_free_pid y = Some (of_nat (Suc n))"
proof -
  have u: "unat (of_nat m :: byte) = m" if "m < 8" for m using that by (simp add: unat_byte_of_nat)
  have "normal (of_nat (Suc n))" "of_nat (Suc n) \<notin> live_pids y" using assms(2,3) u [of "Suc n"] by (simp_all add: normal_unat)
  then obtain x where x: "proc_find_free_pid y = Some x" "normal x" "x \<notin> live_pids y"
    using proc_find_free_pid_result [OF assms(1)] by (cases "proc_find_free_pid y") auto
  have "\<not> Suc n < unat x"
  proof
    assume less: "Suc n < unat x"
    have "state_of y (of_nat (Suc n)) \<noteq> PROC_EMPTY"
      using scan_table_least [OF x(1) [unfolded proc_find_free_pid_def], of n] less assms(1,3) u [of "Suc n"] by (simp add: sched_wf_def)
    then show False using \<open>normal (of_nat (Suc n))\<close> \<open>of_nat (Suc n) \<notin> live_pids y\<close> by (simp add: live_pids_def)
  qed
  moreover have "n < unat x" using x(2,3) assms(2) by auto
  ultimately have "unat x = Suc n" by simp
  moreover have "x = of_nat (unat x)" by simp
  ultimately show ?thesis using x(1) by simp
qed

lemma create_tasks_result:
  assumes "booting y" and "live_pids y = {x. normal x \<and> unat x \<le> n}" and "n + length tasks \<le> 7"
    and "\<forall>(en, fl) \<in> set tasks. fl AND NOT PROC_FLAGS_CREATE_MASK = 0"
  shows "\<exists>y'. create_tasks tasks y = Some y' \<and> booting y' \<and> live_pids y' = {x. normal x \<and> unat x \<le> n + length tasks}
    \<and> (\<forall>i < length tasks. boot_task (of_nat (Suc (n + i))) (fst (tasks ! i)) (snd (tasks ! i)) y')
    \<and> (\<forall>z \<in> live_pids y. \<forall>e f. boot_task z e f y \<longrightarrow> boot_task z e f y')"
  using assms
proof (induction tasks arbitrary: y n)
  case (Cons a tasks)
  obtain en fl where a: "a = (en, fl)" by (cases a)
  have n: "n < 7" using Cons.prems(3) by simp
  let ?x = "of_nat (Suc n) :: neox_pid_t"
  have ux: "unat ?x = Suc n" using n by (intro unat_byte_of_nat) simp
  have free: "proc_find_free_pid y = Some ?x"
    by (rule free_pid_next [OF _ Cons.prems(2) n]) (use Cons.prems(1) inv_withD(2) in \<open>auto simp: booting_def system_inv_def\<close>)
  have fl: "fl AND NOT PROC_FLAGS_CREATE_MASK = 0" using Cons.prems(4) a by simp
  obtain y1 where y1: "proc_create IDLE_PID en fl y = Some (Proc_Finished (Some ?x), y1)" "booting y1"
    "live_pids y1 = insert ?x (live_pids y)" "boot_task ?x en fl y1" "\<And>z e f. z \<in> live_pids y \<Longrightarrow> boot_task z e f y \<Longrightarrow> boot_task z e f y1"
    using proc_create_boot [OF Cons.prems(1) fl free, of en] by blast
  have zx: "z = ?x \<longleftrightarrow> unat z = Suc n" for z unfolding word_unat_eq_iff ux ..
  have "live_pids y1 = {x. normal x \<and> unat x \<le> Suc n}"
    unfolding y1(3) Cons.prems(2) using n by (auto simp: zx ux normal_unat le_Suc_eq simp del: of_nat_Suc)
  from Cons.IH [OF y1(2) this] Cons.prems(3,4) obtain y' where
    y': "create_tasks tasks y1 = Some y'" "booting y'" "live_pids y' = {x. normal x \<and> unat x \<le> Suc n + length tasks}"
    "\<forall>i < length tasks. boot_task (of_nat (Suc (Suc n + i))) (fst (tasks ! i)) (snd (tasks ! i)) y'"
    "\<forall>z \<in> live_pids y1. \<forall>e f. boot_task z e f y1 \<longrightarrow> boot_task z e f y'" by auto
  have "boot_task (of_nat (Suc (n + i))) (fst ((a # tasks) ! i)) (snd ((a # tasks) ! i)) y'" if "i < length (a # tasks)" for i
    using that y'(4,5) y1(3,4) a by (cases i) auto
  then show ?case using y1(1,3,5) y' a by (intro exI [of _ y']) auto
qed auto


section \<open>Boot\<close>

lemma boot_roomy:
  assumes "kernel_storage k" shows "roomy (pipe_init_tables (fd_init_tables k))"
proof -
  let ?k = "pipe_init_tables (fd_init_tables k)" and ?p = "\<lambda>ob. open_type ob = OBJ_NONE \<and> open_refcnt ob = 0"
  have len: "length (opens k) = 16" "length (pipes k) = 8" using assms by (simp_all add: kernel_storage_def)
  obtain a r1 where a: "opens k = a # r1" using len(1) by (cases "opens k") auto
  obtain b r2 where b: "r1 = b # r2" using len(1) a by (cases r1) auto
  obtain c r where c: "r2 = c # r" using len(1) a b by (cases r2) auto
  have "opens k = a # b # c # r" "length r = 13" using len(1) a b c by simp_all
  then have "free_opens ?k = 13"
    by (simp add: free_opens_def pipe_init_tables_def fd_init_tables_def Let_def upd_open_def)
  moreover have "free_pipes ?k = 8" using len(2)
    by (simp add: free_pipes_def pipe_init_tables_def fd_init_tables_def Let_def filter_True pipe_clear_def)
  moreover have "proc_fd_obj ?k ! fd_slot x fd = FD_NONE" if "normal x" "fd < MAX_FDS" for x fd
    using boot_inv(3) [OF assms, of x fd] normalD(1) [OF that(1)] that(2) by (simp add: is_open_def)
  ultimately show ?thesis by (simp add: roomy_def room_def)
qed

lemma kernel_init_booting:
  assumes "system_storage y"
  shows "booting (kernel_init y)" and "live_pids (kernel_init y) = {}"
proof -
  define y1 where "y1 = ksys_io_init (ctx_init_table (scheduler_init y))"
  define k where "k = pipe_init_tables (fd_init_tables (kern y1))"
  have st: "kernel_storage (kern y1)" using assms
    by (simp add: system_storage_def y1_def ksys_io_init_def ctx_init_table_def scheduler_init_def kernel_storage_def)
  note b = boot_inv [OF st, folded k_def]
  have dv: "devices_bound k" unfolding k_def by (rule boot_devices) (use st in \<open>simp add: kernel_storage_def\<close>)
  obtain k' where k': "fd_init_process IDLE_PID k = (Inr (), k')" "fd_op {IDLE_PID} k k'" "console_objects k'"
    "proc_fd_obj k' = (proc_fd_obj k)[fd_slot IDLE_PID 0 := 0, fd_slot IDLE_PID 1 := 1, fd_slot IDLE_PID 2 := 2]"
    "\<forall>n. room n k' = room n k"
    using fd_init_process_op [OF b(1) dv b(2) _ b(3), of IDLE_PID] by auto
  have rm: "roomy k'" by (rule roomy_init [OF boot_roomy [OF st, folded k_def] k'(5,4)])
  have i: "kernel_init y = y1\<lparr>kern := k'\<rparr>" using k'(1) by (simp add: kernel_init_def Let_def flip: y1_def k_def)
  have no: "\<not> is_open x fd k'" if "normal x" for x fd
  proof -
    have "x \<noteq> IDLE_PID" using that by (auto simp: normal_def)
    then have "same_view x k k'" using fd_opD(1) [OF k'(2)] normalD(1) [OF that] by (simp add: within_def)
    then show ?thesis using same_view_is_open b(3) by blast
  qed
  have ctl: "proc_flags k' = proc_flags (kern y1)" "proc_signal_pending k' = proc_signal_pending (kern y1)"
    using fd_opD(4) [OF k'(2)] by (simp_all add: same_control_def k_def pipe_init_tables_def fd_init_tables_def Let_def upd_open_def)
  have ctx: "contexts_for {} (proc_context y1) (context_state y1) (context_owner_pid y1)"
    by (rule contexts_forI) (auto simp: y1_def ksys_io_init_def ctx_init_table_def scheduler_init_def context_ok_def nth_Cons')
  have wf: "sched_wf (sch y1)" by (simp add: y1_def ksys_io_init_def ctx_init_table_def scheduler_init_def sched_wf_def)
  show lv: "live_pids (kernel_init y) = {}" unfolding i
    by (auto simp: live_pids_def normal_unat y1_def ksys_io_init_def ctx_init_table_def scheduler_init_def nth_replicate simp del: replicate.simps)
  have sz: "sized (kernel_init y)" unfolding i using assms ctl
    by (simp add: sized_def) (simp add: y1_def ksys_io_init_def ctx_init_table_def scheduler_init_def system_storage_def)
  have "inv_with {} (kernel_init y)"
    using sz ctx wf fd_opD(2,3) [OF k'(2)] no by (simp add: inv_with_def i)
  moreover have "quiet (kernel_init y)"
    by (simp add: i quiet_def) (simp add: y1_def ksys_io_init_def gate_init_def)
  ultimately show "booting (kernel_init y)" using k'(3) lv rm by (simp add: booting_def system_inv_def i)
qed


lemma pipe_alloc_pair_control: "same_control k (snd (pipe_alloc_pair k))"
  by (auto simp: pipe_alloc_pair_def pipe_alloc_def Let_def fd_init_open_def pipe_endpoint_init_def
      split: sum.split option.split)

lemma pipe_between_result:
  assumes "pipe_create_between_fd r w fd k = (Inr u, k')" and "kernel_inv k" and "devices_bound k"
  shows "fd_op {r, w} k k'" and "\<exists>i j. proc_fd_obj k' = (proc_fd_obj k)[fd_slot r fd := i, fd_slot w fd := j]"
proof -
  obtain i j k1 where a: "pipe_alloc_pair k = (Inr (i, j), k1)"
    and k': "k' = fd_attach w fd j FD_FLAG_WRITE (fd_attach r fd i FD_FLAG_READ k1)"
    using assms(1) by (auto simp: pipe_create_between_fd_def fd_attach_pid_fd_mode_def split: if_splits sum.splits prod.splits)
  have "keeps k k1" using pipe_alloc_pair_keeps [of k] a by simp
  then have "devices_bound k'" using assms(3) k' by (simp add: keeps_def)
  moreover have "same_control k k'" using pipe_alloc_pair_control [of k] a k' by simp
  ultimately show "fd_op {r, w} k k'" using pipe_create_between_result(1) [OF assms(1,2)] by (simp add: fd_op_def)
  show "\<exists>i j. proc_fd_obj k' = (proc_fd_obj k)[fd_slot r fd := i, fd_slot w fd := j]"
    using k' pipe_alloc_pair_fields(1) [OF a] by auto
qed

lemma static_pipe_result:
  assumes "static_pipe r w fd y = Some y'" and "system_inv y" and "r \<in> live_pids y" and "w \<in> live_pids y" and "3 \<le> fd" and "fd < MAX_FDS"
  shows "system_inv y'" and "live_pids y' = live_pids y" and "boot_task z en fl y \<Longrightarrow> boot_task z en fl y'"
proof -
  have inv: "inv_with (live_pids y) y" using assms(2) by (simp add: system_inv_def)
  obtain u k where k: "pipe_create_between_fd r w fd (kern y) = (Inr u, k)" and y': "y' = y\<lparr>kern := k\<rparr>"
    using assms(1) by (auto simp: static_pipe_def split: prod.splits sum.splits)
  note res = pipe_between_result [OF k inv_withD(3,4) [OF inv]]
  show lv: "live_pids y' = live_pids y" by (simp add: y')
  have "inv_with (live_pids y) (y\<lparr>kern := k\<rparr>)" by (rule inv_with_kern [OF inv res(1)]) (use assms(3,4) in auto)
  then show "system_inv y'" by (simp add: system_inv_def y')
  obtain i j where ob: "proc_fd_obj k = (proc_fd_obj (kern y))[fd_slot r fd := i, fd_slot w fd := j]" using res(2) by blast
  have "proc_fd_obj k ! fd_slot z t = proc_fd_obj (kern y) ! fd_slot z t" if "t < 3" for t
  proof -
    have "t < MAX_FDS" "t \<noteq> fd" using that assms(5) by (auto simp: word_less_nat_alt word_le_nat_alt)
    then show ?thesis using ob fd_slot_inject [OF assms(6)] by (simp add: nth_list_update_neq)
  qed
  then show "boot_task z en fl y'" if "boot_task z en fl y"
    using that fd_opD(4) [OF res(1)] by (simp add: boot_task_def y' same_control_def)
qed

lemma kernel_main_result:
  assumes "system_storage y" and "length tasks \<le> 7" and "\<forall>(en, fl) \<in> set tasks. fl AND NOT PROC_FLAGS_CREATE_MASK = 0"
    and "kernel_main tasks y = Some y'"
  shows "system_inv y' \<and> live_pids y' = {x. normal x \<and> unat x \<le> length tasks}
    \<and> (\<forall>i < length tasks. boot_task (of_nat (Suc i)) (fst (tasks ! i)) (snd (tasks ! i)) y')"
proof -
  have e: "{} = {x. normal x \<and> unat x \<le> 0}" by (auto simp: normal_unat)
  obtain y1 where y1: "create_tasks tasks (kernel_init y) = Some y1" "booting y1" "live_pids y1 = {x. normal x \<and> unat x \<le> length tasks}"
    "\<forall>i < length tasks. boot_task (of_nat (Suc i)) (fst (tasks ! i)) (snd (tasks ! i)) y1"
    using create_tasks_result [OF kernel_init_booting(1) [OF assms(1)], of 0 tasks] kernel_init_booting(2) [OF assms(1)] e assms(2,3) by auto
  obtain y2 where y2: "tasks_init tasks (kernel_init y) = Some y2" using assms(4) by (auto simp: kernel_main_def bind_eq_Some_conv)
  have r2: "system_inv y2 \<and> live_pids y2 = live_pids y1 \<and> (\<forall>z e f. boot_task z e f y1 \<longrightarrow> boot_task z e f y2)"
  proof (cases "length tasks < 2")
    case True
    then show ?thesis using y2 y1 by (simp add: tasks_init_def booting_def)
  next
    case False
    then have l: "1 \<in> live_pids y1" "2 \<in> live_pids y1" using y1(3) by (simp_all add: normal_unat)
    obtain y3 where y3: "static_pipe 2 1 3 y1 = Some y3" "static_pipe 1 2 4 y3 = Some y2"
      using y2 y1(1) False by (auto simp: tasks_init_def bind_eq_Some_conv)
    have i1: "system_inv y1" using y1(2) by (simp add: booting_def)
    note p3 = static_pipe_result [OF y3(1) i1 l(2,1), simplified]
    have l3: "1 \<in> live_pids y3" "2 \<in> live_pids y3" using l p3(2) by simp_all
    note p2 = static_pipe_result [OF y3(2) p3(1) l3, simplified]
    show ?thesis using p2 p3 by blast
  qed
  let ?s = "(proc_set_state IDLE_PID PROC_RUNNING (sch y2))\<lparr>sched_cursor_pid := IDLE_PID\<rparr>"
  have y': "y' = (y2\<lparr>sch := ?s\<rparr>)\<lparr>kern := (kern y2)\<lparr>console_owner_pid := 0xFF\<rparr>, proc_context := (proc_context y2)[unat IDLE_PID := 0]\<rparr>"
    using assms(4) y2 by (simp add: kernel_main_def Let_def)
  have iv: "inv_with (live_pids y2) y2" using r2 unfolding system_inv_def by blast
  note d = inv_withD [OF iv]
  have st: "proc_states ?s ! unat z = state_of y2 z" if "normal z" for z
    using that by (simp add: proc_set_state_def normal_unat nth_list_update_neq)
  then have lv: "live_pids y' = live_pids y2" by (auto simp: live_pids_def y')
  have "IDLE_PID \<notin> live_pids y2" by (simp add: live_pids_def normal_def)
  from contexts_other [OF d(5) this, of 0]
  have "inv_with (live_pids y2) y'" using d by (simp add: inv_with_def y' sized_def sched_wf_def proc_set_state_def)
  moreover have "boot_task z e f y'" if "boot_task z e f y2" "normal z" for z e f
    using that st [OF that(2)] by (simp add: boot_task_def y')
  moreover have "normal (of_nat (Suc i))" if "i < length tasks" for i
    using that assms(2) unat_byte_of_nat [of "Suc i"] by (simp add: normal_unat del: of_nat_Suc)
  ultimately show ?thesis using r2 y1(3,4) lv by (simp add: system_inv_def del: of_nat_Suc)
qed


text \<open>Boot always gets to its end.\<close>

lemma tasks_init_total:
  assumes "create_tasks tasks y = Some y1" and "booting y1" and "length tasks \<ge> 2 \<Longrightarrow> {1, 2} \<subseteq> live_pids y1"
  shows "\<exists>y'. tasks_init tasks y = Some y'"
proof (cases "length tasks < 2")
  case False
  have i1: "system_inv y1" and rm: "roomy (kern y1)" using assms(2) by (simp_all add: booting_def)
  have l: "1 \<in> live_pids y1" "2 \<in> live_pids y1" using assms(3) False by auto
  have k1: "kernel_inv (kern y1)" using i1 inv_withD(3) by (auto simp: system_inv_def)
  have free: "proc_fd_obj (kern y1) ! fd_slot x fd = FD_NONE" if "x \<in> {1, 2}" "fd \<in> {3, 4}" for x fd
    using rm that by (auto simp: roomy_def normal_unat)
  have "room (Suc 1) (kern y1)" using rm by (simp add: roomy_def numeral_2_eq_2)
  then obtain k2 where k2: "pipe_create_between_fd 2 1 3 (kern y1) = (Inr (), k2)" "room 1 k2"
    using pipe_between_total [OF k1, of 1 2 1 3] free by auto
  then have y2: "static_pipe 2 1 3 y1 = Some (y1\<lparr>kern := k2\<rparr>)" by (simp add: static_pipe_def)
  have "system_inv (y1\<lparr>kern := k2\<rparr>)" using static_pipe_result(1) [OF y2 i1 l(2,1)] by simp
  then have i2: "kernel_inv k2" using inv_withD(3) by (force simp: system_inv_def)
  have dv: "devices_bound (kern y1)" using i1 inv_withD(4) by (auto simp: system_inv_def)
  obtain i j where "proc_fd_obj k2 = (proc_fd_obj (kern y1))[fd_slot 2 3 := i, fd_slot 1 3 := j]"
    using pipe_between_result(2) [OF k2(1) k1 dv] by blast
  then have "proc_fd_obj k2 ! fd_slot x 4 = FD_NONE" if "x \<in> {1, 2}" for x
    using free [OF that, of 4] fd_slot_inject [of 3 4] by (simp add: nth_list_update_neq)
  then obtain k3 where "pipe_create_between_fd 1 2 4 k2 = (Inr (), k3)"
    using pipe_between_total [OF i2, of 0 1 2 4] k2(2) by auto
  then have "static_pipe 1 2 4 (y1\<lparr>kern := k2\<rparr>) = Some (y1\<lparr>kern := k3\<rparr>)" by (simp add: static_pipe_def)
  then show ?thesis using assms(1) y2 False by (simp add: tasks_init_def)
qed (use assms(1) in \<open>simp add: tasks_init_def\<close>)

lemma kernel_main_total:
  assumes "system_storage y" and "length tasks \<le> 7" and "\<forall>(en, fl) \<in> set tasks. fl AND NOT PROC_FLAGS_CREATE_MASK = 0"
  shows "\<exists>y'. kernel_main tasks y = Some y'"
proof -
  have e: "{} = {x. normal x \<and> unat x \<le> 0}" by (auto simp: normal_unat)
  obtain y1 where y1: "create_tasks tasks (kernel_init y) = Some y1" "booting y1" "live_pids y1 = {x. normal x \<and> unat x \<le> length tasks}"
    using create_tasks_result [OF kernel_init_booting(1) [OF assms(1)], of 0 tasks] kernel_init_booting(2) [OF assms(1)] e assms(2,3) by auto
  obtain y2 where "tasks_init tasks (kernel_init y) = Some y2"
    using tasks_init_total [OF y1(1,2)] y1(3) by (auto simp: normal_unat)
  then show ?thesis by (simp add: kernel_main_def Let_def)
qed

section \<open>Every reachable state\<close>

lemma system_steps_inv: "(system_step rp)\<^sup>*\<^sup>* y y' \<Longrightarrow> system_inv y \<Longrightarrow> system_inv y'"
  by (induction rule: rtranclp_induct) (auto intro: system_step_inv)

text \<open>A system that runs: booted from any memory, then any sequence of steps.\<close>

definition system_running :: "'r rp2350 \<Rightarrow> (16 word \<times> byte) list \<Rightarrow> 'r system \<Rightarrow> 'r system \<Rightarrow> bool" where
  "system_running rp tasks m y \<longleftrightarrow> system_storage m \<and> length tasks \<le> 7
     \<and> (\<forall>(en, fl) \<in> set tasks. fl AND NOT PROC_FLAGS_CREATE_MASK = 0)
     \<and> (\<exists>y0. kernel_main tasks m = Some y0 \<and> (system_step rp)\<^sup>*\<^sup>* y0 y)"

lemma system_running_inv: "system_running rp tasks m y \<Longrightarrow> system_inv y"
  using kernel_main_result system_steps_inv unfolding system_running_def by blast

lemma system_running_step: "system_running rp tasks m y \<Longrightarrow> system_step rp y y' \<Longrightarrow> system_running rp tasks m y'"
  unfolding system_running_def by (meson rtranclp.rtrancl_into_rtrancl)

text \<open>Live processes have a context each, of their own; an empty slot holds nothing.\<close>

definition processes_separate :: "'r system \<Rightarrow> bool" where
  "processes_separate y \<longleftrightarrow> kernel_inv (kern y)
     \<and> (\<forall>x \<in> live_pids y. 0 < unat (proc_context y ! unat x) \<and> unat (proc_context y ! unat x) < 10
          \<and> context_state y ! unat (proc_context y ! unat x) = CTX_IN_USE
          \<and> context_owner_pid y ! unat (proc_context y ! unat x) = x)
     \<and> (\<forall>x \<in> live_pids y. \<forall>z \<in> live_pids y. x \<noteq> z \<longrightarrow> proc_context y ! unat x \<noteq> proc_context y ! unat z)
     \<and> (\<forall>c. 0 < c \<and> c < 10 \<and> context_state y ! c = CTX_IN_USE \<longrightarrow> context_owner_pid y ! c \<in> live_pids y)
     \<and> (\<forall>x. normal x \<and> x \<notin> live_pids y \<longrightarrow> (\<forall>fd. \<not> is_open x fd (kern y)))"

lemma system_inv_separate:
  assumes "system_inv y" shows "processes_separate y"
proof -
  have i: "inv_with (live_pids y) y" using assms by (simp add: system_inv_def)
  note c = inv_withD(5) [OF i]
  have d: "x = z" if "x \<in> live_pids y" "z \<in> live_pids y" "proc_context y ! unat x = proc_context y ! unat z" for x z
    by (rule contexts_distinct [OF c that])
  show ?thesis unfolding processes_separate_def
    using inv_withD(3,6) [OF i] contexts_owned [OF c] contexts_owner(1) [OF c] d by (intro conjI) (simp, simp, meson, simp, simp)
qed


end
