(* ===== verification/Applet_Args.thy ===== *)
theory Applet_Args
  imports Neox_Os
begin

text \<open>
  The argument iterator of \<^verbatim>\<open>src/libneox/common/applet_args.c\<close>. A pointer into the launch
  line is the list of the bytes from there on; the null pointer has none.

  The locale \<open>blank_class\<close> is the contract of the character tests that the library, nbox
  and the shell each define for themselves; its lemmas say what a scan with such a test
  finds in terms of the words of the line.
\<close>

section \<open>Data\<close>

record neox_applet_context =
  ctx_line :: "byte list"
  ctx_line_length :: neox_size_t

record neox_arg =
  arg_data :: "byte list"
  arg_length :: neox_size_t

record neox_arg_cursor =
  cur_line :: "byte list"
  cur_line_length :: neox_size_t
  cur_offset :: neox_size_t

section \<open>Operations\<close>

definition neox_arg_is_separator :: "byte \<Rightarrow> bool" where
  "neox_arg_is_separator v = (v = SP \<or> v = TAB)"

definition neox_arg_cursor_init :: "neox_applet_context \<Rightarrow> neox_arg_cursor" where
  "neox_arg_cursor_init context =
     \<lparr>cur_line = ctx_line context, cur_line_length = ctx_line_length context, cur_offset = 0\<rparr>"

definition neox_arg_next :: "neox_arg_cursor \<Rightarrow> (bool \<times> neox_arg_cursor \<times> neox_arg) option" where
  "neox_arg_next cursor = do {
     start \<leftarrow> scan_bounded neox_arg_is_separator
       (cur_line cursor) (cur_line_length cursor) (cur_offset cursor);
     (if start \<ge> cur_line_length cursor
      then Some (False, cursor\<lparr>cur_offset := start\<rparr>, \<lparr>arg_data = [], arg_length = 0\<rparr>)
      else do {
        stop \<leftarrow> scan_bounded (\<lambda>c. \<not> neox_arg_is_separator c)
          (cur_line cursor) (cur_line_length cursor) start;
        Some (True, cursor\<lparr>cur_offset := stop\<rparr>,
          \<lparr>arg_data = drop (unat start) (cur_line cursor), arg_length = stop - start\<rparr>) }) }"

section \<open>The contract of a blank test\<close>

locale blank_class =
  fixes is_blank :: "byte \<Rightarrow> bool"
  assumes blank_iff: "is_blank c \<longleftrightarrow> c = SP \<or> c = TAB"
begin

lemma nul_not_blank [simp]: "\<not> is_blank 0"
  by (simp add: blank_iff)

lemma words_of_same: "words_of is_blank = words_of (\<lambda>c. c = SP \<or> c = TAB)"
proof -
  have "is_blank = (\<lambda>c. c = SP \<or> c = TAB)" by (simp add: fun_eq_iff blank_iff)
  then show ?thesis by simp
qed

end

interpretation arg_blank: blank_class neox_arg_is_separator
  by unfold_locales (simp add: neox_arg_is_separator_def)

abbreviation line_words :: "byte list \<Rightarrow> byte list list" where
  "line_words \<equiv> words_of neox_arg_is_separator"

section \<open>The iterator\<close>

definition ctx_valid :: "neox_applet_context \<Rightarrow> bool" where
  "ctx_valid context \<longleftrightarrow> unat (ctx_line_length context) \<le> length (ctx_line context)"

definition ctx_text :: "neox_applet_context \<Rightarrow> byte list" where
  "ctx_text context = take (unat (ctx_line_length context)) (ctx_line context)"

definition cursor_valid :: "neox_arg_cursor \<Rightarrow> bool" where
  "cursor_valid c \<longleftrightarrow>
     unat (cur_line_length c) \<le> length (cur_line c) \<and> cur_offset c \<le> cur_line_length c"

definition cursor_rest :: "neox_arg_cursor \<Rightarrow> byte list" where
  "cursor_rest c = drop (unat (cur_offset c)) (take (unat (cur_line_length c)) (cur_line c))"

definition arg_bytes :: "neox_arg \<Rightarrow> byte list" where
  "arg_bytes a = take (unat (arg_length a)) (arg_data a)"

definition arg_valid :: "neox_arg \<Rightarrow> bool" where
  "arg_valid a \<longleftrightarrow> unat (arg_length a) \<le> length (arg_data a)"

lemma cursor_init_valid [simp]: "ctx_valid context \<Longrightarrow> cursor_valid (neox_arg_cursor_init context)"
  by (simp add: ctx_valid_def cursor_valid_def neox_arg_cursor_init_def)

lemma cursor_init_rest [simp]: "cursor_rest (neox_arg_cursor_init context) = ctx_text context"
  by (simp add: cursor_rest_def ctx_text_def neox_arg_cursor_init_def)

lemma arg_valid_length: "arg_valid a \<Longrightarrow> length (arg_bytes a) = unat (arg_length a)"
  by (simp add: arg_valid_def arg_bytes_def)

text \<open>One step of the iterator, on positions in the text of the line.\<close>

lemma neox_arg_next_skip:
  fixes c :: neox_arg_cursor
  defines "t \<equiv> take (unat (cur_line_length c)) (cur_line c)"
  defines "i \<equiv> skip neox_arg_is_separator t (unat (cur_offset c))"
  defines "j \<equiv> skip (\<lambda>c. \<not> neox_arg_is_separator c) t i"
  assumes v: "cursor_valid c"
  shows "neox_arg_next c =
     Some (if i < length t
       then (True, c\<lparr>cur_offset := of_nat j\<rparr>,
             \<lparr>arg_data = drop i (cur_line c), arg_length = of_nat j - of_nat i\<rparr>)
       else (False, c\<lparr>cur_offset := of_nat i\<rparr>, \<lparr>arg_data = [], arg_length = 0\<rparr>))"
    and "length t = unat (cur_line_length c)" and "i \<le> length t" and "i \<le> j" and "j \<le> length t"
proof -
  let ?L = "cur_line_length c"
  have L: "unat ?L \<le> length (cur_line c)" and o: "unat (cur_offset c) \<le> unat ?L"
    using v by (simp_all add: cursor_valid_def word_le_nat_alt)
  show t: "length t = unat ?L" using L by (simp add: t_def)
  show i: "i \<le> length t" unfolding i_def using o t by (intro skip_le) simp
  show ij: "i \<le> j" by (simp add: j_def)
  show j: "j \<le> length t" unfolding j_def using i by (rule skip_le)
  have b: "i < 65536" "j < 65536" using i j t unat_size_le [of ?L] by simp_all
  have s1: "scan_bounded neox_arg_is_separator (cur_line c) ?L (cur_offset c) = Some (of_nat i)"
    using scan_bounded_of_nat [OF L o] by (simp add: i_def t_def)
  have s2: "scan_bounded (\<lambda>c. \<not> neox_arg_is_separator c) (cur_line c) ?L (of_nat i) = Some (of_nat j)"
    using scan_bounded_of_nat [OF L, of i] i t by (simp add: j_def t_def)
  have "?L \<le> of_nat i \<longleftrightarrow> \<not> i < length t" using b t by (auto simp: word_le_nat_alt)
  then show "neox_arg_next c =
     Some (if i < length t
       then (True, c\<lparr>cur_offset := of_nat j\<rparr>,
             \<lparr>arg_data = drop i (cur_line c), arg_length = of_nat j - of_nat i\<rparr>)
       else (False, c\<lparr>cur_offset := of_nat i\<rparr>, \<lparr>arg_data = [], arg_length = 0\<rparr>))"
    using s1 s2 b ij by (simp add: neox_arg_next_def)
qed

lemma neox_arg_next_words:
  assumes "cursor_valid c"
  shows "case line_words (cursor_rest c) of
      [] \<Rightarrow> \<exists>c' a. neox_arg_next c = Some (False, c', a)
    | w # ws \<Rightarrow> \<exists>c' a. neox_arg_next c = Some (True, c', a) \<and> cursor_valid c' \<and> arg_valid a
        \<and> arg_bytes a = w \<and> line_words (cursor_rest c') = ws"
proof -
  define t where "t = take (unat (cur_line_length c)) (cur_line c)"
  define i where "i = skip neox_arg_is_separator t (unat (cur_offset c))"
  define j where "j = skip (\<lambda>c. \<not> neox_arg_is_separator c) t i"
  note step = neox_arg_next_skip [OF assms, folded t_def, folded i_def, folded j_def]
  have b: "j < 65536" using step(2,5) unat_size_le [of "cur_line_length c"] by simp
  have rest: "cursor_rest c = drop (unat (cur_offset c)) t" by (simp add: cursor_rest_def t_def)
  show ?thesis
  proof (cases "i < length t")
    case False
    then have "line_words (cursor_rest c) = []"
      unfolding rest using words_of_skip_Nil [of t neox_arg_is_separator] by (simp add: i_def)
    then show ?thesis using step(1) False by simp
  next
    case True
    have w: "line_words (cursor_rest c) = take (j - i) (drop i t) # line_words (drop j t)"
      unfolding rest by (rule words_of_skip_Cons [OF i_def j_def True])
    have v: "unat (cur_line_length c) \<le> length (cur_line c)"
      using assms by (simp add: cursor_valid_def)
    have "take (j - i) (drop i t) = take (j - i) (drop i (cur_line c))"
      using step(2,4,5) by (simp add: t_def drop_take min_absorb1)
    then show ?thesis
      unfolding w using step True b v
      by (simp add: cursor_valid_def arg_valid_def arg_bytes_def cursor_rest_def word_le_nat_alt
          t_def [symmetric])
  qed
qed

lemma neox_arg_next_Nil:
  assumes "cursor_valid c" and "line_words (cursor_rest c) = []"
  obtains c' a where "neox_arg_next c = Some (False, c', a)"
  using neox_arg_next_words [OF assms(1)] assms(2) by auto

lemma neox_arg_next_Cons:
  assumes "cursor_valid c" and "line_words (cursor_rest c) = w # ws"
  obtains c' a where "neox_arg_next c = Some (True, c', a)" and "cursor_valid c'" and "arg_valid a"
    and "arg_bytes a = w" and "line_words (cursor_rest c') = ws"
  using neox_arg_next_words [OF assms(1)] assms(2) by auto

end
