(* ===== verification/Applet_Support.thy ===== *)
theory Applet_Support
  imports Applet_Args
begin

text \<open>
  The applet support library, \<^verbatim>\<open>src/libneox/common/applet_support.c\<close>: string length, complete
  writes, diagnostics, bounded argument copies, decimal and hexadecimal formatting.

  The contract lemmas say what the write helpers do on any descriptor that keeps the
  writer's contract; the formatting lemmas compare the digit loops with the reference
  decimal notation of a number.
\<close>

section \<open>Operations\<close>

definition neox_applet_string_length :: "byte list \<Rightarrow> neox_size_t option" where
  "neox_applet_string_length text = scan_cstring (\<lambda>_. True) text 0"

partial_function (option) write_remaining ::
  "'w neox_os \<Rightarrow> neox_fd_t \<Rightarrow> byte list \<Rightarrow> neox_size_t \<Rightarrow> neox_size_t \<Rightarrow> 'w \<Rightarrow> (neox_status_t \<times> 'w) option" where
  "write_remaining os fd buffer current remaining w =
     (if remaining = 0 then Some (NEOX_STATUS_OK, w)
      else do {
        chunk \<leftarrow> cslice buffer current remaining;
        (status, written, w) \<leftarrow> neox_write os fd chunk w;
        if status \<noteq> NEOX_STATUS_OK then Some (status, w)
        else if written = 0 then Some (NEOX_STATUS_EIO, w)
        else write_remaining os fd buffer (current + written) (remaining - written) w })"

declare write_remaining.simps [code]

definition neox_applet_write_all ::
  "'w neox_os \<Rightarrow> neox_fd_t \<Rightarrow> byte list \<Rightarrow> neox_size_t \<Rightarrow> 'w \<Rightarrow> (neox_status_t \<times> 'w) option" where
  "neox_applet_write_all os fd buffer len w = write_remaining os fd buffer 0 len w"

definition neox_applet_write_string ::
  "'w neox_os \<Rightarrow> neox_fd_t \<Rightarrow> byte list \<Rightarrow> 'w \<Rightarrow> (neox_status_t \<times> 'w) option" where
  "neox_applet_write_string os fd text w = do {
     len \<leftarrow> neox_applet_string_length text;
     neox_applet_write_all os fd text len w }"

definition neox_applet_report :: "'w neox_os \<Rightarrow> byte list \<Rightarrow> 'w \<Rightarrow> 'w option" where
  "neox_applet_report os text w = do {
     (status, w) \<leftarrow> neox_applet_write_string os NEOX_STDERR_FD text w;
     Some w }"

definition neox_applet_copy_argument ::
  "neox_arg \<Rightarrow> byte list \<Rightarrow> neox_size_t \<Rightarrow> (neox_status_t \<times> byte list) option" where
  "neox_applet_copy_argument argument buffer buffer_size =
     (if arg_length argument \<ge> buffer_size then Some (NEOX_STATUS_EINVAL, buffer)
      else do {
        buffer \<leftarrow> copy_bytes buffer 0 (arg_data argument) 0 (arg_length argument) 0;
        buffer \<leftarrow> cstore buffer (arg_length argument) 0;
        Some (NEOX_STATUS_OK, buffer) })"

text \<open>The two loops of the decimal formatter: digits in reverse, then their reversal.\<close>

function format_digits :: "32 word \<Rightarrow> byte list \<Rightarrow> neox_size_t \<Rightarrow> (byte list \<times> neox_size_t) option" where
  "format_digits value reverse count = do {
     reverse \<leftarrow> cstore reverse count (48 + ucast (value mod 10));
     if value div 10 \<noteq> 0 then format_digits (value div 10) reverse (count + 1)
     else Some (reverse, count + 1) }"
  by pat_completeness auto
termination
proof (relation "measure (\<lambda>(value, reverse, count). unat value)")
  fix v :: "32 word"
  assume "v div 10 \<noteq> 0"
  then have "unat (v div 10) \<noteq> 0" by (simp add: unat_eq_0)
  then have "unat v div 10 \<noteq> 0" by (simp add: unat_div)
  then show "((v div 10, r', c + 1), v, r, c) \<in> measure (\<lambda>(value, reverse, count). unat value)"
    for r r' :: "byte list" and c :: neox_size_t
    by (simp add: unat_div)
qed simp

declare format_digits.simps [simp del]

function reverse_bytes :: "byte list \<Rightarrow> byte list \<Rightarrow> neox_size_t \<Rightarrow> neox_size_t \<Rightarrow> byte list option" where
  "reverse_bytes buffer reverse count index =
     (if index < count
      then do {
        c \<leftarrow> cload reverse (count - index - 1);
        buffer \<leftarrow> cstore buffer index c;
        reverse_bytes buffer reverse count (index + 1) }
      else Some buffer)"
  by pat_completeness auto
termination
proof (relation "measure (\<lambda>(buffer, reverse, count, index). unat count - unat index)")
  fix n i :: neox_size_t
  assume "i < n"
  then have "unat i < unat n" by (simp add: word_less_nat_alt)
  moreover from this have "unat (i + 1) = unat i + 1"
    using unat_size_le [of n] by (simp add: unat_size_add)
  ultimately show "((b', r, n, i + 1), b, r, n, i)
      \<in> measure (\<lambda>(buffer, reverse, count, index). unat count - unat index)"
    for b b' r :: "byte list"
    by simp
qed simp

declare reverse_bytes.simps [simp del]

definition neox_applet_format_u32 :: "32 word \<Rightarrow> byte list \<Rightarrow> (neox_size_t \<times> byte list) option" where
  "neox_applet_format_u32 value buffer = do {
     (reverse, count) \<leftarrow> format_digits value (replicate 10 0) 0;
     buffer \<leftarrow> reverse_bytes buffer reverse count 0;
     Some (count, buffer) }"

definition neox_applet_hex_digits :: "byte list" where
  "neox_applet_hex_digits = bytes_of ''0123456789ABCDEF'' @ [0]"

definition neox_applet_format_hex8 :: "byte \<Rightarrow> byte list \<Rightarrow> byte list option" where
  "neox_applet_format_hex8 value buffer = do {
     hi \<leftarrow> cload neox_applet_hex_digits (ucast (drop_bit 4 value));
     buffer \<leftarrow> cstore buffer 0 hi;
     lo \<leftarrow> cload neox_applet_hex_digits (ucast (value AND 0x0F));
     cstore buffer 1 lo }"

text \<open>The statements that end every failing path of an applet.\<close>

definition applet_fail ::
  "'w neox_os \<Rightarrow> byte list \<Rightarrow> neox_status_t \<Rightarrow> 'w \<Rightarrow> (neox_status_t \<times> 'w) option" where
  "applet_fail os text status w = do { w \<leftarrow> neox_applet_report os text w; Some (status, w) }"

text \<open>The early return after a failing call: the rest runs only when the call succeeded.\<close>

definition then_ok ::
  "('w \<Rightarrow> (neox_status_t \<times> 'w) option) \<Rightarrow> ('w \<Rightarrow> (neox_status_t \<times> 'w) option)
   \<Rightarrow> 'w \<Rightarrow> (neox_status_t \<times> 'w) option" where
  "then_ok f g w = do { (status, w) \<leftarrow> f w; if status \<noteq> NEOX_STATUS_OK then Some (status, w) else g w }"

section \<open>Strings and argument copies\<close>

lemma takeWhile_True [simp]: "takeWhile (\<lambda>_. True) xs = xs"
  by (induction xs) auto

lemma skip_True [simp]: "n \<le> length xs \<Longrightarrow> skip (\<lambda>_. True) xs n = length xs"
  by (simp add: skip_def)

lemma string_length_cstring [c_simps]:
  assumes "terminated text" and "length text \<le> 65536"
  shows "neox_applet_string_length text = Some (of_nat (length (cstring text)))"
  using scan_cstring_of_nat [OF assms, of 0 "\<lambda>_. True"]
  by (simp add: neox_applet_string_length_def)

lemma copy_argument_fits:
  assumes "arg_valid a" and "arg_length a < sz" and "unat sz \<le> length buffer"
  shows "neox_applet_copy_argument a buffer sz =
    Some (NEOX_STATUS_OK, arg_bytes a @ 0 # drop (Suc (unat (arg_length a))) buffer)"
proof -
  let ?n = "unat (arg_length a)"
  have n: "?n < length buffer" using assms(2,3) by (simp add: word_less_nat_alt)
  have "copy_bytes buffer 0 (arg_data a) 0 (arg_length a) 0 =
      Some (arg_bytes a @ drop ?n buffer)"
    using copy_bytes_0 [of 0 "arg_length a" "arg_data a" 0 buffer] assms n unat_size_le [of "arg_length a"]
    by (simp add: arg_valid_def arg_bytes_def)
  moreover have "cstore (arg_bytes a @ drop ?n buffer) (arg_length a) 0 =
      Some (arg_bytes a @ 0 # drop (Suc ?n) buffer)"
    using n arg_valid_length [OF assms(1)]
    by (simp add: cstore_def list_update_append Cons_nth_drop_Suc [symmetric])
  ultimately show ?thesis
    using assms(2) by (simp add: neox_applet_copy_argument_def not_le)
qed

lemma copy_argument_too_long:
  "arg_length a \<ge> sz \<Longrightarrow> neox_applet_copy_argument a buffer sz = Some (NEOX_STATUS_EINVAL, buffer)"
  by (simp add: neox_applet_copy_argument_def)

text \<open>The path buffers of the applets have 64 bytes, the terminating NUL included.\<close>

lemma copy_path:
  assumes "arg_valid a" and "arg_bytes a = p"
  shows "neox_applet_copy_argument a (replicate 64 0) NEOX_PATH_MAX =
    (if length p < 64 then Some (NEOX_STATUS_OK, p @ 0 # replicate (63 - length p) 0)
     else Some (NEOX_STATUS_EINVAL, replicate 64 0))"
proof -
  have n: "unat (arg_length a) = length p" using arg_valid_length [OF assms(1)] assms(2) by simp
  show ?thesis
  proof (cases "length p < 64")
    case True
    then have "arg_length a < 64" using n by (simp add: word_less_nat_alt)
    with True n assms show ?thesis by (simp add: copy_argument_fits)
  next
    case False
    then have "arg_length a \<ge> 64" using n by (simp add: word_le_nat_alt)
    with False show ?thesis by (simp add: copy_argument_too_long)
  qed
qed

lemma cstring_path [simp]: "cstring (p @ 0 # rest) = cstring p"
  by (induction p) (auto simp: cstring_def)

section \<open>Complete writes\<close>

text \<open>Whatever one write call keeps, a complete write keeps.\<close>

lemma write_remaining_preserves:
  assumes "write_remaining os fd buffer current remaining w = Some (st, w')" and "Q w"
    and step: "\<And>data w st n w'. Q w \<Longrightarrow> 0 < length data \<Longrightarrow> length data < 65536 \<Longrightarrow>
      neox_write os fd data w = Some (st, n, w') \<Longrightarrow> Q w'"
  shows "Q w'"
proof -
  have "os' = os \<longrightarrow> fd' = fd \<longrightarrow> Q w \<longrightarrow> Q (snd r)"
    if "write_remaining os' fd' buffer current remaining w = Some r" for os' fd' r
    using that
  proof (rule write_remaining.raw_induct [rotated], goal_cases)
    case (1 f o' d' buffer current remaining w r)
    show ?case
    proof (cases "remaining = 0")
      case True
      with 1(2) show ?thesis by auto
    next
      case False
      show ?thesis
      proof (intro impI)
        assume o: "o' = os" "d' = fd" and q: "Q w"
        from False 1(2) o obtain chunk st n w1 where sl: "cslice buffer current remaining = Some chunk"
          and wr: "neox_write os fd chunk w = Some (st, n, w1)"
          and k: "(if st \<noteq> NEOX_STATUS_OK then Some (st, w1) else if n = 0 then Some (NEOX_STATUS_EIO, w1)
            else f os fd buffer (current + n) (remaining - n) w1) = Some r"
          by (auto simp: bind_eq_Some_conv)
        have "length chunk = unat remaining" using sl by (auto simp: cslice_def split: if_splits)
        then have "Q w1" using step [OF q _ _ wr] False unat_size_le [of remaining] by (simp add: unat_gt_0)
        with k show "Q (snd r)" using 1(1) by (auto split: if_splits)
      qed
    qed
  qed
  then show ?thesis using assms(1,2) by fastforce
qed

lemma write_all_preserves:
  assumes "neox_applet_write_all os fd buffer len w = Some (st, w')" and "Q w"
    and "\<And>data w st n w'. Q w \<Longrightarrow> 0 < length data \<Longrightarrow> length data < 65536 \<Longrightarrow>
      neox_write os fd data w = Some (st, n, w') \<Longrightarrow> Q w'"
  shows "Q w'"
  using assms unfolding neox_applet_write_all_def by (rule write_remaining_preserves)

context neox_writer
begin

lemma write_cases:
  assumes "inv w" and "0 < length data" and "length data < 65536"
  obtains st n w' where "neox_write os fd data w = Some (st, of_nat n, w')" and "n \<le> length data"
    and "inv w'" and "out w' = out w @ take n data" and "st \<noteq> NEOX_STATUS_OK \<longrightarrow> n = 0"
  using write_result [OF assms] by blast

lemma write_remaining_result:
  "inv w \<Longrightarrow> pos + rem \<le> length buffer \<Longrightarrow> pos + rem < 65536 \<Longrightarrow>
   \<exists>st k w'. write_remaining os fd buffer (of_nat pos) (of_nat rem) w = Some (st, w')
     \<and> inv w' \<and> k \<le> rem \<and> out w' = out w @ take k (drop pos buffer) \<and> (st = NEOX_STATUS_OK \<longleftrightarrow> k = rem)"
proof (induction rem arbitrary: pos w rule: less_induct)
  case (less rem)
  show ?case
  proof (cases "rem = 0")
    case True
    then show ?thesis using less.prems by (subst write_remaining.simps) auto
  next
    case False
    let ?chunk = "take rem (drop pos buffer)"
    have len: "0 < length ?chunk" "length ?chunk < 65536" "length ?chunk = rem"
      using less.prems False by simp_all
    have sl: "cslice buffer (of_nat pos) (of_nat rem) = Some ?chunk"
      using less.prems by (simp add: cslice_def)
    have nz: "(of_nat rem :: neox_size_t) \<noteq> 0"
      using False less.prems by (simp add: size_of_nat_eq_0)
    obtain st n w1 where wr: "neox_write os fd ?chunk w = Some (st, of_nat n, w1)"
      and n: "n \<le> rem" and inv: "inv w1" and out: "out w1 = out w @ take n ?chunk"
      and err: "st \<noteq> NEOX_STATUS_OK \<longrightarrow> n = 0"
      by (rule write_cases [OF less.prems(1) len(1,2)]) (simp add: len(3))
    show ?thesis
    proof (cases "st = NEOX_STATUS_OK \<and> n \<noteq> 0")
      case False
      with err have "n = 0" by auto
      with out have "out w1 = out w" by simp
      moreover have "\<exists>st'. st' \<noteq> NEOX_STATUS_OK \<and>
          write_remaining os fd buffer (of_nat pos) (of_nat rem) w = Some (st', w1)"
        using False wr sl nz \<open>n = 0\<close> by (subst write_remaining.simps) auto
      ultimately show ?thesis using inv \<open>rem \<noteq> 0\<close>
        by (metis append_Nil2 le0 take0)
    next
      case True
      have "pos + n + (rem - n) \<le> length buffer" "pos + n + (rem - n) < 65536"
        using less.prems n by simp_all
      then obtain st' k w' where rec: "write_remaining os fd buffer (of_nat (pos + n)) (of_nat (rem - n)) w1
          = Some (st', w')" and k: "inv w'" "k \<le> rem - n"
        "out w' = out w1 @ take k (drop (pos + n) buffer)" "st' = NEOX_STATUS_OK \<longleftrightarrow> k = rem - n"
        using less.IH [of "rem - n" w1 "pos + n"] True inv \<open>rem \<noteq> 0\<close> by auto
      have "write_remaining os fd buffer (of_nat pos) (of_nat rem) w = Some (st', w')"
        using True wr sl nz rec n less.prems
        by (subst write_remaining.simps) (simp add: size_of_nat_eq_0)
      moreover have "out w' = out w @ take (n + k) (drop pos buffer)"
        using k(3) out n by (simp add: take_add min_absorb1 add.commute [of pos])
      moreover have "st' = NEOX_STATUS_OK \<longleftrightarrow> n + k = rem" using k(2,4) n by auto
      ultimately show ?thesis using k(1,2) n
        by (intro exI [of _ st'] exI [of _ "n + k"] exI [of _ w']) auto
    qed
  qed
qed

lemma write_all_result:
  assumes "inv w" and "unat n \<le> length buffer"
  obtains st k w' where "neox_applet_write_all os fd buffer n w = Some (st, w')"
    and "inv w'" and "k \<le> unat n" and "out w' = out w @ take k buffer"
    and "st = NEOX_STATUS_OK \<longleftrightarrow> k = unat n"
  using write_remaining_result [of w 0 "unat n" buffer] assms that unat_size_le [of n]
  by (auto simp: neox_applet_write_all_def)

lemma write_string_result:
  assumes "inv w" and "terminated text" and "length text \<le> 65536"
  obtains st k w' where "neox_applet_write_string os fd text w = Some (st, w')"
    and "inv w'" and "k \<le> length (cstring text)" and "out w' = out w @ take k (cstring text)"
    and "st = NEOX_STATUS_OK \<longleftrightarrow> k = length (cstring text)"
proof -
  let ?n = "length (cstring text)"
  have n: "?n \<le> length text" "?n < 65536" using length_cstring_less [OF assms(2)] assms(3) by simp_all
  obtain st k w' where wr: "neox_applet_write_all os fd text (of_nat ?n) w = Some (st, w')"
    "inv w'" "k \<le> ?n" "out w' = out w @ take k text" "st = NEOX_STATUS_OK \<longleftrightarrow> k = ?n"
    using write_all_result [OF assms(1), of "of_nat ?n"] n by (metis unat_size_of_nat)
  have "take k text = take k (cstring text)"
    using wr(3) cstring_eq_take [of "text"] by (metis min.absorb1 take_take)
  then show ?thesis
    using wr assms that by (simp add: neox_applet_write_string_def string_length_cstring)
qed

end

context neox_sink
begin

lemma write_remaining_ok:
  "inv w \<Longrightarrow> pos + rem \<le> length buffer \<Longrightarrow> pos + rem < 65536 \<Longrightarrow>
   \<exists>w'. write_remaining os fd buffer (of_nat pos) (of_nat rem) w = Some (NEOX_STATUS_OK, w')"
proof (induction rem arbitrary: pos w rule: less_induct)
  case (less rem)
  show ?case
  proof (cases "rem = 0")
    case True
    then show ?thesis by (subst write_remaining.simps) simp
  next
    case False
    let ?chunk = "take rem (drop pos buffer)"
    have len: "0 < length ?chunk" "length ?chunk < 65536" using less.prems False by simp_all
    have sl: "cslice buffer (of_nat pos) (of_nat rem) = Some ?chunk"
      using less.prems by (simp add: cslice_def)
    obtain st n w1 where wr: "neox_write os fd ?chunk w = Some (st, of_nat n, w1)"
      and n: "n \<le> rem" and inv: "inv w1"
      by (rule write_cases [OF less.prems(1) len]) (use less.prems in simp)
    have ok: "st = NEOX_STATUS_OK" and nz: "(of_nat n :: neox_size_t) \<noteq> 0"
      using write_accepts [OF less.prems(1) len wr] by simp_all
    have "n \<noteq> 0" using nz by (intro notI) simp
    then obtain w' where
      "write_remaining os fd buffer (of_nat (pos + n)) (of_nat (rem - n)) w1 = Some (NEOX_STATUS_OK, w')"
      using less.IH [of "rem - n" w1 "pos + n"] inv n False less.prems(2,3) by auto
    then show ?thesis
      using wr sl ok nz n False less.prems
      by (subst write_remaining.simps) (simp add: size_of_nat_eq_0)
  qed
qed

lemma write_all_ok:
  assumes "inv w" and "unat n \<le> length buffer"
  obtains w' where "neox_applet_write_all os fd buffer n w = Some (NEOX_STATUS_OK, w')"
    and "inv w'" and "out w' = out w @ take (unat n) buffer"
proof -
  obtain w1 where "neox_applet_write_all os fd buffer n w = Some (NEOX_STATUS_OK, w1)"
    using write_remaining_ok [of w 0 "unat n" buffer] assms unat_size_le [of n]
    by (auto simp: neox_applet_write_all_def)
  then show ?thesis using write_all_result [OF assms] that by (metis option.inject prod.inject)
qed

lemma write_string_ok:
  assumes "inv w" and "terminated text" and "length text \<le> 65536"
  obtains w' where "neox_applet_write_string os fd text w = Some (NEOX_STATUS_OK, w')"
    and "inv w'" and "out w' = out w @ cstring text"
proof -
  have n: "length (cstring text) \<le> length text" "length (cstring text) < 65536"
    using length_cstring_less [OF assms(2)] assms(3) by simp_all
  obtain w' where "neox_applet_write_all os fd text (of_nat (length (cstring text))) w = Some (NEOX_STATUS_OK, w')"
    "inv w'" "out w' = out w @ take (length (cstring text)) text"
    using write_all_ok [OF assms(1), of "of_nat (length (cstring text))"] n by (metis unat_size_of_nat)
  then show ?thesis
    using assms that cstring_eq_take [of "text"]
    by (simp add: neox_applet_write_string_def string_length_cstring)
qed

end

text \<open>
  A call that prints \<open>data\<close> on the descriptor and succeeds. The rows of \<open>ls\<close> and \<open>ps\<close> are
  sequences of such calls.
\<close>

context neox_sink
begin

definition prints :: "('a \<Rightarrow> (neox_status_t \<times> 'a) option) \<Rightarrow> byte list \<Rightarrow> bool" where
  "prints f data \<longleftrightarrow>
     (\<forall>w. inv w \<longrightarrow> (\<exists>w'. f w = Some (NEOX_STATUS_OK, w') \<and> inv w' \<and> out w' = out w @ data))"

lemma prints_write_all [intro]:
  "unat n \<le> length buffer \<Longrightarrow> take (unat n) buffer = data \<Longrightarrow>
   prints (neox_applet_write_all os fd buffer n) data"
  unfolding prints_def using write_all_ok by metis

lemma prints_write_string [intro]:
  "terminated text \<Longrightarrow> length text \<le> 65536 \<Longrightarrow> prints (neox_applet_write_string os fd text) (cstring text)"
  unfolding prints_def using write_string_ok by metis

lemma prints_then_ok [intro]:
  assumes "prints f xs" and "prints g ys"
  shows "prints (then_ok f g) (xs @ ys)"
  unfolding prints_def
proof (intro allI impI)
  fix w assume "inv w"
  then obtain w1 where "f w = Some (NEOX_STATUS_OK, w1)" "inv w1" "out w1 = out w @ xs"
    using assms(1) by (auto simp: prints_def)
  moreover then obtain w2 where "g w1 = Some (NEOX_STATUS_OK, w2)" "inv w2" "out w2 = out w1 @ ys"
    using assms(2) by (auto simp: prints_def)
  ultimately show "\<exists>w'. then_ok f g w = Some (NEOX_STATUS_OK, w') \<and> inv w' \<and> out w' = out w @ xs @ ys"
    by (simp add: then_ok_def)
qed

end

context neox_copier
begin

lemma write_all_keeps_inp:
  assumes "neox_applet_write_all os fdo buffer len w = Some (st, w')" and "inv w"
  shows "inp w' = inp w"
proof -
  have "inv w' \<and> inp w' = inp w"
    using assms(1)
  proof (rule write_all_preserves)
    show "inv w \<and> inp w = inp w" using assms(2) by simp
    show "inv w2 \<and> inp w2 = inp w"
      if "inv w1 \<and> inp w1 = inp w" "0 < length data" "length data < 65536"
        "neox_write os fdo data w1 = Some (st, n, w2)" for data w1 st n w2
      using that dst.write_result [of w1 data] write_keeps_inp [of w1 data st n w2] by auto
  qed
  then show ?thesis by simp
qed

end

text \<open>No write helper touches the descriptor table.\<close>

context neox_descriptors
begin

lemma write_all_fds:
  assumes "neox_applet_write_all os fd buffer len w = Some (st, w')" and "inv w"
  shows "inv w' \<and> fds w' = fds w \<and> dirs w' = dirs w"
  using assms(1)
proof (rule write_all_preserves)
  show "inv w \<and> fds w = fds w \<and> dirs w = dirs w" using assms(2) by simp
qed (auto dest: write_fds)

lemma write_string_fds:
  "neox_applet_write_string os fd text w = Some (st, w') \<Longrightarrow> inv w \<Longrightarrow>
   inv w' \<and> fds w' = fds w \<and> dirs w' = dirs w"
  by (auto simp: neox_applet_write_string_def bind_eq_Some_conv dest: write_all_fds)

lemma report_fds:
  "neox_applet_report os text w = Some w' \<Longrightarrow> inv w \<Longrightarrow>
   inv w' \<and> fds w' = fds w \<and> dirs w' = dirs w"
  by (auto simp: neox_applet_report_def bind_eq_Some_conv dest: write_string_fds)

lemma applet_fail_fds:
  "applet_fail os text st w = Some (st', w') \<Longrightarrow> inv w \<Longrightarrow>
   inv w' \<and> fds w' = fds w \<and> dirs w' = dirs w \<and> st' = st"
  by (auto simp: applet_fail_def bind_eq_Some_conv dest: report_fds)

end

text \<open>A call that leaves the descriptor table as it is.\<close>

context neox_descriptors
begin

definition keeps_fds :: "('w \<Rightarrow> (neox_status_t \<times> 'w) option) \<Rightarrow> bool" where
  "keeps_fds f \<longleftrightarrow> (\<forall>w st w'. inv w \<longrightarrow> f w = Some (st, w') \<longrightarrow>
     inv w' \<and> fds w' = fds w \<and> dirs w' = dirs w)"

lemma keeps_fdsD: "keeps_fds f \<Longrightarrow> f w = Some (st, w') \<Longrightarrow> inv w \<Longrightarrow>
    inv w' \<and> fds w' = fds w \<and> dirs w' = dirs w"
  by (auto simp: keeps_fds_def)

lemma keeps_write_all [intro!]: "keeps_fds (neox_applet_write_all os fd buffer n)"
  by (auto simp: keeps_fds_def dest: write_all_fds)

lemma keeps_write_string [intro!]: "keeps_fds (neox_applet_write_string os fd text)"
  by (auto simp: keeps_fds_def dest: write_string_fds)

lemma keeps_then_ok [intro!]:
  assumes "keeps_fds f" and "keeps_fds g"
  shows "keeps_fds (then_ok f g)"
  unfolding keeps_fds_def
proof (intro allI impI)
  fix w st w' assume "inv w" and "then_ok f g w = Some (st, w')"
  then obtain st1 w1 where f: "f w = Some (st1, w1)"
    and k: "(if st1 \<noteq> NEOX_STATUS_OK then Some (st1, w1) else g w1) = Some (st, w')"
    by (auto simp: then_ok_def bind_eq_Some_conv)
  note w1 = keeps_fdsD [OF assms(1) f \<open>inv w\<close>]
  show "inv w' \<and> fds w' = fds w \<and> dirs w' = dirs w"
    using k w1 keeps_fdsD [OF assms(2), of w1 st w'] by (simp split: if_splits)
qed

end

section \<open>Decimal and hexadecimal notation\<close>

text \<open>The reference notation: the decimal digits of a number, most significant first.\<close>

fun decimal :: "nat \<Rightarrow> byte list" where
  "decimal n = (if n < 10 then [48 + of_nat n] else decimal (n div 10) @ [48 + of_nat (n mod 10)])"

declare decimal.simps [simp del]

definition decimal_value :: "byte list \<Rightarrow> nat" where
  "decimal_value ds = foldl (\<lambda>v d. v * 10 + (unat d - 48)) 0 ds"

lemma decimal_digit:
  assumes "n < 10" shows "unat (48 + of_nat n :: byte) = 48 + n"
proof -
  have "(48 + of_nat n :: byte) = of_nat (48 + n)" by simp
  then show ?thesis using assms by (simp only: unat_of_nat) (simp add: take_bit_eq_mod)
qed

lemma decimal_nonempty [simp]: "decimal n \<noteq> []"
  by (subst decimal.simps) simp

lemma decimal_digits: "d \<in> set (decimal n) \<Longrightarrow> 48 \<le> unat d \<and> unat d \<le> 57"
proof (induction n rule: decimal.induct)
  case (1 n)
  show ?case
    using 1 decimal_digit [of n] decimal_digit [of "n mod 10"]
    by (cases "n < 10") (auto simp: decimal.simps [of n])
qed

lemma decimal_value_decimal: "decimal_value (decimal n) = n"
proof (induction n rule: decimal.induct)
  case (1 n)
  show ?case
    using 1 decimal_digit [of n] decimal_digit [of "n mod 10"]
    by (cases "n < 10") (simp_all add: decimal.simps [of n] decimal_value_def)
qed

lemma length_decimal: "n < 10 ^ Suc k \<Longrightarrow> length (decimal n) \<le> Suc k"
proof (induction k arbitrary: n)
  case 0
  then show ?case by (simp add: decimal.simps [of n])
next
  case (Suc k)
  show ?case
  proof (cases "n < 10")
    case False
    have "n div 10 < 10 ^ Suc k" using Suc.prems by (simp add: less_mult_imp_div_less mult.commute)
    with Suc.IH [of "n div 10"] False show ?thesis by (simp add: decimal.simps [of n])
  qed (simp add: decimal.simps [of n])
qed

lemma length_decimal_u32: "length (decimal (unat (v :: 32 word))) \<le> 10"
  using length_decimal [of "unat v" 9] unsigned_less [of v, where ?'a = nat] by simp

lemma format_digits_decimal:
  "c + length (decimal (unat v)) \<le> length r \<Longrightarrow> length r < 65536 \<Longrightarrow>
   format_digits v r (of_nat c) =
     Some (take c r @ rev (decimal (unat v)) @ drop (c + length (decimal (unat v))) r,
       of_nat (c + length (decimal (unat v))))"
proof (induction "unat v" arbitrary: v c r rule: less_induct)
  case less
  let ?d = "48 + ucast (v mod 10) :: byte"
  have "ucast (v mod 10) = (of_nat (unat (v mod 10)) :: byte)" by (simp only: of_nat_unat)
  then have d: "?d = 48 + of_nat (unat v mod 10)" by (simp add: unat_mod)
  have c: "c < length r" using less.prems(1) decimal_nonempty [of "unat v"] by (cases "decimal (unat v)") auto
  have st: "cstore r (of_nat c) ?d = Some (r[c := ?d])"
    using c less.prems(2) by (intro cstore_of_nat) simp_all
  have tk: "take (Suc c) (r[c := x]) = take c r @ [x]" for x
    using c by (simp add: take_Suc_conv_app_nth)
  have z: "v div 10 = 0 \<longleftrightarrow> unat v < 10" by (auto simp: unat_eq_0 [symmetric] unat_div div_eq_0_iff)
  show ?case
  proof (cases "unat v < 10")
    case True
    then show ?thesis
      using st z d c by (subst format_digits.simps) (simp add: decimal.simps [of "unat v"] upd_conv_take_nth_drop)
  next
    case False
    have q: "unat (v div 10) = unat v div 10" by (simp add: unat_div)
    have dec: "decimal (unat v) = decimal (unat v div 10) @ [?d]"
      using False by (simp add: decimal.simps [of "unat v"] d)
    have "format_digits (v div 10) (r[c := ?d]) (of_nat (Suc c)) =
      Some (take (Suc c) (r[c := ?d]) @ rev (decimal (unat (v div 10)))
          @ drop (Suc c + length (decimal (unat (v div 10)))) (r[c := ?d]),
        of_nat (Suc c + length (decimal (unat (v div 10)))))"
      using less.prems dec q False by (intro less.hyps) simp_all
    then show ?thesis
      using st z False tk
      by (subst format_digits.simps) (simp add: dec q add.commute [of 1] add.left_commute)
  qed
qed

lemma reverse_bytes_rev:
  "i \<le> n \<Longrightarrow> n \<le> length r \<Longrightarrow> n \<le> length b \<Longrightarrow> n < 65536 \<Longrightarrow>
   reverse_bytes b r (of_nat n) (of_nat i) = Some (take i b @ drop i (rev (take n r)) @ drop n b)"
proof (induction "n - i" arbitrary: i b)
  case 0
  then show ?case by (subst reverse_bytes.simps) simp
next
  case (Suc k)
  then have i: "i < n" by simp
  let ?x = "r ! (n - i - 1)"
  have ix: "(of_nat n - of_nat i - 1 :: neox_size_t) = of_nat (n - i - 1)" using i by simp
  have ld: "cload r (of_nat n - of_nat i - 1) = Some ?x"
    unfolding ix using i Suc.prems by (intro cload_of_nat) simp_all
  have st: "cstore b (of_nat i) ?x = Some (b[i := ?x])"
    using i Suc.prems by (intro cstore_of_nat) simp_all
  have IH: "reverse_bytes (b[i := ?x]) r (of_nat n) (of_nat (Suc i)) =
      Some (take (Suc i) (b[i := ?x]) @ drop (Suc i) (rev (take n r)) @ drop n (b[i := ?x]))"
    using Suc i by (intro Suc.hyps(1)) simp_all
  have "drop i (rev (take n r)) = ?x # drop (Suc i) (rev (take n r))"
    using i Suc.prems by (subst Cons_nth_drop_Suc [symmetric]) (simp_all add: rev_nth)
  moreover have "take (Suc i) (b[i := ?x]) = take i b @ [?x]"
    using i Suc.prems by (simp add: take_Suc_conv_app_nth)
  ultimately show ?case
    using i Suc.prems ld st IH
    by (subst reverse_bytes.simps) (simp add: size_less_of_nat add.commute)
qed

lemma format_u32_decimal:
  fixes buffer :: "byte list" and v :: "32 word"
  assumes "length buffer = 10"
  defines "ds \<equiv> decimal (unat v)"
  shows "neox_applet_format_u32 v buffer = Some (of_nat (length ds), ds @ drop (length ds) buffer)"
    and "length ds \<le> 10" and "ds \<noteq> []"
proof -
  show n: "length ds \<le> 10" unfolding ds_def by (rule length_decimal_u32)
  show "ds \<noteq> []" by (simp add: ds_def)
  have f: "format_digits v (replicate 10 0) 0 =
      Some (rev ds @ drop (length ds) (replicate 10 0), of_nat (length ds))"
    using format_digits_decimal [of 0 v "replicate 10 0"] n by (simp add: ds_def)
  have "reverse_bytes buffer (rev ds @ drop (length ds) (replicate 10 0)) (of_nat (length ds)) 0 =
      Some (ds @ drop (length ds) buffer)"
    using reverse_bytes_rev [of 0 "length ds" "rev ds @ drop (length ds) (replicate 10 0)" buffer] n assms(1)
    by simp
  with f show "neox_applet_format_u32 v buffer = Some (of_nat (length ds), ds @ drop (length ds) buffer)"
    by (simp add: neox_applet_format_u32_def)
qed

definition hex_digit :: "nat \<Rightarrow> byte" where
  "hex_digit n = (if n < 10 then 48 + of_nat n else 55 + of_nat n)"

lemma hex_digits_nth: "n < 16 \<Longrightarrow> neox_applet_hex_digits ! n = hex_digit n"
proof -
  assume "n < 16"
  then have "n \<in> set [0..<16]" by simp
  moreover have "\<forall>n \<in> set [0..<16]. neox_applet_hex_digits ! n = hex_digit n"
    by (simp add: neox_applet_hex_digits_def bytes_of_def hex_digit_def upt_rec)
  ultimately show ?thesis by blast
qed

lemma format_hex8_digits:
  assumes "length buffer = 2"
  shows "neox_applet_format_hex8 v buffer =
    Some [hex_digit (unat v div 16), hex_digit (unat v mod 16)]"
proof -
  obtain a b where buf: "buffer = [a, b]" using assms by (auto simp: length_Suc_conv numeral_2_eq_2)
  have b: "unat v < 256" using unsigned_less [of v, where ?'a = nat] by simp
  have hi: "unat (ucast (drop_bit 4 v) :: neox_size_t) = unat v div 16"
    using b by (simp add: unsigned_ucast_eq drop_bit_eq_div unat_div take_bit_eq_mod)
  have "v AND 0x0F = take_bit 4 v" by (simp add: take_bit_eq_mask mask_eq_exp_minus_1)
  then have lo: "unat (ucast (v AND 0x0F) :: neox_size_t) = unat v mod 16"
    using b by (simp add: unsigned_ucast_eq unat_mod take_bit_eq_mod)
  have len: "length neox_applet_hex_digits = 17" by (simp add: neox_applet_hex_digits_def)
  have "cload neox_applet_hex_digits (ucast (drop_bit 4 v)) = Some (hex_digit (unat v div 16))"
    using b by (simp add: cload_def hi len hex_digits_nth)
  moreover have "cload neox_applet_hex_digits (ucast (v AND 0x0F)) = Some (hex_digit (unat v mod 16))"
    by (simp add: cload_def lo len hex_digits_nth)
  ultimately show ?thesis
    by (simp add: neox_applet_format_hex8_def buf cstore_def)
qed

end
