(* ===== verification/Applet_Process.thy ===== *)
theory Applet_Process
  imports Applet_Support
begin

text \<open>
  The applets about processes: \<^verbatim>\<open>ps.c\<close> and \<^verbatim>\<open>kill.c\<close> of \<^verbatim>\<open>src/user/applets\<close>.

  The lemmas give the text of a \<open>ps\<close> row, and show that the digit loop of \<open>kill\<close>, which
  computes in 16 bits and stops at the bound, accepts exactly the decimal notations of
  the numbers up to its bound, and which words \<open>kill\<close> takes as a signal and a process.
\<close>

section \<open>ps\<close>

definition ps_header :: "byte list" where "ps_header = message ''PID PPID ST  WAIT OBJ SIG''"
definition ps_extra_message :: "byte list" where "ps_extra_message = message ''ps: too many arguments''"
definition ps_read_message :: "byte list" where
  "ps_read_message = message ''ps: cannot read process table''"
definition ps_write_message :: "byte list" where "ps_write_message = message ''ps: write error''"
definition ps_space :: "byte list" where "ps_space = [SP, 0]"
definition ps_cr :: "byte list" where "ps_cr = [CR, 0]"

definition ps_write_text :: "'w neox_os \<Rightarrow> byte list \<Rightarrow> 'w \<Rightarrow> (neox_status_t \<times> 'w) option" where
  "ps_write_text os text w = neox_applet_write_string os NEOX_STDOUT_FD text w"

definition ps_write_hex :: "'w neox_os \<Rightarrow> byte \<Rightarrow> 'w \<Rightarrow> (neox_status_t \<times> 'w) option" where
  "ps_write_hex os v w = do {
     ps_hex_buffer \<leftarrow> neox_applet_format_hex8 v (replicate 2 0);
     neox_applet_write_all os NEOX_STDOUT_FD ps_hex_buffer 2 w }"

definition ps_write_signal_decimal :: "'w neox_os \<Rightarrow> byte \<Rightarrow> 'w \<Rightarrow> (neox_status_t \<times> 'w) option" where
  "ps_write_signal_decimal os v w = do {
     (len, ps_decimal_buffer) \<leftarrow> neox_applet_format_u32 (ucast v) (replicate 10 0);
     if len < 2
     then then_ok (neox_applet_write_all os NEOX_STDOUT_FD ps_space 1)
            (neox_applet_write_all os NEOX_STDOUT_FD ps_decimal_buffer len) w
     else neox_applet_write_all os NEOX_STDOUT_FD ps_decimal_buffer len w }"

abbreviation (input) ps_state_empty :: "byte list" where "ps_state_empty \<equiv> ctext ''EMP''"
abbreviation (input) ps_state_new :: "byte list" where "ps_state_new \<equiv> ctext ''NEW''"
abbreviation (input) ps_state_ready :: "byte list" where "ps_state_ready \<equiv> ctext ''RDY''"
abbreviation (input) ps_state_running :: "byte list" where "ps_state_running \<equiv> ctext ''RUN''"
abbreviation (input) ps_state_blocked :: "byte list" where "ps_state_blocked \<equiv> ctext ''BLK''"
abbreviation (input) ps_state_stopped :: "byte list" where "ps_state_stopped \<equiv> ctext ''STP''"
abbreviation (input) ps_state_zombie :: "byte list" where "ps_state_zombie \<equiv> ctext ''ZOM''"
abbreviation (input) ps_state_unknown :: "byte list" where "ps_state_unknown \<equiv> ctext ''???''"
abbreviation (input) ps_wait_none :: "byte list" where "ps_wait_none \<equiv> ctext ''----''"
abbreviation (input) ps_wait_console :: "byte list" where "ps_wait_console \<equiv> ctext ''CON ''"
abbreviation (input) ps_wait_device :: "byte list" where "ps_wait_device \<equiv> ctext ''DEV ''"
abbreviation (input) ps_wait_pipe_read :: "byte list" where "ps_wait_pipe_read \<equiv> ctext ''PIPR''"
abbreviation (input) ps_wait_timer :: "byte list" where "ps_wait_timer \<equiv> ctext ''TIMR''"
abbreviation (input) ps_wait_process :: "byte list" where "ps_wait_process \<equiv> ctext ''PROC''"
abbreviation (input) ps_wait_lock :: "byte list" where "ps_wait_lock \<equiv> ctext ''LOCK''"
abbreviation (input) ps_wait_pipe_write :: "byte list" where "ps_wait_pipe_write \<equiv> ctext ''PIPW''"
abbreviation (input) ps_wait_rp :: "byte list" where "ps_wait_rp \<equiv> ctext ''RP  ''"
abbreviation (input) ps_wait_unknown :: "byte list" where "ps_wait_unknown \<equiv> ctext ''????''"
abbreviation (input) ps_object_none :: "byte list" where "ps_object_none \<equiv> ctext ''---''"
abbreviation (input) ps_object_file_io :: "byte list" where "ps_object_file_io \<equiv> ctext ''FIO''"
abbreviation (input) ps_object_process :: "byte list" where "ps_object_process \<equiv> ctext ''PRC''"
abbreviation (input) ps_object_unknown :: "byte list" where "ps_object_unknown \<equiv> ctext ''???''"

definition ps_state_text :: "byte \<Rightarrow> byte list" where
  "ps_state_text st =
     (if st = NEOX_PROCESS_EMPTY then ps_state_empty
      else if st = NEOX_PROCESS_NEW then ps_state_new
      else if st = NEOX_PROCESS_READY then ps_state_ready
      else if st = NEOX_PROCESS_RUNNING then ps_state_running
      else if st = NEOX_PROCESS_BLOCKED then ps_state_blocked
      else if st = NEOX_PROCESS_STOPPED then ps_state_stopped
      else if st = NEOX_PROCESS_ZOMBIE then ps_state_zombie
      else ps_state_unknown)"

definition ps_wait_text :: "byte \<Rightarrow> byte list" where
  "ps_wait_text reason =
     (if reason = NEOX_WAIT_NONE then ps_wait_none
      else if reason = NEOX_WAIT_CONSOLE then ps_wait_console
      else if reason = NEOX_WAIT_DEVICE then ps_wait_device
      else if reason = NEOX_WAIT_PIPE_READ then ps_wait_pipe_read
      else if reason = NEOX_WAIT_TIMER then ps_wait_timer
      else if reason = NEOX_WAIT_PROCESS then ps_wait_process
      else if reason = NEOX_WAIT_LOCK then ps_wait_lock
      else if reason = NEOX_WAIT_PIPE_WRITE then ps_wait_pipe_write
      else if reason = NEOX_WAIT_RP then ps_wait_rp
      else ps_wait_unknown)"

definition ps_object_text :: "byte \<Rightarrow> byte \<Rightarrow> byte list option" where
  "ps_object_text reason object =
     (if reason = NEOX_WAIT_NONE then Some ps_object_none
      else if reason \<noteq> NEOX_WAIT_LOCK then None
      else if object = NEOX_LOCK_FILE_IO then Some ps_object_file_io
      else if object = NEOX_LOCK_PROCESS then Some ps_object_process
      else Some ps_object_unknown)"

definition ps_print_row :: "'w neox_os \<Rightarrow> neox_process_info \<Rightarrow> 'w \<Rightarrow> (neox_status_t \<times> 'w) option" where
  "ps_print_row os info =
     then_ok (ps_write_hex os (pid info))
     (then_ok (ps_write_text os (ctext ''  ''))
     (then_ok (ps_write_hex os (parent_pid info))
     (then_ok (ps_write_text os (ctext ''   ''))
     (then_ok (ps_write_text os (ps_state_text (proc_state info)))
     (then_ok (neox_applet_write_all os NEOX_STDOUT_FD ps_space 1)
     (then_ok (ps_write_text os (ps_wait_text (wait_reason info)))
     (then_ok (neox_applet_write_all os NEOX_STDOUT_FD ps_space 1)
     (then_ok (case ps_object_text (wait_reason info) (wait_object info) of
         Some object_text \<Rightarrow> ps_write_text os object_text
       | None \<Rightarrow> then_ok (ps_write_hex os (wait_object info))
                   (neox_applet_write_all os NEOX_STDOUT_FD ps_space 1))
     (then_ok (ps_write_text os (ctext '' ''))
     (then_ok (ps_write_signal_decimal os (signal_pending info))
     (neox_applet_write_all os NEOX_STDOUT_FD ps_cr 1)))))))))))"

function ps_rows :: "'w neox_os \<Rightarrow> neox_pid_t \<Rightarrow> 'w \<Rightarrow> (neox_status_t \<times> 'w) option" where
  "ps_rows os p w =
     (if p < NEOX_MAX_PROCESSES then do {
        (status, ps_info, w) \<leftarrow> neox_get_process_info os p w;
        if status \<noteq> NEOX_STATUS_OK then applet_fail os ps_read_message status w
        else if proc_state ps_info = NEOX_PROCESS_EMPTY then ps_rows os (p + 1) w
        else do {
          (status, w) \<leftarrow> ps_print_row os ps_info w;
          if status \<noteq> NEOX_STATUS_OK then applet_fail os ps_write_message status w
          else ps_rows os (p + 1) w } }
      else Some (NEOX_STATUS_OK, w))"
  by pat_completeness auto
termination
proof (relation "measure (\<lambda>(os, p, w). 8 - unat p)", goal_cases)
  case (2 os p w)
  then show ?case by (auto simp: word_less_nat_alt unat_word_ariths)
next
  case (3 os p w)
  then show ?case by (auto simp: word_less_nat_alt unat_word_ariths)
qed simp

declare ps_rows.simps [simp del]

definition neox_applet_ps :: "'w neox_os \<Rightarrow> neox_applet_context \<Rightarrow> 'w \<Rightarrow> (neox_status_t \<times> 'w) option" where
  "neox_applet_ps os context w = do {
     (found, cursor, extra_argument) \<leftarrow> neox_arg_next (neox_arg_cursor_init context);
     if found then applet_fail os ps_extra_message NEOX_STATUS_EINVAL w
     else do {
       (status, w) \<leftarrow> ps_write_text os ps_header w;
       if status \<noteq> NEOX_STATUS_OK then applet_fail os ps_write_message status w
       else ps_rows os 0 w } }"

section \<open>kill\<close>

definition kill_usage_message :: "byte list" where
  "kill_usage_message = message ''kill: usage: kill -SIGNAL PID''"
definition kill_invalid_signal_message :: "byte list" where
  "kill_invalid_signal_message = message ''kill: invalid signal''"
definition kill_invalid_pid_message :: "byte list" where
  "kill_invalid_pid_message = message ''kill: invalid pid''"
definition kill_failed_message :: "byte list" where
  "kill_failed_message = message ''kill: signal failed''"

text \<open>
  The outer option is the memory access, the inner one is the result: \<open>None\<close> where the code
  returns zero and leaves the output alone.
\<close>

function kill_parse_digits :: "neox_arg \<Rightarrow> byte \<Rightarrow> neox_size_t \<Rightarrow> 16 word \<Rightarrow> byte option option" where
  "kill_parse_digits argument maximum index v =
     (if index < arg_length argument then do {
        digit \<leftarrow> cload (arg_data argument) index;
        if digit < 48 \<or> 57 < digit then Some None
        else let v = v * 10 + ucast (digit - 48) in
          if v > ucast maximum then Some None
          else kill_parse_digits argument maximum (index + 1) v }
      else Some (Some (ucast v)))"
  by pat_completeness auto
termination
proof (relation "measure (\<lambda>(a, m, index, v). unat (arg_length a) - unat index)", goal_cases)
  case (2 a m i v d v')
  then have i: "unat i < unat (arg_length a)" by (simp add: word_less_nat_alt)
  then have "unat (i + 1) = unat i + 1"
    using unat_size_le [of "arg_length a"] by (simp add: unat_size_add)
  with i show ?case by simp
qed simp

declare kill_parse_digits.simps [simp del]

definition kill_parse_decimal :: "neox_arg \<Rightarrow> byte \<Rightarrow> byte option option" where
  "kill_parse_decimal argument maximum =
     (if arg_length argument = 0 then Some None else kill_parse_digits argument maximum 0 0)"

definition kill_parse_signal :: "neox_arg \<Rightarrow> byte option option" where
  "kill_parse_signal argument =
     (if arg_length argument < 2 then Some None
      else do {
        c \<leftarrow> cload (arg_data argument) 0;
        if c \<noteq> of_char CHR ''-'' then Some None
        else do {
          parsed \<leftarrow> kill_parse_decimal
            \<lparr>arg_data = drop 1 (arg_data argument), arg_length = arg_length argument - 1\<rparr> 19;
          case parsed of
            None \<Rightarrow> Some None
          | Some signal \<Rightarrow>
              if signal \<noteq> NEOX_SIG_INT \<and> signal \<noteq> NEOX_SIG_KILL \<and> signal \<noteq> NEOX_SIG_CONT
                \<and> signal \<noteq> NEOX_SIG_STOP
              then Some None else Some (Some signal) } })"

definition kill_deliver :: "'w neox_os \<Rightarrow> neox_pid_t \<Rightarrow> byte \<Rightarrow> 'w \<Rightarrow> (neox_status_t \<times> 'w) option" where
  "kill_deliver os p signal w = do {
     (status, w) \<leftarrow> neox_signal os p signal w;
     if status \<noteq> NEOX_STATUS_OK then applet_fail os kill_failed_message status w
     else Some (status, w) }"

definition neox_applet_kill :: "'w neox_os \<Rightarrow> neox_applet_context \<Rightarrow> 'w \<Rightarrow> (neox_status_t \<times> 'w) option" where
  "neox_applet_kill os context w = do {
     (found, cursor, signal_argument) \<leftarrow> neox_arg_next (neox_arg_cursor_init context);
     if \<not> found then applet_fail os kill_usage_message NEOX_STATUS_EINVAL w else do {
     (found, cursor, pid_argument) \<leftarrow> neox_arg_next cursor;
     if \<not> found then applet_fail os kill_usage_message NEOX_STATUS_EINVAL w else do {
     (found, cursor, extra_argument) \<leftarrow> neox_arg_next cursor;
     if found then applet_fail os kill_usage_message NEOX_STATUS_EINVAL w else do {
     parsed_signal \<leftarrow> kill_parse_signal signal_argument;
     case parsed_signal of
       None \<Rightarrow> applet_fail os kill_invalid_signal_message NEOX_STATUS_EINVAL w
     | Some signal \<Rightarrow> do {
         parsed_pid \<leftarrow> kill_parse_decimal pid_argument (NEOX_MAX_PROCESSES - 1);
         case parsed_pid of
           None \<Rightarrow> applet_fail os kill_invalid_pid_message NEOX_STATUS_EINVAL w
         | Some p \<Rightarrow>
             if p = 0 then applet_fail os kill_invalid_pid_message NEOX_STATUS_EINVAL w
             else kill_deliver os p signal w } }}}}"

section \<open>Rows of ps\<close>

definition hex8 :: "byte \<Rightarrow> byte list" where
  "hex8 v = [hex_digit (unat v div 16), hex_digit (unat v mod 16)]"

definition signal_field :: "byte \<Rightarrow> byte list" where
  "signal_field v = (if unat v < 10 then [SP] else []) @ decimal (unat v)"

definition ps_row :: "neox_process_info \<Rightarrow> byte list" where
  "ps_row info =
     hex8 (pid info) @ [SP, SP] @ hex8 (parent_pid info) @ [SP, SP, SP]
     @ cstring (ps_state_text (proc_state info)) @ [SP]
     @ cstring (ps_wait_text (wait_reason info)) @ [SP]
     @ (case ps_object_text (wait_reason info) (wait_object info) of
          Some object_text \<Rightarrow> cstring object_text | None \<Rightarrow> hex8 (wait_object info) @ [SP])
     @ [SP]
     @ signal_field (signal_pending info) @ [CR]"

text \<open>The rows of the slots from \<open>n\<close> on that are not empty.\<close>

definition ps_listing :: "(neox_pid_t \<Rightarrow> neox_process_info) \<Rightarrow> nat \<Rightarrow> byte list" where
  "ps_listing info n = concat (map (\<lambda>i. ps_row (info (of_nat i)))
     (filter (\<lambda>i. proc_state (info (of_nat i)) \<noteq> NEOX_PROCESS_EMPTY) [n..<8]))"

lemma length_hex8 [simp]: "length (hex8 v) = 2"
  by (simp add: hex8_def)

lemma ps_state_text_width: "length (cstring (ps_state_text st)) = 3"
  by (simp add: ps_state_text_def)

lemma ps_wait_text_width: "length (cstring (ps_wait_text r)) = 4"
  by (simp add: ps_wait_text_def)

lemma ps_object_text_width: "ps_object_text r ob = Some t \<Longrightarrow> length (cstring t) = 3"
  by (auto simp: ps_object_text_def split: if_splits)

lemma length_decimal_byte: "unat (v :: byte) < 100 \<Longrightarrow> length (decimal (unat v)) = (if unat v < 10 then 1 else 2)"
  using decimal.simps [of "unat v"] decimal.simps [of "unat v div 10"] by auto

text \<open>Every row fills the columns of the header line, as long as the signal has two digits.\<close>

lemma ps_row_width:
  assumes "unat (signal_pending info) < 100"
  shows "length (ps_row info) = 25"
  using assms
  by (auto dest: ps_object_text_width simp: ps_row_def signal_field_def ps_state_text_width ps_wait_text_width length_decimal_byte split: option.splits)

context neox_stdout
begin

lemma prints_text: "terminated t \<Longrightarrow> length t \<le> 65536 \<Longrightarrow> cstring t = data \<Longrightarrow> prints (ps_write_text os t) data"
  using prints_write_string [of t] by (simp add: ps_write_text_def prints_def)

lemma prints_hex: "prints (ps_write_hex os v) (hex8 v)"
proof -
  have "prints (neox_applet_write_all os NEOX_STDOUT_FD (hex8 v) 2) (hex8 v)"
    by (intro prints_write_all) simp_all
  then show ?thesis by (simp add: prints_def ps_write_hex_def format_hex8_digits hex8_def)
qed

lemma prints_signal:
  "prints (ps_write_signal_decimal os v) (signal_field v)"
proof -
  let ?d = "decimal (unat v)"
  have u: "unat (ucast v :: 32 word) = unat v"
    using unsigned_less [of v, where ?'a = nat] by (simp add: unsigned_ucast_eq take_bit_eq_mod)
  have n: "length ?d \<le> 10" using format_u32_decimal(2) [of "replicate 10 0" "ucast v"] u by simp
  have f: "neox_applet_format_u32 (ucast v) (replicate 10 0) = Some (of_nat (length ?d), ?d @ drop (length ?d) (replicate 10 0))"
    using format_u32_decimal(1) [of "replicate 10 0" "ucast v"] u by simp
  have lt: "(of_nat (length ?d) :: neox_size_t) < 2 \<longleftrightarrow> unat v < 10"
    using n by (simp add: word_less_nat_alt decimal.simps [of "unat v"] Suc_le_eq)
  have d: "prints (neox_applet_write_all os NEOX_STDOUT_FD (?d @ drop (length ?d) (replicate 10 0)) (of_nat (length ?d))) ?d"
    using n by (intro prints_write_all) simp_all
  have "prints (then_ok (neox_applet_write_all os NEOX_STDOUT_FD ps_space 1)
      (neox_applet_write_all os NEOX_STDOUT_FD (?d @ drop (length ?d) (replicate 10 0)) (of_nat (length ?d)))) ([SP] @ ?d)"
    by (intro prints_then_ok prints_write_all d) (simp_all add: ps_space_def)
  with d show ?thesis using f lt by (simp add: prints_def ps_write_signal_decimal_def signal_field_def)
qed

lemma prints_object:
  "prints (case ps_object_text r ob of
       Some t \<Rightarrow> ps_write_text os t
     | None \<Rightarrow> then_ok (ps_write_hex os ob) (neox_applet_write_all os NEOX_STDOUT_FD ps_space 1))
   (case ps_object_text r ob of Some t \<Rightarrow> cstring t | None \<Rightarrow> hex8 ob @ [SP])"
proof (cases "ps_object_text r ob")
  case None
  have "prints (then_ok (ps_write_hex os ob) (neox_applet_write_all os NEOX_STDOUT_FD ps_space 1)) (hex8 ob @ [SP])"
    by (intro prints_then_ok prints_hex prints_write_all) (simp_all add: ps_space_def)
  with None show ?thesis by simp
next
  case (Some t)
  then have "terminated t" "length t \<le> 65536" by (auto simp: ps_object_text_def split: if_splits)
  with Some show ?thesis by (simp add: prints_text)
qed

lemma prints_row: "prints (ps_print_row os info) (ps_row info)"
proof -
  have st: "terminated (ps_state_text s)" "length (ps_state_text s) \<le> 65536" for s
    by (simp_all add: ps_state_text_def)
  have wt: "terminated (ps_wait_text r)" "length (ps_wait_text r) \<le> 65536" for r
    by (simp_all add: ps_wait_text_def)
  show ?thesis
    unfolding ps_print_row_def ps_row_def
    by (intro prints_then_ok prints_hex prints_signal prints_object prints_text prints_write_all)
      (simp_all add: ps_space_def ps_cr_def st wt bytes_of_def)
qed

lemma ps_row_printed:
  "inv w \<Longrightarrow> \<exists>w'. ps_print_row os info w = Some (NEOX_STATUS_OK, w') \<and> inv w' \<and> out w' = out w @ ps_row info"
  using prints_row [of info] by (simp add: prints_def)

text \<open>The whole listing: the header and a row for every slot that is not empty.\<close>

lemma prints_rows:
  assumes "\<And>p w. inv w \<Longrightarrow> p < NEOX_MAX_PROCESSES \<Longrightarrow> neox_get_process_info os p w = Some (NEOX_STATUS_OK, I p, w)" and "unat p \<le> 8"
  shows "prints (ps_rows os p) (ps_listing I (unat p))"
  using assms(2)
proof (induction "8 - unat p" arbitrary: p)
  case 0
  then have "\<not> p < NEOX_MAX_PROCESSES" "unat p = 8" by (simp_all add: word_less_nat_alt)
  then show ?case by (simp add: prints_def ps_rows.simps [of os p] ps_listing_def)
next
  case (Suc n)
  then have p: "p < NEOX_MAX_PROCESSES" "unat p < 8" by (simp_all add: word_less_nat_alt)
  have u: "unat (p + 1) = Suc (unat p)" using p(2) by (simp add: unat_word_ariths)
  have IH: "prints (ps_rows os (p + 1)) (ps_listing I (Suc (unat p)))" using Suc.hyps(1) [of "p + 1"] Suc.hyps(2) p(2) u by simp
  have l: "ps_listing I (unat p) = (if proc_state (I p) = NEOX_PROCESS_EMPTY then [] else ps_row (I p)) @ ps_listing I (Suc (unat p))"
    using p(2) by (simp add: ps_listing_def upt_conv_Cons)
  show ?case unfolding prints_def
  proof (intro allI impI)
    fix w assume w: "inv w"
    show "\<exists>w'. ps_rows os p w = Some (NEOX_STATUS_OK, w') \<and> inv w' \<and> out w' = out w @ ps_listing I (unat p)"
    proof (cases "proc_state (I p) = NEOX_PROCESS_EMPTY")
      case True
      then show ?thesis using IH w l p(1) assms(1) [OF w p(1)] by (simp add: ps_rows.simps [of os p] prints_def)
    next
      case False
      obtain w1 where w1: "ps_print_row os (I p) w = Some (NEOX_STATUS_OK, w1)" "inv w1" "out w1 = out w @ ps_row (I p)"
        using ps_row_printed [OF w] by blast
      then show ?thesis using IH l p(1) assms(1) [OF w p(1)] False by (auto simp: ps_rows.simps [of os p] prints_def)
    qed
  qed
qed

lemma ps_prints_listing:
  assumes "\<And>p w. inv w \<Longrightarrow> p < NEOX_MAX_PROCESSES \<Longrightarrow> neox_get_process_info os p w = Some (NEOX_STATUS_OK, I p, w)"
    and "ctx_valid context" and "line_words (ctx_text context) = []" and "inv w"
  shows "\<exists>w'. neox_applet_ps os context w = Some (NEOX_STATUS_OK, w') \<and> inv w' \<and> out w' = out w @ cstring ps_header @ ps_listing I 0"
proof -
  obtain c a where n: "neox_arg_next (neox_arg_cursor_init context) = Some (False, c, a)"
    using neox_arg_next_words [OF cursor_init_valid [OF assms(2)]] assms(2,3) by auto
  have "terminated ps_header" "length ps_header \<le> 65536" by (simp_all add: ps_header_def message_def terminated_def)
  then obtain w1 where w1: "ps_write_text os ps_header w = Some (NEOX_STATUS_OK, w1)" "inv w1" "out w1 = out w @ cstring ps_header"
    using prints_text [OF _ _ refl] assms(4) by (auto simp: prints_def)
  then show ?thesis using prints_rows [OF assms(1), of 0] n by (auto simp: neox_applet_ps_def prints_def)
qed

end

section \<open>Numbers and signals of kill\<close>

text \<open>The reference reading of a word as a bounded decimal number.\<close>

definition is_digit :: "byte \<Rightarrow> bool" where
  "is_digit d \<longleftrightarrow> 48 \<le> d \<and> d \<le> 57"

definition read_decimal :: "nat \<Rightarrow> byte list \<Rightarrow> nat option" where
  "read_decimal m ds =
     (if ds \<noteq> [] \<and> list_all is_digit ds \<and> decimal_value ds \<le> m then Some (decimal_value ds) else None)"

lemma decimal_value_snoc: "decimal_value (ds @ [d]) = decimal_value ds * 10 + (unat d - 48)"
  by (simp add: decimal_value_def)

lemma decimal_value_prefix: "decimal_value ds \<le> decimal_value (ds @ es)"
proof (induction es rule: rev_induct)
  case (snoc e es)
  then show ?case by (simp add: decimal_value_snoc append_assoc [symmetric] del: append_assoc)
qed simp

lemma decimal_value_take: "decimal_value (take i ds) \<le> decimal_value ds"
  using decimal_value_prefix [of "take i ds" "drop i ds"] by simp

text \<open>One digit of the loop: the sixteen-bit value does not wrap, so it is compared exactly with the limit.\<close>

lemma kill_digit_step:
  fixes d m :: byte
  assumes "is_digit d" and "v < 256"
  shows "(of_nat v * 10 + ucast (d - 48) :: 16 word) = of_nat (v * 10 + (unat d - 48))"
    and "(ucast m :: 16 word) < of_nat (v * 10 + (unat d - 48)) \<longleftrightarrow> unat m < v * 10 + (unat d - 48)"
proof -
  have dr: "unat d \<le> 57" "48 \<le> unat d" using assms(1) by (simp_all add: is_digit_def word_le_nat_alt)
  have "(ucast (d - 48) :: 16 word) = of_nat (unat d - 48)"
    using of_nat_unat [of "d - 48", where ?'a = "16 word"] unat_sub [of 48 d] dr by (simp add: word_le_nat_alt)
  then show "(of_nat v * 10 + ucast (d - 48) :: 16 word) = of_nat (v * 10 + (unat d - 48))" by simp
  have "v * 10 + (unat d - 48) < 65536" using assms(2) dr by linarith
  moreover have "unat (ucast m :: 16 word) = unat m"
    using unsigned_less [of m, where ?'a = nat] by (simp add: unsigned_ucast_eq take_bit_eq_mod)
  ultimately show "(ucast m :: 16 word) < of_nat (v * 10 + (unat d - 48)) \<longleftrightarrow> unat m < v * 10 + (unat d - 48)"
    by (simp add: word_less_nat_alt del: of_nat_add of_nat_mult of_nat_diff)
qed

lemma kill_parse_digits_unfold:
  assumes "arg_valid a" and "i < length (arg_bytes a)" and "v < 256"
  shows "kill_parse_digits a m (of_nat i) (of_nat v) =
    (let d = arg_bytes a ! i; v' = v * 10 + (unat d - 48)
     in if is_digit d \<and> v' \<le> unat m then kill_parse_digits a m (of_nat (Suc i)) (of_nat v') else Some None)"
proof -
  have n: "length (arg_bytes a) = unat (arg_length a)" by (rule arg_valid_length [OF assms(1)])
  have i16: "i < 65536" using assms(2) n unat_size_le [of "arg_length a"] by simp
  have ld: "cload (arg_data a) (of_nat i) = Some (arg_bytes a ! i)"
    using assms(2) i16 n assms(1) by (simp add: cload_def arg_bytes_def arg_valid_def)
  have lt: "(of_nat i :: neox_size_t) < arg_length a" using assms(2) n i16 by (simp add: size_less_of_nat)
  show ?thesis
  proof (cases "is_digit (arg_bytes a ! i)")
    case False
    then show ?thesis using ld lt by (subst kill_parse_digits.simps) (auto simp: is_digit_def not_le Let_def)
  next
    case True
    note st = kill_digit_step [OF True assms(3)]
    show ?thesis
      by (subst kill_parse_digits.simps)
        (use True ld lt st in \<open>simp add: is_digit_def Let_def not_le [symmetric] add.commute\<close>)
  qed
qed

lemma kill_parse_digits_value:
  assumes "arg_valid a"
  shows "i \<le> unat (arg_length a) \<Longrightarrow> list_all is_digit (take i (arg_bytes a)) \<Longrightarrow>
    decimal_value (take i (arg_bytes a)) \<le> unat m \<Longrightarrow>
    kill_parse_digits a m (of_nat i) (of_nat (decimal_value (take i (arg_bytes a)))) =
    Some (if list_all is_digit (arg_bytes a) \<and> decimal_value (arg_bytes a) \<le> unat m
          then Some (of_nat (decimal_value (arg_bytes a))) else None)"
proof (induction "unat (arg_length a) - i" arbitrary: i)
  case 0
  let ?v = "decimal_value (arg_bytes a)"
  have all: "take i (arg_bytes a) = arg_bytes a" "i = unat (arg_length a)"
    using 0 arg_valid_length [OF assms] by simp_all
  have "?v < 256" using 0(4) all unsigned_less [of m, where ?'a = nat] by simp
  then have "(ucast (of_nat ?v :: 16 word) :: byte) = of_nat ?v"
    using of_nat_unat [of "of_nat ?v :: 16 word", where ?'a = byte] by simp
  then show ?case using 0 all by (subst kill_parse_digits.simps) simp
next
  case (Suc k)
  let ?t = "arg_bytes a"
  have n: "length ?t = unat (arg_length a)" by (rule arg_valid_length [OF assms])
  have i: "i < length ?t" using Suc(2) n by simp
  have v: "decimal_value (take i ?t) < 256" using Suc(5) unsigned_less [of m, where ?'a = nat] by simp
  have tk: "take (Suc i) ?t = take i ?t @ [?t ! i]" using i by (simp add: take_Suc_conv_app_nth)
  note unf = kill_parse_digits_unfold [OF assms i v, of m, unfolded Let_def, folded decimal_value_snoc, folded tk]
  show ?case
  proof (cases "is_digit (?t ! i) \<and> decimal_value (take (Suc i) ?t) \<le> unat m")
    case True
    have "kill_parse_digits a m (of_nat (Suc i)) (of_nat (decimal_value (take (Suc i) ?t))) =
        Some (if list_all is_digit ?t \<and> decimal_value ?t \<le> unat m then Some (of_nat (decimal_value ?t)) else None)"
      using Suc(2,4) True i n tk by (intro Suc(1)) auto
    then show ?thesis unfolding unf using True by (simp only: simp_thms if_True)
  next
    case False
    then have "\<not> (list_all is_digit ?t \<and> decimal_value ?t \<le> unat m)"
      using i decimal_value_take [of "Suc i" ?t] by (auto simp: list_all_length)
    then show ?thesis unfolding unf using False by auto
  qed
qed

lemma kill_parse_decimal_reads:
  assumes "arg_valid a"
  shows "kill_parse_decimal a m = Some (map_option of_nat (read_decimal (unat m) (arg_bytes a)))"
proof -
  have z: "arg_length a = 0 \<longleftrightarrow> arg_bytes a = []"
    using arg_valid_length [OF assms] by (metis length_0_conv unat_eq_0)
  show ?thesis
    using kill_parse_digits_value [OF assms, of 0 m] z
    by (simp add: kill_parse_decimal_def read_decimal_def decimal_value_def)
qed

lemma read_decimal_decimal: "n \<le> m \<Longrightarrow> read_decimal m (decimal n) = Some n"
  using decimal_digits [of _ n]
  by (auto simp: read_decimal_def decimal_value_decimal list_all_iff is_digit_def word_le_nat_alt)

definition read_signal :: "byte list \<Rightarrow> byte option" where
  "read_signal s =
     (case s of
        [] \<Rightarrow> None
      | c # ds \<Rightarrow>
          if c = of_char CHR ''-'' then
            (case read_decimal 19 ds of
               None \<Rightarrow> None
             | Some n \<Rightarrow> if n \<in> {2, 9, 18, 19} then Some (of_nat n) else None)
          else None)"

lemma read_decimal_Some: "read_decimal m ds = Some n \<Longrightarrow> n \<le> m \<and> n = decimal_value ds"
  by (auto simp: read_decimal_def split: if_splits)

lemma signal_code:
  assumes "n \<le> 19"
  shows "(of_nat n :: byte) \<in> {2, 9, 18, 19} \<longleftrightarrow> n \<in> {2, 9, 18, 19}"
proof -
  have eq: "(of_nat n :: byte) = of_nat k \<longleftrightarrow> n = k" if "k < 256" for k
    using assms that by (auto simp: word_of_nat_eq_iff take_bit_eq_mod)
  show ?thesis using eq [of 2] eq [of 9] eq [of 18] eq [of 19] by simp
qed

lemma kill_parse_signal_reads:
  assumes "arg_valid a"
  shows "kill_parse_signal a = Some (read_signal (arg_bytes a))"
proof (cases "arg_length a < 2")
  case True
  then have "length (arg_bytes a) < 2" using arg_valid_length [OF assms] by (simp add: word_less_nat_alt)
  then have "arg_bytes a = [] \<or> (\<exists>c. arg_bytes a = [c])"
    by (cases "arg_bytes a") auto
  with True show ?thesis by (auto simp: kill_parse_signal_def read_signal_def read_decimal_def)
next
  case False
  then have n: "2 \<le> unat (arg_length a)" by (simp add: word_less_nat_alt not_less)
  have v: "unat (arg_length a) \<le> length (arg_data a)" using assms by (simp add: arg_valid_def)
  obtain c ds where data: "arg_data a = c # ds" using n v by (cases "arg_data a") auto
  define b where "b = \<lparr>arg_data = drop 1 (arg_data a), arg_length = arg_length a - 1\<rparr>"
  have nz: "arg_length a \<noteq> 0" using n by auto
  have bl: "unat (arg_length b) = unat (arg_length a) - 1" using nz by (simp add: b_def unat_minus_one)
  have b: "arg_valid b" "arg_bytes a = c # arg_bytes b"
    using n v bl data nz by (simp_all add: arg_valid_def b_def arg_bytes_def take_Cons split: nat.splits)
  have ld: "cload (arg_data a) 0 = Some c" using data by (simp add: cload_def)
  have p: "kill_parse_signal a = (if c \<noteq> of_char CHR ''-'' then Some None
      else case read_decimal 19 (arg_bytes b) of None \<Rightarrow> Some None
        | Some n \<Rightarrow> if (of_nat n :: byte) \<notin> {2, 9, 18, 19} then Some None else Some (Some (of_nat n)))"
    unfolding kill_parse_signal_def b_def [symmetric]
    using False ld kill_parse_decimal_reads [OF b(1), of 19] by (simp split: option.split)
  show ?thesis
  proof (cases "read_decimal 19 (arg_bytes b)")
    case None
    then show ?thesis using p b(2) by (simp add: read_signal_def)
  next
    case (Some n)
    then show ?thesis
      using p b(2) signal_code [of n] read_decimal_Some [OF Some] by (simp only: read_signal_def) simp
  qed
qed

definition kill_spec :: "'w neox_os \<Rightarrow> byte list list \<Rightarrow> 'w \<Rightarrow> (neox_status_t \<times> 'w) option" where
  "kill_spec os ws w =
     (case ws of
        [s, p] \<Rightarrow>
          (case read_signal s of
             None \<Rightarrow> applet_fail os kill_invalid_signal_message NEOX_STATUS_EINVAL w
           | Some signal \<Rightarrow>
               (case read_decimal 7 p of
                  Some (Suc n) \<Rightarrow> kill_deliver os (of_nat (Suc n)) signal w
                | _ \<Rightarrow> applet_fail os kill_invalid_pid_message NEOX_STATUS_EINVAL w))
      | _ \<Rightarrow> applet_fail os kill_usage_message NEOX_STATUS_EINVAL w)"

lemma kill_pid_branch:
  assumes "arg_valid b"
  shows "Option.bind (kill_parse_decimal b 7) (case_option fail (\<lambda>p. if p = 0 then fail else call p)) =
    (case read_decimal 7 (arg_bytes b) of Some (Suc n) \<Rightarrow> call (of_nat (Suc n)) | _ \<Rightarrow> fail)"
proof -
  have "(of_nat (Suc n) :: byte) \<noteq> 0" if "Suc n \<le> 7" for n
    using that word_of_nat_eq_0_iff [of "Suc n", where ?'a = 8] nat_dvd_not_less [of "Suc n" 256] by auto
  then show ?thesis
    using read_decimal_Some [of 7 "arg_bytes b"]
    by (auto simp: kill_parse_decimal_reads [OF assms] split: option.splits nat.splits)
qed

lemma kill_words:
  assumes "ctx_valid context"
  shows "neox_applet_kill os context w = kill_spec os (line_words (ctx_text context)) w"
proof -
  note c = cursor_init_valid [OF assms]
  show ?thesis
  proof (cases "line_words (ctx_text context)")
    case Nil
    obtain c1 a where "neox_arg_next (neox_arg_cursor_init context) = Some (False, c1, a)"
      using neox_arg_next_Nil [OF c] Nil by (metis cursor_init_rest)
    with Nil show ?thesis by (simp add: neox_applet_kill_def kill_spec_def)
  next
    case Cons1: (Cons s ws)
    obtain c1 a where n1: "neox_arg_next (neox_arg_cursor_init context) = Some (True, c1, a)"
      and c1: "cursor_valid c1" and a: "arg_valid a" "arg_bytes a = s"
      and ws: "line_words (cursor_rest c1) = ws"
      using neox_arg_next_Cons [OF c, of s ws] Cons1 by (metis cursor_init_rest)
    show ?thesis
    proof (cases ws)
      case Nil
      obtain c2 e where "neox_arg_next c1 = Some (False, c2, e)"
        using neox_arg_next_Nil [OF c1] ws Nil by metis
      with n1 Nil Cons1 show ?thesis by (simp add: neox_applet_kill_def kill_spec_def)
    next
      case Cons2: (Cons q ws')
      obtain c2 b where n2: "neox_arg_next c1 = Some (True, c2, b)"
        and c2: "cursor_valid c2" and b: "arg_valid b" "arg_bytes b = q"
        and ws': "line_words (cursor_rest c2) = ws'"
        using neox_arg_next_Cons [OF c1, of q ws'] ws Cons2 by metis
      show ?thesis
      proof (cases ws')
        case Nil
        obtain c3 e where "neox_arg_next c2 = Some (False, c3, e)"
          using neox_arg_next_Nil [OF c2] ws' Nil by metis
        with n1 n2 kill_parse_signal_reads [OF a(1)] a b Nil Cons1 Cons2 show ?thesis
          by (cases "read_signal s")
            (simp_all add: neox_applet_kill_def kill_spec_def kill_pid_branch [OF b(1), simplified b(2)])
      next
        case (Cons r ws'')
        obtain c3 e where "neox_arg_next c2 = Some (True, c3, e)"
          using neox_arg_next_Cons [OF c2] ws' Cons by metis
        with n1 n2 Cons Cons1 Cons2 show ?thesis by (simp add: neox_applet_kill_def kill_spec_def)
      qed
    qed
  qed
qed

end
