(* ===== verification/Applet_Stream.thy ===== *)
theory Applet_Stream
  imports Applet_Support
begin

text \<open>
  The applets that move bytes between descriptors: \<^verbatim>\<open>echo.c\<close>, \<^verbatim>\<open>cat.c\<close> and \<^verbatim>\<open>cp.c\<close> of
  \<^verbatim>\<open>src/user/applets\<close>. The static path and data buffers of the applets are written before
  they are read, so that each call starts from cleared buffers here.

  The lemmas: what echo prints, that cat and cp transfer the whole source, and that
  neither leaves a descriptor open on any path.
\<close>

section \<open>echo\<close>

definition echo_space :: "byte list" where "echo_space = [SP, 0]"
definition echo_cr :: "byte list" where "echo_cr = [CR, 0]"

partial_function (option) echo_arguments ::
  "'w neox_os \<Rightarrow> neox_arg_cursor \<Rightarrow> bool \<Rightarrow> 'w \<Rightarrow> (neox_status_t \<times> 'w) option" where
  "echo_arguments os cursor emitted_argument w = do {
     (found, cursor, argument) \<leftarrow> neox_arg_next cursor;
     if \<not> found then neox_applet_write_all os NEOX_STDOUT_FD echo_cr 1 w
     else do {
       (status, w) \<leftarrow> (if emitted_argument
          then neox_applet_write_all os NEOX_STDOUT_FD echo_space 1 w
          else Some (NEOX_STATUS_OK, w));
       if status \<noteq> NEOX_STATUS_OK then Some (status, w)
       else do {
         (status, w) \<leftarrow> neox_applet_write_all os NEOX_STDOUT_FD
           (arg_data argument) (arg_length argument) w;
         if status \<noteq> NEOX_STATUS_OK then Some (status, w)
         else echo_arguments os cursor True w } } }"

declare echo_arguments.simps [code]

definition neox_applet_echo :: "'w neox_os \<Rightarrow> neox_applet_context \<Rightarrow> 'w \<Rightarrow> (neox_status_t \<times> 'w) option" where
  "neox_applet_echo os context w = echo_arguments os (neox_arg_cursor_init context) False w"

section \<open>cat\<close>

definition cat_too_many_message :: "byte list" where "cat_too_many_message = message ''cat: too many arguments''"
definition cat_path_long_message :: "byte list" where "cat_path_long_message = message ''cat: pathname too long''"
definition cat_open_message :: "byte list" where "cat_open_message = message ''cat: cannot open file''"
definition cat_read_message :: "byte list" where "cat_read_message = message ''cat: read error''"
definition cat_write_message :: "byte list" where "cat_write_message = message ''cat: write error''"
definition cat_close_message :: "byte list" where "cat_close_message = message ''cat: close error''"

abbreviation (input) CAT_BUFFER_SIZE :: neox_size_t where "CAT_BUFFER_SIZE \<equiv> 64"

partial_function (option) cat_copy_descriptor ::
  "'w neox_os \<Rightarrow> neox_fd_t \<Rightarrow> byte list \<Rightarrow> 'w \<Rightarrow> (neox_status_t \<times> 'w) option" where
  "cat_copy_descriptor os source_fd cat_buffer w = do {
     (status, received, stored, w) \<leftarrow> neox_read os source_fd CAT_BUFFER_SIZE w;
     cat_buffer \<leftarrow> cfill cat_buffer stored;
     if status \<noteq> NEOX_STATUS_OK then applet_fail os cat_read_message status w
     else if received = 0 then Some (NEOX_STATUS_OK, w)
     else do {
       (status, w) \<leftarrow> neox_applet_write_all os NEOX_STDOUT_FD cat_buffer received w;
       if status \<noteq> NEOX_STATUS_OK then applet_fail os cat_write_message status w
       else cat_copy_descriptor os source_fd cat_buffer w } }"

declare cat_copy_descriptor.simps [code]

definition cat_finish :: "'w neox_os \<Rightarrow> neox_fd_t \<Rightarrow> bool \<Rightarrow> 'w \<Rightarrow> (neox_status_t \<times> 'w) option" where
  "cat_finish os source_fd close_source w = do {
     (status, w) \<leftarrow> cat_copy_descriptor os source_fd (replicate 64 0) w;
     if close_source then do {
       (close_status, w) \<leftarrow> neox_close os source_fd w;
       if status = NEOX_STATUS_OK \<and> close_status \<noteq> NEOX_STATUS_OK then applet_fail os cat_close_message close_status w
       else Some (status, w) }
     else Some (status, w) }"

definition cat_file :: "'w neox_os \<Rightarrow> byte list \<Rightarrow> 'w \<Rightarrow> (neox_status_t \<times> 'w) option" where
  "cat_file os cat_path w = do {
     (status, source_fd, w) \<leftarrow> neox_open os (cstring cat_path) NEOX_OPEN_READ w;
     if status \<noteq> NEOX_STATUS_OK then applet_fail os cat_open_message status w
     else cat_finish os source_fd True w }"

definition neox_applet_cat :: "'w neox_os \<Rightarrow> neox_applet_context \<Rightarrow> 'w \<Rightarrow> (neox_status_t \<times> 'w) option" where
  "neox_applet_cat os context w = do {
     (found, cursor, pathname) \<leftarrow> neox_arg_next (neox_arg_cursor_init context);
     if \<not> found then cat_finish os NEOX_STDIN_FD False w
     else do {
       (found, cursor, extra) \<leftarrow> neox_arg_next cursor;
       if found then applet_fail os cat_too_many_message NEOX_STATUS_EINVAL w
       else do {
         (status, cat_path) \<leftarrow> neox_applet_copy_argument pathname (replicate 64 0) NEOX_PATH_MAX;
         if status \<noteq> NEOX_STATUS_OK then applet_fail os cat_path_long_message status w
         else cat_file os cat_path w } } }"

section \<open>cp\<close>

definition cp_missing_message :: "byte list" where "cp_missing_message = message ''cp: source and destination required''"
definition cp_extra_message :: "byte list" where "cp_extra_message = message ''cp: too many arguments''"
definition cp_source_missing_message :: "byte list" where "cp_source_missing_message = message ''cp: source does not exist''"
definition cp_invalid_name_message :: "byte list" where "cp_invalid_name_message = message ''cp: invalid source or destination name''"
definition cp_same_path_message :: "byte list" where "cp_same_path_message = message ''cp: source and destination are the same''"
definition cp_open_source_message :: "byte list" where "cp_open_source_message = message ''cp: cannot open source''"
definition cp_open_destination_message :: "byte list" where "cp_open_destination_message = message ''cp: cannot create destination''"
definition cp_read_message :: "byte list" where "cp_read_message = message ''cp: read error''"
definition cp_write_message :: "byte list" where "cp_write_message = message ''cp: write error''"
definition cp_close_message :: "byte list" where "cp_close_message = message ''cp: close error''"

abbreviation (input) CP_BUFFER_SIZE :: neox_size_t where "CP_BUFFER_SIZE \<equiv> 64"

partial_function (option) cp_paths_equal_from :: "byte list \<Rightarrow> byte list \<Rightarrow> neox_size_t \<Rightarrow> bool option" where
  "cp_paths_equal_from first second index = do {
     a \<leftarrow> cload first index;
     b \<leftarrow> cload second index;
     if a \<noteq> b then Some False
     else if a = 0 then Some True
     else cp_paths_equal_from first second (index + 1) }"

declare cp_paths_equal_from.simps [code]

definition cp_paths_equal :: "byte list \<Rightarrow> byte list \<Rightarrow> bool option" where
  "cp_paths_equal first second = cp_paths_equal_from first second 0"

definition cp_close_after_failure ::
  "'w neox_os \<Rightarrow> neox_fd_t \<Rightarrow> bool \<Rightarrow> neox_fd_t \<Rightarrow> bool \<Rightarrow> 'w \<Rightarrow> 'w option" where
  "cp_close_after_failure os source_fd source_open destination_fd destination_open w = do {
     w \<leftarrow> (if source_open then map_option snd (neox_close os source_fd w) else Some w);
     (if destination_open then map_option snd (neox_close os destination_fd w) else Some w) }"

definition cp_finish ::
  "'w neox_os \<Rightarrow> neox_fd_t \<Rightarrow> neox_fd_t \<Rightarrow> 'w \<Rightarrow> (neox_status_t \<times> 'w) option" where
  "cp_finish os source_fd destination_fd w = do {
     (close_status, w) \<leftarrow> neox_close os source_fd w;
     if close_status \<noteq> NEOX_STATUS_OK then do {
       w \<leftarrow> neox_applet_report os cp_close_message w;
       (ignored, w) \<leftarrow> neox_close os destination_fd w;
       Some (close_status, w) }
     else do {
       (close_status, w) \<leftarrow> neox_close os destination_fd w;
       if close_status \<noteq> NEOX_STATUS_OK then applet_fail os cp_close_message close_status w
       else Some (NEOX_STATUS_OK, w) } }"

partial_function (option) cp_transfer ::
  "'w neox_os \<Rightarrow> neox_fd_t \<Rightarrow> neox_fd_t \<Rightarrow> byte list \<Rightarrow> 'w \<Rightarrow> (neox_status_t \<times> 'w) option" where
  "cp_transfer os source_fd destination_fd cp_buffer w = do {
     (status, received, stored, w) \<leftarrow> neox_read os source_fd CP_BUFFER_SIZE w;
     cp_buffer \<leftarrow> cfill cp_buffer stored;
     if status \<noteq> NEOX_STATUS_OK then do {
       w \<leftarrow> neox_applet_report os cp_read_message w;
       w \<leftarrow> cp_close_after_failure os source_fd True destination_fd True w;
       Some (status, w) }
     else if received = 0 then cp_finish os source_fd destination_fd w
     else do {
       (status, w) \<leftarrow> neox_applet_write_all os destination_fd cp_buffer received w;
       if status \<noteq> NEOX_STATUS_OK then do {
         w \<leftarrow> neox_applet_report os cp_write_message w;
         w \<leftarrow> cp_close_after_failure os source_fd True destination_fd True w;
         Some (status, w) }
       else cp_transfer os source_fd destination_fd cp_buffer w } }"

declare cp_transfer.simps [code]

definition cp_files ::
  "'w neox_os \<Rightarrow> byte list \<Rightarrow> byte list \<Rightarrow> 'w \<Rightarrow> (neox_status_t \<times> 'w) option" where
  "cp_files os cp_source_path cp_destination_path w = do {
     (status, source_fd, w) \<leftarrow> neox_open os (cstring cp_source_path) NEOX_OPEN_READ w;
     if status \<noteq> NEOX_STATUS_OK then
       applet_fail os
         (if status = NEOX_STATUS_ENOENT then cp_source_missing_message
          else if status = NEOX_STATUS_EINVAL then cp_invalid_name_message
          else cp_open_source_message) status w
     else do {
       (status, destination_fd, w) \<leftarrow>
         neox_open os (cstring cp_destination_path) NEOX_OPEN_WRITE_TRUNC w;
       if status \<noteq> NEOX_STATUS_OK then do {
         w \<leftarrow> neox_applet_report os
           (if status = NEOX_STATUS_EINVAL then cp_invalid_name_message
            else cp_open_destination_message) w;
         w \<leftarrow> cp_close_after_failure os source_fd True destination_fd False w;
         Some (status, w) }
       else cp_transfer os source_fd destination_fd (replicate 64 0) w } }"

definition neox_applet_cp :: "'w neox_os \<Rightarrow> neox_applet_context \<Rightarrow> 'w \<Rightarrow> (neox_status_t \<times> 'w) option" where
  "neox_applet_cp os context w = do {
     (found, cursor, source_argument) \<leftarrow> neox_arg_next (neox_arg_cursor_init context);
     if \<not> found then applet_fail os cp_missing_message NEOX_STATUS_EINVAL w else do {
     (found, cursor, destination_argument) \<leftarrow> neox_arg_next cursor;
     if \<not> found then applet_fail os cp_missing_message NEOX_STATUS_EINVAL w else do {
     (found, cursor, extra_argument) \<leftarrow> neox_arg_next cursor;
     if found then applet_fail os cp_extra_message NEOX_STATUS_EINVAL w else do {
     (status, cp_source_path) \<leftarrow>
       neox_applet_copy_argument source_argument (replicate 64 0) NEOX_PATH_MAX;
     if status \<noteq> NEOX_STATUS_OK then applet_fail os cp_invalid_name_message status w else do {
     (status, cp_destination_path) \<leftarrow>
       neox_applet_copy_argument destination_argument (replicate 64 0) NEOX_PATH_MAX;
     if status \<noteq> NEOX_STATUS_OK then applet_fail os cp_invalid_name_message status w else do {
     equal \<leftarrow> cp_paths_equal cp_source_path cp_destination_path;
     if equal then applet_fail os cp_same_path_message NEOX_STATUS_EINVAL w
     else cp_files os cp_source_path cp_destination_path w }}}}}}"

section \<open>The command line of cp\<close>

lemma nth_terminated:
  "terminated buf \<Longrightarrow> n \<le> length (cstring buf) \<Longrightarrow>
   n < length buf \<and> buf ! n = (if n < length (cstring buf) then cstring buf ! n else 0)"
  using length_cstring_less [of buf] nth_cstring [of n buf] nth_length_cstring [of buf] by auto

text \<open>The comparison of \<^verbatim>\<open>cp.c\<close> ends inside both buffers and decides equality of the strings.\<close>

lemma cp_paths_equal_from_cstring:
  assumes "terminated p" and "terminated q" and "length p \<le> 65536" and "length q \<le> 65536"
  shows "n \<le> length (cstring p) \<Longrightarrow> n \<le> length (cstring q) \<Longrightarrow>
    cp_paths_equal_from p q (of_nat n) = Some (drop n (cstring p) = drop n (cstring q))"
proof (induction "length (cstring p) - n" arbitrary: n)
  case 0
  then have n: "n = length (cstring p)" by simp
  have b: "n < 65536" using nth_terminated [OF assms(1) 0(2)] assms(3) by simp
  show ?case
    using nth_terminated [OF assms(1) 0(2)] nth_terminated [OF assms(2) 0(3)] n 0(3) b cstring_nonzero [OF nth_mem, of n q]
    by (subst cp_paths_equal_from.simps) (auto simp: cload_of_nat)
next
  case (Suc d)
  then have n: "n < length (cstring p)" by simp
  have b: "n < 65536" using nth_terminated [OF assms(1) Suc(3)] assms(3) by simp
  have nz: "cstring p ! n \<noteq> 0" using cstring_nonzero [OF nth_mem [OF n]] .
  have step: "cp_paths_equal_from p q (of_nat n) = (if p ! n \<noteq> q ! n then Some False
      else cp_paths_equal_from p q (of_nat (Suc n)))"
    using nth_terminated [OF assms(1) Suc(3)] nth_terminated [OF assms(2) Suc(4)] n b nz
    by (subst cp_paths_equal_from.simps) (simp add: cload_of_nat add.commute)
  show ?case
  proof (cases "n < length (cstring q)")
    case True
    then have "cp_paths_equal_from p q (of_nat (Suc n)) = Some (drop (Suc n) (cstring p) = drop (Suc n) (cstring q))"
      using Suc(1) [of "Suc n"] Suc(2) n by simp
    then show ?thesis
      using step n True nth_cstring [OF n] nth_cstring [OF True] by (simp add: Cons_nth_drop_Suc [symmetric])
  next
    case False
    then show ?thesis
      using step n nz nth_terminated [OF assms(1) Suc(3)] nth_terminated [OF assms(2) Suc(4)] by auto
  qed
qed

lemma cp_paths_equal_cstring:
  assumes "terminated p" and "terminated q" and "length p \<le> 65536" and "length q \<le> 65536"
  shows "cp_paths_equal p q = Some (cstring p = cstring q)"
  using cp_paths_equal_from_cstring [OF assms, of 0] by (simp add: cp_paths_equal_def)

definition cp_spec :: "'w neox_os \<Rightarrow> byte list list \<Rightarrow> 'w \<Rightarrow> (neox_status_t \<times> 'w) option" where
  "cp_spec os ws w =
     (case ws of
        [p, q] \<Rightarrow>
          if length p \<ge> 64 \<or> length q \<ge> 64 then applet_fail os cp_invalid_name_message NEOX_STATUS_EINVAL w
          else if cstring p = cstring q then applet_fail os cp_same_path_message NEOX_STATUS_EINVAL w
          else cp_files os p q w
      | p # q # r # _ \<Rightarrow> applet_fail os cp_extra_message NEOX_STATUS_EINVAL w
      | _ \<Rightarrow> applet_fail os cp_missing_message NEOX_STATUS_EINVAL w)"

lemma cp_files_nul: "cp_files os (p @ 0 # x) (q @ 0 # y) = cp_files os p q"
  unfolding cp_files_def cstring_path ..

lemma cp_words:
  assumes "ctx_valid context"
  shows "neox_applet_cp os context w = cp_spec os (line_words (ctx_text context)) w"
proof -
  note c = cursor_init_valid [OF assms]
  show ?thesis
  proof (cases "line_words (ctx_text context)")
    case Nil
    obtain c1 a where "neox_arg_next (neox_arg_cursor_init context) = Some (False, c1, a)"
      using neox_arg_next_Nil [OF c] Nil by (metis cursor_init_rest)
    with Nil show ?thesis by (simp add: neox_applet_cp_def cp_spec_def)
  next
    case Cons1: (Cons p ws)
    obtain c1 a where n1: "neox_arg_next (neox_arg_cursor_init context) = Some (True, c1, a)"
      and c1: "cursor_valid c1" and a: "arg_valid a" "arg_bytes a = p" and ws: "line_words (cursor_rest c1) = ws"
      using neox_arg_next_Cons [OF c, of p ws] Cons1 by (metis cursor_init_rest)
    show ?thesis
    proof (cases ws)
      case Nil
      obtain c2 e where "neox_arg_next c1 = Some (False, c2, e)" using neox_arg_next_Nil [OF c1] ws Nil by metis
      with n1 Nil Cons1 show ?thesis by (simp add: neox_applet_cp_def cp_spec_def)
    next
      case Cons2: (Cons q ws')
      obtain c2 b where n2: "neox_arg_next c1 = Some (True, c2, b)" and c2: "cursor_valid c2"
        and b: "arg_valid b" "arg_bytes b = q" and ws': "line_words (cursor_rest c2) = ws'"
        using neox_arg_next_Cons [OF c1, of q ws'] ws Cons2 by metis
      show ?thesis
      proof (cases ws')
        case Nil
        obtain c3 e where "neox_arg_next c2 = Some (False, c3, e)" using neox_arg_next_Nil [OF c2] ws' Nil by metis
        with n1 n2 copy_path [OF a] copy_path [OF b] Nil Cons1 Cons2 show ?thesis
          by (simp add: neox_applet_cp_def cp_spec_def cp_paths_equal_cstring cp_files_nul not_less)
      next
        case (Cons r ws'')
        obtain c3 e where "neox_arg_next c2 = Some (True, c3, e)" using neox_arg_next_Cons [OF c2] ws' Cons by metis
        with n1 n2 Cons Cons1 Cons2 show ?thesis by (simp add: neox_applet_cp_def cp_spec_def)
      qed
    qed
  qed
qed

section \<open>What echo prints\<close>

definition join_words :: "byte list list \<Rightarrow> byte list" where
  "join_words ws = (case ws of [] \<Rightarrow> [] | w # ws \<Rightarrow> w @ concat (map ((#) SP) ws))"

context neox_stdout
begin

lemma echo_arguments_prints:
  "cursor_valid c \<Longrightarrow> line_words (cursor_rest c) = ws \<Longrightarrow> inv w \<Longrightarrow>
   \<exists>w'. echo_arguments os c e w = Some (NEOX_STATUS_OK, w') \<and> inv w'
     \<and> out w' = out w @ (if e then concat (map ((#) SP) ws) else join_words ws) @ [CR]"
proof (induction ws arbitrary: c e w)
  case Nil
  obtain c' a where n: "neox_arg_next c = Some (False, c', a)"
    using neox_arg_next_Nil [OF Nil.prems(1,2)] by metis
  obtain w' where "neox_applet_write_all os NEOX_STDOUT_FD echo_cr 1 w = Some (NEOX_STATUS_OK, w')"
    "inv w'" "out w' = out w @ take (unat (1 :: neox_size_t)) echo_cr"
    using write_all_ok [OF Nil.prems(3), of 1 echo_cr] by (auto simp: echo_cr_def)
  then show ?case
    using n by (subst echo_arguments.simps) (auto simp: echo_cr_def join_words_def)
next
  case (Cons x ws)
  obtain c' a where n: "neox_arg_next c = Some (True, c', a)" and c': "cursor_valid c'"
    and a: "arg_valid a" "arg_bytes a = x" and ws: "line_words (cursor_rest c') = ws"
    using neox_arg_next_Cons [OF Cons.prems(1,2)] by metis
  obtain w1 where w1: "(if e then neox_applet_write_all os NEOX_STDOUT_FD echo_space 1 w
      else Some (NEOX_STATUS_OK, w)) = Some (NEOX_STATUS_OK, w1)" "inv w1"
    and o1: "out w1 = out w @ (if e then [SP] else [])"
    by (cases e) (use write_all_ok [OF Cons.prems(3), of 1 echo_space] Cons.prems(3)
      in \<open>auto simp: echo_space_def\<close>)
  obtain w2 where w2: "neox_applet_write_all os NEOX_STDOUT_FD (arg_data a) (arg_length a) w1
      = Some (NEOX_STATUS_OK, w2)" "inv w2" and o2: "out w2 = out w1 @ x"
    using write_all_ok [OF w1(2), of "arg_length a" "arg_data a"] a
    by (auto simp: arg_valid_def arg_bytes_def)
  obtain w' where "echo_arguments os c' True w2 = Some (NEOX_STATUS_OK, w')" "inv w'"
    "out w' = out w2 @ concat (map ((#) SP) ws) @ [CR]"
    using Cons.IH [OF c' ws w2(2), of True] by auto
  then show ?case
    using n w1(1) w2(1) o1 o2
    by (subst echo_arguments.simps) (auto simp: join_words_def)
qed

lemma echo_prints:
  assumes "ctx_valid context" and "inv w"
  shows "\<exists>w'. neox_applet_echo os context w = Some (NEOX_STATUS_OK, w') \<and> inv w'
    \<and> out w' = out w @ join_words (line_words (ctx_text context)) @ [CR]"
  using echo_arguments_prints [OF cursor_init_valid [OF assms(1)] refl assms(2), of False]
  by (simp add: neox_applet_echo_def)

end

section \<open>Transfers\<close>

context neox_channel
begin

lemma read_chunk:
  assumes "inv w" and "length buffer = 64"
  obtains data w' where "neox_read os fdi 64 w = Some (NEOX_STATUS_OK, of_nat (length data), data, w')"
    and "cfill buffer data = Some (data @ drop (length data) buffer)" and "length data \<le> 64"
    and "inv w'" and "inp w = data @ inp w'" and "data = [] \<longrightarrow> inp w = []" and "out w' = out w"
proof -
  obtain st data w' where r: "neox_read os fdi 64 w = Some (st, of_nat (length data), data, w')"
    "length data \<le> 64" "inv w'"
    "st = NEOX_STATUS_OK \<longrightarrow> inp w = data @ inp w' \<and> (data = [] \<longrightarrow> inp w = [])"
    using src.read_result [OF assms(1), of 64] by auto
  have "st = NEOX_STATUS_OK" using src.read_accepts [OF assms(1) _ r(1)] by simp
  then show ?thesis
    using r assms that read_keeps_out [OF assms(1) r(1)] by (auto simp: cfill_def)
qed

lemma write_chunk:
  assumes "inv w" and "length data \<le> 64" and "length buffer = 64"
  obtains w' where "neox_applet_write_all os fdo (data @ drop (length data) buffer)
      (of_nat (length data)) w = Some (NEOX_STATUS_OK, w')"
    and "inv w'" and "out w' = out w @ data" and "inp w' = inp w"
proof -
  obtain w' where w: "neox_applet_write_all os fdo (data @ drop (length data) buffer)
      (of_nat (length data)) w = Some (NEOX_STATUS_OK, w')" "inv w'" "out w' = out w @ data"
    using dst.write_all_ok [OF assms(1), of "of_nat (length data)" "data @ drop (length data) buffer"] assms
    by auto
  then show ?thesis using that write_all_keeps_inp [OF w(1) assms(1)] by blast
qed

lemma cat_copy_all:
  assumes "fdo = NEOX_STDOUT_FD"
  shows "inv w \<Longrightarrow> length buffer = 64 \<Longrightarrow>
    \<exists>w'. cat_copy_descriptor os fdi buffer w = Some (NEOX_STATUS_OK, w') \<and> inv w'
      \<and> inp w' = [] \<and> out w' = out w @ inp w"
proof (induction "length (inp w)" arbitrary: w buffer rule: less_induct)
  case less
  obtain data w1 where r: "neox_read os fdi 64 w = Some (NEOX_STATUS_OK, of_nat (length data), data, w1)"
    "cfill buffer data = Some (data @ drop (length data) buffer)" "length data \<le> 64" "inv w1"
    and i: "inp w = data @ inp w1" "data = [] \<longrightarrow> inp w = []" "out w1 = out w"
    by (rule read_chunk [OF less.prems])
  show ?case
  proof (cases "data = []")
    case True
    then show ?thesis using r i by (subst cat_copy_descriptor.simps) auto
  next
    case False
    obtain w2 where w2: "neox_applet_write_all os fdo (data @ drop (length data) buffer)
        (of_nat (length data)) w1 = Some (NEOX_STATUS_OK, w2)" "inv w2" "out w2 = out w1 @ data" "inp w2 = inp w1"
      by (rule write_chunk [OF r(4,3) less.prems(2)])
    have "(of_nat (length data) :: neox_size_t) \<noteq> 0" using False r(3) by (simp add: size_of_nat_eq_0)
    moreover obtain w' where "cat_copy_descriptor os fdi (data @ drop (length data) buffer) w2
        = Some (NEOX_STATUS_OK, w')" "inv w'" "inp w' = []" "out w' = out w2 @ inp w2"
      using less.hyps [of w2 "data @ drop (length data) buffer"] w2 i False r(3) less.prems(2) by auto
    ultimately show ?thesis
      using r w2 i assms by (subst cat_copy_descriptor.simps) auto
  qed
qed

text \<open>cat without an argument copies its standard input.\<close>

lemma cat_standard_input:
  assumes "fdi = NEOX_STDIN_FD" and "fdo = NEOX_STDOUT_FD" and "ctx_valid context"
    and "line_words (ctx_text context) = []" and "inv w"
  shows "\<exists>w'. neox_applet_cat os context w = Some (NEOX_STATUS_OK, w') \<and> inv w' \<and> inp w' = []
    \<and> out w' = out w @ inp w"
proof -
  obtain c a where "neox_arg_next (neox_arg_cursor_init context) = Some (False, c, a)"
    using neox_arg_next_Nil [OF cursor_init_valid [OF assms(3)]] assms(4) by (metis cursor_init_rest)
  then show ?thesis
    using cat_copy_all [OF assms(2,5), of "replicate 64 0"] assms(1) by (auto simp: neox_applet_cat_def cat_finish_def)
qed

lemma cp_transfer_all:
  "inv w \<Longrightarrow> length buffer = 64 \<Longrightarrow>
    \<exists>w'. cp_transfer os fdi fdo buffer w = cp_finish os fdi fdo w' \<and> inv w'
      \<and> inp w' = [] \<and> out w' = out w @ inp w"
proof (induction "length (inp w)" arbitrary: w buffer rule: less_induct)
  case less
  obtain data w1 where r: "neox_read os fdi 64 w = Some (NEOX_STATUS_OK, of_nat (length data), data, w1)"
    "cfill buffer data = Some (data @ drop (length data) buffer)" "length data \<le> 64" "inv w1"
    and i: "inp w = data @ inp w1" "data = [] \<longrightarrow> inp w = []" "out w1 = out w"
    by (rule read_chunk [OF less.prems])
  show ?case
  proof (cases "data = []")
    case True
    then show ?thesis using r i by (subst cp_transfer.simps) auto
  next
    case False
    obtain w2 where w2: "neox_applet_write_all os fdo (data @ drop (length data) buffer)
        (of_nat (length data)) w1 = Some (NEOX_STATUS_OK, w2)" "inv w2" "out w2 = out w1 @ data" "inp w2 = inp w1"
      by (rule write_chunk [OF r(4,3) less.prems(2)])
    have "(of_nat (length data) :: neox_size_t) \<noteq> 0" using False r(3) by (simp add: size_of_nat_eq_0)
    moreover obtain w' where "cp_transfer os fdi fdo (data @ drop (length data) buffer) w2
        = cp_finish os fdi fdo w'" "inv w'" "inp w' = []" "out w' = out w2 @ inp w2"
      using less.hyps [of w2 "data @ drop (length data) buffer"] w2 i False r(3) less.prems(2) by auto
    ultimately show ?thesis
      using r w2 i by (subst cp_transfer.simps) auto
  qed
qed

end

section \<open>Descriptor discipline\<close>

context neox_descriptors
begin

lemma cat_copy_fds:
  assumes "cat_copy_descriptor os fd buffer w = Some (st, w')" and "inv w"
  shows "inv w' \<and> fds w' = fds w"
proof -
  have "os' = os \<longrightarrow> inv w \<longrightarrow> inv (snd r) \<and> fds (snd r) = fds w"
    if "cat_copy_descriptor os' fd buffer w = Some r" for os' r
    using that
  proof (rule cat_copy_descriptor.raw_induct [rotated], goal_cases)
    case (1 f o' fd buffer w r)
    show ?case
    proof (intro impI)
      assume o: "o' = os" and inv: "inv w"
      from 1(2) o obtain st k data w1 buf where rd: "neox_read os fd 64 w = Some (st, k, data, w1)"
        and body: "(if st \<noteq> NEOX_STATUS_OK then applet_fail os cat_read_message st w1
          else if k = 0 then Some (NEOX_STATUS_OK, w1)
          else do {
            (status, w) \<leftarrow> neox_applet_write_all os NEOX_STDOUT_FD buf k w1;
            if status \<noteq> NEOX_STATUS_OK then applet_fail os cat_write_message status w
            else f os fd buf w }) = Some r"
        by (auto simp: bind_eq_Some_conv)
      have w1: "inv w1" "fds w1 = fds w" using read_fds [OF inv rd] by auto
      show "inv (snd r) \<and> fds (snd r) = fds w"
      proof (cases "st = NEOX_STATUS_OK \<and> k \<noteq> 0")
        case False
        with body w1 show ?thesis by (cases r) (auto split: if_splits dest: applet_fail_fds)
      next
        case True
        with body obtain st2 w2 where wr: "neox_applet_write_all os NEOX_STDOUT_FD buf k w1 = Some (st2, w2)"
          and k: "(if st2 \<noteq> NEOX_STATUS_OK then applet_fail os cat_write_message st2 w2
            else f os fd buf w2) = Some r"
          by (auto simp: bind_eq_Some_conv)
        have w2: "inv w2" "fds w2 = fds w" using write_all_fds [OF wr w1(1)] w1(2) by auto
        show ?thesis
          using k w2 1(1) [of os fd buf w2 r]
          by (cases r) (auto split: if_splits dest: applet_fail_fds)
      qed
    qed
  qed
  then show ?thesis using assms by fastforce
qed

lemma cat_finish_fds:
  assumes "cat_finish os fd cl w = Some (st, w')" and "inv w"
  shows "inv w' \<and> fds w' = (if cl then fds w - {fd} else fds w)"
proof -
  from assms(1) obtain st1 w1 where c: "cat_copy_descriptor os fd (replicate 64 0) w = Some (st1, w1)"
    by (auto simp: cat_finish_def bind_eq_Some_conv)
  have w1: "inv w1" "fds w1 = fds w" using cat_copy_fds [OF c assms(2)] by auto
  show ?thesis
  proof (cases cl)
    case False
    then show ?thesis using assms(1) c w1 by (auto simp: cat_finish_def)
  next
    case True
    then obtain st2 w2 where cl: "neox_close os fd w1 = Some (st2, w2)"
      and r: "(if st1 = NEOX_STATUS_OK \<and> st2 \<noteq> NEOX_STATUS_OK then applet_fail os cat_close_message st2 w2
        else Some (st1, w2)) = Some (st, w')"
      using assms(1) c by (auto simp: cat_finish_def bind_eq_Some_conv)
    have "inv w2" "fds w2 = fds w - {fd}" using close_fds [OF w1(1) cl] w1(2) by auto
    then show ?thesis
      using True r applet_fail_fds [of cat_close_message st2 w2 st w'] by (simp split: if_splits)
  qed
qed

lemma cat_file_fds:
  assumes "cat_file os path w = Some (st, w')" and "inv w"
  shows "inv w' \<and> fds w' = fds w"
proof -
  from assms(1) obtain st1 fd w1 where o1: "neox_open os (cstring path) NEOX_OPEN_READ w = Some (st1, fd, w1)"
    by (auto simp: cat_file_def bind_eq_Some_conv)
  note w1 = open_fds [OF assms(2) o1]
  show ?thesis
    using assms(1) o1 w1 applet_fail_fds [of cat_open_message st1 w1] cat_finish_fds [of fd True w1]
    by (auto simp: cat_file_def split: if_splits)
qed

lemma cat_fds:
  assumes "neox_applet_cat os context w = Some (st, w')" and "inv w"
  shows "inv w' \<and> fds w' = fds w"
proof -
  have fin: "cat_finish os NEOX_STDIN_FD False w = Some (st, w') \<Longrightarrow> inv w' \<and> fds w' = fds w"
    using cat_finish_fds [of NEOX_STDIN_FD False w st w'] assms(2) by simp
  show ?thesis
    using assms unfolding neox_applet_cat_def
    by (auto simp: bind_eq_Some_conv split: if_splits dest!: applet_fail_fds cat_file_fds fin)
qed

lemma cp_close_both_fds:
  assumes "cp_close_after_failure os s True d True w = Some w'" and "inv w"
  shows "inv w' \<and> fds w' = fds w - {s} - {d}"
  using assms unfolding cp_close_after_failure_def
  by (auto simp: bind_eq_Some_conv dest!: close_fds [rotated])

lemma cp_close_source_fds:
  assumes "cp_close_after_failure os s True d False w = Some w'" and "inv w"
  shows "inv w' \<and> fds w' = fds w - {s}"
  using assms unfolding cp_close_after_failure_def
  by (auto simp: bind_eq_Some_conv dest!: close_fds [rotated])

lemma cp_finish_fds:
  assumes "cp_finish os s d w = Some (st, w')" and "inv w"
  shows "inv w' \<and> fds w' = fds w - {s} - {d}"
proof -
  from assms(1) obtain st1 w1 where c: "neox_close os s w = Some (st1, w1)"
    by (auto simp: cp_finish_def bind_eq_Some_conv)
  have w1: "inv w1" "fds w1 = fds w - {s}" using close_fds [OF assms(2) c] by auto
  show ?thesis
  proof (cases "st1 = NEOX_STATUS_OK")
    case True
    obtain st2 w2 where d: "neox_close os d w1 = Some (st2, w2)"
      using assms(1) c True by (cases "neox_close os d w1") (auto simp: cp_finish_def)
    have w2: "inv w2" "fds w2 = fds w - {s} - {d}" using close_fds [OF w1(1) d] w1(2) by auto
    have "(if st2 \<noteq> NEOX_STATUS_OK then applet_fail os cp_close_message st2 w2
        else Some (NEOX_STATUS_OK, w2)) = Some (st, w')"
      using assms(1) c True d by (simp add: cp_finish_def)
    then show ?thesis
      using w2 applet_fail_fds [of cp_close_message st2 w2 st w'] by (simp split: if_splits)
  next
    case False
    then obtain w2 st2 where r: "neox_applet_report os cp_close_message w1 = Some w2"
      and d: "neox_close os d w2 = Some (st2, w')"
      using assms(1) c by (auto simp: cp_finish_def bind_eq_Some_conv)
    then show ?thesis using report_fds [OF r w1(1)] close_fds [OF _ d] w1(2) by auto
  qed
qed

lemma cp_transfer_fds:
  assumes "cp_transfer os s d buffer w = Some (st, w')" and "inv w"
  shows "inv w' \<and> fds w' = fds w - {s} - {d}"
proof -
  have "os' = os \<longrightarrow> inv w \<longrightarrow> inv (snd r) \<and> fds (snd r) = fds w - {s} - {d}"
    if "cp_transfer os' s d buffer w = Some r" for os' r
    using that
  proof (rule cp_transfer.raw_induct [rotated], goal_cases)
    case (1 f o' s d buffer w r)
    show ?case
    proof (intro impI)
      assume o: "o' = os" and inv: "inv w"
      let ?fail = "\<lambda>m st w. do { w \<leftarrow> neox_applet_report os m w;
          w \<leftarrow> cp_close_after_failure os s True d True w; Some (st, w) }"
      have fail: "inv (snd r) \<and> fds (snd r) = fds w - {s} - {d}"
        if "?fail m st w1 = Some r" "inv w1" "fds w1 = fds w" for m w1 and st :: neox_status_t
        using that by (auto simp: bind_eq_Some_conv dest!: cp_close_both_fds report_fds)
      from 1(2) o obtain st k data w1 buf where rd: "neox_read os s 64 w = Some (st, k, data, w1)"
        and body: "(if st \<noteq> NEOX_STATUS_OK then ?fail cp_read_message st w1
          else if k = 0 then cp_finish os s d w1
          else do {
            (status, w) \<leftarrow> neox_applet_write_all os d buf k w1;
            if status \<noteq> NEOX_STATUS_OK then ?fail cp_write_message status w
            else f os s d buf w }) = Some r"
        by (auto simp: bind_eq_Some_conv)
      have w1: "inv w1" "fds w1 = fds w" using read_fds [OF inv rd] by auto
      consider (rd_fail) "st \<noteq> NEOX_STATUS_OK" | (fin) "st = NEOX_STATUS_OK" "k = 0"
        | (more) "st = NEOX_STATUS_OK" "k \<noteq> 0" by auto
      then show "inv (snd r) \<and> fds (snd r) = fds w - {s} - {d}"
      proof cases
        case rd_fail
        then show ?thesis using fail body w1 by simp
      next
        case fin
        then show ?thesis using body w1 cp_finish_fds [of s d w1] by (cases r) auto
      next
        case more
        then obtain st2 w2 where wr: "neox_applet_write_all os d buf k w1 = Some (st2, w2)"
          and k: "(if st2 \<noteq> NEOX_STATUS_OK then ?fail cp_write_message st2 w2 else f os s d buf w2) = Some r"
          using body by (auto simp: bind_eq_Some_conv)
        have w2: "inv w2" "fds w2 = fds w" using write_all_fds [OF wr w1(1)] w1(2) by auto
        show ?thesis
          using k w2 1(1) [of os s d buf w2 r] fail by (cases "st2 = NEOX_STATUS_OK") simp_all
      qed
    qed
  qed
  then show ?thesis using assms by fastforce
qed

lemma cp_files_fds:
  assumes "cp_files os src dst w = Some (st, w')" and "inv w"
  shows "inv w' \<and> fds w' = fds w"
proof -
  from assms(1) obtain st1 s w1 where o1: "neox_open os (cstring src) NEOX_OPEN_READ w = Some (st1, s, w1)"
    by (auto simp: cp_files_def bind_eq_Some_conv)
  note w1 = open_fds [OF assms(2) o1]
  show ?thesis
  proof (cases "st1 = NEOX_STATUS_OK")
    case False
    with assms(1) o1 w1 show ?thesis by (auto simp: cp_files_def dest: applet_fail_fds)
  next
    case True
    with assms(1) o1 obtain st2 d w2 where
      o2: "neox_open os (cstring dst) NEOX_OPEN_WRITE_TRUNC w1 = Some (st2, d, w2)"
      by (auto simp: cp_files_def bind_eq_Some_conv)
    note w2 = open_fds [OF conjunct1 [OF w1] o2]
    show ?thesis
    proof (cases "st2 = NEOX_STATUS_OK")
      case True
      with \<open>st1 = NEOX_STATUS_OK\<close> assms(1) o1 o2
      have "cp_transfer os s d (replicate 64 0) w2 = Some (st, w')" by (simp add: cp_files_def)
      then show ?thesis using cp_transfer_fds [of s d _ w2] w1 w2 True \<open>st1 = NEOX_STATUS_OK\<close> by auto
    next
      case False
      with \<open>st1 = NEOX_STATUS_OK\<close> assms(1) o1 o2 w1 w2 show ?thesis
        by (auto simp: cp_files_def bind_eq_Some_conv dest!: cp_close_source_fds report_fds)
    qed
  qed
qed

lemma cp_fds:
  assumes "neox_applet_cp os context w = Some (st, w')" and "inv w"
  shows "inv w' \<and> fds w' = fds w"
  using assms unfolding neox_applet_cp_def
  by (auto simp: bind_eq_Some_conv split: if_splits dest!: applet_fail_fds cp_files_fds)

end

end
