(* ===== verification/Applet_Path.thy ===== *)
theory Applet_Path
  imports Applet_Support
begin

text \<open>
  The applets that take pathnames and make one filesystem call:
  \<^verbatim>\<open>path_command.c\<close>, \<^verbatim>\<open>two_path_command.c\<close>, \<^verbatim>\<open>rm.c\<close>, \<^verbatim>\<open>rmdir.c\<close>, \<^verbatim>\<open>mkdir.c\<close>, \<^verbatim>\<open>mv.c\<close>,
  \<^verbatim>\<open>cd.c\<close> and \<^verbatim>\<open>pwd.c\<close> of \<^verbatim>\<open>src/user/applets\<close>. An optional message is \<open>None\<close> where the code
  passes the null pointer.

  The lemmas compare each shared driver with a case distinction on the words of the
  launch line.
\<close>

section \<open>Drivers\<close>

definition select_message ::
  "neox_status_t \<Rightarrow> byte list option \<Rightarrow> byte list option \<Rightarrow> byte list \<Rightarrow> byte list" where
  "select_message status not_found_message invalid_name_message failure_message =
     (if status = NEOX_STATUS_ENOENT \<and> not_found_message \<noteq> None then the not_found_message
      else if status = NEOX_STATUS_EINVAL \<and> invalid_name_message \<noteq> None then the invalid_name_message
      else failure_message)"

definition neox_applet_run_one_path ::
  "'w neox_os \<Rightarrow> neox_applet_context \<Rightarrow> byte list \<Rightarrow> byte list \<Rightarrow> byte list option \<Rightarrow> byte list option
   \<Rightarrow> byte list \<Rightarrow> (byte list \<Rightarrow> 'w \<Rightarrow> (neox_status_t \<times> 'w) option) \<Rightarrow> 'w \<Rightarrow> (neox_status_t \<times> 'w) option" where
  "neox_applet_run_one_path os context missing_message extra_message not_found_message
     invalid_name_message failure_message operation w = do {
     (found, cursor, path_argument) \<leftarrow> neox_arg_next (neox_arg_cursor_init context);
     if \<not> found then applet_fail os missing_message NEOX_STATUS_EINVAL w else do {
     (found, cursor, extra_argument) \<leftarrow> neox_arg_next cursor;
     if found then applet_fail os extra_message NEOX_STATUS_EINVAL w else do {
     (status, applet_path_buffer) \<leftarrow>
       neox_applet_copy_argument path_argument (replicate 64 0) NEOX_PATH_MAX;
     if status \<noteq> NEOX_STATUS_OK
     then applet_fail os (message ''path: pathname too long'') status w else do {
     (status, w) \<leftarrow> operation (cstring applet_path_buffer) w;
     if status \<noteq> NEOX_STATUS_OK
     then applet_fail os
       (select_message status not_found_message invalid_name_message failure_message) status w
     else Some (status, w) }}}}"

definition neox_applet_run_two_paths ::
  "'w neox_os \<Rightarrow> neox_applet_context \<Rightarrow> byte list \<Rightarrow> byte list \<Rightarrow> byte list option \<Rightarrow> byte list option
   \<Rightarrow> byte list \<Rightarrow> (byte list \<Rightarrow> byte list \<Rightarrow> 'w \<Rightarrow> (neox_status_t \<times> 'w) option)
   \<Rightarrow> 'w \<Rightarrow> (neox_status_t \<times> 'w) option" where
  "neox_applet_run_two_paths os context missing_message extra_message not_found_message
     invalid_name_message failure_message operation w = do {
     (found, cursor, first_argument) \<leftarrow> neox_arg_next (neox_arg_cursor_init context);
     if \<not> found then applet_fail os missing_message NEOX_STATUS_EINVAL w else do {
     (found, cursor, second_argument) \<leftarrow> neox_arg_next cursor;
     if \<not> found then applet_fail os missing_message NEOX_STATUS_EINVAL w else do {
     (found, cursor, extra_argument) \<leftarrow> neox_arg_next cursor;
     if found then applet_fail os extra_message NEOX_STATUS_EINVAL w else do {
     (status, first_path_buffer) \<leftarrow>
       neox_applet_copy_argument first_argument (replicate 64 0) NEOX_PATH_MAX;
     if status \<noteq> NEOX_STATUS_OK
     then do { text \<leftarrow> invalid_name_message; applet_fail os text status w } else do {
     (status, second_path_buffer) \<leftarrow>
       neox_applet_copy_argument second_argument (replicate 64 0) NEOX_PATH_MAX;
     if status \<noteq> NEOX_STATUS_OK
     then do { text \<leftarrow> invalid_name_message; applet_fail os text status w } else do {
     (status, w) \<leftarrow> operation (cstring first_path_buffer) (cstring second_path_buffer) w;
     if status \<noteq> NEOX_STATUS_OK
     then applet_fail os
       (select_message status not_found_message invalid_name_message failure_message) status w
     else Some (status, w) }}}}}}"

section \<open>rm, rmdir, mkdir, mv\<close>

definition neox_applet_rm :: "'w neox_os \<Rightarrow> neox_applet_context \<Rightarrow> 'w \<Rightarrow> (neox_status_t \<times> 'w) option" where
  "neox_applet_rm os context w = neox_applet_run_one_path os context
     (message ''rm: missing file'') (message ''rm: too many arguments'')
     (Some (message ''rm: file does not exist'')) (Some (message ''rm: invalid file name''))
     (message ''rm: cannot remove file'') (neox_delete os) w"

definition neox_applet_rmdir :: "'w neox_os \<Rightarrow> neox_applet_context \<Rightarrow> 'w \<Rightarrow> (neox_status_t \<times> 'w) option" where
  "neox_applet_rmdir os context w = neox_applet_run_one_path os context
     (message ''rmdir: missing directory'') (message ''rmdir: too many arguments'')
     (Some (message ''rmdir: directory does not exist'')) (Some (message ''rmdir: invalid directory name''))
     (message ''rmdir: cannot remove directory'') (neox_rmdir os) w"

definition neox_applet_mkdir :: "'w neox_os \<Rightarrow> neox_applet_context \<Rightarrow> 'w \<Rightarrow> (neox_status_t \<times> 'w) option" where
  "neox_applet_mkdir os context w = neox_applet_run_one_path os context
     (message ''mkdir: missing directory'') (message ''mkdir: too many arguments'')
     None (Some (message ''mkdir: invalid directory name''))
     (message ''mkdir: cannot create directory'') (neox_mkdir os) w"

definition neox_applet_mv :: "'w neox_os \<Rightarrow> neox_applet_context \<Rightarrow> 'w \<Rightarrow> (neox_status_t \<times> 'w) option" where
  "neox_applet_mv os context w = neox_applet_run_two_paths os context
     (message ''mv: source and destination required'') (message ''mv: too many arguments'')
     (Some (message ''mv: source does not exist''))
     (Some (message ''mv: invalid source or destination name''))
     (message ''mv: cannot rename path'') (neox_rename os) w"

section \<open>cd and pwd\<close>

definition cd_extra_message :: "byte list" where "cd_extra_message = message ''cd: too many arguments''"
definition cd_not_found_message :: "byte list" where
  "cd_not_found_message = message ''cd: directory does not exist''"
definition cd_invalid_name_message :: "byte list" where
  "cd_invalid_name_message = message ''cd: invalid directory name''"
definition cd_failure_message :: "byte list" where
  "cd_failure_message = message ''cd: cannot change directory''"

definition cd_change :: "'w neox_os \<Rightarrow> byte list \<Rightarrow> 'w \<Rightarrow> (neox_status_t \<times> 'w) option" where
  "cd_change os cd_path w = do {
     (status, w) \<leftarrow> neox_chdir os (cstring cd_path) w;
     if status \<noteq> NEOX_STATUS_OK
     then applet_fail os
       (if status = NEOX_STATUS_ENOENT then cd_not_found_message
        else if status = NEOX_STATUS_EINVAL then cd_invalid_name_message
        else cd_failure_message) status w
     else Some (status, w) }"

definition neox_applet_cd :: "'w neox_os \<Rightarrow> neox_applet_context \<Rightarrow> 'w \<Rightarrow> (neox_status_t \<times> 'w) option" where
  "neox_applet_cd os context w = do {
     (found, cursor, directory_argument) \<leftarrow> neox_arg_next (neox_arg_cursor_init context);
     if \<not> found then do {
       cd_path \<leftarrow> cstore (replicate 64 0) 0 (of_char CHR ''/'');
       cd_path \<leftarrow> cstore cd_path 1 0;
       cd_change os cd_path w }
     else do {
       (found, cursor, extra_argument) \<leftarrow> neox_arg_next cursor;
       if found then applet_fail os cd_extra_message NEOX_STATUS_EINVAL w
       else do {
         (status, cd_path) \<leftarrow> neox_applet_copy_argument directory_argument (replicate 64 0) 64;
         if status \<noteq> NEOX_STATUS_OK then applet_fail os cd_invalid_name_message status w
         else cd_change os cd_path w } } }"

definition pwd_extra_message :: "byte list" where "pwd_extra_message = message ''pwd: too many arguments''"
definition pwd_getcwd_message :: "byte list" where
  "pwd_getcwd_message = message ''pwd: cannot get current directory''"
definition pwd_write_message :: "byte list" where "pwd_write_message = message ''pwd: write error''"

abbreviation (input) PWD_BUFFER_SIZE :: neox_size_t where "PWD_BUFFER_SIZE \<equiv> 64"

definition neox_applet_pwd :: "'w neox_os \<Rightarrow> neox_applet_context \<Rightarrow> 'w \<Rightarrow> (neox_status_t \<times> 'w) option" where
  "neox_applet_pwd os context w = do {
     (found, cursor, extra_argument) \<leftarrow> neox_arg_next (neox_arg_cursor_init context);
     if found then applet_fail os pwd_extra_message NEOX_STATUS_EINVAL w else do {
     (status, path_length, stored, w) \<leftarrow> neox_getcwd os PWD_BUFFER_SIZE w;
     pwd_buffer \<leftarrow> cfill (replicate 64 0) stored;
     if status \<noteq> NEOX_STATUS_OK then applet_fail os pwd_getcwd_message status w else do {
     (status, w) \<leftarrow> neox_applet_write_all os NEOX_STDOUT_FD pwd_buffer path_length w;
     if status \<noteq> NEOX_STATUS_OK then applet_fail os pwd_write_message status w else do {
     (status, w) \<leftarrow> neox_applet_write_all os NEOX_STDOUT_FD [CR, 0] 1 w;
     if status \<noteq> NEOX_STATUS_OK then applet_fail os pwd_write_message status w
     else Some (status, w) }}}}"

section \<open>The drivers on the words of the line\<close>

text \<open>
  The contract of a path driver: what it does for each number of words, with the path
  limited to 63 bytes.
\<close>

definition call_path ::
  "'w neox_os \<Rightarrow> byte list option \<Rightarrow> byte list option \<Rightarrow> byte list
   \<Rightarrow> ('w \<Rightarrow> (neox_status_t \<times> 'w) option) \<Rightarrow> 'w \<Rightarrow> (neox_status_t \<times> 'w) option" where
  "call_path os nf inval fail call w = do {
     (status, w) \<leftarrow> call w;
     if status = NEOX_STATUS_OK then Some (status, w)
     else applet_fail os (select_message status nf inval fail) status w }"

definition one_path_spec ::
  "'w neox_os \<Rightarrow> byte list \<Rightarrow> byte list \<Rightarrow> byte list option \<Rightarrow> byte list option \<Rightarrow> byte list
   \<Rightarrow> (byte list \<Rightarrow> 'w \<Rightarrow> (neox_status_t \<times> 'w) option) \<Rightarrow> byte list list \<Rightarrow> 'w \<Rightarrow> (neox_status_t \<times> 'w) option" where
  "one_path_spec os missing extra nf inval fail operation ws w =
     (case ws of
        [] \<Rightarrow> applet_fail os missing NEOX_STATUS_EINVAL w
      | [p] \<Rightarrow>
          if length p \<ge> 64 then applet_fail os (message ''path: pathname too long'') NEOX_STATUS_EINVAL w
          else call_path os nf inval fail (operation (cstring p)) w
      | _ \<Rightarrow> applet_fail os extra NEOX_STATUS_EINVAL w)"

definition two_path_spec ::
  "'w neox_os \<Rightarrow> byte list \<Rightarrow> byte list \<Rightarrow> byte list option \<Rightarrow> byte list \<Rightarrow> byte list
   \<Rightarrow> (byte list \<Rightarrow> byte list \<Rightarrow> 'w \<Rightarrow> (neox_status_t \<times> 'w) option)
   \<Rightarrow> byte list list \<Rightarrow> 'w \<Rightarrow> (neox_status_t \<times> 'w) option" where
  "two_path_spec os missing extra nf inval fail operation ws w =
     (case ws of
        [p, q] \<Rightarrow>
          if length p \<ge> 64 \<or> length q \<ge> 64 then applet_fail os inval NEOX_STATUS_EINVAL w
          else call_path os nf (Some inval) fail (operation (cstring p) (cstring q)) w
      | p # q # r # _ \<Rightarrow> applet_fail os extra NEOX_STATUS_EINVAL w
      | _ \<Rightarrow> applet_fail os missing NEOX_STATUS_EINVAL w)"

lemma case_prod_if_swap:
  "(\<lambda>(st, w). if st \<noteq> (0::neox_status_t) then f st w else g st w) =
   (\<lambda>(st, w). if st = 0 then g st w else f st w)"
  by (auto simp: fun_eq_iff)

lemma run_one_path_words:
  assumes "ctx_valid context"
  shows "neox_applet_run_one_path os context missing extra nf inval fail operation w =
    one_path_spec os missing extra nf inval fail operation (line_words (ctx_text context)) w"
proof -
  note c = cursor_init_valid [OF assms]
  show ?thesis
  proof (cases "line_words (ctx_text context)")
    case Nil
    obtain c1 a where "neox_arg_next (neox_arg_cursor_init context) = Some (False, c1, a)"
      using neox_arg_next_Nil [OF c] Nil by (metis cursor_init_rest)
    with Nil show ?thesis by (simp add: neox_applet_run_one_path_def one_path_spec_def)
  next
    case (Cons p ws)
    obtain c1 a where n1: "neox_arg_next (neox_arg_cursor_init context) = Some (True, c1, a)"
      and c1: "cursor_valid c1" and a: "arg_valid a" "arg_bytes a = p"
      and ws: "line_words (cursor_rest c1) = ws"
      using neox_arg_next_Cons [OF c, of p ws] Cons by (metis cursor_init_rest)
    show ?thesis
    proof (cases ws)
      case Nil
      obtain c2 e where n2: "neox_arg_next c1 = Some (False, c2, e)"
        using neox_arg_next_Nil [OF c1] ws Nil by metis
      show ?thesis
        using n1 n2 copy_path [OF a] Nil Cons
        by (simp add: neox_applet_run_one_path_def one_path_spec_def call_path_def
            case_prod_if_swap)
    next
      case (Cons q ws')
      obtain c2 e where n2: "neox_arg_next c1 = Some (True, c2, e)"
        using neox_arg_next_Cons [OF c1] ws Cons by metis
      show ?thesis
        using n1 n2 Cons \<open>line_words (ctx_text context) = p # ws\<close>
        by (simp add: neox_applet_run_one_path_def one_path_spec_def)
    qed
  qed
qed

lemma run_two_paths_words:
  assumes "ctx_valid context"
  shows "neox_applet_run_two_paths os context missing extra nf (Some inval) fail operation w =
    two_path_spec os missing extra nf inval fail operation (line_words (ctx_text context)) w"
proof -
  note c = cursor_init_valid [OF assms]
  show ?thesis
  proof (cases "line_words (ctx_text context)")
    case Nil
    obtain c1 a where "neox_arg_next (neox_arg_cursor_init context) = Some (False, c1, a)"
      using neox_arg_next_Nil [OF c] Nil by (metis cursor_init_rest)
    with Nil show ?thesis by (simp add: neox_applet_run_two_paths_def two_path_spec_def)
  next
    case Cons1: (Cons p ws)
    obtain c1 a where n1: "neox_arg_next (neox_arg_cursor_init context) = Some (True, c1, a)"
      and c1: "cursor_valid c1" and a: "arg_valid a" "arg_bytes a = p"
      and ws: "line_words (cursor_rest c1) = ws"
      using neox_arg_next_Cons [OF c, of p ws] Cons1 by (metis cursor_init_rest)
    show ?thesis
    proof (cases ws)
      case Nil
      obtain c2 e where "neox_arg_next c1 = Some (False, c2, e)"
        using neox_arg_next_Nil [OF c1] ws Nil by metis
      with n1 Nil Cons1 show ?thesis
        by (simp add: neox_applet_run_two_paths_def two_path_spec_def)
    next
      case Cons2: (Cons q ws')
      obtain c2 b where n2: "neox_arg_next c1 = Some (True, c2, b)"
        and c2: "cursor_valid c2" and b: "arg_valid b" "arg_bytes b = q"
        and ws': "line_words (cursor_rest c2) = ws'"
        using neox_arg_next_Cons [OF c1, of q ws'] ws Cons2 by metis
      show ?thesis
      proof (cases ws')
        case Nil
        obtain c3 e where "neox_arg_next c2 = Some (False, c3, e)"
          using neox_arg_next_Nil [OF c2] ws' Nil by metis
        with n1 n2 copy_path [OF a] copy_path [OF b] Nil Cons1 Cons2 show ?thesis
          by (simp add: neox_applet_run_two_paths_def two_path_spec_def call_path_def
              case_prod_if_swap)
      next
        case (Cons r ws'')
        obtain c3 e where "neox_arg_next c2 = Some (True, c3, e)"
          using neox_arg_next_Cons [OF c2] ws' Cons by metis
        with n1 n2 Cons Cons1 Cons2 show ?thesis
          by (simp add: neox_applet_run_two_paths_def two_path_spec_def)
      qed
    qed
  qed
qed

text \<open>\<open>cd\<close> without a word goes to the root directory.\<close>

definition cd_call :: "'w neox_os \<Rightarrow> byte list \<Rightarrow> 'w \<Rightarrow> (neox_status_t \<times> 'w) option" where
  "cd_call os path = call_path os (Some cd_not_found_message) (Some cd_invalid_name_message)
     cd_failure_message (neox_chdir os path)"

lemma cd_change_call: "cd_change os buffer w = cd_call os (cstring buffer) w"
  by (auto simp: cd_change_def cd_call_def call_path_def select_message_def split: if_splits
      intro!: arg_cong2 [where f = Option.bind] ext)

lemma cd_words:
  assumes "ctx_valid context"
  shows "neox_applet_cd os context w =
    (case line_words (ctx_text context) of
       [] \<Rightarrow> cd_call os (bytes_of ''/'') w
     | [p] \<Rightarrow> if length p < 64 then cd_call os (cstring p) w
              else applet_fail os cd_invalid_name_message NEOX_STATUS_EINVAL w
     | _ \<Rightarrow> applet_fail os cd_extra_message NEOX_STATUS_EINVAL w)"
proof -
  note c = cursor_init_valid [OF assms]
  show ?thesis
  proof (cases "line_words (ctx_text context)")
    case Nil
    obtain c1 a where "neox_arg_next (neox_arg_cursor_init context) = Some (False, c1, a)"
      using neox_arg_next_Nil [OF c] Nil by (metis cursor_init_rest)
    moreover have "cstring ((replicate 64 0)[0 := of_char CHR ''/'', 1 := 0]) = bytes_of ''/''"
      by code_simp
    ultimately show ?thesis using Nil by (simp add: neox_applet_cd_def cd_change_call cstore_def)
  next
    case (Cons p ws)
    obtain c1 a where n1: "neox_arg_next (neox_arg_cursor_init context) = Some (True, c1, a)"
      and c1: "cursor_valid c1" and a: "arg_valid a" "arg_bytes a = p"
      and ws: "line_words (cursor_rest c1) = ws"
      using neox_arg_next_Cons [OF c, of p ws] Cons by (metis cursor_init_rest)
    show ?thesis
    proof (cases ws)
      case Nil
      obtain c2 e where "neox_arg_next c1 = Some (False, c2, e)"
        using neox_arg_next_Nil [OF c1] ws Nil by metis
      with n1 copy_path [OF a] Nil Cons show ?thesis
        by (simp add: neox_applet_cd_def cd_change_call)
    next
      case (Cons q ws')
      obtain c2 e where "neox_arg_next c1 = Some (True, c2, e)"
        using neox_arg_next_Cons [OF c1] ws Cons by metis
      with n1 Cons \<open>line_words (ctx_text context) = p # ws\<close> show ?thesis
        by (simp add: neox_applet_cd_def)
    qed
  qed
qed

end
