(* ===== verification/Applet_Ls.thy ===== *)
theory Applet_Ls
  imports Applet_Support
begin

text \<open>
  The \<open>ls\<close> applet, \<^verbatim>\<open>src/user/applets/ls.c\<close>: two passes over the directory, the first printing
  the directories and the second the files, one row per entry with the name padded to
  13 columns.

  The lemmas give the text of a row and show that a listing closes the directory
  descriptor it opens, on every path.
\<close>

section \<open>Operations\<close>

abbreviation (input) LS_PATH_SIZE :: neox_size_t where "LS_PATH_SIZE \<equiv> 64"
abbreviation (input) LS_NAME_FIELD_WIDTH :: neox_size_t where "LS_NAME_FIELD_WIDTH \<equiv> 13"

definition ls_default_path :: "byte list" where "ls_default_path = ctext ''.''"
definition ls_directory_text :: "byte list" where "ls_directory_text = ctext ''<DIR>''"
definition ls_cr :: "byte list" where "ls_cr = [CR, 0]"
definition ls_space :: "byte list" where "ls_space = [SP, 0]"
definition ls_extra_message :: "byte list" where "ls_extra_message = message ''ls: too many arguments''"
definition ls_not_found_message :: "byte list" where
  "ls_not_found_message = message ''ls: directory does not exist''"
definition ls_invalid_name_message :: "byte list" where
  "ls_invalid_name_message = message ''ls: invalid directory name''"
definition ls_open_message :: "byte list" where "ls_open_message = message ''ls: cannot open directory''"
definition ls_read_message :: "byte list" where "ls_read_message = message ''ls: read error''"
definition ls_close_message :: "byte list" where "ls_close_message = message ''ls: close error''"
definition ls_write_message :: "byte list" where "ls_write_message = message ''ls: write error''"

function ls_write_padding :: "'w neox_os \<Rightarrow> neox_size_t \<Rightarrow> 'w \<Rightarrow> (neox_status_t \<times> 'w) option" where
  "ls_write_padding os count w =
     (if count \<noteq> 0
      then then_ok (neox_applet_write_all os NEOX_STDOUT_FD ls_space 1) (ls_write_padding os (count - 1)) w
      else Some (NEOX_STATUS_OK, w))"
  by pat_completeness auto
termination
  by (relation "measure (\<lambda>(os, count, w). unat count)") (auto simp: measure_unat)

declare ls_write_padding.simps [simp del]

definition is_directory_entry :: "neox_dir_entry \<Rightarrow> bool" where
  "is_directory_entry entry \<longleftrightarrow> attributes entry AND NEOX_FILE_ATTRIBUTE_DIRECTORY \<noteq> 0"

definition ls_print_entry :: "'w neox_os \<Rightarrow> neox_dir_entry \<Rightarrow> 'w \<Rightarrow> (neox_status_t \<times> 'w) option" where
  "ls_print_entry os entry w = do {
     name_length \<leftarrow> neox_applet_string_length (name entry);
     then_ok (neox_applet_write_all os NEOX_STDOUT_FD (name entry) name_length)
     (then_ok (if name_length < LS_NAME_FIELD_WIDTH
               then ls_write_padding os (LS_NAME_FIELD_WIDTH - name_length)
               else ls_write_padding os 1)
     (then_ok (\<lambda>w. if is_directory_entry entry
                   then neox_applet_write_string os NEOX_STDOUT_FD ls_directory_text w
                   else do {
                     (value_length, ls_decimal) \<leftarrow>
                       neox_applet_format_u32 (entry_size entry) (replicate 10 0);
                     neox_applet_write_all os NEOX_STDOUT_FD ls_decimal value_length w })
              (neox_applet_write_all os NEOX_STDOUT_FD ls_cr 1))) w }"

partial_function (option) ls_read_entries ::
  "'w neox_os \<Rightarrow> neox_fd_t \<Rightarrow> bool \<Rightarrow> 'w \<Rightarrow> (neox_status_t \<times> 'w) option" where
  "ls_read_entries os directory_fd directories w = do {
     (status, ls_entry, fin, w) \<leftarrow> neox_readdir os directory_fd w;
     if status \<noteq> NEOX_STATUS_OK then do {
       w \<leftarrow> neox_applet_report os ls_read_message w;
       (_, w) \<leftarrow> neox_closedir os directory_fd w;
       Some (status, w) }
     else if fin \<noteq> 0 then do {
       (close_status, w) \<leftarrow> neox_closedir os directory_fd w;
       if close_status \<noteq> NEOX_STATUS_OK then applet_fail os ls_close_message close_status w
       else Some (NEOX_STATUS_OK, w) }
     else if is_directory_entry ls_entry = directories then do {
       (status, w) \<leftarrow> ls_print_entry os ls_entry w;
       if status \<noteq> NEOX_STATUS_OK then do {
         w \<leftarrow> neox_applet_report os ls_write_message w;
         (_, w) \<leftarrow> neox_closedir os directory_fd w;
         Some (status, w) }
       else ls_read_entries os directory_fd directories w }
     else ls_read_entries os directory_fd directories w }"

declare ls_read_entries.simps [code]

definition ls_list_pass ::
  "'w neox_os \<Rightarrow> byte list \<Rightarrow> bool \<Rightarrow> 'w \<Rightarrow> (neox_status_t \<times> 'w) option" where
  "ls_list_pass os path directories w = do {
     (status, directory_fd, w) \<leftarrow> neox_opendir os (cstring path) w;
     if status \<noteq> NEOX_STATUS_OK then Some (status, w)
     else ls_read_entries os directory_fd directories w }"

definition ls_diagnose :: "'w neox_os \<Rightarrow> neox_status_t \<Rightarrow> 'w \<Rightarrow> (neox_status_t \<times> 'w) option" where
  "ls_diagnose os status w =
     (if status = NEOX_STATUS_ENOENT then applet_fail os ls_not_found_message status w
      else if status = NEOX_STATUS_EINVAL then applet_fail os ls_invalid_name_message status w
      else if status \<noteq> NEOX_STATUS_EIO \<and> status \<noteq> NEOX_STATUS_EBADF
      then applet_fail os ls_open_message status w
      else Some (status, w))"

definition ls_list :: "'w neox_os \<Rightarrow> byte list \<Rightarrow> 'w \<Rightarrow> (neox_status_t \<times> 'w) option" where
  "ls_list os path w = do {
     (status, w) \<leftarrow> ls_list_pass os path True w;
     if status \<noteq> NEOX_STATUS_OK then ls_diagnose os status w
     else do {
       (status, w) \<leftarrow> ls_list_pass os path False w;
       if status \<noteq> NEOX_STATUS_OK then ls_diagnose os status w else Some (status, w) } }"

definition neox_applet_ls :: "'w neox_os \<Rightarrow> neox_applet_context \<Rightarrow> 'w \<Rightarrow> (neox_status_t \<times> 'w) option" where
  "neox_applet_ls os context w = do {
     (found, cursor, path_argument) \<leftarrow> neox_arg_next (neox_arg_cursor_init context);
     if \<not> found then ls_list os ls_default_path w
     else do {
       (found, cursor, extra_argument) \<leftarrow> neox_arg_next cursor;
       if found then applet_fail os ls_extra_message NEOX_STATUS_EINVAL w
       else do {
         (status, ls_path) \<leftarrow> neox_applet_copy_argument path_argument (replicate 64 0) LS_PATH_SIZE;
         if status \<noteq> NEOX_STATUS_OK then applet_fail os ls_invalid_name_message status w
         else ls_list os ls_path w } } }"

section \<open>Rows\<close>

definition ls_row :: "neox_dir_entry \<Rightarrow> byte list" where
  "ls_row entry =
     cstring (name entry)
     @ replicate (max 1 (13 - length (cstring (name entry)))) SP
     @ (if is_directory_entry entry then bytes_of ''<DIR>'' else decimal (unat (entry_size entry)))
     @ [CR]"

lemma unat_pred: "unat (n :: neox_size_t) = Suc k \<Longrightarrow> unat (n - 1) = k"
    "unat (n :: neox_size_t) = Suc k \<Longrightarrow> n \<noteq> 0"
proof -
  show "unat n = Suc k \<Longrightarrow> unat (n - 1) = k"
  proof -
    assume k: "unat n = Suc k"
    then have "n \<noteq> 0" by auto
    then show ?thesis using k by (simp add: unat_minus_one)
  qed
  show "unat n = Suc k \<Longrightarrow> n \<noteq> 0" by auto
qed

context neox_stdout
begin

lemma prints_padding: "prints (ls_write_padding os n) (replicate (unat n) SP)"
proof (induction "unat n" arbitrary: n)
  case 0
  then have "n = 0" by (simp add: unat_eq_0)
  then show ?case by (simp add: prints_def ls_write_padding.simps)
next
  case (Suc k)
  note k = unat_pred [OF Suc(2) [symmetric]]
  have "prints (then_ok (neox_applet_write_all os NEOX_STDOUT_FD ls_space 1) (ls_write_padding os (n - 1)))
      ([SP] @ replicate k SP)"
    using Suc(1) [of "n - 1"] k(1) by (intro prints_then_ok prints_write_all) (auto simp: ls_space_def)
  moreover have "ls_write_padding os n =
      then_ok (neox_applet_write_all os NEOX_STDOUT_FD ls_space 1) (ls_write_padding os (n - 1))"
    using k(2) by (simp add: fun_eq_iff ls_write_padding.simps [of os n])
  ultimately show ?case using Suc(2) [symmetric] by simp
qed

lemma prints_entry:
  assumes "terminated (name entry)" and "length (name entry) \<le> 65536"
  shows "prints (ls_print_entry os entry) (ls_row entry)"
proof -
  let ?n = "length (cstring (name entry))"
  have n: "?n < 65536" "?n \<le> length (name entry)"
    using length_cstring_less [OF assms(1)] assms(2) by simp_all
  have pad: "prints (if of_nat ?n < LS_NAME_FIELD_WIDTH then ls_write_padding os (LS_NAME_FIELD_WIDTH - of_nat ?n)
      else ls_write_padding os 1) (replicate (max 1 (13 - ?n)) SP)"
  proof (cases "?n < 13")
    case True
    then have "(of_nat ?n :: neox_size_t) < 13" using n(1) by (simp add: word_less_nat_alt)
    moreover have "unat (13 - of_nat ?n :: neox_size_t) = 13 - ?n"
      using True n(1) by (subst unat_sub) (simp_all add: word_le_nat_alt)
    ultimately show ?thesis using prints_padding [of "13 - of_nat ?n"] True by (simp add: max.absorb2)
  next
    case False
    then have "\<not> (of_nat ?n :: neox_size_t) < 13" using n(1) by (simp add: word_less_nat_alt)
    then show ?thesis using prints_padding [of 1] False by (simp add: max_def)
  qed
  have kind: "prints (\<lambda>w. if is_directory_entry entry
        then neox_applet_write_string os NEOX_STDOUT_FD ls_directory_text w
        else do { (value_length, ls_decimal) \<leftarrow> neox_applet_format_u32 (entry_size entry) (replicate 10 0);
          neox_applet_write_all os NEOX_STDOUT_FD ls_decimal value_length w })
      (if is_directory_entry entry then bytes_of ''<DIR>'' else decimal (unat (entry_size entry)))"
  proof (cases "is_directory_entry entry")
    case True
    have "terminated ls_directory_text" "cstring ls_directory_text = bytes_of ''<DIR>''"
      by code_simp+
    with prints_write_string [of ls_directory_text] True show ?thesis
      by (simp add: ls_directory_text_def)
  next
    case False
    then show ?thesis
      using format_u32_decimal [of "replicate 10 0" "entry_size entry"]
      by (simp add: prints_write_all)
  qed
  have "prints (then_ok (neox_applet_write_all os NEOX_STDOUT_FD (name entry) (of_nat ?n))
     (then_ok (if of_nat ?n < LS_NAME_FIELD_WIDTH then ls_write_padding os (LS_NAME_FIELD_WIDTH - of_nat ?n)
       else ls_write_padding os 1)
     (then_ok (\<lambda>w. if is_directory_entry entry
         then neox_applet_write_string os NEOX_STDOUT_FD ls_directory_text w
         else do { (value_length, ls_decimal) \<leftarrow> neox_applet_format_u32 (entry_size entry) (replicate 10 0);
           neox_applet_write_all os NEOX_STDOUT_FD ls_decimal value_length w })
       (neox_applet_write_all os NEOX_STDOUT_FD ls_cr 1)))) (ls_row entry)"
    unfolding ls_row_def using n cstring_eq_take [of "name entry"]
    by (intro prints_then_ok prints_write_all pad kind) (simp_all add: ls_cr_def)
  then show ?thesis
    using string_length_cstring [OF assms] by (simp add: ls_print_entry_def prints_def)
qed

lemma ls_row_printed:
  assumes "terminated (name entry)" and "length (name entry) \<le> 65536" and "inv w"
  shows "\<exists>w'. ls_print_entry os entry w = Some (NEOX_STATUS_OK, w') \<and> inv w' \<and> out w' = out w @ ls_row entry"
  using prints_entry [OF assms(1,2)] assms(3) by (simp add: prints_def)

end

section \<open>Descriptors\<close>

context neox_descriptors
begin

lemma keeps_padding: "keeps_fds (ls_write_padding os n)"
proof (induction "unat n" arbitrary: n)
  case 0
  then have "n = 0" by (simp add: unat_eq_0)
  then show ?case by (simp add: keeps_fds_def ls_write_padding.simps)
next
  case (Suc k)
  note k = unat_pred [OF Suc(2) [symmetric]]
  then have "ls_write_padding os n =
      then_ok (neox_applet_write_all os NEOX_STDOUT_FD ls_space 1) (ls_write_padding os (n - 1))"
    by (simp add: fun_eq_iff ls_write_padding.simps [of os n])
  then show ?case using Suc(1) [of "n - 1"] k by auto
qed

lemma keeps_print_entry: "keeps_fds (ls_print_entry os entry)"
proof -
  have "keeps_fds (\<lambda>w. if is_directory_entry entry
        then neox_applet_write_string os NEOX_STDOUT_FD ls_directory_text w
        else do { (value_length, ls_decimal) \<leftarrow> neox_applet_format_u32 (entry_size entry) (replicate 10 0);
          neox_applet_write_all os NEOX_STDOUT_FD ls_decimal value_length w })"
    by (auto simp: keeps_fds_def bind_eq_Some_conv dest: write_all_fds write_string_fds)
  note k = keeps_then_ok [OF keeps_write_all keeps_then_ok [OF _ keeps_then_ok [OF this keeps_write_all]]]
  show ?thesis
    unfolding keeps_fds_def ls_print_entry_def
    by (auto simp: bind_eq_Some_conv simp del: if_split
        dest!: keeps_fdsD [OF k, rotated] intro: keeps_padding split: if_splits)
qed

lemma ls_close_fds:
  assumes "do { w \<leftarrow> neox_applet_report os text w; (_, w) \<leftarrow> neox_closedir os d w; Some (st, w) } = Some r"
    and "inv w" and "d \<in> dirs w"
  shows "inv (snd r) \<and> fds (snd r) = fds w - {d}"
proof -
  obtain w1 st' w2 where rp: "neox_applet_report os text w = Some w1"
    and cl: "neox_closedir os d w1 = Some (st', w2)" and "r = (st, w2)"
    using assms(1) by (auto simp: bind_eq_Some_conv)
  then show ?thesis using report_fds [OF rp assms(2)] closedir_fds [OF _ _ cl] assms(3) by auto
qed

lemma ls_end_fds:
  assumes "do { (close_status, w) \<leftarrow> neox_closedir os d w;
       if close_status \<noteq> NEOX_STATUS_OK then applet_fail os ls_close_message close_status w
       else Some (NEOX_STATUS_OK, w) } = Some r"
    and "inv w" and "d \<in> dirs w"
  shows "inv (snd r) \<and> fds (snd r) = fds w - {d}"
proof -
  obtain st1 w1 where cl: "neox_closedir os d w = Some (st1, w1)"
    and k: "(if st1 \<noteq> NEOX_STATUS_OK then applet_fail os ls_close_message st1 w1
       else Some (NEOX_STATUS_OK, w1)) = Some r"
    using assms(1) by (auto simp: bind_eq_Some_conv)
  note w1 = closedir_fds [OF assms(2,3) cl]
  show ?thesis
    using k w1 applet_fail_fds [of ls_close_message st1 w1 "fst r" "snd r"]
    by (cases r) (auto split: if_splits)
qed

lemma ls_read_entries_fds:
  assumes "ls_read_entries os d directories w = Some (st, w')" and "inv w" and "d \<in> dirs w"
  shows "inv w' \<and> fds w' = fds w - {d}"
proof -
  have "os' = os \<longrightarrow> inv w \<longrightarrow> d \<in> dirs w \<longrightarrow> inv (snd r) \<and> fds (snd r) = fds w - {d}"
    if "ls_read_entries os' d directories w = Some r" for os' r
    using that
  proof (rule ls_read_entries.raw_induct [rotated], goal_cases)
    case (1 f o' d directories w r)
    show ?case
    proof (intro impI)
      assume o: "o' = os" and inv: "inv w" and d: "d \<in> dirs w"
      let ?fail = "\<lambda>m st w. do { w \<leftarrow> neox_applet_report os m w; (_, w) \<leftarrow> neox_closedir os d w; Some (st, w) }"
      let ?fin = "\<lambda>w. do { (close_status, w) \<leftarrow> neox_closedir os d w;
         if close_status \<noteq> NEOX_STATUS_OK then applet_fail os ls_close_message close_status w
         else Some (NEOX_STATUS_OK, w) }"
      from 1(2) o obtain st e fin w1 where rd: "neox_readdir os d w = Some (st, e, fin, w1)"
        and body: "(if st \<noteq> NEOX_STATUS_OK then ?fail ls_read_message st w1
          else if fin \<noteq> 0 then ?fin w1
          else if is_directory_entry e = directories then do {
            (status, w) \<leftarrow> ls_print_entry os e w1;
            if status \<noteq> NEOX_STATUS_OK then ?fail ls_write_message status w else f os d directories w }
          else f os d directories w1) = Some r"
        by (auto simp: bind_eq_Some_conv)
      have w1: "inv w1" "fds w1 = fds w" "d \<in> dirs w1" using readdir_fds [OF inv rd] d by auto
      consider (rd_fail) "st \<noteq> NEOX_STATUS_OK" | (fin) "st = NEOX_STATUS_OK" "fin \<noteq> 0"
        | (skip) "st = NEOX_STATUS_OK" "fin = 0" "is_directory_entry e \<noteq> directories"
        | (shown) "st = NEOX_STATUS_OK" "fin = 0" "is_directory_entry e = directories" by auto
      then show "inv (snd r) \<and> fds (snd r) = fds w - {d}"
      proof cases
        case rd_fail
        with body have "?fail ls_read_message st w1 = Some r" by simp
        from ls_close_fds [OF this w1(1,3)] w1(2) show ?thesis by simp
      next
        case fin
        with body have "?fin w1 = Some r" by simp
        from ls_end_fds [OF this w1(1,3)] w1(2) show ?thesis by simp
      next
        case skip
        then show ?thesis using body 1(1) [of os d directories w1 r] w1 by simp
      next
        case shown
        with body obtain st2 w2 where pr: "ls_print_entry os e w1 = Some (st2, w2)"
          and k: "(if st2 \<noteq> NEOX_STATUS_OK then ?fail ls_write_message st2 w2 else f os d directories w2) = Some r"
          by (auto simp: bind_eq_Some_conv)
        have w2: "inv w2" "fds w2 = fds w" "d \<in> dirs w2"
          using keeps_fdsD [OF keeps_print_entry pr w1(1)] w1 by auto
        show ?thesis
        proof (cases "st2 = NEOX_STATUS_OK")
          case False
          with k have "?fail ls_write_message st2 w2 = Some r" by simp
          from ls_close_fds [OF this w2(1,3)] w2(2) show ?thesis by simp
        next
          case True
          then show ?thesis using k w2 1(1) [of os d directories w2 r] by simp
        qed
      qed
    qed
  qed
  from this [OF assms(1)] assms(2,3) show ?thesis by simp
qed

lemma ls_list_pass_fds:
  assumes "ls_list_pass os path directories w = Some (st, w')" and "inv w"
  shows "inv w' \<and> fds w' = fds w"
proof -
  obtain st1 d w1 where o1: "neox_opendir os (cstring path) w = Some (st1, d, w1)"
    using assms(1) by (auto simp: ls_list_pass_def bind_eq_Some_conv)
  note w1 = opendir_fds [OF assms(2) o1]
  show ?thesis
    using assms(1) o1 w1 ls_read_entries_fds [of d directories w1 st w']
    by (auto simp: ls_list_pass_def split: if_splits)
qed

lemma ls_diagnose_fds:
  "ls_diagnose os st w = Some (st', w') \<Longrightarrow> inv w \<Longrightarrow> inv w' \<and> fds w' = fds w"
  using applet_fail_fds [of _ st w st' w'] by (auto simp: ls_diagnose_def split: if_splits)

lemma ls_list_fds:
  assumes "ls_list os path w = Some (st, w')" and "inv w"
  shows "inv w' \<and> fds w' = fds w"
proof -
  obtain st1 w1 where p1: "ls_list_pass os path True w = Some (st1, w1)"
    and k1: "(if st1 \<noteq> NEOX_STATUS_OK then ls_diagnose os st1 w1 else do {
       (status, w) \<leftarrow> ls_list_pass os path False w1;
       if status \<noteq> NEOX_STATUS_OK then ls_diagnose os status w else Some (status, w) }) = Some (st, w')"
    using assms(1) by (auto simp: ls_list_def bind_eq_Some_conv)
  note w1 = ls_list_pass_fds [OF p1 assms(2)]
  show ?thesis
  proof (cases "st1 = NEOX_STATUS_OK")
    case False
    then show ?thesis using k1 w1 ls_diagnose_fds [of st1 w1] by simp
  next
    case True
    with k1 obtain st2 w2 where p2: "ls_list_pass os path False w1 = Some (st2, w2)"
      and k2: "(if st2 \<noteq> NEOX_STATUS_OK then ls_diagnose os st2 w2 else Some (st2, w2)) = Some (st, w')"
      by (auto simp: bind_eq_Some_conv)
    note w2 = ls_list_pass_fds [OF p2 conjunct1 [OF w1]]
    show ?thesis using k2 w1 w2 ls_diagnose_fds [of st2 w2] by (simp split: if_splits)
  qed
qed

lemma ls_fds:
  assumes "neox_applet_ls os context w = Some (st, w')" and "inv w"
  shows "inv w' \<and> fds w' = fds w"
  using assms unfolding neox_applet_ls_def
  by (auto simp: bind_eq_Some_conv split: if_splits dest!: applet_fail_fds ls_list_fds)

end

end
