(* ===== verification/Nbox.thy ===== *)
theory Nbox
  imports Applet_Stream Applet_Path Applet_Ls Applet_Process
begin

text \<open>
  The resident command dispatcher, \<^verbatim>\<open>src/user/nbox/nbox.c\<close>: the command table, the resolution
  of the command line in \<open>nbox_line_buf\<close> and the two ways of running an applet, in the
  parent (\<open>neosh_nbox_dispatch\<close>) and in a child process (\<open>nbox_execute_launch_id\<close>).

  The lemmas compare the resolution with a lookup of the upper-cased first word in the
  table, show that the arguments an applet sees are the remaining words, and that a child
  that is given the launch identifier runs the command the parent resolved.
\<close>

section \<open>State and table\<close>

abbreviation (input) NBOX_COMMAND_COUNT :: byte where "NBOX_COMMAND_COUNT \<equiv> 12"
abbreviation (input) NBOX_COMMAND_MAX :: neox_size_t where "NBOX_COMMAND_MAX \<equiv> 6"
abbreviation (input) NBOX_LINE_MAX :: neox_size_t where "NBOX_LINE_MAX \<equiv> 64"

abbreviation (input) NBOX_EXEC_PARENT :: byte where "NBOX_EXEC_PARENT \<equiv> 0"
abbreviation (input) NBOX_EXEC_CHILD :: byte where "NBOX_EXEC_CHILD \<equiv> 1"
abbreviation (input) NBOX_EXEC_NONE :: byte where "NBOX_EXEC_NONE \<equiv> 0xFE"
abbreviation (input) NBOX_EXEC_UNKNOWN :: byte where "NBOX_EXEC_UNKNOWN \<equiv> 0xFF"

abbreviation (input) NBOX_APPLET_PWD :: byte where "NBOX_APPLET_PWD \<equiv> 1"
abbreviation (input) NBOX_APPLET_CD :: byte where "NBOX_APPLET_CD \<equiv> 2"
abbreviation (input) NBOX_APPLET_LS :: byte where "NBOX_APPLET_LS \<equiv> 3"
abbreviation (input) NBOX_APPLET_CAT :: byte where "NBOX_APPLET_CAT \<equiv> 4"
abbreviation (input) NBOX_APPLET_RM :: byte where "NBOX_APPLET_RM \<equiv> 5"
abbreviation (input) NBOX_APPLET_MV :: byte where "NBOX_APPLET_MV \<equiv> 6"
abbreviation (input) NBOX_APPLET_MKDIR :: byte where "NBOX_APPLET_MKDIR \<equiv> 7"
abbreviation (input) NBOX_APPLET_RMDIR :: byte where "NBOX_APPLET_RMDIR \<equiv> 8"
abbreviation (input) NBOX_APPLET_CP :: byte where "NBOX_APPLET_CP \<equiv> 9"
abbreviation (input) NBOX_APPLET_PS :: byte where "NBOX_APPLET_PS \<equiv> 10"
abbreviation (input) NBOX_APPLET_ECHO :: byte where "NBOX_APPLET_ECHO \<equiv> 11"
abbreviation (input) NBOX_APPLET_KILL :: byte where "NBOX_APPLET_KILL \<equiv> 12"
abbreviation (input) NBOX_APPLET_NONE :: byte where "NBOX_APPLET_NONE \<equiv> 0xFF"

record nbox_state =
  nbox_line_buf :: "byte list"
  nbox_line_len :: byte
  nbox_exec_mode :: byte
  nbox_launch_id :: byte
  nbox_line_idx :: byte
  nbox_command_index :: byte

record 'w nbox_command =
  cmd_name :: "byte list"
  cmd_launch_id :: byte
  cmd_mode :: byte
  cmd_applet :: "neox_applet_context \<Rightarrow> 'w \<Rightarrow> (neox_status_t \<times> 'w) option"

definition nbox_commands :: "'w neox_os \<Rightarrow> 'w nbox_command list" where
  "nbox_commands os =
     [\<lparr>cmd_name = ctext ''PWD'', cmd_launch_id = NBOX_APPLET_PWD, cmd_mode = NBOX_EXEC_CHILD,
       cmd_applet = neox_applet_pwd os\<rparr>,
      \<lparr>cmd_name = ctext ''CD'', cmd_launch_id = NBOX_APPLET_CD, cmd_mode = NBOX_EXEC_PARENT,
       cmd_applet = neox_applet_cd os\<rparr>,
      \<lparr>cmd_name = ctext ''LS'', cmd_launch_id = NBOX_APPLET_LS, cmd_mode = NBOX_EXEC_CHILD,
       cmd_applet = neox_applet_ls os\<rparr>,
      \<lparr>cmd_name = ctext ''CAT'', cmd_launch_id = NBOX_APPLET_CAT, cmd_mode = NBOX_EXEC_CHILD,
       cmd_applet = neox_applet_cat os\<rparr>,
      \<lparr>cmd_name = ctext ''ECHO'', cmd_launch_id = NBOX_APPLET_ECHO, cmd_mode = NBOX_EXEC_CHILD,
       cmd_applet = neox_applet_echo os\<rparr>,
      \<lparr>cmd_name = ctext ''RM'', cmd_launch_id = NBOX_APPLET_RM, cmd_mode = NBOX_EXEC_CHILD,
       cmd_applet = neox_applet_rm os\<rparr>,
      \<lparr>cmd_name = ctext ''MV'', cmd_launch_id = NBOX_APPLET_MV, cmd_mode = NBOX_EXEC_CHILD,
       cmd_applet = neox_applet_mv os\<rparr>,
      \<lparr>cmd_name = ctext ''MKDIR'', cmd_launch_id = NBOX_APPLET_MKDIR, cmd_mode = NBOX_EXEC_CHILD,
       cmd_applet = neox_applet_mkdir os\<rparr>,
      \<lparr>cmd_name = ctext ''RMDIR'', cmd_launch_id = NBOX_APPLET_RMDIR, cmd_mode = NBOX_EXEC_CHILD,
       cmd_applet = neox_applet_rmdir os\<rparr>,
      \<lparr>cmd_name = ctext ''CP'', cmd_launch_id = NBOX_APPLET_CP, cmd_mode = NBOX_EXEC_CHILD,
       cmd_applet = neox_applet_cp os\<rparr>,
      \<lparr>cmd_name = ctext ''PS'', cmd_launch_id = NBOX_APPLET_PS, cmd_mode = NBOX_EXEC_CHILD,
       cmd_applet = neox_applet_ps os\<rparr>,
      \<lparr>cmd_name = ctext ''KILL'', cmd_launch_id = NBOX_APPLET_KILL, cmd_mode = NBOX_EXEC_PARENT,
       cmd_applet = neox_applet_kill os\<rparr>]"

section \<open>Operations\<close>

definition nbox_is_space :: "byte \<Rightarrow> bool" where
  "nbox_is_space v = (v = SP \<or> v = TAB)"

definition nbox_upper :: "byte \<Rightarrow> byte" where
  "nbox_upper v =
     (let v = v AND 0x7F in
      if 97 \<le> v \<and> v \<le> 122 then v - 32 else v)"

function nbox_match_from ::
  "byte list \<Rightarrow> neox_size_t \<Rightarrow> neox_size_t \<Rightarrow> byte list \<Rightarrow> neox_size_t \<Rightarrow> bool option" where
  "nbox_match_from buf start len nm index =
     (if index < len then do {
        n \<leftarrow> cload nm index;
        if n = 0 then Some False else do {
        c \<leftarrow> cload buf (start + index);
        if nbox_upper c \<noteq> n then Some False
        else nbox_match_from buf start len nm (index + 1) }}
      else do { n \<leftarrow> cload nm index; Some (n = 0) })"
  by pat_completeness auto
termination
proof (relation "measure (\<lambda>(buf, start, len, nm, index). unat len - unat index)", goal_cases)
  case (2 buf start len nm i n c)
  then have i: "unat i < unat len" by (simp add: word_less_nat_alt)
  then have "unat (i + 1) = unat i + 1"
    using unat_size_le [of len] by (simp add: unat_size_add)
  with i show ?case by simp
qed simp

declare nbox_match_from.simps [simp del]

definition nbox_token_matches ::
  "'s nbox_state_scheme \<Rightarrow> neox_size_t \<Rightarrow> neox_size_t \<Rightarrow> byte list \<Rightarrow> bool option" where
  "nbox_token_matches s start len nm = nbox_match_from (nbox_line_buf s) start len nm 0"

definition nbox_make_context :: "'s nbox_state_scheme \<Rightarrow> neox_size_t \<Rightarrow> neox_applet_context option" where
  "nbox_make_context s start = do {
     start \<leftarrow> scan_bounded nbox_is_space (nbox_line_buf s) (ucast (nbox_line_len s)) start;
     Some \<lparr>ctx_line = drop (unat start) (nbox_line_buf s),
       ctx_line_length = ucast (nbox_line_len s) - start\<rparr> }"

fun nbox_find_from :: "'w nbox_command list \<Rightarrow> byte \<Rightarrow> byte \<Rightarrow> byte" where
  "nbox_find_from [] index lid = NBOX_COMMAND_COUNT"
| "nbox_find_from (c # cs) index lid =
     (if cmd_launch_id c = lid then index else nbox_find_from cs (index + 1) lid)"

definition nbox_find_launch_id :: "'w neox_os \<Rightarrow> byte \<Rightarrow> byte" where
  "nbox_find_launch_id os lid = nbox_find_from (nbox_commands os) 0 lid"

definition nbox_unknown_message :: "byte list" where
  "nbox_unknown_message = message ''nbox: command not found''"

definition neosh_nbox_print_unknown :: "'w neox_os \<Rightarrow> 'w \<Rightarrow> 'w option" where
  "neosh_nbox_print_unknown os w = neox_applet_report os nbox_unknown_message w"

definition nbox_call_command ::
  "'w neox_os \<Rightarrow> byte \<Rightarrow> neox_applet_context \<Rightarrow> 'w \<Rightarrow> (neox_status_t \<times> 'w) option" where
  "nbox_call_command os index context w =
     (if index \<ge> NBOX_COMMAND_COUNT then do {
        w \<leftarrow> neosh_nbox_print_unknown os w;
        Some (NEOX_STATUS_EINVAL, w) }
      else cmd_applet (nbox_commands os ! unat index) context w)"

fun nbox_resolve_from ::
  "'w nbox_command list \<Rightarrow> byte \<Rightarrow> neox_size_t \<Rightarrow> neox_size_t \<Rightarrow> 's nbox_state_scheme
   \<Rightarrow> (byte \<times> 's nbox_state_scheme) option" where
  "nbox_resolve_from [] index start len s = Some (1, s)"
| "nbox_resolve_from (c # cs) index start len s = do {
     found \<leftarrow> nbox_token_matches s start len (cmd_name c);
     if found
     then Some (0, s\<lparr>nbox_command_index := index, nbox_launch_id := cmd_launch_id c,
       nbox_exec_mode := cmd_mode c\<rparr>)
     else nbox_resolve_from cs (index + 1) start len s }"

definition neosh_nbox_resolve ::
  "'w neox_os \<Rightarrow> 's nbox_state_scheme \<Rightarrow> (byte \<times> 's nbox_state_scheme) option" where
  "neosh_nbox_resolve os s =
     (let s = s\<lparr>nbox_exec_mode := NBOX_EXEC_UNKNOWN, nbox_launch_id := NBOX_APPLET_NONE,
        nbox_line_idx := 0, nbox_command_index := NBOX_COMMAND_COUNT\<rparr>;
        line_len = ucast (nbox_line_len s)
      in do {
        start \<leftarrow> scan_bounded nbox_is_space (nbox_line_buf s) line_len 0;
        blank \<leftarrow> (if start \<ge> line_len then Some True
                  else do { c \<leftarrow> cload (nbox_line_buf s) start; Some (c = 0) });
        if blank then Some (0, s\<lparr>nbox_exec_mode := NBOX_EXEC_NONE\<rparr>) else do {
        stop \<leftarrow> scan_bounded (\<lambda>c. c \<noteq> 0 \<and> \<not> nbox_is_space c) (nbox_line_buf s) line_len start;
        let len = stop - start; s = s\<lparr>nbox_line_idx := ucast stop\<rparr> in
        if len = 0 \<or> len > NBOX_COMMAND_MAX then Some (1, s)
        else nbox_resolve_from (nbox_commands os) 0 start len s }})"

definition neosh_nbox_dispatch ::
  "'w neox_os \<Rightarrow> 's nbox_state_scheme \<Rightarrow> 'w \<Rightarrow> (neox_status_t \<times> 'w) option" where
  "neosh_nbox_dispatch os s w =
     (if nbox_exec_mode s = NBOX_EXEC_NONE then Some (NEOX_STATUS_OK, w)
      else if nbox_exec_mode s = NBOX_EXEC_UNKNOWN \<or> nbox_launch_id s = NBOX_APPLET_NONE then do {
        w \<leftarrow> neosh_nbox_print_unknown os w;
        Some (NEOX_STATUS_EINVAL, w) }
      else do {
        context \<leftarrow> nbox_make_context s (ucast (nbox_line_idx s));
        nbox_call_command os (nbox_command_index s) context w })"

definition nbox_execute_launch_id ::
  "'w neox_os \<Rightarrow> 's nbox_state_scheme \<Rightarrow> byte \<Rightarrow> 'w \<Rightarrow> (neox_status_t \<times> 'w) option" where
  "nbox_execute_launch_id os s lid w = do {
     context \<leftarrow> nbox_make_context s 0;
     nbox_call_command os (nbox_find_launch_id os lid) context w }"

section \<open>The line buffer\<close>

text \<open>
  The invariant of the line buffer: a NUL-terminated string of \<open>nbox_line_len\<close> bytes in
  64. \<open>nbox_text\<close> is the line.
\<close>

definition nbox_wf :: "'s nbox_state_scheme \<Rightarrow> bool" where
  "nbox_wf s \<longleftrightarrow> length (nbox_line_buf s) = 64 \<and> terminated (nbox_line_buf s)
     \<and> unat (nbox_line_len s) = length (cstring (nbox_line_buf s))"

definition nbox_text :: "'s nbox_state_scheme \<Rightarrow> byte list" where
  "nbox_text s = cstring (nbox_line_buf s)"

lemma nbox_wfD:
  assumes "nbox_wf s"
  shows "take (unat (nbox_line_len s)) (nbox_line_buf s) = nbox_text s"
    and "length (nbox_text s) = unat (nbox_line_len s)" and "unat (nbox_line_len s) < 64"
    and "unat (ucast (nbox_line_len s) :: neox_size_t) = unat (nbox_line_len s)"
    and "length (nbox_line_buf s) = 64" and "0 \<notin> set (nbox_text s)"
  using assms length_cstring_less [of "nbox_line_buf s"] cstring_eq_take [of "nbox_line_buf s"]
  by (simp_all add: nbox_wf_def nbox_text_def unsigned_ucast_eq take_bit_eq_mod)

interpretation nbox_blank: blank_class nbox_is_space
  by unfold_locales (simp add: nbox_is_space_def)

lemma nbox_is_space_eq: "nbox_is_space = neox_arg_is_separator"
  by (simp add: fun_eq_iff nbox_blank.blank_iff arg_blank.blank_iff)

section \<open>The command table\<close>

lemma nbox_commands_distinct:
  "distinct (map cmd_name (nbox_commands os))" "distinct (map cmd_launch_id (nbox_commands os))"
  by (simp_all add: nbox_commands_def ctext_def bytes_of_def)

lemma length_nbox_commands [simp]: "length (nbox_commands os) = 12"
  by (simp add: nbox_commands_def)

lemma nbox_command_names:
  "c \<in> set (nbox_commands os) \<Longrightarrow> terminated (cmd_name c) \<and> length (cmd_name c) \<le> 6
     \<and> cmd_name c = cstring (cmd_name c) @ [0] \<and> cmd_launch_id c \<noteq> NBOX_APPLET_NONE
     \<and> cmd_mode c \<in> {NBOX_EXEC_PARENT, NBOX_EXEC_CHILD}"
  by (auto simp: nbox_commands_def) (simp_all add: ctext_def)

lemma nbox_find_from_nth:
  "i < length cs \<Longrightarrow> distinct (map cmd_launch_id cs) \<Longrightarrow>
   nbox_find_from cs n (cmd_launch_id (cs ! i)) = n + of_nat i"
proof (induction cs arbitrary: i n)
  case (Cons c cs)
  show ?case
  proof (cases i)
    case (Suc k)
    then have "cmd_launch_id (cs ! k) \<in> set (map cmd_launch_id cs)" using Cons.prems by simp
    then have "cmd_launch_id c \<noteq> cmd_launch_id (cs ! k)" using Cons.prems by auto
    then show ?thesis using Suc Cons by (simp add: add.assoc)
  qed simp
qed simp

lemma nbox_find_launch_id_nth:
  "i < 12 \<Longrightarrow> nbox_find_launch_id os (cmd_launch_id (nbox_commands os ! i)) = of_nat i"
  using nbox_find_from_nth [OF _ nbox_commands_distinct(2), of i os 0]
  by (simp add: nbox_find_launch_id_def)

lemma nbox_find_from_none:
  "lid \<notin> set (map cmd_launch_id cs) \<Longrightarrow> nbox_find_from cs n lid = NBOX_COMMAND_COUNT"
  by (induction cs arbitrary: n) auto

section \<open>Resolution\<close>

definition upper_word :: "byte list \<Rightarrow> byte list" where
  "upper_word w = map nbox_upper w"

lemma nbox_match_from_eq:
  assumes "unat start + n \<le> length buf" and "unat start + n < 65536"
    and "terminated nm" and "length nm \<le> 65535"
  shows "i \<le> n \<Longrightarrow> i \<le> length (cstring nm) \<Longrightarrow>
    nbox_match_from buf start (of_nat n) nm (of_nat i) =
    Some (map nbox_upper (take (n - i) (drop (unat start + i) buf)) = drop i (cstring nm))"
proof (induction "n - i" arbitrary: i)
  case 0
  have l: "length (cstring nm) < length nm" by (rule length_cstring_less [OF assms(3)])
  have "cload nm (of_nat i) = Some (nm ! i)"
    using 0 l assms(4) by (intro cload_of_nat) simp_all
  moreover have "nm ! i = 0 \<longleftrightarrow> i = length (cstring nm)"
  proof (cases "i = length (cstring nm)")
    case False
    then have "i < length (cstring nm)" using 0 by simp
    then show ?thesis using False nth_cstring cstring_nonzero nth_mem by metis
  qed (simp add: nth_length_cstring [OF assms(3)])
  ultimately show ?case
    using 0 assms(2) by (subst nbox_match_from.simps) (auto simp: size_less_of_nat)
next
  case (Suc k)
  then have i: "i < n" by simp
  have l: "length (cstring nm) < length nm" by (rule length_cstring_less [OF assms(3)])
  have lt: "(of_nat i :: neox_size_t) < of_nat n" using i assms(2) by (simp add: size_less_of_nat)
  have ln: "cload nm (of_nat i) = Some (nm ! i)"
    using Suc.prems l assms(4) by (intro cload_of_nat) simp_all
  have st: "start + of_nat i = of_nat (unat start + i)" by simp
  have lb: "cload buf (start + of_nat i) = Some (buf ! (unat start + i))"
    unfolding st using i assms(1,2) by (intro cload_of_nat) simp_all
  have dr: "take (n - i) (drop (unat start + i) buf) =
      buf ! (unat start + i) # take (n - Suc i) (drop (unat start + Suc i) buf)"
    using i assms(1) by (simp add: Cons_nth_drop_Suc [symmetric] take_Cons')
  show ?case
  proof (cases "i = length (cstring nm)")
    case True
    then have "nm ! i = 0" using nth_length_cstring [OF assms(3)] by simp
    then show ?thesis using True lt ln dr by (subst nbox_match_from.simps) simp
  next
    case False
    then have il: "i < length (cstring nm)" using Suc.prems by simp
    then have nz: "nm ! i \<noteq> 0" "cstring nm ! i = nm ! i"
      using nth_cstring cstring_nonzero nth_mem by metis+
    have dn: "drop i (cstring nm) = nm ! i # drop (Suc i) (cstring nm)"
      using il nz(2) by (simp add: Cons_nth_drop_Suc [symmetric])
    have IH: "nbox_match_from buf start (of_nat n) nm (of_nat (Suc i)) =
        Some (map nbox_upper (take (n - Suc i) (drop (unat start + Suc i) buf)) = drop (Suc i) (cstring nm))"
      using Suc.hyps(2) i il by (intro Suc.hyps(1)) simp_all
    with lt ln lb nz(1) show ?thesis
      unfolding dr dn by (subst nbox_match_from.simps) (simp add: add.commute [of _ "1 :: neox_size_t"])
  qed
qed

lemma nbox_token_matches_eq:
  assumes "c \<in> set (nbox_commands os)" and "i \<le> j" and "j \<le> length (nbox_line_buf s)"
    and "length (nbox_line_buf s) = 64"
  shows "nbox_token_matches s (of_nat i) (of_nat j - of_nat i) (cmd_name c) =
    Some (cmd_name c = upper_word (take (j - i) (drop i (nbox_line_buf s))) @ [0])"
proof -
  have "nbox_token_matches s (of_nat i) (of_nat (j - i)) (cmd_name c) =
      Some (map nbox_upper (take (j - i) (drop i (nbox_line_buf s))) = cstring (cmd_name c))"
    using nbox_match_from_eq [of "of_nat i" "j - i" "nbox_line_buf s" "cmd_name c" 0]
      nbox_command_names [OF assms(1)] assms(2-4)
    by (simp add: nbox_token_matches_def)
  moreover have "cmd_name c = x @ [0] \<longleftrightarrow> x = cstring (cmd_name c)" for x
    using nbox_command_names [OF assms(1)] by (metis append1_eq_conv)
  ultimately show ?thesis using assms(2) by (simp add: upper_word_def)
qed

text \<open>The table entry that a word selects, with its position.\<close>

fun find_command :: "'w nbox_command list \<Rightarrow> nat \<Rightarrow> byte list \<Rightarrow> (nat \<times> 'w nbox_command) option" where
  "find_command [] n w = None"
| "find_command (c # cs) n w =
     (if cmd_name c = upper_word w @ [0] then Some (n, c) else find_command cs (Suc n) w)"

lemma nbox_resolve_from_find:
  assumes "set cs \<subseteq> set (nbox_commands os)" and "i \<le> j" and "j \<le> length (nbox_line_buf s)"
    and "length (nbox_line_buf s) = 64" and "word = take (j - i) (drop i (nbox_line_buf s))"
  shows "nbox_resolve_from cs (of_nat n) (of_nat i) (of_nat j - of_nat i) s =
    (case find_command cs n word of
       None \<Rightarrow> Some (1, s)
     | Some (k, c) \<Rightarrow> Some (0, s\<lparr>nbox_command_index := of_nat k, nbox_launch_id := cmd_launch_id c,
         nbox_exec_mode := cmd_mode c\<rparr>))"
  using assms(1)
proof (induction cs arbitrary: n)
  case (Cons c cs)
  have "nbox_token_matches s (of_nat i) (of_nat j - of_nat i) (cmd_name c) =
      Some (cmd_name c = upper_word word @ [0])"
    using nbox_token_matches_eq [OF _ assms(2-4), of c os] Cons.prems assms(5) by simp
  with Cons.IH [of "Suc n"] Cons.prems show ?case by (simp add: add.commute)
qed simp

text \<open>The resolution as a whole, on the words of the line.\<close>

definition resolved :: "'s nbox_state_scheme \<Rightarrow> byte \<Rightarrow> byte \<Rightarrow> byte \<Rightarrow> byte \<Rightarrow> 's nbox_state_scheme" where
  "resolved s mode lid idx index =
     s\<lparr>nbox_exec_mode := mode, nbox_launch_id := lid, nbox_line_idx := idx, nbox_command_index := index\<rparr>"

lemma resolved_fold:
  "s\<lparr>nbox_exec_mode := m, nbox_launch_id := l, nbox_command_index := k, nbox_line_idx := i\<rparr> = resolved s m l i k"
  by (simp add: resolved_def)

lemma cursor_words:
  assumes "nbox_wf s" and "line_words (nbox_text s) = w # ws"
  obtains i j where "i = skip neox_arg_is_separator (nbox_text s) 0"
    and "j = skip (\<lambda>c. \<not> neox_arg_is_separator c) (nbox_text s) i"
    and "i < j" and "j \<le> length (nbox_text s)" and "take (j - i) (drop i (nbox_text s)) = w"
    and "line_words (drop j (nbox_text s)) = ws"
proof -
  define i where "i = skip neox_arg_is_separator (nbox_text s) 0"
  define j where "j = skip (\<lambda>c. \<not> neox_arg_is_separator c) (nbox_text s) i"
  have i: "i < length (nbox_text s)"
    using words_of_skip_Nil [of "nbox_text s" neox_arg_is_separator 0] assms(2)
    by (auto simp: i_def not_less [symmetric])
  have "i < j" unfolding j_def by (rule skip_word_nonempty [OF i_def i])
  moreover have "j \<le> length (nbox_text s)" unfolding j_def using i by (intro skip_le) simp
  moreover have "w # ws = take (j - i) (drop i (nbox_text s)) # line_words (drop j (nbox_text s))"
    using words_of_skip_Cons [OF i_def j_def i] assms(2) by simp
  ultimately show ?thesis using that [OF i_def j_def] by simp
qed

lemma nbox_resolve_blank:
  assumes "nbox_wf s" and "line_words (nbox_text s) = []"
  shows "neosh_nbox_resolve os s = Some (0, resolved s NBOX_EXEC_NONE NBOX_APPLET_NONE 0 NBOX_COMMAND_COUNT)"
proof -
  note wf = nbox_wfD [OF assms(1)]
  have "skip neox_arg_is_separator (nbox_text s) 0 = length (nbox_text s)"
  proof (rule ccontr)
    assume "\<not> ?thesis"
    moreover have "skip neox_arg_is_separator (nbox_text s) 0 \<le> length (nbox_text s)" by (rule skip_le) simp
    ultimately have "skip neox_arg_is_separator (nbox_text s) 0 < length (nbox_text s)" by simp
    from words_of_skip_Cons [OF refl refl this] assms(2) show False by simp
  qed
  then have "scan_bounded nbox_is_space (nbox_line_buf s) (ucast (nbox_line_len s)) 0 =
      Some (ucast (nbox_line_len s))"
    using scan_bounded_of_nat [of "ucast (nbox_line_len s)" "nbox_line_buf s" 0 nbox_is_space] wf
      of_nat_unat [of "nbox_line_len s", where ?'a = "16 word"]
    by (simp add: nbox_is_space_eq)
  then show ?thesis by (simp add: neosh_nbox_resolve_def resolved_def Let_def)
qed

lemma ucast_byte_of_nat: "n < 256 \<Longrightarrow> (ucast (of_nat n :: neox_size_t) :: byte) = of_nat n"
  using of_nat_unat [of "of_nat n :: 16 word", where ?'a = byte] by simp

lemma find_command_length:
  "set cs \<subseteq> set (nbox_commands os) \<Longrightarrow> find_command cs n w \<noteq> None \<Longrightarrow> length w \<le> 5"
proof (induction cs arbitrary: n)
  case (Cons c cs)
  then show ?case using nbox_command_names [of c os] by (auto simp: upper_word_def split: if_splits)
qed simp

lemma nbox_resolve_word:
  assumes "nbox_wf s" and "line_words (nbox_text s) = w # ws"
  defines "j \<equiv> skip (\<lambda>c. \<not> neox_arg_is_separator c) (nbox_text s) (skip neox_arg_is_separator (nbox_text s) 0)"
  shows "neosh_nbox_resolve os s =
    (case find_command (nbox_commands os) 0 w of
       None \<Rightarrow> Some (1, resolved s NBOX_EXEC_UNKNOWN NBOX_APPLET_NONE (of_nat j) NBOX_COMMAND_COUNT)
     | Some (k, c) \<Rightarrow> Some (0, resolved s (cmd_mode c) (cmd_launch_id c) (of_nat j) (of_nat k)))"
proof -
  note wf = nbox_wfD [OF assms(1)]
  obtain i j' where i: "i = skip neox_arg_is_separator (nbox_text s) 0"
    and j': "j' = skip (\<lambda>c. \<not> neox_arg_is_separator c) (nbox_text s) i"
    and ij: "i < j'" and jl: "j' \<le> length (nbox_text s)"
    and w: "take (j' - i) (drop i (nbox_text s)) = w"
    by (rule cursor_words [OF assms(1,2)])
  have jj: "j' = j" using i j' by (simp add: j_def)
  note ij = ij [unfolded jj] and jl = jl [unfolded jj] and w = w [unfolded jj]
  have b: "j < 64" using jl wf(2,3) by simp
  let ?L = "ucast (nbox_line_len s) :: neox_size_t"
  let ?s = "resolved s NBOX_EXEC_UNKNOWN NBOX_APPLET_NONE (of_nat j) NBOX_COMMAND_COUNT"
  have L: "unat ?L \<le> length (nbox_line_buf s)" using wf by simp
  have s1: "scan_bounded nbox_is_space (nbox_line_buf s) ?L 0 = Some (of_nat i)"
    using scan_bounded_of_nat [OF L, of 0 nbox_is_space] wf(1,4) i by (simp add: nbox_is_space_eq)
  have same: "skip (\<lambda>c. c \<noteq> 0 \<and> \<not> nbox_is_space c) (nbox_text s) i = j"
    unfolding jj [symmetric] j' skip_def nbox_is_space_eq
    by (rule arg_cong2 [where f = "(+)", OF refl], rule arg_cong [where f = length], rule takeWhile_cong [OF refl])
      (use wf(6) in \<open>auto dest: in_set_dropD\<close>)
  have s2: "scan_bounded (\<lambda>c. c \<noteq> 0 \<and> \<not> nbox_is_space c) (nbox_line_buf s) ?L (of_nat i) = Some (of_nat j)"
    using scan_bounded_of_nat [OF L, of i "\<lambda>c. c \<noteq> 0 \<and> \<not> nbox_is_space c"] wf ij jl same by simp
  have i_in: "\<not> ?L \<le> of_nat i" using ij jl wf(2,4) b by (simp add: word_le_nat_alt)
  have ci: "nbox_text s ! i \<noteq> 0" using wf(6) ij jl by (metis less_le_trans nth_mem)
  have "nbox_line_buf s ! i = nbox_text s ! i" using wf(1) ij jl wf(2) by (metis less_le_trans nth_take)
  then have ld: "cload (nbox_line_buf s) (of_nat i) = Some (nbox_text s ! i)"
    using ij b wf(5) by (subst cload_of_nat) simp_all
  have len: "(of_nat j - of_nat i :: neox_size_t) = of_nat (j - i)" using ij by simp
  have nz: "(of_nat j - of_nat i :: neox_size_t) \<noteq> 0"
    unfolding len using ij b by (simp add: size_of_nat_eq_0 del: of_nat_diff)
  have gt: "6 < (of_nat j - of_nat i :: neox_size_t) \<longleftrightarrow> 6 < j - i"
    unfolding len using b by (simp add: word_less_nat_alt del: of_nat_diff)
  have "take (j - i) (drop i (nbox_line_buf s)) = w"
    using w jl wf(1,2) by (metis drop_take min.absorb1 take_take diff_le_mono)
  then have word: "w = take (j - i) (drop i (nbox_line_buf ?s))" by (simp add: resolved_def)
  have len_w: "length w = j - i" using word wf(2,3,5) jl by (simp add: resolved_def)
  have rf: "nbox_resolve_from (nbox_commands os) 0 (of_nat i) (of_nat j - of_nat i) ?s =
    (case find_command (nbox_commands os) 0 w of
       None \<Rightarrow> Some (1, ?s)
     | Some (k, c) \<Rightarrow> Some (0, ?s\<lparr>nbox_command_index := of_nat k, nbox_launch_id := cmd_launch_id c,
         nbox_exec_mode := cmd_mode c\<rparr>))"
    using nbox_resolve_from_find [of "nbox_commands os" os i j ?s w 0] ij b wf(5) word
    by (simp add: resolved_def)
  have none: "6 < j - i \<Longrightarrow> find_command (nbox_commands os) 0 w = None"
    using find_command_length [of "nbox_commands os" os 0 w] len_w by fastforce
  have r: "neosh_nbox_resolve os s = (if 6 < j - i then Some (1, ?s)
      else nbox_resolve_from (nbox_commands os) 0 (of_nat i) (of_nat j - of_nat i) ?s)"
    using s1 s2 i_in ld ci nz gt b
    by (simp add: neosh_nbox_resolve_def resolved_fold Let_def ucast_byte_of_nat)
  show ?thesis unfolding r rf using none by (auto simp: resolved_def split: option.split)
qed

text \<open>The resolution changes nothing but its four result variables, on any line.\<close>

lemma nbox_resolve_from_frame:
  "nbox_resolve_from cs n start len s = Some (r, s') \<Longrightarrow>
   \<exists>m l k. s' = s\<lparr>nbox_exec_mode := m, nbox_launch_id := l, nbox_command_index := k\<rparr>"
proof (induction cs arbitrary: n)
  case Nil
  then have "s' = s\<lparr>nbox_exec_mode := nbox_exec_mode s, nbox_launch_id := nbox_launch_id s,
      nbox_command_index := nbox_command_index s\<rparr>" by simp
  then show ?case by blast
next
  case (Cons c cs)
  obtain found where f: "nbox_token_matches s start len (cmd_name c) = Some found"
    using Cons.prems by (auto simp: bind_eq_Some_conv)
  show ?case
  proof (cases found)
    case True
    then have "s' = s\<lparr>nbox_exec_mode := cmd_mode c, nbox_launch_id := cmd_launch_id c, nbox_command_index := n\<rparr>"
      using Cons.prems f by auto
    then show ?thesis by blast
  next
    case False
    then show ?thesis using Cons f by simp
  qed
qed

lemma resolved_frame:
  "\<exists>m' l' k'. s' = (resolved s m l i k)\<lparr>nbox_exec_mode := m', nbox_launch_id := l', nbox_command_index := k'\<rparr> \<Longrightarrow>
   \<exists>m l i k. s' = resolved s m l i k"
proof (elim exE)
  fix m' l' k'
  assume "s' = (resolved s m l i k)\<lparr>nbox_exec_mode := m', nbox_launch_id := l', nbox_command_index := k'\<rparr>"
  then have "s' = resolved s m' l' i k'" by (simp add: resolved_def)
  then show "\<exists>m l i k. s' = resolved s m l i k" by blast
qed

lemma nbox_resolve_frame:
  assumes "neosh_nbox_resolve os s = Some (r, s')"
  shows "\<exists>m l i k. s' = resolved s m l i k"
proof -
  let ?s = "\<lambda>i. resolved s NBOX_EXEC_UNKNOWN NBOX_APPLET_NONE i NBOX_COMMAND_COUNT"
  let ?L = "ucast (nbox_line_len s) :: neox_size_t"
  obtain start where st: "scan_bounded nbox_is_space (nbox_line_buf s) ?L 0 = Some start"
    using assms by (auto simp: neosh_nbox_resolve_def Let_def bind_eq_Some_conv)
  have none: "s' = resolved s NBOX_EXEC_NONE NBOX_APPLET_NONE 0 NBOX_COMMAND_COUNT \<Longrightarrow> ?thesis" by blast
  show ?thesis
  proof (cases "start \<ge> ?L")
    case True
    then show ?thesis using assms st by (intro none) (auto simp: neosh_nbox_resolve_def resolved_def Let_def)
  next
    case False
    then obtain c where c: "cload (nbox_line_buf s) start = Some c"
      using assms st
      by (cases "cload (nbox_line_buf s) start") (auto simp: neosh_nbox_resolve_def Let_def)
    show ?thesis
    proof (cases "c = 0")
      case True
      then show ?thesis using assms st c False by (intro none) (auto simp: neosh_nbox_resolve_def resolved_def Let_def)
    next
      case nz: False
      obtain stop where sp: "scan_bounded (\<lambda>c. c \<noteq> 0 \<and> \<not> nbox_is_space c) (nbox_line_buf s) ?L start = Some stop"
        using assms st c False nz
        by (cases "scan_bounded (\<lambda>c. c \<noteq> 0 \<and> \<not> nbox_is_space c) (nbox_line_buf s) ?L start")
          (auto simp: neosh_nbox_resolve_def Let_def)
      have "(if stop - start = 0 \<or> stop - start > 6 then Some (1, ?s (ucast stop))
          else nbox_resolve_from (nbox_commands os) 0 start (stop - start) (?s (ucast stop))) = Some (r, s')"
        using assms st c False nz sp by (simp add: neosh_nbox_resolve_def resolved_fold Let_def)
      then show ?thesis
        using resolved_frame [OF nbox_resolve_from_frame] by (auto split: if_splits)
    qed
  qed
qed

section \<open>Running the resolved command\<close>

lemma nbox_make_context_words:
  assumes "nbox_wf s" and "n \<le> length (nbox_text s)"
  obtains cx where "nbox_make_context s (of_nat n) = Some cx" and "ctx_valid cx"
    and "line_words (ctx_text cx) = line_words (drop n (nbox_text s))"
proof -
  note wf = nbox_wfD [OF assms(1)]
  let ?L = "ucast (nbox_line_len s) :: neox_size_t"
  define i where "i = skip neox_arg_is_separator (nbox_text s) n"
  have il: "i \<le> length (nbox_text s)" unfolding i_def by (rule skip_le [OF assms(2)])
  have i64: "i < 64" using il wf(2,3) by simp
  have sc: "scan_bounded nbox_is_space (nbox_line_buf s) ?L (of_nat n) = Some (of_nat i)"
    using scan_bounded_of_nat [of ?L "nbox_line_buf s" n nbox_is_space] wf assms(2)
    by (simp add: i_def nbox_is_space_eq)
  have rl: "unat (?L - of_nat i) = length (nbox_text s) - i"
    using il wf(2,4) i64 by (subst unat_sub) (simp_all add: word_le_nat_alt)
  let ?c = "\<lparr>ctx_line = drop i (nbox_line_buf s), ctx_line_length = ?L - of_nat i\<rparr>"
  have "ctx_valid ?c" using rl wf(2,3,5) by (simp add: ctx_valid_def)
  moreover have "ctx_text ?c = drop i (nbox_text s)"
    using rl wf(1,2) by (simp add: ctx_text_def) (metis drop_take)
  then have "line_words (ctx_text ?c) = line_words (drop n (nbox_text s))"
    using words_of_dropWhile [of neox_arg_is_separator "drop n (nbox_text s)"]
    by (simp add: i_def drop_skip)
  moreover have "nbox_make_context s (of_nat n) = Some ?c"
    using sc i64 by (simp add: nbox_make_context_def)
  ultimately show ?thesis using that by blast
qed

lemma find_command_nth:
  "find_command cs n w = Some (k, c) \<Longrightarrow>
   n \<le> k \<and> k < n + length cs \<and> cs ! (k - n) = c \<and> cmd_name c = upper_word w @ [0]"
proof (induction cs arbitrary: n)
  case (Cons d cs)
  show ?case
  proof (cases "cmd_name d = upper_word w @ [0]")
    case False
    then have "Suc n \<le> k \<and> k < Suc n + length cs \<and> cs ! (k - Suc n) = c \<and> cmd_name c = upper_word w @ [0]"
      using Cons.prems Cons.IH [of "Suc n"] by simp
    then show ?thesis by (auto simp: nth_Cons' Suc_le_eq)
  qed (use Cons.prems in simp)
qed simp

lemma find_command_table:
  assumes "find_command (nbox_commands os) 0 w = Some (k, c)"
  shows "k < 12" and "nbox_commands os ! k = c" and "c \<in> set (nbox_commands os)"
    and "cmd_launch_id c \<noteq> NBOX_APPLET_NONE" and "cmd_mode c = NBOX_EXEC_PARENT \<or> cmd_mode c = NBOX_EXEC_CHILD"
proof -
  show k: "k < 12" and nth: "nbox_commands os ! k = c"
    using find_command_nth [OF assms] by simp_all
  then show m: "c \<in> set (nbox_commands os)" by (metis length_nbox_commands nth_mem)
  from nbox_command_names [OF m] show "cmd_launch_id c \<noteq> NBOX_APPLET_NONE"
    and "cmd_mode c = NBOX_EXEC_PARENT \<or> cmd_mode c = NBOX_EXEC_CHILD" by auto
qed

lemma nbox_call_found:
  assumes "find_command (nbox_commands os) 0 w = Some (k, c)"
  shows "nbox_call_command os (of_nat k) cx x = cmd_applet c cx x"
proof -
  have "k < 12" and "nbox_commands os ! k = c" using find_command_table [OF assms] by simp_all
  then have "unat (of_nat k :: byte) = k" by (simp add: unat_of_nat take_bit_eq_mod)
  then show ?thesis
    using \<open>k < 12\<close> \<open>nbox_commands os ! k = c\<close> by (simp add: nbox_call_command_def word_le_nat_alt)
qed

text \<open>In the parent: the applet of the table entry, on the remaining words.\<close>

lemma nbox_dispatch_resolved:
  assumes "nbox_wf s" and "line_words (nbox_text s) = w # ws"
    and "find_command (nbox_commands os) 0 w = Some (k, c)"
  obtains s' cx where "neosh_nbox_resolve os s = Some (0, s')"
    and "nbox_wf s'" and "nbox_text s' = nbox_text s" and "nbox_exec_mode s' = cmd_mode c"
    and "nbox_launch_id s' = cmd_launch_id c"
    and "ctx_valid cx" and "line_words (ctx_text cx) = ws"
    and "\<forall>x. neosh_nbox_dispatch os s' x = cmd_applet c cx x"
    and "unat (nbox_line_idx s') \<le> length (nbox_text s)"
    and "line_words (drop (unat (nbox_line_idx s')) (nbox_text s)) = ws"
proof -
  obtain i j where i: "i = skip neox_arg_is_separator (nbox_text s) 0"
    and j: "j = skip (\<lambda>c. \<not> neox_arg_is_separator c) (nbox_text s) i"
    and jl: "j \<le> length (nbox_text s)" and ws: "line_words (drop j (nbox_text s)) = ws"
    by (rule cursor_words [OF assms(1,2)])
  let ?s = "resolved s (cmd_mode c) (cmd_launch_id c) (of_nat j) (of_nat k)"
  have r: "neosh_nbox_resolve os s = Some (0, ?s)"
    using nbox_resolve_word [OF assms(1,2), of os] assms(3) i j by simp
  have keep: "nbox_wf ?s" "nbox_text ?s = nbox_text s"
    using assms(1) by (simp_all add: resolved_def nbox_wf_def nbox_text_def)
  obtain cx where ctx: "nbox_make_context ?s (of_nat j) = Some cx" "ctx_valid cx"
    "line_words (ctx_text cx) = ws"
    using nbox_make_context_words [OF keep(1), of j] jl ws keep(2) by metis
  have j8: "j < 256" using jl nbox_wfD(2,3) [OF assms(1)] by simp
  then have idx: "unat (nbox_line_idx ?s) = j" by (simp add: resolved_def unat_of_nat take_bit_eq_mod)
  then have jc: "(ucast (nbox_line_idx ?s) :: neox_size_t) = of_nat j"
    using of_nat_unat [of "nbox_line_idx ?s", where ?'a = "16 word"] by simp
  note tab = find_command_table [OF assms(3)]
  have "neosh_nbox_dispatch os ?s x = cmd_applet c cx x" for x
    using tab(4,5) jc ctx(1) nbox_call_found [OF assms(3)]
    by (auto simp: neosh_nbox_dispatch_def resolved_def)
  moreover have "nbox_exec_mode ?s = cmd_mode c" "nbox_launch_id ?s = cmd_launch_id c"
    by (simp_all add: resolved_def)
  ultimately show ?thesis using that [OF r keep] ctx idx jl ws by simp
qed

text \<open>In a child that was given the launch identifier and a line with the remaining words.\<close>

lemma nbox_execute_found:
  assumes "find_command (nbox_commands os) 0 w = Some (k, c)"
    and "nbox_wf s" and "line_words (nbox_text s) = ws"
  obtains cx where "ctx_valid cx" and "line_words (ctx_text cx) = ws"
    and "\<forall>x. nbox_execute_launch_id os s (cmd_launch_id c) x = cmd_applet c cx x"
proof -
  obtain cx where ctx: "nbox_make_context s 0 = Some cx" "ctx_valid cx"
    "line_words (ctx_text cx) = ws"
    using nbox_make_context_words [OF assms(2), of 0] assms(3) by auto
  have "nbox_find_launch_id os (cmd_launch_id c) = of_nat k"
    using find_command_table [OF assms(1)] nbox_find_launch_id_nth [of k os] by simp
  then have "nbox_execute_launch_id os s (cmd_launch_id c) x = cmd_applet c cx x" for x
    using ctx(1) nbox_call_found [OF assms(1)] by (simp add: nbox_execute_launch_id_def)
  then show ?thesis using that ctx by blast
qed

end
