(* ===== verification/Neosh_Line.thy ===== *)
theory Neosh_Line
  imports Nbox
begin

text \<open>
  The shell's state and its line input, \<^verbatim>\<open>src/user/shell/neosh.c\<close>: printing the prompt, reading a
  line edited on the screen, and cleaning it into the line buffer of nbox. The console
  returns a whole screen line, so what it delivers may start with the prompt the shell has
  printed, and its bytes may carry the high bit.

  The lemmas give the cleaned line as a function of the raw bytes and the prompt, and show
  that every operation keeps the buffers of the shell well formed.
\<close>

section \<open>State\<close>

abbreviation (input) NEOSH_LINE_MAX :: neox_size_t where "NEOSH_LINE_MAX \<equiv> 64"
abbreviation (input) NEOSH_PROMPT_MAX :: neox_size_t where "NEOSH_PROMPT_MAX \<equiv> 64"

abbreviation (input) NEOSH_REDIR_NONE :: byte where "NEOSH_REDIR_NONE \<equiv> 0"
abbreviation (input) NEOSH_REDIR_READ :: byte where "NEOSH_REDIR_READ \<equiv> 1"
abbreviation (input) NEOSH_REDIR_TRUNC :: byte where "NEOSH_REDIR_TRUNC \<equiv> 2"
abbreviation (input) NEOSH_REDIR_APPEND :: byte where "NEOSH_REDIR_APPEND \<equiv> 3"

abbreviation (input) NEOSH_FD_CLOSED :: neox_fd_t where "NEOSH_FD_CLOSED \<equiv> 0xFF"

record neosh_redirection_t =
  redir_mode :: byte
  redir_path :: "byte list"

record neosh_plan_t =
  plan_input :: neosh_redirection_t
  plan_output :: neosh_redirection_t
  plan_error :: neosh_redirection_t
  redirection_seen :: byte

record neosh_token_t =
  tok_start :: neox_size_t
  tok_length :: neox_size_t

record neosh_state = nbox_state +
  neosh_raw_line :: "byte list"
  neosh_prompt :: "byte list"
  neosh_cwd :: "byte list"
  neosh_command :: "byte list"
  neosh_prompt_core_length :: neox_size_t
  neosh_plan :: neosh_plan_t
  neosh_input_fd :: neox_fd_t
  neosh_output_fd :: neox_fd_t
  neosh_error_fd :: neox_fd_t
  neosh_previous_cwd :: "byte list"
  neosh_previous_cwd_valid :: byte

section \<open>Operations\<close>

definition neosh_default_prompt :: "byte list" where "neosh_default_prompt = ctext ''0:/> ''"
definition neosh_cr :: "byte list" where "neosh_cr = [CR, 0]"
definition neosh_interrupt_notice :: "byte list" where "neosh_interrupt_notice = message ''^C''"

definition neosh_is_space :: "byte \<Rightarrow> bool" where
  "neosh_is_space v = (v = SP \<or> v = TAB)"

definition neosh_print_prompt :: "'w neox_os \<Rightarrow> neosh_state \<Rightarrow> 'w \<Rightarrow> (neosh_state \<times> 'w) option" where
  "neosh_print_prompt os s w = do {
     (status, cwd_length, stored, w) \<leftarrow> neox_getcwd os (NEOSH_PROMPT_MAX - 2) w;
     cwd \<leftarrow> cfill (neosh_cwd s) stored;
     let s = s\<lparr>neosh_cwd := cwd\<rparr> in
     if status \<noteq> NEOX_STATUS_OK \<or> cwd_length > NEOSH_PROMPT_MAX - 2 then do {
       (_, w) \<leftarrow> neox_applet_write_string os NEOX_STDOUT_FD neosh_default_prompt w;
       Some (s\<lparr>neosh_prompt_core_length := 0\<rparr>, w) }
     else do {
       prompt \<leftarrow> (if cwd_length \<noteq> 0 then copy_bytes (neosh_prompt s) 0 (neosh_cwd s) 0 cwd_length 0
                  else Some (neosh_prompt s));
       prompt \<leftarrow> cstore prompt cwd_length (of_char CHR ''>'');
       let core = cwd_length + 1 in do {
       prompt \<leftarrow> cstore prompt core (of_char CHR '' '');
       (_, w) \<leftarrow> neox_applet_write_all os NEOX_STDOUT_FD prompt (core + 1) w;
       Some (s\<lparr>neosh_prompt := prompt, neosh_prompt_core_length := core\<rparr>, w) }}}"

text \<open>The length is \<open>None\<close> where the code does not store through \<open>length_out\<close>.\<close>

definition neosh_read_line ::
  "'w neox_os \<Rightarrow> neosh_state \<Rightarrow> 'w \<Rightarrow> (neox_status_t \<times> neox_size_t option \<times> neosh_state \<times> 'w) option" where
  "neosh_read_line os s w = do {
     (status, received, stored, w) \<leftarrow> neox_read os NEOX_STDIN_FD (NEOSH_LINE_MAX - 1) w;
     raw \<leftarrow> cfill (neosh_raw_line s) stored;
     if status \<noteq> NEOX_STATUS_OK then Some (status, None, s\<lparr>neosh_raw_line := raw\<rparr>, w)
     else let received = (if received \<ge> NEOSH_LINE_MAX then NEOSH_LINE_MAX - 1 else received) in do {
       raw \<leftarrow> cstore raw received 0;
       Some (NEOX_STATUS_OK, Some received, s\<lparr>neosh_raw_line := raw\<rparr>, w) }}"

function has_prompt_from :: "byte list \<Rightarrow> byte list \<Rightarrow> neox_size_t \<Rightarrow> neox_size_t \<Rightarrow> bool option" where
  "has_prompt_from raw prompt core index =
     (if index < core then do {
        r \<leftarrow> cload raw index;
        p \<leftarrow> cload prompt index;
        if r AND 0x7F \<noteq> p then Some False else has_prompt_from raw prompt core (index + 1) }
      else Some True)"
  by pat_completeness auto
termination
proof (relation "measure (\<lambda>(raw, prompt, core, index). unat core - unat index)", goal_cases)
  case (2 raw prompt core i)
  then have i: "unat i < unat core" by (simp add: word_less_nat_alt)
  then have "unat (i + 1) = unat i + 1"
    using unat_size_le [of core] by (simp add: unat_size_add)
  with i show ?case by simp
qed simp

declare has_prompt_from.simps [simp del]

definition neosh_line_has_prompt :: "neosh_state \<Rightarrow> neox_size_t \<Rightarrow> bool option" where
  "neosh_line_has_prompt s raw_length =
     (if neosh_prompt_core_length s = 0 \<or> neosh_prompt_core_length s > raw_length then Some False
      else has_prompt_from (neosh_raw_line s) (neosh_prompt s) (neosh_prompt_core_length s) 0)"

function clean_copy ::
  "byte list \<Rightarrow> neox_size_t \<Rightarrow> byte list \<Rightarrow> neox_size_t \<Rightarrow> neox_size_t \<Rightarrow> (byte list \<times> neox_size_t) option" where
  "clean_copy raw raw_length buf source destination =
     (if source < raw_length \<and> destination < NBOX_LINE_MAX - 1 then do {
        r \<leftarrow> cload raw source;
        let v = r AND 0x7F in
        if v = 0 \<or> v = 13 \<or> v = 10 then Some (buf, destination)
        else do {
          buf \<leftarrow> cstore buf destination v;
          clean_copy raw raw_length buf (source + 1) (destination + 1) } }
      else Some (buf, destination))"
  by pat_completeness auto
termination
proof (relation "measure (\<lambda>(raw, raw_length, buf, source, destination). unat raw_length - unat source)", goal_cases)
  case (2 raw n buf i d)
  then have i: "unat i < unat n" by (simp add: word_less_nat_alt)
  then have "unat (i + 1) = unat i + 1"
    using unat_size_le [of n] by (simp add: unat_size_add)
  with i show ?case by simp
qed simp

declare clean_copy.simps [simp del]

definition neosh_clean_line :: "neosh_state \<Rightarrow> neox_size_t \<Rightarrow> neosh_state option" where
  "neosh_clean_line s raw_length = do {
     prompted \<leftarrow> neosh_line_has_prompt s raw_length;
     let source = (if prompted then neosh_prompt_core_length s else 0) in do {
     source \<leftarrow> scan_bounded (\<lambda>c. neosh_is_space (c AND 0x7F)) (neosh_raw_line s) raw_length source;
     (buf, destination) \<leftarrow> clean_copy (neosh_raw_line s) raw_length (nbox_line_buf s) source 0;
     buf \<leftarrow> cstore buf destination 0;
     Some (s\<lparr>nbox_line_buf := buf, nbox_line_len := ucast destination\<rparr>) }}"

section \<open>Well-formed shell states\<close>

interpretation neosh_blank: blank_class neosh_is_space
  by unfold_locales (simp add: neosh_is_space_def)

lemma neosh_is_space_eq: "neosh_is_space = neox_arg_is_separator"
  by (simp add: fun_eq_iff neosh_blank.blank_iff arg_blank.blank_iff)

definition redir_wf :: "neosh_redirection_t \<Rightarrow> bool" where
  "redir_wf r \<longleftrightarrow> length (redir_path r) = 64 \<and> terminated (redir_path r)"

text \<open>The sizes of the static buffers, and the strings that are read back as such.\<close>

definition neosh_wf :: "neosh_state \<Rightarrow> bool" where
  "neosh_wf s \<longleftrightarrow>
     length (nbox_line_buf s) = 64 \<and> length (neosh_raw_line s) = 64 \<and> length (neosh_prompt s) = 64
     \<and> length (neosh_cwd s) = 64 \<and> length (neosh_command s) = 64
     \<and> redir_wf (plan_input (neosh_plan s)) \<and> redir_wf (plan_output (neosh_plan s))
     \<and> redir_wf (plan_error (neosh_plan s))
     \<and> length (neosh_previous_cwd s) = 64
     \<and> (neosh_previous_cwd_valid s \<noteq> 0 \<longrightarrow> terminated (neosh_previous_cwd s))
     \<and> unat (neosh_prompt_core_length s) \<le> 63"

definition prompt_core :: "neosh_state \<Rightarrow> byte list" where
  "prompt_core s = take (unat (neosh_prompt_core_length s)) (neosh_prompt s)"

lemma prompt_core_length: "neosh_wf s \<Longrightarrow> length (prompt_core s) = unat (neosh_prompt_core_length s)"
  by (simp add: neosh_wf_def prompt_core_def)

section \<open>The cleaned line\<close>

definition ascii :: "byte \<Rightarrow> byte" where
  "ascii c = c AND 0x7F"

definition line_byte :: "byte \<Rightarrow> bool" where
  "line_byte c \<longleftrightarrow> c \<noteq> 0 \<and> c \<noteq> 13 \<and> c \<noteq> 10"

definition strip_prompt :: "byte list \<Rightarrow> byte list \<Rightarrow> byte list" where
  "strip_prompt core t =
     (if core \<noteq> [] \<and> take (length core) t = core then drop (length core) t else t)"

definition clean_text :: "byte list \<Rightarrow> byte list \<Rightarrow> byte list" where
  "clean_text core raw =
     takeWhile line_byte (dropWhile neox_arg_is_separator (strip_prompt core (map ascii raw)))"

lemma has_prompt_from_eq:
  assumes "unat core \<le> length raw" and "unat core \<le> length prompt"
  shows "i \<le> unat core \<Longrightarrow>
    has_prompt_from raw prompt core (of_nat i) =
    Some (drop i (take (unat core) (map ascii raw)) = drop i (take (unat core) prompt))"
proof (induction "unat core - i" arbitrary: i)
  case 0
  then show ?case
    using assms unat_size_le [of core] by (subst has_prompt_from.simps) (simp add: size_less_of_nat)
next
  case (Suc k)
  then have i: "i < unat core" by simp
  have i16: "i < 65536" using i unat_size_le [of core] by simp
  have ld: "cload raw (of_nat i) = Some (raw ! i)" "cload prompt (of_nat i) = Some (prompt ! i)"
    using i assms i16 by (simp_all add: cload_def)
  have dr: "drop i (take (unat core) (map ascii raw)) =
      ascii (raw ! i) # drop (Suc i) (take (unat core) (map ascii raw))"
    "drop i (take (unat core) prompt) = prompt ! i # drop (Suc i) (take (unat core) prompt)"
    using i assms by (simp_all add: Cons_nth_drop_Suc [symmetric])
  have IH: "has_prompt_from raw prompt core (of_nat (Suc i)) =
      Some (drop (Suc i) (take (unat core) (map ascii raw)) = drop (Suc i) (take (unat core) prompt))"
    using Suc.hyps(2) i by (intro Suc.hyps(1)) simp_all
  show ?case
    unfolding dr using i i16 ld IH
    by (subst has_prompt_from.simps)
      (simp add: size_less_of_nat ascii_def add.commute [of _ "1 :: neox_size_t"])
qed

lemma line_has_prompt_eq:
  assumes "neosh_wf s" and "unat n \<le> 63"
  shows "neosh_line_has_prompt s n =
    Some (prompt_core s \<noteq> [] \<and>
      take (length (prompt_core s)) (map ascii (take (unat n) (neosh_raw_line s))) = prompt_core s)"
proof -
  let ?k = "unat (neosh_prompt_core_length s)"
  have l: "length (prompt_core s) = ?k" by (rule prompt_core_length [OF assms(1)])
  have z: "prompt_core s = [] \<longleftrightarrow> neosh_prompt_core_length s = 0"
    using l by (metis length_0_conv unat_eq_0)
  show ?thesis
  proof (cases "?k \<le> unat n")
    case False
    then have "take ?k (map ascii (take (unat n) (neosh_raw_line s))) \<noteq> prompt_core s"
      using l assms by (intro notI, drule_tac arg_cong [where f = length]) (simp add: neosh_wf_def)
    then show ?thesis using False l by (simp add: neosh_line_has_prompt_def word_less_nat_alt)
  next
    case True
    have "has_prompt_from (neosh_raw_line s) (neosh_prompt s) (neosh_prompt_core_length s) 0 =
        Some (take ?k (map ascii (neosh_raw_line s)) = prompt_core s)"
      using has_prompt_from_eq [of "neosh_prompt_core_length s" "neosh_raw_line s" "neosh_prompt s" 0]
        assms by (simp add: neosh_wf_def prompt_core_def)
    moreover have "take ?k (map ascii (take (unat n) (neosh_raw_line s))) = take ?k (map ascii (neosh_raw_line s))"
      using True by (simp add: take_map min_absorb1)
    ultimately show ?thesis using True l z by (simp add: neosh_line_has_prompt_def word_less_nat_alt)
  qed
qed

lemma clean_copy_eq:
  assumes "unat n \<le> length raw"
  shows "i \<le> unat n \<Longrightarrow> d + (unat n - i) \<le> 63 \<Longrightarrow> length buf = 64 \<Longrightarrow>
    clean_copy raw n buf (of_nat i) (of_nat d) =
    (let t = takeWhile line_byte (drop i (map ascii (take (unat n) raw))) in
     Some (take d buf @ t @ drop (d + length t) buf, of_nat (d + length t)))"
proof (induction "unat n - i" arbitrary: i d buf)
  case 0
  then have "\<not> i < unat n" by simp
  then show ?case
    using 0 unat_size_le [of n] by (subst clean_copy.simps) (simp add: size_less_of_nat)
next
  case (Suc k)
  then have i: "i < unat n" by simp
  have i16: "i < 65536" using i unat_size_le [of n] by simp
  have d: "d < 63" using Suc.prems(2) i by simp
  let ?v = "ascii (raw ! i)"
  let ?t = "\<lambda>i. takeWhile line_byte (drop i (map ascii (take (unat n) raw)))"
  have ld: "cload raw (of_nat i) = Some (raw ! i)" using i assms i16 by (simp add: cload_def)
  have dr: "drop i (map ascii (take (unat n) raw)) = ?v # drop (Suc i) (map ascii (take (unat n) raw))"
    using i assms by (simp add: Cons_nth_drop_Suc [symmetric])
  have lt: "(of_nat d :: neox_size_t) < NBOX_LINE_MAX - 1" using d by (simp add: word_less_nat_alt)
  have st: "cstore buf (of_nat d) ?v = Some (buf[d := ?v])"
    using d Suc.prems by (intro cstore_of_nat) simp_all
  have IH: "clean_copy raw n (buf[d := ?v]) (of_nat (Suc i)) (of_nat (Suc d)) =
      Some (take (Suc d) (buf[d := ?v]) @ ?t (Suc i) @ drop (Suc d + length (?t (Suc i))) (buf[d := ?v]),
        of_nat (Suc d + length (?t (Suc i))))"
    using Suc.hyps(2) Suc.prems i by (subst Suc.hyps(1)) (simp_all add: Let_def)
  have tk: "take (Suc d) (buf[d := ?v]) = take d buf @ [?v]"
    using d Suc.prems by (simp add: take_Suc_conv_app_nth)
  show ?case
  proof (cases "line_byte ?v")
    case True
    then show ?thesis
      using i i16 ld lt st IH tk unfolding dr
      by (subst clean_copy.simps)
        (simp add: size_less_of_nat line_byte_def ascii_def add.commute [of _ "1 :: neox_size_t"])
  next
    case False
    then show ?thesis
      using i i16 ld lt unfolding dr
      by (subst clean_copy.simps) (auto simp: size_less_of_nat line_byte_def ascii_def Let_def)
  qed
qed

lemma line_byte_no_nul: "0 \<notin> set (takeWhile line_byte xs)"
  using set_takeWhileD [of 0 line_byte xs] by (auto simp: line_byte_def)

text \<open>Keeping the sizes of the buffers when the line buffer or the raw line changes.\<close>

lemma neosh_wf_update:
  "neosh_wf s \<Longrightarrow> length b = 64 \<Longrightarrow> neosh_wf (s\<lparr>nbox_line_buf := b\<rparr>)"
  "neosh_wf s \<Longrightarrow> neosh_wf (s\<lparr>nbox_line_len := n\<rparr>)"
  "neosh_wf s \<Longrightarrow> length r = 64 \<Longrightarrow> neosh_wf (s\<lparr>neosh_raw_line := r\<rparr>)"
  "neosh_wf s \<Longrightarrow> length c = 64 \<Longrightarrow> neosh_wf (s\<lparr>neosh_cwd := c\<rparr>)"
  "neosh_wf s \<Longrightarrow> length p = 64 \<Longrightarrow> neosh_wf (s\<lparr>neosh_prompt := p\<rparr>)"
  "neosh_wf s \<Longrightarrow> length p = 64 \<Longrightarrow> neosh_wf (s\<lparr>neosh_command := p\<rparr>)"
  "neosh_wf s \<Longrightarrow> unat k \<le> 63 \<Longrightarrow> neosh_wf (s\<lparr>neosh_prompt_core_length := k\<rparr>)"
  by (simp_all add: neosh_wf_def)

lemma clean_line_text:
  assumes wf: "neosh_wf s" and n: "unat n \<le> 63"
  obtains s' where "neosh_clean_line s n = Some s'" and "neosh_wf s'" and "nbox_wf s'"
    and "nbox_text s' = clean_text (prompt_core s) (take (unat n) (neosh_raw_line s))"
    and "s' = s\<lparr>nbox_line_buf := nbox_line_buf s', nbox_line_len := nbox_line_len s'\<rparr>"
proof -
  let ?raw = "take (unat n) (neosh_raw_line s)"
  let ?a = "map ascii ?raw"
  let ?hp = "prompt_core s \<noteq> [] \<and> take (length (prompt_core s)) ?a = prompt_core s"
  let ?src = "if ?hp then length (prompt_core s) else 0"
  define i where "i = skip (\<lambda>c. neosh_is_space (c AND 0x7F)) ?raw ?src"
  have rl: "length (neosh_raw_line s) = 64" "length (nbox_line_buf s) = 64"
    using wf by (simp_all add: neosh_wf_def)
  have la: "length ?a = unat n" using rl n by simp
  have srcn: "?src \<le> unat n"
  proof (cases ?hp)
    case True
    then have "length (take (length (prompt_core s)) ?a) = length (prompt_core s)" by simp
    then have "length (prompt_core s) \<le> unat n" using la by (simp add: min_def split: if_splits)
    then show ?thesis by simp
  qed auto
  have core: "(of_nat (length (prompt_core s)) :: neox_size_t) = neosh_prompt_core_length s"
    using prompt_core_length [OF wf] by simp
  have sc: "scan_bounded (\<lambda>c. neosh_is_space (c AND 0x7F)) (neosh_raw_line s) n (of_nat ?src) = Some (of_nat i)"
    unfolding i_def using scan_bounded_of_nat [of n "neosh_raw_line s" ?src] srcn rl n by simp
  have il: "i \<le> unat n" unfolding i_def using skip_le [of ?src ?raw] srcn la by simp
  define t where "t = takeWhile line_byte (drop i ?a)"
  have cc: "clean_copy (neosh_raw_line s) n (nbox_line_buf s) (of_nat i) 0 =
      Some (t @ drop (length t) (nbox_line_buf s), of_nat (length t))"
    using clean_copy_eq [of n "neosh_raw_line s" i 0 "nbox_line_buf s"] il rl n by (simp add: t_def Let_def)
  have tl: "length t \<le> 63"
    using length_takeWhile_le [of line_byte "drop i ?a"] la n by (simp add: t_def)
  let ?buf = "(t @ drop (length t) (nbox_line_buf s))[length t := 0]"
  have bufeq: "?buf = t @ 0 # drop (Suc (length t)) (nbox_line_buf s)"
    using tl rl by (simp add: list_update_append Cons_nth_drop_Suc [symmetric])
  have st: "cstore (t @ drop (length t) (nbox_line_buf s)) (of_nat (length t)) 0 = Some ?buf"
    using tl rl by (intro cstore_of_nat) simp_all
  let ?s = "s\<lparr>nbox_line_buf := ?buf, nbox_line_len := ucast (of_nat (length t) :: neox_size_t)\<rparr>"
  have nz: "0 \<notin> set t" by (simp add: t_def line_byte_no_nul)
  have eq: "neosh_clean_line s n = Some ?s"
    using line_has_prompt_eq [OF wf n] sc cc st core by (auto simp: neosh_clean_line_def Let_def split: if_splits)
  have tx: "nbox_text ?s = t" using nz by (simp add: nbox_text_def bufeq cstring_id)
  have wf': "neosh_wf ?s" using wf rl tl by (simp add: neosh_wf_def)
  have "nbox_wf ?s"
    using nz tl rl by (simp add: nbox_wf_def bufeq cstring_id ucast_byte_of_nat unat_of_nat take_bit_eq_mod)
  moreover have "t = clean_text (prompt_core s) ?raw"
  proof -
    have "drop i ?a = map ascii (dropWhile (\<lambda>c. neosh_is_space (c AND 0x7F)) (drop ?src ?raw))"
      by (simp add: i_def drop_map drop_skip)
    also have "\<dots> = dropWhile neox_arg_is_separator (map ascii (drop ?src ?raw))"
      by (simp add: dropWhile_map comp_def ascii_def neosh_is_space_eq)
    also have "map ascii (drop ?src ?raw) = strip_prompt (prompt_core s) ?a"
      by (simp add: strip_prompt_def drop_map)
    finally show ?thesis by (simp add: t_def clean_text_def)
  qed
  ultimately show ?thesis using that [OF eq wf'] tx by simp
qed

text \<open>What is typed behind the prompt is read as if there were no prompt.\<close>

lemma clean_text_prompt:
  assumes "map ascii core = core"
  shows "clean_text core (core @ raw) = clean_text [] raw"
  using assms by (simp add: clean_text_def strip_prompt_def)

section \<open>Prompt and input keep the buffers well formed\<close>

lemma length_cfill: "cfill buf data = Some buf' \<Longrightarrow> length buf' = length buf"
  by (auto simp: cfill_def split: if_splits)

lemma length_cstore: "cstore buf i v = Some buf' \<Longrightarrow> length buf' = length buf"
  by (auto simp: cstore_def split: if_splits)

lemma length_copy_bytes: "copy_bytes dst d src s n i = Some dst' \<Longrightarrow> length dst' = length dst"
proof (induction dst d src s n i rule: copy_bytes.induct)
  case (1 dst d src s n i)
  show ?case
  proof (cases "i < n")
    case True
    then obtain c b where c: "cload src (s + i) = Some c" and b: "cstore dst (d + i) c = Some b"
      and r: "copy_bytes b d src s n (i + 1) = Some dst'"
      using "1.prems" by (subst (asm) copy_bytes.simps) (auto simp: bind_eq_Some_conv)
    show ?thesis using "1.IH" [OF True c b r] length_cstore [OF b] by simp
  next
    case False
    then show ?thesis using "1.prems" by (subst (asm) copy_bytes.simps) simp
  qed
qed

lemma print_prompt_wf:
  assumes "neosh_wf s" and "neosh_print_prompt os s w = Some (s', w')"
  shows "neosh_wf s'"
    and "s' = s\<lparr>neosh_cwd := neosh_cwd s', neosh_prompt := neosh_prompt s',
      neosh_prompt_core_length := neosh_prompt_core_length s'\<rparr>"
proof -
  obtain st n stored w1 cwd where g: "neox_getcwd os 62 w = Some (st, n, stored, w1)"
    and c: "cfill (neosh_cwd s) stored = Some cwd"
    using assms(2) by (auto simp: neosh_print_prompt_def bind_eq_Some_conv Let_def)
  have lc: "length cwd = 64" using length_cfill [OF c] assms(1) by (simp add: neosh_wf_def)
  have "neosh_wf s' \<and> s' = s\<lparr>neosh_cwd := neosh_cwd s', neosh_prompt := neosh_prompt s',
      neosh_prompt_core_length := neosh_prompt_core_length s'\<rparr>"
  proof (cases "st \<noteq> NEOX_STATUS_OK \<or> n > 62")
    case True
    then obtain w2 where "s' = s\<lparr>neosh_cwd := cwd, neosh_prompt_core_length := 0\<rparr>"
      using assms(2) g c by (auto simp: neosh_print_prompt_def bind_eq_Some_conv Let_def)
    then show ?thesis using assms(1) lc by (simp add: neosh_wf_def)
  next
    case False
    then obtain p1 p2 p3 where p1: "(if n \<noteq> 0 then copy_bytes (neosh_prompt s) 0 cwd 0 n 0
        else Some (neosh_prompt s)) = Some p1"
      and p2: "cstore p1 n (of_char CHR ''>'') = Some p2"
      and p3: "cstore p2 (n + 1) (of_char CHR '' '') = Some p3"
      and s': "s' = s\<lparr>neosh_cwd := cwd, neosh_prompt := p3, neosh_prompt_core_length := n + 1\<rparr>"
      using assms(2) g c
      by (auto simp: neosh_print_prompt_def bind_eq_Some_conv Let_def simp del: of_char_Char cong: if_cong)
    have "length p1 = 64"
      using p1 length_copy_bytes [of "neosh_prompt s" 0 cwd 0 n 0 p1] assms(1)
      by (auto simp: neosh_wf_def split: if_splits)
    then have "length p3 = 64" using length_cstore [OF p2] length_cstore [OF p3] by simp
    moreover have "unat (n + 1) \<le> 63"
      using False by (auto simp: word_less_nat_alt not_less unat_word_ariths)
    ultimately show ?thesis unfolding s' using assms(1) lc by (simp add: neosh_wf_def)
  qed
  then show "neosh_wf s'"
    and "s' = s\<lparr>neosh_cwd := neosh_cwd s', neosh_prompt := neosh_prompt s',
      neosh_prompt_core_length := neosh_prompt_core_length s'\<rparr>" by simp_all
qed

lemma read_line_wf:
  assumes "neosh_wf s" and "neosh_read_line os s w = Some (st, n, s', w')"
  shows "neosh_wf s'" and "s' = s\<lparr>neosh_raw_line := neosh_raw_line s'\<rparr>"
    and "st = NEOX_STATUS_OK \<Longrightarrow> \<exists>k. n = Some k \<and> unat k \<le> 63"
proof -
  obtain st1 k stored w1 where r: "neox_read os NEOX_STDIN_FD 63 w = Some (st1, k, stored, w1)"
    using assms(2) by (cases "neox_read os NEOX_STDIN_FD 63 w") (auto simp: neosh_read_line_def)
  obtain raw where c: "cfill (neosh_raw_line s) stored = Some raw"
    using assms(2) r by (cases "cfill (neosh_raw_line s) stored") (auto simp: neosh_read_line_def)
  have lr: "length raw = 64" using length_cfill [OF c] assms(1) by (simp add: neosh_wf_def)
  let ?k = "if k \<ge> 64 then 63 else k"
  have k: "unat ?k \<le> 63" by (auto simp: word_le_nat_alt)
  consider "st1 \<noteq> NEOX_STATUS_OK" "st = st1" "n = None" "s' = s\<lparr>neosh_raw_line := raw\<rparr>"
    | b where "st1 = NEOX_STATUS_OK" "cstore raw ?k 0 = Some b" "n = Some ?k" "s' = s\<lparr>neosh_raw_line := b\<rparr>"
    using assms(2) r c
    by (cases "st1 = NEOX_STATUS_OK"; cases "cstore raw ?k 0") (auto simp: neosh_read_line_def Let_def cong: if_cong)
  then have "neosh_wf s' \<and> s' = s\<lparr>neosh_raw_line := neosh_raw_line s'\<rparr>
      \<and> (st = NEOX_STATUS_OK \<longrightarrow> (\<exists>k. n = Some k \<and> unat k \<le> 63))"
  proof cases
    case 1
    then show ?thesis using assms(1) lr by (simp add: neosh_wf_update)
  next
    case (2 b)
    then show ?thesis using assms(1) lr length_cstore [OF 2(2)] k by (simp add: neosh_wf_update)
  qed
  then show "neosh_wf s'" and "s' = s\<lparr>neosh_raw_line := neosh_raw_line s'\<rparr>"
    and "st = NEOX_STATUS_OK \<Longrightarrow> \<exists>k. n = Some k \<and> unat k \<le> 63" by simp_all
qed

end
