(* ===== verification/Neosh_Redirect.thy ===== *)
theory Neosh_Redirect
  imports Neosh_Line
begin

text \<open>
  Redirection parsing, \<^verbatim>\<open>src/user/shell/neosh.c\<close> (\<open>neosh_reset_plan\<close> to
  \<open>neosh_parse_redirections\<close>). The parser walks the line buffer with a token cursor, collects
  the redirections in \<open>neosh_plan\<close> and compacts the other tokens into \<open>neosh_command\<close>,
  which it copies back into the line buffer.

  The specification \<open>parse_words\<close> works on the list of words. The refinement lemma says that
  the parser always returns, stays inside its buffers, accepts exactly the lines the
  specification accepts, and leaves the compacted command and the plan it describes.
\<close>

section \<open>Operations\<close>

definition neosh_reset_plan :: "neosh_state \<Rightarrow> neosh_state option" where
  "neosh_reset_plan s = do {
     input_path \<leftarrow> cstore (redir_path (plan_input (neosh_plan s))) 0 0;
     output_path \<leftarrow> cstore (redir_path (plan_output (neosh_plan s))) 0 0;
     error_path \<leftarrow> cstore (redir_path (plan_error (neosh_plan s))) 0 0;
     Some (s\<lparr>neosh_plan := \<lparr>
         plan_input = \<lparr>redir_mode = NEOSH_REDIR_NONE, redir_path = input_path\<rparr>,
         plan_output = \<lparr>redir_mode = NEOSH_REDIR_NONE, redir_path = output_path\<rparr>,
         plan_error = \<lparr>redir_mode = NEOSH_REDIR_NONE, redir_path = error_path\<rparr>,
         redirection_seen = 0\<rparr>,
       neosh_input_fd := NEOSH_FD_CLOSED, neosh_output_fd := NEOSH_FD_CLOSED,
       neosh_error_fd := NEOSH_FD_CLOSED\<rparr>) }"

text \<open>The cursor after the scan, and the token when one was found.\<close>

definition neosh_next_token :: "neosh_state \<Rightarrow> neox_size_t \<Rightarrow> (neox_size_t \<times> neosh_token_t option) option" where
  "neosh_next_token s cursor = do {
     index \<leftarrow> scan_cstring neosh_is_space (nbox_line_buf s) cursor;
     c \<leftarrow> cload (nbox_line_buf s) index;
     if c = 0 then Some (index, None)
     else do {
       stop \<leftarrow> scan_cstring (\<lambda>c. \<not> neosh_is_space c) (nbox_line_buf s) index;
       Some (stop, Some \<lparr>tok_start = index, tok_length = stop - index\<rparr>) } }"

definition token_byte_is :: "neosh_state \<Rightarrow> neosh_token_t \<Rightarrow> neox_size_t \<Rightarrow> char \<Rightarrow> bool option" where
  \<comment> \<open>the test \<^verbatim>\<open>(token->length >= n + 1) && (nbox_line_buf[start + n] == ch)\<close>\<close>
  "token_byte_is s token n ch =
     (if tok_length token \<ge> n + 1
      then do { c \<leftarrow> cload (nbox_line_buf s) (tok_start token + n); Some (c = of_char ch) }
      else Some False)"

definition neosh_classify_redirection ::
  "neosh_state \<Rightarrow> neosh_token_t \<Rightarrow> (neox_fd_t \<times> byte \<times> neox_size_t) option option" where
  "neosh_classify_redirection s token = do {
     c \<leftarrow> cload (nbox_line_buf s) (tok_start token);
     if c = of_char CHR ''<'' then Some (Some (NEOX_STDIN_FD, NEOSH_REDIR_READ, 1))
     else if c = of_char CHR ''>'' then do {
       twice \<leftarrow> token_byte_is s token 1 CHR ''>'';
       Some (Some (if twice then (NEOX_STDOUT_FD, NEOSH_REDIR_APPEND, 2)
         else (NEOX_STDOUT_FD, NEOSH_REDIR_TRUNC, 1))) }
     else if c = of_char CHR ''2'' then do {
       error \<leftarrow> token_byte_is s token 1 CHR ''>'';
       if error then do {
         twice \<leftarrow> token_byte_is s token 2 CHR ''>'';
         Some (Some (if twice then (NEOX_STDERR_FD, NEOSH_REDIR_APPEND, 3)
           else (NEOX_STDERR_FD, NEOSH_REDIR_TRUNC, 2))) }
       else Some None }
     else Some None }"

text \<open>The address of a redirection record of the plan.\<close>

datatype neosh_record = Input_record | Output_record | Error_record

fun record_of :: "neosh_record \<Rightarrow> neosh_plan_t \<Rightarrow> neosh_redirection_t" where
  "record_of Input_record p = plan_input p"
| "record_of Output_record p = plan_output p"
| "record_of Error_record p = plan_error p"

fun set_record :: "neosh_record \<Rightarrow> neosh_redirection_t \<Rightarrow> neosh_plan_t \<Rightarrow> neosh_plan_t" where
  "set_record Input_record r p = p\<lparr>plan_input := r\<rparr>"
| "set_record Output_record r p = p\<lparr>plan_output := r\<rparr>"
| "set_record Error_record r p = p\<lparr>plan_error := r\<rparr>"

definition neosh_redirection_for_fd :: "neox_fd_t \<Rightarrow> neosh_record option" where
  "neosh_redirection_for_fd fd =
     (if fd = NEOX_STDIN_FD then Some Input_record
      else if fd = NEOX_STDOUT_FD then Some Output_record
      else if fd = NEOX_STDERR_FD then Some Error_record
      else None)"

definition neosh_store_redirection ::
  "neosh_state \<Rightarrow> neosh_record option \<Rightarrow> byte \<Rightarrow> neox_size_t \<Rightarrow> neox_size_t \<Rightarrow> (bool \<times> neosh_state) option" where
  "neosh_store_redirection s target mode start len =
     (case target of
        None \<Rightarrow> Some (False, s)
      | Some r \<Rightarrow>
          if redir_mode (record_of r (neosh_plan s)) \<noteq> NEOSH_REDIR_NONE \<or> len = 0 \<or> len \<ge> NEOSH_LINE_MAX
          then Some (False, s)
          else do {
            path \<leftarrow> copy_bytes (redir_path (record_of r (neosh_plan s))) 0 (nbox_line_buf s) start len 0;
            path \<leftarrow> cstore path len 0;
            Some (True, s\<lparr>neosh_plan :=
              (set_record r \<lparr>redir_mode = mode, redir_path = path\<rparr> (neosh_plan s))\<lparr>redirection_seen := 1\<rparr>\<rparr>) })"

definition neosh_append_command_token ::
  "neosh_state \<Rightarrow> neosh_token_t \<Rightarrow> neox_size_t \<Rightarrow> (bool \<times> neox_size_t \<times> neosh_state) option" where
  "neosh_append_command_token s token destination =
     (if destination \<noteq> 0 \<and> destination \<ge> NEOSH_LINE_MAX - 1 then Some (False, destination, s)
      else do {
        (destination, command) \<leftarrow>
          (if destination \<noteq> 0
           then do { c \<leftarrow> cstore (neosh_command s) destination SP; Some (destination + 1, c) }
           else Some (destination, neosh_command s));
        if destination + tok_length token \<ge> NEOSH_LINE_MAX
        then Some (False, destination, s\<lparr>neosh_command := command\<rparr>)
        else do {
          command \<leftarrow> copy_bytes command destination (nbox_line_buf s) (tok_start token) (tok_length token) 0;
          Some (True, destination + tok_length token, s\<lparr>neosh_command := command\<rparr>) } })"

text \<open>
  The path of a redirection: the rest of the operator's token, or the next token when it is
  not an operator itself. \<open>None\<close> where the parser rejects the line.
\<close>

definition neosh_redirection_path ::
  "neosh_state \<Rightarrow> neosh_token_t \<Rightarrow> neox_size_t \<Rightarrow> neox_size_t
   \<Rightarrow> (neox_size_t \<times> (neox_size_t \<times> neox_size_t) option) option" where
  "neosh_redirection_path s token operator_length cursor =
     (if tok_length token > operator_length
      then Some (cursor, Some (tok_start token + operator_length, tok_length token - operator_length))
      else do {
        (cursor, found) \<leftarrow> neosh_next_token s cursor;
        case found of
          None \<Rightarrow> Some (cursor, None)
        | Some path_token \<Rightarrow> do {
            class \<leftarrow> neosh_classify_redirection s path_token;
            Some (cursor, if class \<noteq> None then None
              else Some (tok_start path_token, tok_length path_token)) } })"

partial_function (option) neosh_parse_tokens ::
  "neosh_state \<Rightarrow> neox_size_t \<Rightarrow> neox_size_t \<Rightarrow> (bool \<times> neox_size_t \<times> neosh_state) option" where
  "neosh_parse_tokens s cursor destination = do {
     (cursor, found) \<leftarrow> neosh_next_token s cursor;
     case found of
       None \<Rightarrow> Some (True, destination, s)
     | Some token \<Rightarrow> do {
         class \<leftarrow> neosh_classify_redirection s token;
         case class of
           Some (fd, mode, operator_length) \<Rightarrow> do {
             (cursor, path) \<leftarrow> neosh_redirection_path s token operator_length cursor;
             case path of
               None \<Rightarrow> Some (False, destination, s)
             | Some (path_start, path_length) \<Rightarrow> do {
                 (ok, s) \<leftarrow> neosh_store_redirection s (neosh_redirection_for_fd fd) mode path_start path_length;
                 if \<not> ok then Some (False, destination, s)
                 else neosh_parse_tokens s cursor destination } }
         | None \<Rightarrow> do {
             (ok, destination, s) \<leftarrow> neosh_append_command_token s token destination;
             if \<not> ok then Some (False, destination, s)
             else neosh_parse_tokens s cursor destination } } }"

declare neosh_parse_tokens.simps [code]

definition neosh_parse_redirections :: "neosh_state \<Rightarrow> (bool \<times> neosh_state) option" where
  "neosh_parse_redirections s = do {
     s \<leftarrow> neosh_reset_plan s;
     (ok, destination, s) \<leftarrow> neosh_parse_tokens s 0 0;
     if \<not> ok then Some (False, s)
     else if destination = 0 \<and> redirection_seen (neosh_plan s) \<noteq> 0 then Some (False, s)
     else do {
       command \<leftarrow> cstore (neosh_command s) destination 0;
       buf \<leftarrow> copy_bytes (nbox_line_buf s) 0 command 0 (destination + 1) 0;
       Some (True, s\<lparr>neosh_command := command, nbox_line_buf := buf,
         nbox_line_len := ucast destination\<rparr>) } }"

section \<open>Specification on words\<close>

text \<open>A redirection operator at the start of a word: descriptor, mode and length.\<close>

definition classify_word :: "byte list \<Rightarrow> (neox_fd_t \<times> byte \<times> nat) option" where
  "classify_word w =
     (let at = (\<lambda>n ch. n < length w \<and> w ! n = of_char ch) in
      if at 0 CHR ''<'' then Some (NEOX_STDIN_FD, NEOSH_REDIR_READ, 1)
      else if at 0 CHR ''>'' then
        (if at 1 CHR ''>'' then Some (NEOX_STDOUT_FD, NEOSH_REDIR_APPEND, 2)
         else Some (NEOX_STDOUT_FD, NEOSH_REDIR_TRUNC, 1))
      else if at 0 CHR ''2'' \<and> at 1 CHR ''>'' then
        (if at 2 CHR ''>'' then Some (NEOX_STDERR_FD, NEOSH_REDIR_APPEND, 3)
         else Some (NEOX_STDERR_FD, NEOSH_REDIR_TRUNC, 2))
      else None)"

text \<open>The requested redirection of each standard descriptor: mode and path.\<close>

record word_plan =
  wp_input :: "(byte \<times> byte list) option"
  wp_output :: "(byte \<times> byte list) option"
  wp_error :: "(byte \<times> byte list) option"

definition empty_plan :: word_plan where
  "empty_plan = \<lparr>wp_input = None, wp_output = None, wp_error = None\<rparr>"

fun wp_get :: "neosh_record \<Rightarrow> word_plan \<Rightarrow> (byte \<times> byte list) option" where
  "wp_get Input_record p = wp_input p"
| "wp_get Output_record p = wp_output p"
| "wp_get Error_record p = wp_error p"

fun wp_set :: "neosh_record \<Rightarrow> byte \<times> byte list \<Rightarrow> word_plan \<Rightarrow> word_plan" where
  "wp_set Input_record x p = p\<lparr>wp_input := Some x\<rparr>"
| "wp_set Output_record x p = p\<lparr>wp_output := Some x\<rparr>"
| "wp_set Error_record x p = p\<lparr>wp_error := Some x\<rparr>"

definition store_word :: "neox_fd_t \<Rightarrow> byte \<Rightarrow> byte list \<Rightarrow> word_plan \<Rightarrow> word_plan option" where
  "store_word fd mode path p =
     (case neosh_redirection_for_fd fd of
        None \<Rightarrow> None
      | Some r \<Rightarrow> if wp_get r p \<noteq> None then None else Some (wp_set r (mode, path) p))"

fun parse_words :: "byte list list \<Rightarrow> byte list list \<Rightarrow> word_plan \<Rightarrow> (byte list list \<times> word_plan) option" where
  "parse_words [] cs p = Some (cs, p)"
| "parse_words (w # ws) cs p =
     (case classify_word w of
        None \<Rightarrow> parse_words ws (cs @ [w]) p
      | Some (fd, mode, n) \<Rightarrow>
          if n < length w then
            (case store_word fd mode (drop n w) p of
               None \<Rightarrow> None | Some p' \<Rightarrow> parse_words ws cs p')
          else
            (case ws of
               [] \<Rightarrow> None
             | path # ws' \<Rightarrow>
                 if classify_word path \<noteq> None then None
                 else
                   (case store_word fd mode path p of
                      None \<Rightarrow> None | Some p' \<Rightarrow> parse_words ws' cs p')))"

definition parse_line :: "byte list list \<Rightarrow> (byte list list \<times> word_plan) option" where
  "parse_line ws =
     (case parse_words ws [] empty_plan of
        None \<Rightarrow> None
      | Some (cs, p) \<Rightarrow> if cs = [] \<and> p \<noteq> empty_plan then None else Some (cs, p))"

section \<open>Joined words\<close>

lemma join_words_snoc: "join_words (cs @ [w]) = (if cs = [] then w else join_words cs @ SP # w)"
  by (cases cs) (simp_all add: join_words_def)

lemma join_words_Nil [simp]: "join_words [] = []"
  by (simp add: join_words_def)

lemma join_words_empty: "[] \<notin> set cs \<Longrightarrow> join_words cs = [] \<longleftrightarrow> cs = []"
  by (cases cs) (auto simp: join_words_def)

definition is_word :: "byte list \<Rightarrow> bool" where
  "is_word w \<longleftrightarrow> w \<noteq> [] \<and> (\<forall>c \<in> set w. \<not> neox_arg_is_separator c)"

lemma words_of_append_word:
  assumes "is_word w"
  shows "line_words (w @ SP # xs) = w # line_words xs" and "line_words w = [w]"
proof -
  have sp: "neox_arg_is_separator SP" by (simp add: arg_blank.blank_iff)
  obtain c cs where w: "w = c # cs" "\<not> neox_arg_is_separator c" "\<forall>c \<in> set w. \<not> neox_arg_is_separator c"
    using assms by (cases w) (auto simp: is_word_def)
  have dw: "dropWhile neox_arg_is_separator (w @ ys) = w @ ys" for ys using w by simp
  have tk: "takeWhile (\<lambda>c. \<not> neox_arg_is_separator c) (w @ SP # xs) = w"
    "dropWhile (\<lambda>c. \<not> neox_arg_is_separator c) (w @ SP # xs) = SP # xs"
    using w(3) sp by (simp_all add: takeWhile_append2 dropWhile_append2)
  have "line_words (SP # xs) = line_words xs"
    using words_of_dropWhile [of neox_arg_is_separator "SP # xs"] words_of_dropWhile [of neox_arg_is_separator xs] sp
    by simp
  then show "line_words (w @ SP # xs) = w # line_words xs"
    using words_of_step [OF dw, of "SP # xs"] tk by simp
  have "takeWhile (\<lambda>c. \<not> neox_arg_is_separator c) w = w" "dropWhile (\<lambda>c. \<not> neox_arg_is_separator c) w = []"
    using w(3) by (simp_all add: takeWhile_eq_all_conv)
  then show "line_words w = [w]" using words_of_step [OF dw, of "[]"] w(1) by simp
qed

text \<open>The compact form of a line splits back into the words it was made from.\<close>

lemma line_words_join: "(\<And>w. w \<in> set ws \<Longrightarrow> is_word w) \<Longrightarrow> line_words (join_words ws) = ws"
proof (induction ws)
  case (Cons w ws)
  show ?case
  proof (cases ws)
    case Nil
    then show ?thesis using Cons.prems words_of_append_word(2) [of w] by (simp add: join_words_def)
  next
    case (Cons v vs)
    then have "join_words (w # ws) = w @ SP # join_words ws" by (simp add: join_words_def)
    then show ?thesis using Cons.prems Cons.IH words_of_append_word(1) [of w] by simp
  qed
qed simp

section \<open>Tokens\<close>

text \<open>A position where a token has ended, or the start of the line.\<close>

definition token_end :: "byte list \<Rightarrow> nat \<Rightarrow> bool" where
  "token_end t n \<longleftrightarrow> n \<le> length t \<and> (0 < n \<longrightarrow> n < length t \<longrightarrow> neox_arg_is_separator (t ! n))"

lemma next_token_end:
  assumes wf: "nbox_wf s" and n: "n \<le> length (nbox_text s)" and e: "line_words (drop n (nbox_text s)) = []"
  shows "\<exists>c. neosh_next_token s (of_nat n) = Some (c, None)"
proof -
  note w = nbox_wfD [OF wf]
  let ?i = "skip neox_arg_is_separator (nbox_text s) n"
  have t: "terminated (nbox_line_buf s)" "length (nbox_line_buf s) \<le> 65536" using wf by (simp_all add: nbox_wf_def)
  have il: "?i = length (nbox_text s)"
  proof (rule ccontr)
    assume "?i \<noteq> length (nbox_text s)"
    then have "?i < length (nbox_text s)" using skip_le [OF n, of neox_arg_is_separator] by simp
    from words_of_skip_Cons [OF refl refl this] e show False by simp
  qed
  have "scan_cstring neosh_is_space (nbox_line_buf s) (of_nat n) = Some (of_nat ?i)"
    using scan_cstring_of_nat [OF t, of n neosh_is_space] n by (simp add: nbox_text_def neosh_is_space_eq)
  moreover have "cload (nbox_line_buf s) (of_nat ?i) = Some 0"
    unfolding il using w(2-5) nth_length_cstring [OF t(1)] by (simp add: cload_def nbox_text_def)
  ultimately show ?thesis by (simp add: neosh_next_token_def)
qed

lemma next_token_word:
  assumes wf: "nbox_wf s" and n: "token_end (nbox_text s) n"
    and ws: "line_words (drop n (nbox_text s)) = w # ws"
  obtains i j where
    "neosh_next_token s (of_nat n) = Some (of_nat j, Some \<lparr>tok_start = of_nat i, tok_length = of_nat (j - i)\<rparr>)"
    and "n \<le> i" and "0 < n \<longrightarrow> n < i" and "i < j" and "j \<le> length (nbox_text s)"
    and "take (j - i) (drop i (nbox_text s)) = w" and "token_end (nbox_text s) j"
    and "line_words (drop j (nbox_text s)) = ws"
proof -
  note w = nbox_wfD [OF wf]
  define i where "i = skip neox_arg_is_separator (nbox_text s) n"
  define j where "j = skip (\<lambda>c. \<not> neox_arg_is_separator c) (nbox_text s) i"
  have t: "terminated (nbox_line_buf s)" "length (nbox_line_buf s) \<le> 65536" using wf by (simp_all add: nbox_wf_def)
  have nl: "n \<le> length (nbox_text s)" using n by (simp add: token_end_def)
  have i: "i < length (nbox_text s)"
    using words_of_skip_Nil [of "nbox_text s" neox_arg_is_separator n] ws by (auto simp: i_def not_less [symmetric])
  have ij: "i < j" unfolding j_def by (rule skip_word_nonempty [OF i_def i])
  have jl: "j \<le> length (nbox_text s)" unfolding j_def using i by (intro skip_le) simp
  have je: "token_end (nbox_text s) j"
    using jl skip_stop [of "\<lambda>c. \<not> neox_arg_is_separator c" "nbox_text s" i] by (auto simp: token_end_def j_def)
  have ni: "n \<le> i" by (simp add: i_def)
  have strict: "0 < n \<longrightarrow> n < i"
  proof
    assume "0 < n"
    moreover have "n < length (nbox_text s)" using ni i by simp
    ultimately have "neox_arg_is_separator (nbox_text s ! n)" using n by (simp add: token_end_def)
    then show "n < i"
      using skip_step [of n "nbox_text s" neox_arg_is_separator] \<open>n < length (nbox_text s)\<close>
        less_le_trans [OF lessI skip_ge [of "Suc n" neox_arg_is_separator "nbox_text s"]] by (simp add: i_def)
  qed
  have s1: "scan_cstring neosh_is_space (nbox_line_buf s) (of_nat n) = Some (of_nat i)"
    using scan_cstring_of_nat [OF t, of n neosh_is_space] nl by (simp add: i_def nbox_text_def neosh_is_space_eq)
  have s2: "scan_cstring (\<lambda>c. \<not> neosh_is_space c) (nbox_line_buf s) (of_nat i) = Some (of_nat j)"
    using scan_cstring_of_nat [OF t, of i "\<lambda>c. \<not> neosh_is_space c"] i
    by (simp add: j_def nbox_text_def neosh_is_space_eq)
  have ci: "nbox_text s ! i \<noteq> 0" using w(6) i by (metis nth_mem)
  have "cload (nbox_line_buf s) (of_nat i) = Some (nbox_text s ! i)"
    using i w(2,3,5) nth_cstring [of i "nbox_line_buf s"] by (simp add: cload_def nbox_text_def)
  then have "neosh_next_token s (of_nat n) =
      Some (of_nat j, Some \<lparr>tok_start = of_nat i, tok_length = of_nat (j - i)\<rparr>)"
    using s1 s2 ci ij by (simp add: neosh_next_token_def)
  moreover have "w # ws = take (j - i) (drop i (nbox_text s)) # line_words (drop j (nbox_text s))"
    using words_of_skip_Cons [OF i_def j_def i] ws by simp
  ultimately show ?thesis using that ni strict ij jl je by simp
qed

lemma classify_eq:
  assumes wf: "nbox_wf s" and ij: "i < j" and jl: "j \<le> length (nbox_text s)"
    and w: "take (j - i) (drop i (nbox_text s)) = w"
  shows "neosh_classify_redirection s \<lparr>tok_start = of_nat i, tok_length = of_nat (j - i)\<rparr> =
    Some (map_option (\<lambda>(fd, mode, n). (fd, mode, of_nat n)) (classify_word w))"
proof -
  note wd = nbox_wfD [OF wf]
  let ?tok = "\<lparr>tok_start = of_nat i, tok_length = of_nat (j - i)\<rparr>"
  have lw: "length w = j - i" using w ij jl by auto
  have j64: "j < 64" using jl wd(2,3) by simp
  have nth: "w ! k = nbox_line_buf s ! (i + k)" if "k < j - i" for k
    using that ij jl nth_cstring [of "i + k" "nbox_line_buf s"] by (auto simp: w [symmetric] nbox_text_def)
  have ld: "cload (nbox_line_buf s) (of_nat i + of_nat k) = Some (w ! k)" if "k < j - i" for k
    using that j64 wd(5) nth [OF that] cload_of_nat [of "i + k" "nbox_line_buf s"] by simp
  have at: "token_byte_is s ?tok (of_nat k) ch = Some (k < length w \<and> w ! k = of_char ch)"
    if "k < 3" for k ch
  proof -
    have "(of_nat k + 1 :: neox_size_t) \<le> of_nat (j - i) \<longleftrightarrow> k < j - i"
      using that j64 unat_size_of_nat [of "k + 1"] unat_size_of_nat [of "j - i"]
      by (simp add: word_le_nat_alt Suc_le_eq add.commute [of _ "1 :: neox_size_t"] del: of_nat_diff)
    then show ?thesis using ld [of k] lw by (simp add: token_byte_is_def del: of_nat_diff)
  qed
  note at1 = at [of 1, simplified] and at2 = at [of 2, simplified]
  have c0: "cload (nbox_line_buf s) (of_nat i) = Some (w ! 0)" using ld [of 0] ij by simp
  have l0: "0 < length w" using lw ij by simp
  show ?thesis
    using c0 l0 at1 at2
    by (simp add: neosh_classify_redirection_def classify_word_def Let_def del: of_char_Char of_nat_diff)
qed

section \<open>Refinement\<close>

definition abs_redir :: "neosh_redirection_t \<Rightarrow> (byte \<times> byte list) option" where
  "abs_redir r = (if redir_mode r = NEOSH_REDIR_NONE then None else Some (redir_mode r, cstring (redir_path r)))"

definition abs_plan :: "neosh_plan_t \<Rightarrow> word_plan" where
  "abs_plan p = \<lparr>wp_input = abs_redir (plan_input p), wp_output = abs_redir (plan_output p),
     wp_error = abs_redir (plan_error p)\<rparr>"

lemma wp_get_abs: "wp_get r (abs_plan p) = abs_redir (record_of r p)"
  by (cases r) (simp_all add: abs_plan_def)

lemma abs_plan_set:
  "redir_mode x \<noteq> NEOSH_REDIR_NONE \<Longrightarrow>
   abs_plan ((set_record r x p)\<lparr>redirection_seen := 1\<rparr>) = wp_set r (redir_mode x, cstring (redir_path x)) (abs_plan p)"
  by (cases r) (simp_all add: abs_plan_def abs_redir_def)

lemma wp_set_not_empty: "wp_set r x p \<noteq> empty_plan"
  by (cases r; cases p) (simp_all add: empty_plan_def)

lemma classify_word_mode:
  "classify_word w = Some (fd, mode, n) \<Longrightarrow> mode \<noteq> NEOSH_REDIR_NONE \<and> n \<le> 3 \<and> 0 < n \<and>
     (\<exists>r. neosh_redirection_for_fd fd = Some r)"
  by (auto simp: classify_word_def Let_def neosh_redirection_for_fd_def split: if_splits)

text \<open>
  What the parser keeps while it works: the line is not touched and the flag records
  whether there is a redirection.
\<close>

definition parsing :: "neosh_state \<Rightarrow> neosh_state \<Rightarrow> bool" where
  "parsing s0 s \<longleftrightarrow> neosh_wf s
     \<and> s = s0\<lparr>neosh_plan := neosh_plan s, neosh_command := neosh_command s\<rparr>
     \<and> (redirection_seen (neosh_plan s) \<noteq> 0 \<longleftrightarrow> abs_plan (neosh_plan s) \<noteq> empty_plan)"

lemma parsing_line:
  assumes "parsing s0 s"
  shows "nbox_line_buf s = nbox_line_buf s0" and "nbox_text s = nbox_text s0" and "nbox_wf s = nbox_wf s0"
    and "neosh_wf s"
proof -
  have e: "s = s0\<lparr>neosh_plan := neosh_plan s, neosh_command := neosh_command s\<rparr>"
    using assms unfolding parsing_def by blast
  show b: "nbox_line_buf s = nbox_line_buf s0" by (subst e) simp
  have "nbox_line_len s = nbox_line_len s0" by (subst e) simp
  with b show "nbox_text s = nbox_text s0" "nbox_wf s = nbox_wf s0" by (simp_all add: nbox_text_def nbox_wf_def)
  show "neosh_wf s" using assms unfolding parsing_def by blast
qed

lemma parsing_command:
  assumes "parsing s0 s" and "length c = 64"
  shows "parsing s0 (s\<lparr>neosh_command := c\<rparr>)"
proof -
  have e: "s = s0\<lparr>neosh_plan := neosh_plan s, neosh_command := neosh_command s\<rparr>"
    using assms unfolding parsing_def by blast
  have "s\<lparr>neosh_command := c\<rparr> = s0\<lparr>neosh_plan := neosh_plan s, neosh_command := c\<rparr>" by (subst e) simp
  moreover have "neosh_wf (s\<lparr>neosh_command := c\<rparr>)"
    using assms by (simp only: parsing_def neosh_wf_update)
  ultimately show ?thesis
    using assms(1) unfolding parsing_def by (intro conjI) simp_all
qed

lemma parsing_store:
  fixes r :: neosh_record
  assumes "parsing s0 s" and "length path = 64 \<and> terminated path" and "mode \<noteq> NEOSH_REDIR_NONE"
  defines "p \<equiv> (set_record r \<lparr>redir_mode = mode, redir_path = path\<rparr> (neosh_plan s))\<lparr>redirection_seen := 1\<rparr>"
  shows "parsing s0 (s\<lparr>neosh_plan := p\<rparr>)" and "abs_plan p = wp_set r (mode, cstring path) (abs_plan (neosh_plan s))"
proof -
  show ap: "abs_plan p = wp_set r (mode, cstring path) (abs_plan (neosh_plan s))"
    using abs_plan_set [of "\<lparr>redir_mode = mode, redir_path = path\<rparr>"] assms(3) by (simp add: p_def)
  have e: "s = s0\<lparr>neosh_plan := neosh_plan s, neosh_command := neosh_command s\<rparr>"
    using assms(1) unfolding parsing_def by blast
  have "s\<lparr>neosh_plan := p\<rparr> = s0\<lparr>neosh_plan := p, neosh_command := neosh_command s\<rparr>" by (subst e) simp
  moreover have "neosh_wf (s\<lparr>neosh_plan := p\<rparr>)"
    using assms(1,2) by (cases r) (simp_all add: parsing_def neosh_wf_def redir_wf_def p_def)
  moreover have "redirection_seen p = 1" by (simp add: p_def)
  ultimately show "parsing s0 (s\<lparr>neosh_plan := p\<rparr>)"
    using ap by (simp add: parsing_def wp_set_not_empty)
qed

lemma store_eq:
  assumes ps: "parsing s0 s" and wf: "nbox_wf s0" and mode: "mode \<noteq> NEOSH_REDIR_NONE"
    and len: "0 < l" "i + l \<le> length (nbox_text s0)" and path: "path = take l (drop i (nbox_text s0))"
  shows "case store_word fd mode path (abs_plan (neosh_plan s)) of
      None \<Rightarrow> neosh_store_redirection s (neosh_redirection_for_fd fd) mode (of_nat i) (of_nat l) = Some (False, s)
    | Some p \<Rightarrow> \<exists>s'. neosh_store_redirection s (neosh_redirection_for_fd fd) mode (of_nat i) (of_nat l) = Some (True, s')
        \<and> parsing s0 s' \<and> abs_plan (neosh_plan s') = p \<and> neosh_command s' = neosh_command s"
proof (cases "neosh_redirection_for_fd fd")
  case None
  then show ?thesis by (simp add: store_word_def neosh_store_redirection_def)
next
  case (Some r)
  note wd = nbox_wfD [OF wf] and pl = parsing_line [OF ps]
  have b: "i + l < 64" using len wd(2,3) by simp
  let ?p = "redir_path (record_of r (neosh_plan s))"
  have lp: "length ?p = 64" using pl(4) by (cases r) (simp_all add: neosh_wf_def redir_wf_def)
  have lb: "length (nbox_line_buf s) = 64" using pl(4) by (simp add: neosh_wf_def)
  have "unat (of_nat l :: neox_size_t) = l" "unat (of_nat i :: neox_size_t) = i" using b by simp_all
  note u = this
  show ?thesis
  proof (cases "redir_mode (record_of r (neosh_plan s)) = NEOSH_REDIR_NONE")
    case False
    then show ?thesis
      using Some by (simp add: store_word_def neosh_store_redirection_def wp_get_abs abs_redir_def)
  next
    case True
    have ok: "\<not> (of_nat l :: neox_size_t) \<ge> 64" "(of_nat l :: neox_size_t) \<noteq> 0"
      using b len(1) by (simp_all add: word_le_nat_alt size_of_nat_eq_0)
    have cp: "copy_bytes ?p 0 (nbox_line_buf s) (of_nat i) (of_nat l) 0 = Some (take l (drop i (nbox_line_buf s)) @ drop l ?p)"
      using copy_bytes_0 [of "of_nat i" "of_nat l" "nbox_line_buf s" 0 ?p] b lb lp u by simp
    have same: "take l (drop i (nbox_line_buf s)) = path"
      unfolding path wd(1) [symmetric] pl(1) using len wd(2) by (simp add: drop_take min_absorb1)
    have lpath: "length path = l" using len path by simp
    let ?path = "path @ 0 # drop (Suc l) ?p"
    have st: "cstore (path @ drop l ?p) (of_nat l) 0 = Some ?path"
      using b lp u lpath by (simp add: cstore_def list_update_append Cons_nth_drop_Suc [symmetric])
    have nz: "0 \<notin> set path" using wd(6) by (auto simp: path dest: in_set_takeD in_set_dropD)
    have "length ?path = 64 \<and> terminated ?path" using lp lpath b by simp
    note upd = parsing_store [OF ps this mode, of r]
    have cs: "cstring ?path = path" using nz by (simp add: cstring_id)
    show ?thesis
      using Some True ok cp same st upd cs
      by (simp add: store_word_def neosh_store_redirection_def wp_get_abs abs_redir_def)
  qed
qed

lemma append_eq:
  assumes ps: "parsing s0 s" and wf: "nbox_wf s0"
    and ij: "i < j" "j \<le> length (nbox_text s0)" and w: "take (j - i) (drop i (nbox_text s0)) = w"
    and d: "d = length (join_words cs)" "d \<le> i" "cs \<noteq> [] \<longrightarrow> d < i" "[] \<notin> set cs"
    and cmd: "take d (neosh_command s) = join_words cs"
  obtains s' where "neosh_append_command_token s \<lparr>tok_start = of_nat i, tok_length = of_nat (j - i)\<rparr> (of_nat d) =
      Some (True, of_nat (length (join_words (cs @ [w]))), s')"
    and "parsing s0 s'" and "neosh_plan s' = neosh_plan s"
    and "take (length (join_words (cs @ [w]))) (neosh_command s') = join_words (cs @ [w])"
    and "length (join_words (cs @ [w])) \<le> j"
proof -
  note wd = nbox_wfD [OF wf] and pl = parsing_line [OF ps]
  have b: "j < 64" using ij wd(2,3) by simp
  have lw: "length w = j - i" using w ij by auto
  have lb: "length (nbox_line_buf s) = 64" "length (neosh_command s) = 64" using pl(4) by (simp_all add: neosh_wf_def)
  have zd: "(of_nat d :: neox_size_t) \<noteq> 0 \<longleftrightarrow> cs \<noteq> []"
    using d b ij join_words_empty [OF d(4)] by (auto simp: size_of_nat_eq_0)
  define e where "e = (if cs = [] then 0 else Suc d)"
  define c where "c = (if cs = [] then neosh_command s else (neosh_command s)[d := SP])"
  have e: "e \<le> i" using d by (auto simp: e_def)
  have ce: "take e c = (if cs = [] then [] else join_words cs @ [SP])"
    using cmd d lb b ij by (auto simp: e_def c_def take_Suc_conv_app_nth)
  have lc: "length c = 64" using lb by (simp add: c_def)
  have sl: "take (j - i) (drop i (nbox_line_buf s)) = w"
    unfolding w [symmetric] wd(1) [symmetric] pl(1) using ij wd(2) by (simp add: drop_take min_absorb1)
  have u: "unat (of_nat e :: neox_size_t) = e" "unat (of_nat i :: neox_size_t) = i"
    "unat (of_nat (j - i) :: neox_size_t) = j - i" using b ij e by (simp_all del: of_nat_diff)
  have cp: "copy_bytes c (of_nat e) (nbox_line_buf s) (of_nat i) (of_nat (j - i)) 0 =
      Some (take e c @ w @ drop (e + (j - i)) c)"
    using copy_bytes_0 [of "of_nat i" "of_nat (j - i)" "nbox_line_buf s" "of_nat e" c] u b e ij lb lc sl
    by (simp del: of_nat_diff)
  have full: "\<not> (of_nat d :: neox_size_t) \<ge> 63 \<or> cs = []"
    using d b ij by (auto simp: word_le_nat_alt)
  have room: "\<not> (of_nat e + of_nat (j - i) :: neox_size_t) \<ge> 64"
  proof -
    have "(of_nat e + of_nat (j - i) :: neox_size_t) = of_nat (e + (j - i))" by simp
    then show ?thesis using e b ij by (simp add: word_le_nat_alt del: of_nat_diff of_nat_add)
  qed
  have sp: "cs \<noteq> [] \<Longrightarrow> cstore (neosh_command s) (of_nat d) SP = Some c"
    using d b ij lb by (simp add: cstore_def c_def)
  have jl: "length (join_words (cs @ [w])) = e + (j - i)"
    using d(1) lw by (auto simp: join_words_snoc e_def)
  have jw: "join_words (cs @ [w]) = take e c @ w" using ce by (simp add: join_words_snoc)
  let ?s = "s\<lparr>neosh_command := take e c @ w @ drop (e + (j - i)) c\<rparr>"
  have "neosh_append_command_token s \<lparr>tok_start = of_nat i, tok_length = of_nat (j - i)\<rparr> (of_nat d) =
      Some (True, of_nat (length (join_words (cs @ [w]))), ?s)"
  proof (cases "cs = []")
    case True
    then show ?thesis
      using zd room cp unfolding jl
      by (simp add: neosh_append_command_token_def e_def c_def d(1) del: of_nat_diff)
  next
    case False
    have e1: "(of_nat d + 1 :: neox_size_t) = of_nat e" using False by (simp add: e_def)
    show ?thesis
      using zd False full room cp sp [OF False] unfolding jl
      by (simp add: neosh_append_command_token_def e1 del: of_nat_diff)
  qed
  moreover have "parsing s0 ?s" using lc e b ij lw by (intro parsing_command [OF ps]) simp
  moreover have "take (length (join_words (cs @ [w]))) (neosh_command ?s) = join_words (cs @ [w])"
    unfolding jl jw using lc e b ij lw by simp
  ultimately show ?thesis using that e ij jl by simp
qed

text \<open>
  The path the specification takes for a redirection word with \<open>k\<close> operator characters; the code
  takes the same one.
\<close>

definition word_path :: "nat \<Rightarrow> byte list \<Rightarrow> byte list list \<Rightarrow> (byte list \<times> byte list list) option" where
  "word_path k w ws = (if k < length w then Some (drop k w, ws)
     else case ws of [] \<Rightarrow> None | p # ws' \<Rightarrow> if classify_word p \<noteq> None then None else Some (p, ws'))"

lemma path_eq:
  assumes ps: "parsing s0 s" and wf: "nbox_wf s0"
    and ij: "i < j" "j \<le> length (nbox_text s0)" and w: "take (j - i) (drop i (nbox_text s0)) = w"
    and je: "token_end (nbox_text s0) j" and ws: "line_words (drop j (nbox_text s0)) = ws"
    and k: "0 < k" "k \<le> 3"
  shows "case word_path k w ws of
      None \<Rightarrow> \<exists>c. neosh_redirection_path s \<lparr>tok_start = of_nat i, tok_length = of_nat (j - i)\<rparr> (of_nat k) (of_nat j) =
        Some (c, None)
    | Some (p, ws') \<Rightarrow> \<exists>a l m. neosh_redirection_path s \<lparr>tok_start = of_nat i, tok_length = of_nat (j - i)\<rparr> (of_nat k) (of_nat j) =
        Some (of_nat m, Some (of_nat a, of_nat l)) \<and> 0 < l \<and> a + l \<le> length (nbox_text s0)
        \<and> p = take l (drop a (nbox_text s0)) \<and> j \<le> m \<and> token_end (nbox_text s0) m
        \<and> line_words (drop m (nbox_text s0)) = ws'"
proof -
  note wd = nbox_wfD [OF wf] and pl = parsing_line [OF ps]
  have wfs: "nbox_wf s" using pl(3) wf by simp
  have b: "j < 64" using ij wd(2,3) by simp
  have lw: "length w = j - i" using w ij by auto
  have gt: "(of_nat k :: neox_size_t) < of_nat (j - i) \<longleftrightarrow> k < length w"
    unfolding lw using k b by (simp add: word_less_nat_alt del: of_nat_diff)
  show ?thesis
  proof (cases "k < length w")
    case True
    have "drop k w = take (j - i - k) (drop (i + k) (nbox_text s0))"
      unfolding w [symmetric] by (simp add: drop_take add.commute)
    moreover have "neosh_redirection_path s \<lparr>tok_start = of_nat i, tok_length = of_nat (j - i)\<rparr> (of_nat k) (of_nat j) =
        Some (of_nat j, Some (of_nat (i + k), of_nat (j - i - k)))"
      using True gt lw ij(1) by (simp add: neosh_redirection_path_def)
    moreover have "0 < j - i - k" "i + k + (j - i - k) \<le> length (nbox_text s0)" using True lw ij by simp_all
    ultimately show ?thesis using True je ws
      by (simp add: word_path_def del: of_nat_diff of_nat_add)
        (rule exI [of _ "i + k"], rule exI [of _ "j - (i + k)"], rule exI [of _ j], simp del: of_nat_diff of_nat_add)
  next
    case False
    note nt = this
    show ?thesis
    proof (cases ws)
      case Nil
      obtain c where "neosh_next_token s (of_nat j) = Some (c, None)"
        using next_token_end [OF wfs, of j] ij(2) ws Nil pl(2) by auto
      with nt gt Nil show ?thesis by (simp add: word_path_def neosh_redirection_path_def del: of_nat_diff)
    next
      case (Cons p ws')
      obtain a m where nx: "neosh_next_token s (of_nat j) =
          Some (of_nat m, Some \<lparr>tok_start = of_nat a, tok_length = of_nat (m - a)\<rparr>)"
        and am: "j \<le> a" "a < m" "m \<le> length (nbox_text s0)"
        and p: "take (m - a) (drop a (nbox_text s0)) = p" and me: "token_end (nbox_text s0) m"
        and ws': "line_words (drop m (nbox_text s0)) = ws'"
        by (rule next_token_word [OF wfs, unfolded pl(2), OF je ws [unfolded Cons]])
      have cl: "neosh_classify_redirection s \<lparr>tok_start = of_nat a, tok_length = of_nat (m - a)\<rparr> =
          Some (map_option (\<lambda>(fd, mode, n). (fd, mode, of_nat n)) (classify_word p))"
        using classify_eq [OF wfs am(2), of p] am(3) p pl(2) by simp
      show ?thesis
      proof (cases "classify_word p")
        case None
        have "neosh_redirection_path s \<lparr>tok_start = of_nat i, tok_length = of_nat (j - i)\<rparr> (of_nat k) (of_nat j) =
            Some (of_nat m, Some (of_nat a, of_nat (m - a)))"
          using nt gt nx cl None by (simp add: neosh_redirection_path_def del: of_nat_diff)
        moreover have "0 < m - a" "a + (m - a) \<le> length (nbox_text s0)" "j \<le> m" using am by simp_all
        ultimately show ?thesis
          using nt Cons None p [symmetric] me ws'
          by (simp add: word_path_def del: of_nat_diff)
            (rule exI [of _ a], rule exI [of _ "m - a"], rule exI [of _ m], simp del: of_nat_diff)
      next
        case (Some x)
        with nt gt Cons nx cl show ?thesis
          by (cases x) (simp add: word_path_def neosh_redirection_path_def del: of_nat_diff)
      qed
    qed
  qed
qed

lemma is_word_line_words: "w \<in> set (line_words t) \<Longrightarrow> is_word w"
  using words_of_properties [of w neox_arg_is_separator t] by (simp add: is_word_def)

text \<open>The invariant of the token loop at position \<open>n\<close>, with the words \<open>cs\<close> collected.\<close>

definition loop_inv :: "neosh_state \<Rightarrow> neosh_state \<Rightarrow> nat \<Rightarrow> byte list list \<Rightarrow> bool" where
  "loop_inv s0 s n cs \<longleftrightarrow> parsing s0 s \<and> token_end (nbox_text s0) n \<and> list_all is_word cs
     \<and> 0 \<notin> set (join_words cs) \<and> length (join_words cs) \<le> n
     \<and> take (length (join_words cs)) (neosh_command s) = join_words cs"

lemma loop_inv_later:
  "loop_inv s0 s n cs \<Longrightarrow> parsing s0 s' \<Longrightarrow> neosh_command s' = neosh_command s \<Longrightarrow>
   token_end (nbox_text s0) m \<Longrightarrow> n \<le> m \<Longrightarrow> loop_inv s0 s' m cs"
  by (simp add: loop_inv_def)

text \<open>What the parser returns when the specification gives \<open>r\<close>.\<close>

definition parse_result ::
  "neosh_state \<Rightarrow> (byte list list \<times> word_plan) option \<Rightarrow> (bool \<times> neox_size_t \<times> neosh_state) option \<Rightarrow> bool" where
  "parse_result s0 r x \<longleftrightarrow>
     (case r of
        None \<Rightarrow> \<exists>d s'. x = Some (False, d, s') \<and> parsing s0 s'
      | Some (cs, p) \<Rightarrow> \<exists>s' m. x = Some (True, of_nat (length (join_words cs)), s')
          \<and> loop_inv s0 s' m cs \<and> abs_plan (neosh_plan s') = p)"

lemma parse_store_step:
  assumes inv: "loop_inv s0 s n cs" and wf: "nbox_wf s0" and mode: "mode \<noteq> NEOSH_REDIR_NONE"
    and len: "0 < l" "a + l \<le> length (nbox_text s0)" and path: "path = take l (drop a (nbox_text s0))"
    and m: "n \<le> m" "token_end (nbox_text s0) m"
    and rest: "\<And>s' p. loop_inv s0 s' m cs \<Longrightarrow>
      parse_result s0 (parse_words ws cs (abs_plan (neosh_plan s'))) (neosh_parse_tokens s' (of_nat m) d)"
  shows "parse_result s0
    (case store_word fd mode path (abs_plan (neosh_plan s)) of None \<Rightarrow> None | Some p' \<Rightarrow> parse_words ws cs p')
    (do { (ok, s) \<leftarrow> neosh_store_redirection s (neosh_redirection_for_fd fd) mode (of_nat a) (of_nat l);
       if \<not> ok then Some (False, d, s) else neosh_parse_tokens s (of_nat m) d })"
proof -
  have ps: "parsing s0 s" using inv by (simp add: loop_inv_def)
  note st = store_eq [OF ps wf mode len path, of fd]
  show ?thesis
  proof (cases "store_word fd mode path (abs_plan (neosh_plan s))")
    case None
    then show ?thesis using st ps by (simp add: parse_result_def)
  next
    case (Some p)
    with st obtain s' where s': "neosh_store_redirection s (neosh_redirection_for_fd fd) mode (of_nat a) (of_nat l) =
        Some (True, s')" "parsing s0 s'" "abs_plan (neosh_plan s') = p" "neosh_command s' = neosh_command s"
      by auto
    with Some rest [OF loop_inv_later [OF inv s'(2,4) m(2,1)]] show ?thesis by simp
  qed
qed

text \<open>A plain word joins the command, and the loop goes on behind it.\<close>

lemma parse_word_step:
  assumes inv: "loop_inv s0 s n cs" and wf: "nbox_wf s0" and ni: "n \<le> i" "0 < n \<longrightarrow> n < i"
    and ij: "i < j" "j \<le> length (nbox_text s0)" and w: "take (j - i) (drop i (nbox_text s0)) = w"
    and je: "token_end (nbox_text s0) j" and ww: "is_word w"
  obtains s' where "neosh_append_command_token s \<lparr>tok_start = of_nat i, tok_length = of_nat (j - i)\<rparr>
      (of_nat (length (join_words cs))) = Some (True, of_nat (length (join_words (cs @ [w]))), s')"
    and "loop_inv s0 s' j (cs @ [w])" and "neosh_plan s' = neosh_plan s"
proof -
  have ps: "parsing s0 s" and cs: "[] \<notin> set cs" "list_all is_word cs"
    and lj: "length (join_words cs) \<le> n" "take (length (join_words cs)) (neosh_command s) = join_words cs"
    using inv by (auto simp: loop_inv_def list_all_iff is_word_def)
  have dn: "cs \<noteq> [] \<longrightarrow> length (join_words cs) < i"
    using lj(1) ni join_words_empty [OF cs(1)] by (cases "join_words cs = []") auto
  obtain s' where ap: "neosh_append_command_token s \<lparr>tok_start = of_nat i, tok_length = of_nat (j - i)\<rparr>
      (of_nat (length (join_words cs))) = Some (True, of_nat (length (join_words (cs @ [w]))), s')"
    and s': "parsing s0 s'" "neosh_plan s' = neosh_plan s"
      "take (length (join_words (cs @ [w]))) (neosh_command s') = join_words (cs @ [w])"
      "length (join_words (cs @ [w])) \<le> j"
    by (rule append_eq [OF ps wf ij w refl le_trans [OF lj(1) ni(1)] dn cs(1) lj(2)])
  have "0 \<notin> set w" using nbox_wfD(6) [OF wf] by (auto simp: w [symmetric] dest: in_set_takeD in_set_dropD)
  then have "0 \<notin> set (join_words (cs @ [w]))" using inv by (auto simp: loop_inv_def join_words_snoc)
  then have "loop_inv s0 s' j (cs @ [w])" using s' je cs(2) ww by (simp add: loop_inv_def)
  then show thesis using that ap s'(2) by blast
qed

text \<open>The step of the loop over a redirection.\<close>

lemma word_path_shorter: "word_path k w ws = Some (path, ws') \<Longrightarrow> length ws' < Suc (length ws)"
  by (auto simp: word_path_def split: if_splits list.splits)

lemma parse_words_redirection:
  assumes "classify_word w = Some (fd, mode, k)"
  shows "parse_words (w # ws) cs p = (case word_path k w ws of None \<Rightarrow> None | Some (path, ws') \<Rightarrow>
    (case store_word fd mode path p of None \<Rightarrow> None | Some p' \<Rightarrow> parse_words ws' cs p'))"
  using assms by (simp add: word_path_def split: list.split)

lemma parse_redirection_step:
  assumes inv: "loop_inv s0 s n cs" and wf: "nbox_wf s0" and nj: "n \<le> j"
    and ij: "i < j" "j \<le> length (nbox_text s0)" and w: "take (j - i) (drop i (nbox_text s0)) = w"
    and je: "token_end (nbox_text s0) j" and ws: "line_words (drop j (nbox_text s0)) = ws"
    and cw: "classify_word w = Some (fd, mode, k)"
    and rest: "\<And>ws' s' m. length ws' < Suc (length ws) \<Longrightarrow> loop_inv s0 s' m cs \<Longrightarrow>
      line_words (drop m (nbox_text s0)) = ws' \<Longrightarrow>
      parse_result s0 (parse_words ws' cs (abs_plan (neosh_plan s'))) (neosh_parse_tokens s' (of_nat m) d)"
  shows "parse_result s0 (parse_words (w # ws) cs (abs_plan (neosh_plan s)))
    (do { (cursor, path) \<leftarrow> neosh_redirection_path s \<lparr>tok_start = of_nat i, tok_length = of_nat (j - i)\<rparr> (of_nat k) (of_nat j);
       case path of
         None \<Rightarrow> Some (False, d, s)
       | Some (path_start, path_length) \<Rightarrow> do {
           (ok, s) \<leftarrow> neosh_store_redirection s (neosh_redirection_for_fd fd) mode path_start path_length;
           if \<not> ok then Some (False, d, s) else neosh_parse_tokens s cursor d } })"
proof -
  have ps: "parsing s0 s" using inv by (simp add: loop_inv_def)
  note md = classify_word_mode [OF cw]
  note pe = path_eq [OF ps wf ij w je ws, of k]
  show ?thesis
  proof (cases "word_path k w ws")
    case None
    with pe md obtain c where
      "neosh_redirection_path s \<lparr>tok_start = of_nat i, tok_length = of_nat (j - i)\<rparr> (of_nat k) (of_nat j) = Some (c, None)"
      by (auto simp del: of_nat_diff)
    then show ?thesis unfolding parse_words_redirection [OF cw] using None ps
      by (simp add: parse_result_def del: of_nat_diff)
  next
    case (Some y)
    obtain path ws' where y: "y = (path, ws')" by (cases y)
    from pe md Some y obtain a l m where rp:
      "neosh_redirection_path s \<lparr>tok_start = of_nat i, tok_length = of_nat (j - i)\<rparr> (of_nat k) (of_nat j) =
        Some (of_nat m, Some (of_nat a, of_nat l))" and l: "0 < l" "a + l \<le> length (nbox_text s0)"
      and p: "path = take l (drop a (nbox_text s0))" and m: "j \<le> m" "token_end (nbox_text s0) m"
      and ws': "line_words (drop m (nbox_text s0)) = ws'"
      by (auto simp del: of_nat_diff)
    note later = rest [OF word_path_shorter [OF Some [unfolded y]] _ ws']
    show ?thesis
      unfolding parse_words_redirection [OF cw]
      using Some y rp parse_store_step [OF inv wf _ l p le_trans [OF nj m(1)] m(2) later, of mode fd] md
      by (simp del: of_nat_diff)
  qed
qed

lemma parse_tokens_refines:
  assumes wf: "nbox_wf s0"
  shows "loop_inv s0 s n cs \<Longrightarrow> line_words (drop n (nbox_text s0)) = ws \<Longrightarrow>
    parse_result s0 (parse_words ws cs (abs_plan (neosh_plan s)))
      (neosh_parse_tokens s (of_nat n) (of_nat (length (join_words cs))))"
proof (induction "length ws" arbitrary: ws s n cs rule: less_induct)
  case less
  have ps: "parsing s0 s" and ne: "token_end (nbox_text s0) n" using less.prems(1) by (simp_all add: loop_inv_def)
  note pl = parsing_line [OF ps]
  have wfs: "nbox_wf s" using pl(3) wf by simp
  show ?case
  proof (cases ws)
    case Nil
    obtain c where "neosh_next_token s (of_nat n) = Some (c, None)"
      using next_token_end [OF wfs, of n] ne less.prems(2) Nil pl(2) by (auto simp: token_end_def)
    then have "neosh_parse_tokens s (of_nat n) (of_nat (length (join_words cs))) =
        Some (True, of_nat (length (join_words cs)), s)"
      by (subst neosh_parse_tokens.simps) simp
    then show ?thesis using Nil less.prems(1) by (auto simp: parse_result_def)
  next
    case (Cons w ws1)
    obtain i j where nx: "neosh_next_token s (of_nat n) =
        Some (of_nat j, Some \<lparr>tok_start = of_nat i, tok_length = of_nat (j - i)\<rparr>)"
      and ni: "n \<le> i" "0 < n \<longrightarrow> n < i" and ij: "i < j" "j \<le> length (nbox_text s0)"
      and w: "take (j - i) (drop i (nbox_text s0)) = w" and je: "token_end (nbox_text s0) j"
      and ws1: "line_words (drop j (nbox_text s0)) = ws1"
      by (rule next_token_word [OF wfs, unfolded pl(2), OF ne less.prems(2) [unfolded Cons]])
    have cl: "neosh_classify_redirection s \<lparr>tok_start = of_nat i, tok_length = of_nat (j - i)\<rparr> =
        Some (map_option (\<lambda>(fd, mode, n). (fd, mode, of_nat n)) (classify_word w))"
      by (rule classify_eq [OF wfs ij(1) ij(2) [folded pl(2)] w [folded pl(2)]])
    show ?thesis
    proof (cases "classify_word w")
      case None
      have ww: "is_word w" using is_word_line_words [of w "drop n (nbox_text s0)"] less.prems(2) Cons by simp
      obtain s' where ap: "neosh_append_command_token s \<lparr>tok_start = of_nat i, tok_length = of_nat (j - i)\<rparr>
          (of_nat (length (join_words cs))) = Some (True, of_nat (length (join_words (cs @ [w]))), s')"
        and s': "loop_inv s0 s' j (cs @ [w])" "neosh_plan s' = neosh_plan s"
        by (rule parse_word_step [OF less.prems(1) wf ni ij w je ww])
      have "parse_result s0 (parse_words ws1 (cs @ [w]) (abs_plan (neosh_plan s)))
          (neosh_parse_tokens s' (of_nat j) (of_nat (length (join_words (cs @ [w])))))"
        using less.hyps [OF _ s'(1) ws1] Cons by (simp add: s'(2))
      then show ?thesis
        using nx cl ap None Cons by (subst neosh_parse_tokens.simps) (simp del: of_nat_diff)
    next
      case (Some x)
      obtain fd mode k where x: "x = (fd, mode, k)" by (cases x)
      have nj: "n \<le> j" using ni ij by simp
      have "neosh_parse_tokens s (of_nat n) (of_nat (length (join_words cs))) = do {
          (cursor, path) \<leftarrow> neosh_redirection_path s \<lparr>tok_start = of_nat i, tok_length = of_nat (j - i)\<rparr>
            (of_nat k) (of_nat j);
          case path of
            None \<Rightarrow> Some (False, of_nat (length (join_words cs)), s)
          | Some (path_start, path_length) \<Rightarrow> do {
              (ok, s) \<leftarrow> neosh_store_redirection s (neosh_redirection_for_fd fd) mode path_start path_length;
              if \<not> ok then Some (False, of_nat (length (join_words cs)), s)
              else neosh_parse_tokens s cursor (of_nat (length (join_words cs))) } }"
        using nx cl Some x by (subst neosh_parse_tokens.simps) (simp del: of_nat_diff)
      moreover have later: "parse_result s0 (parse_words ws' cs (abs_plan (neosh_plan s')))
          (neosh_parse_tokens s' (of_nat m) (of_nat (length (join_words cs))))"
        if "length ws' < Suc (length ws1)" "loop_inv s0 s' m cs" "line_words (drop m (nbox_text s0)) = ws'" for ws' s' m
        by (rule less.hyps [OF _ that(2,3)]) (simp add: Cons that(1))
      ultimately show ?thesis
        using parse_redirection_step [OF less.prems(1) wf nj ij w je ws1 Some [unfolded x] later] by (simp only: Cons)
    qed
  qed
qed

lemma terminated_update_0: "n < length xs \<Longrightarrow> terminated (xs[n := 0])"
  by (auto simp: terminated_def set_update_memI)

lemma reset_plan_eq:
  assumes "neosh_wf s"
  obtains s0 where "neosh_reset_plan s = Some s0" and "parsing s0 s0" and "abs_plan (neosh_plan s0) = empty_plan"
    and "s0 = s\<lparr>neosh_plan := neosh_plan s0, neosh_input_fd := NEOSH_FD_CLOSED,
      neosh_output_fd := NEOSH_FD_CLOSED, neosh_error_fd := NEOSH_FD_CLOSED\<rparr>"
proof -
  let ?z = "\<lambda>r. \<lparr>redir_mode = NEOSH_REDIR_NONE, redir_path = (redir_path r)[0 := 0]\<rparr>"
  have rw: "redir_wf r \<Longrightarrow> cstore (redir_path r) 0 0 = Some ((redir_path r)[0 := 0]) \<and> redir_wf (?z r)" for r
    by (simp add: redir_wf_def cstore_def terminated_update_0)
  let ?p = "\<lparr>plan_input = ?z (plan_input (neosh_plan s)), plan_output = ?z (plan_output (neosh_plan s)),
    plan_error = ?z (plan_error (neosh_plan s)), redirection_seen = 0\<rparr>"
  let ?s = "s\<lparr>neosh_plan := ?p, neosh_input_fd := NEOSH_FD_CLOSED,
      neosh_output_fd := NEOSH_FD_CLOSED, neosh_error_fd := NEOSH_FD_CLOSED\<rparr>"
  have w: "redir_wf (plan_input (neosh_plan s))" "redir_wf (plan_output (neosh_plan s))"
    "redir_wf (plan_error (neosh_plan s))" using assms by (simp_all add: neosh_wf_def)
  have "neosh_reset_plan s = Some ?s" using w rw by (simp add: neosh_reset_plan_def)
  moreover have a: "abs_plan ?p = empty_plan" by (simp add: abs_plan_def abs_redir_def empty_plan_def)
  moreover have "neosh_wf ?s" using assms w rw by (simp add: neosh_wf_def)
  ultimately show ?thesis using that [of ?s] by (simp add: parsing_def)
qed

text \<open>What \<open>neosh_parse_redirections\<close> leaves when the specification accepts the line.\<close>

definition parsed :: "neosh_state \<Rightarrow> byte list list \<Rightarrow> word_plan \<Rightarrow> neosh_state \<Rightarrow> bool" where
  "parsed s cs p s' \<longleftrightarrow> neosh_wf s' \<and> nbox_wf s' \<and> nbox_text s' = join_words cs
     \<and> abs_plan (neosh_plan s') = p \<and> (redirection_seen (neosh_plan s') \<noteq> 0 \<longleftrightarrow> p \<noteq> empty_plan)
     \<and> neosh_input_fd s' = NEOSH_FD_CLOSED \<and> neosh_output_fd s' = NEOSH_FD_CLOSED
     \<and> neosh_error_fd s' = NEOSH_FD_CLOSED
     \<and> neosh_previous_cwd s' = neosh_previous_cwd s
     \<and> neosh_previous_cwd_valid s' = neosh_previous_cwd_valid s"

lemma loop_inv_empty:
  assumes "loop_inv s0 s m cs" and "nbox_wf s0"
  shows "(of_nat (length (join_words cs)) :: neox_size_t) = 0 \<longleftrightarrow> cs = []"
proof -
  have "[] \<notin> set cs" using assms(1) by (auto simp: loop_inv_def list_all_iff is_word_def)
  moreover have "length (join_words cs) < 64"
    using assms(1) nbox_wfD(2,3) [OF assms(2)] by (simp add: loop_inv_def token_end_def)
  ultimately show ?thesis using join_words_empty by (simp add: size_of_nat_eq_0)
qed

text \<open>The command text goes back into the line buffer, with its terminator.\<close>

lemma parse_commit:
  assumes inv: "loop_inv s0 s1 m cs" and wf: "nbox_wf s0" and c: "c = (neosh_command s1)[length (join_words cs) := 0]"
    and b: "b = join_words cs @ 0 # drop (Suc (length (join_words cs))) (nbox_line_buf s1)"
    and s': "s' = s1\<lparr>neosh_command := c, nbox_line_buf := b, nbox_line_len := ucast (of_nat (length (join_words cs)) :: neox_size_t)\<rparr>"
  shows "cstore (neosh_command s1) (of_nat (length (join_words cs))) 0 = Some c"
    and "copy_bytes (nbox_line_buf s1) 0 c 0 (of_nat (length (join_words cs)) + 1) 0 = Some b"
    and "neosh_wf s'" and "nbox_wf s'" and "nbox_text s' = join_words cs"
proof -
  let ?j = "join_words cs"
  have ps1: "parsing s0 s1" using inv by (simp add: loop_inv_def)
  note pl = parsing_line [OF ps1]
  have l: "length ?j < 64" using inv nbox_wfD(2,3) [OF wf] by (simp add: loop_inv_def token_end_def)
  have lens: "length (neosh_command s1) = 64" "length (nbox_line_buf s1) = 64"
    using pl(4) by (simp_all add: neosh_wf_def)
  have nz: "0 \<notin> set ?j" using inv by (simp add: loop_inv_def)
  show "cstore (neosh_command s1) (of_nat (length ?j)) 0 = Some c" using l lens by (simp add: cstore_def c)
  have tc: "take (Suc (length ?j)) c = ?j @ [0]"
    using inv l lens by (simp add: c loop_inv_def take_Suc_conv_app_nth)
  have "(of_nat (length ?j) + 1 :: neox_size_t) = of_nat (Suc (length ?j))" by simp
  moreover have "copy_bytes (nbox_line_buf s1) 0 c 0 (of_nat (Suc (length ?j))) 0 = Some b"
    using copy_bytes_0 [of 0 "of_nat (Suc (length ?j))" c 0 "nbox_line_buf s1"]
      l lens tc unat_size_of_nat [of "Suc (length ?j)"] by (simp add: b c del: of_nat_Suc)
  ultimately show "copy_bytes (nbox_line_buf s1) 0 c 0 (of_nat (length ?j) + 1) 0 = Some b" by (simp only:)
  show "neosh_wf s'" using pl(4) l lens by (simp add: s' b c neosh_wf_def)
  show "nbox_wf s'" using l lens nz
    by (simp add: s' b nbox_wf_def cstring_id ucast_byte_of_nat unat_of_nat take_bit_eq_mod)
  show "nbox_text s' = ?j" using nz by (simp add: s' b nbox_text_def cstring_id)
qed

lemma parse_redirections_refines:
  assumes wf: "neosh_wf s" and nwf: "nbox_wf s"
  shows "case parse_line (line_words (nbox_text s)) of
      None \<Rightarrow> \<exists>s'. neosh_parse_redirections s = Some (False, s') \<and> neosh_wf s'
    | Some (cs, p) \<Rightarrow> \<exists>s'. neosh_parse_redirections s = Some (True, s') \<and> parsed s cs p s'"
proof -
  obtain s0 where r: "neosh_reset_plan s = Some s0" and ps: "parsing s0 s0"
    and ap: "abs_plan (neosh_plan s0) = empty_plan"
    and s0: "s0 = s\<lparr>neosh_plan := neosh_plan s0, neosh_input_fd := NEOSH_FD_CLOSED,
      neosh_output_fd := NEOSH_FD_CLOSED, neosh_error_fd := NEOSH_FD_CLOSED\<rparr>"
    by (rule reset_plan_eq [OF wf])
  have "nbox_line_buf s0 = nbox_line_buf s" "nbox_line_len s0 = nbox_line_len s" by (subst s0, simp)+
  then have tx: "nbox_text s0 = nbox_text s" and nwf0: "nbox_wf s0"
    using nwf by (simp_all add: nbox_text_def nbox_wf_def)
  have cl: "neosh_input_fd s0 = NEOSH_FD_CLOSED" "neosh_output_fd s0 = NEOSH_FD_CLOSED"
    "neosh_error_fd s0 = NEOSH_FD_CLOSED" "neosh_previous_cwd s0 = neosh_previous_cwd s"
    "neosh_previous_cwd_valid s0 = neosh_previous_cwd_valid s" by (subst s0, simp)+
  have "loop_inv s0 s0 0 []" using ps by (simp add: loop_inv_def token_end_def)
  from parse_tokens_refines [OF nwf0 this refl] tx ap
  have pr: "parse_result s0 (parse_words (line_words (nbox_text s)) [] empty_plan) (neosh_parse_tokens s0 0 0)"
    by simp
  show ?thesis
  proof (cases "parse_words (line_words (nbox_text s)) [] empty_plan")
    case None
    with pr obtain d s' where "neosh_parse_tokens s0 0 0 = Some (False, d, s')" "neosh_wf s'"
      by (auto simp: parse_result_def dest: parsing_line)
    with None r show ?thesis by (simp add: parse_line_def neosh_parse_redirections_def)
  next
    case (Some y)
    obtain cs p where y: "y = (cs, p)" by (cases y)
    with pr Some obtain s1 m where
      tk: "neosh_parse_tokens s0 0 0 = Some (True, of_nat (length (join_words cs)), s1)"
      and inv: "loop_inv s0 s1 m cs" and p: "abs_plan (neosh_plan s1) = p"
      by (auto simp: parse_result_def)
    have ps1: "parsing s0 s1" using inv by (simp add: loop_inv_def)
    have e1: "s1 = s0\<lparr>neosh_plan := neosh_plan s1, neosh_command := neosh_command s1\<rparr>"
      and seen: "redirection_seen (neosh_plan s1) \<noteq> 0 \<longleftrightarrow> p \<noteq> empty_plan"
      using ps1 p unfolding parsing_def by blast+
    have z: "(of_nat (length (join_words cs)) :: neox_size_t) = 0 \<longleftrightarrow> cs = []" by (rule loop_inv_empty [OF inv nwf0])
    show ?thesis
    proof (cases "cs = [] \<and> p \<noteq> empty_plan")
      case True
      then have "parse_line (line_words (nbox_text s)) = None" using Some y by (simp add: parse_line_def)
      moreover have "neosh_parse_redirections s = Some (False, s1)"
        using r tk True seen z by (simp add: neosh_parse_redirections_def)
      ultimately show ?thesis using parsing_line(4) [OF ps1] by simp
    next
      case False
      note commit = parse_commit [OF inv nwf0 refl refl refl]
      let ?s = "s1\<lparr>neosh_command := (neosh_command s1)[length (join_words cs) := 0],
        nbox_line_buf := join_words cs @ 0 # drop (Suc (length (join_words cs))) (nbox_line_buf s1),
        nbox_line_len := ucast (of_nat (length (join_words cs)) :: neox_size_t)\<rparr>"
      have "neosh_parse_redirections s = Some (True, ?s)"
        using r tk False seen z commit(1,2) by (auto simp: neosh_parse_redirections_def)
      moreover have "parse_line (line_words (nbox_text s)) = Some (cs, p)"
        using Some y False by (auto simp: parse_line_def)
      moreover have "neosh_input_fd s1 = NEOSH_FD_CLOSED" "neosh_output_fd s1 = NEOSH_FD_CLOSED"
        "neosh_error_fd s1 = NEOSH_FD_CLOSED" "neosh_previous_cwd s1 = neosh_previous_cwd s"
        "neosh_previous_cwd_valid s1 = neosh_previous_cwd_valid s" by (subst e1, simp add: cl)+
      then have "parsed s cs p ?s" using commit(3-5) p seen by (simp add: parsed_def)
      ultimately show ?thesis by auto
    qed
  qed
qed

text \<open>The words that remain are words of the line, and plain lines are not changed.\<close>

lemma parse_words_words:
  "parse_words ws cs p = Some (cs', p') \<Longrightarrow> set cs' \<subseteq> set cs \<union> set ws"
proof (induction ws cs p rule: parse_words.induct)
  case (2 w ws cs p)
  show ?case
  proof (cases "classify_word w")
    case None
    then show ?thesis using 2 by auto
  next
    case (Some x)
    obtain fd m n where x: "x = (fd, m, n)" by (cases x)
    show ?thesis
    proof (cases "n < length w")
      case True
      with 2(4) Some x obtain q where "store_word fd m (drop n w) p = Some q" "parse_words ws cs q = Some (cs', p')"
        by (auto split: option.splits)
      with 2(2) [OF Some [unfolded x] refl refl True] show ?thesis by auto
    next
      case False
      with 2(4) Some x obtain path ws' q where "ws = path # ws'" "classify_word path = None"
        "store_word fd m path p = Some q" "parse_words ws' cs q = Some (cs', p')"
        by (cases ws; cases "classify_word (hd ws)") (auto split: option.splits)
      with 2(3) [OF Some [unfolded x] refl refl False, of path ws' q] show ?thesis by auto
    qed
  qed
qed simp

lemma parse_words_plain:
  "list_all (\<lambda>w. classify_word w = None) ws \<Longrightarrow> parse_words ws cs p = Some (cs @ ws, p)"
  by (induction ws arbitrary: cs) auto

lemma parse_line_plain: "list_all (\<lambda>w. classify_word w = None) ws \<Longrightarrow> parse_line ws = Some (ws, empty_plan)"
  by (simp add: parse_line_def parse_words_plain)

lemma parse_line_words:
  assumes "parse_line (line_words t) = Some (cs, p)"
  shows "line_words (join_words cs) = cs"
proof (rule line_words_join)
  have "set cs \<subseteq> set (line_words t)"
    using assms parse_words_words [of "line_words t" "[]" empty_plan] by (auto simp: parse_line_def split: option.splits if_splits)
  then show "is_word w" if "w \<in> set cs" for w using that is_word_line_words by blast
qed

end
