(* ===== verification/Neosh_Exec.thy ===== *)
theory Neosh_Exec
  imports Neosh_Redirect
begin

text \<open>
  Running a command line, \<^verbatim>\<open>src/user/shell/neosh.c\<close> (\<open>neosh_close_redirections\<close> to \<open>neosh_main\<close>):
  opening the redirections, spawning a child, the shell's own \<open>cd -\<close>, the choice between
  parent and child mode, and one round of the command loop.

  The lemmas show that the descriptors of the redirections are opened all or none and
  closed again, that the buffers stay well formed in every state the command loop
  reaches, and what the child process is started with.
\<close>

section \<open>Operations\<close>

definition neosh_redirection_error :: "byte list" where "neosh_redirection_error = message ''REDIR?''"
definition neosh_cd_previous_unset :: "byte list" where
  "neosh_cd_previous_unset = message ''cd: previous directory not set''"
definition neosh_cd_failure :: "byte list" where "neosh_cd_failure = message ''cd: cannot change directory''"

definition close_unless_closed :: "'w neox_os \<Rightarrow> neox_fd_t \<Rightarrow> 'w \<Rightarrow> 'w option" where
  "close_unless_closed os fd w =
     (if fd \<noteq> NEOSH_FD_CLOSED then do { (_, w) \<leftarrow> neox_close os fd w; Some w } else Some w)"

definition neosh_close_redirections :: "'w neox_os \<Rightarrow> neosh_state \<Rightarrow> 'w \<Rightarrow> (neosh_state \<times> 'w) option" where
  "neosh_close_redirections os s w = do {
     w \<leftarrow> close_unless_closed os (neosh_input_fd s) w;
     w \<leftarrow> close_unless_closed os (neosh_output_fd s) w;
     w \<leftarrow> close_unless_closed os (neosh_error_fd s) w;
     Some (s\<lparr>neosh_input_fd := NEOSH_FD_CLOSED, neosh_output_fd := NEOSH_FD_CLOSED,
       neosh_error_fd := NEOSH_FD_CLOSED\<rparr>, w) }"

definition redirection_open_mode :: "neox_fd_t \<Rightarrow> byte \<Rightarrow> neox_open_mode option" where
  "redirection_open_mode fd mode =
     (if mode = NEOSH_REDIR_READ then (if fd \<noteq> NEOX_STDIN_FD then None else Some NEOX_OPEN_READ)
      else if mode = NEOSH_REDIR_TRUNC then
        (if fd \<noteq> NEOX_STDOUT_FD \<and> fd \<noteq> NEOX_STDERR_FD then None else Some NEOX_OPEN_WRITE_TRUNC)
      else if mode = NEOSH_REDIR_APPEND then
        (if fd \<noteq> NEOX_STDOUT_FD \<and> fd \<noteq> NEOX_STDERR_FD then None else Some NEOX_OPEN_READ_WRITE_CREATE)
      else None)"

definition neosh_open_redirection ::
  "'w neox_os \<Rightarrow> neox_fd_t \<Rightarrow> neosh_redirection_t \<Rightarrow> neosh_state \<Rightarrow> 'w
   \<Rightarrow> (neox_status_t \<times> neosh_state \<times> 'w) option" where
  "neosh_open_redirection os fd record s w =
     (case redirection_open_mode fd (redir_mode record) of
        None \<Rightarrow> Some (NEOX_STATUS_EINVAL, s, w)
      | Some open_mode \<Rightarrow> do {
          (status, opened_fd, w) \<leftarrow> neox_open os (cstring (redir_path record)) open_mode w;
          if status \<noteq> NEOX_STATUS_OK then Some (status, s, w)
          else do {
            (status, w) \<leftarrow>
              (if redir_mode record = NEOSH_REDIR_APPEND then do {
                 (status, _, w) \<leftarrow> neox_seek os opened_fd 0 NEOX_SEEK_END w;
                 if status \<noteq> NEOX_STATUS_OK
                 then do { (_, w) \<leftarrow> neox_close os opened_fd w; Some (status, w) }
                 else Some (status, w) }
               else Some (NEOX_STATUS_OK, w));
            if status \<noteq> NEOX_STATUS_OK then Some (status, s, w)
            else Some (NEOX_STATUS_OK,
              if fd = NEOX_STDIN_FD then s\<lparr>neosh_input_fd := opened_fd\<rparr>
              else if fd = NEOX_STDOUT_FD then s\<lparr>neosh_output_fd := opened_fd\<rparr>
              else s\<lparr>neosh_error_fd := opened_fd\<rparr>, w) } })"

text \<open>One of the three stanzas of \<open>neosh_open_redirections\<close>; \<open>None\<close> of the status means go on.\<close>

definition open_requested ::
  "'w neox_os \<Rightarrow> neox_fd_t \<Rightarrow> neosh_redirection_t \<Rightarrow> neosh_state \<Rightarrow> 'w
   \<Rightarrow> (neox_status_t option \<times> neosh_state \<times> 'w) option" where
  "open_requested os fd record s w =
     (if redir_mode record \<noteq> NEOSH_REDIR_NONE then do {
        (status, s, w) \<leftarrow> neosh_open_redirection os fd record s w;
        if status \<noteq> NEOX_STATUS_OK then do {
          (s, w) \<leftarrow> neosh_close_redirections os s w;
          Some (Some status, s, w) }
        else Some (None, s, w) }
      else Some (None, s, w))"

definition neosh_open_redirections ::
  "'w neox_os \<Rightarrow> neosh_state \<Rightarrow> 'w \<Rightarrow> (neox_status_t \<times> neosh_state \<times> 'w) option" where
  "neosh_open_redirections os s w = do {
     (failed, s, w) \<leftarrow> open_requested os NEOX_STDIN_FD (plan_input (neosh_plan s)) s w;
     case failed of Some status \<Rightarrow> Some (status, s, w) | None \<Rightarrow> do {
     (failed, s, w) \<leftarrow> open_requested os NEOX_STDOUT_FD (plan_output (neosh_plan s)) s w;
     case failed of Some status \<Rightarrow> Some (status, s, w) | None \<Rightarrow> do {
     (failed, s, w) \<leftarrow> open_requested os NEOX_STDERR_FD (plan_error (neosh_plan s)) s w;
     case failed of Some status \<Rightarrow> Some (status, s, w) | None \<Rightarrow> Some (NEOX_STATUS_OK, s, w) }}}"

definition neosh_spawn_args :: "neosh_state \<Rightarrow> neox_spawn_resident_args option" where
  "neosh_spawn_args s = do {
     argument_start \<leftarrow> scan_cstring neosh_is_space (nbox_line_buf s) (ucast (nbox_line_idx s));
     arg_len \<leftarrow> neox_applet_string_length (drop (unat argument_start) (nbox_line_buf s));
     Some \<lparr>spawn_entry = neosh_nbox_child_entry,
       launch_id = nbox_launch_id s,
       argument_line = drop (unat argument_start) (nbox_line_buf s),
       argument_length = ucast arg_len,
       stdin_fd = (if neosh_input_fd s = NEOSH_FD_CLOSED then NEOX_STDIN_FD else neosh_input_fd s),
       stdout_fd = (if neosh_output_fd s = NEOSH_FD_CLOSED then NEOX_STDOUT_FD else neosh_output_fd s),
       stderr_fd = (if neosh_error_fd s = NEOSH_FD_CLOSED then NEOX_STDERR_FD else neosh_error_fd s),
       spawn_flags = NEOX_PROC_FLAG_FOREGROUND,
       result_pid = 0xFF\<rparr> }"

definition neosh_execute_child ::
  "'w neox_os \<Rightarrow> neosh_state \<Rightarrow> 'w \<Rightarrow> (neox_status_t \<times> neosh_state \<times> 'w) option" where
  "neosh_execute_child os s w = do {
     spawn_args \<leftarrow> neosh_spawn_args s;
     (status, child_pid, w) \<leftarrow> neox_spawn_resident os spawn_args w;
     (status, child_exit_status, w) \<leftarrow>
       (if status = NEOX_STATUS_OK then neox_waitpid os child_pid w else Some (status, 0, w));
     (s, w) \<leftarrow> neosh_close_redirections os s w;
     if status = NEOX_STATUS_OK \<and> child_exit_status = 0xFE then do {
       (_, w) \<leftarrow> neox_applet_write_string os NEOX_STDOUT_FD neosh_interrupt_notice w;
       Some (status, s, w) }
     else Some (status, s, w) }"

definition neosh_is_cd_dash :: "neosh_state \<Rightarrow> bool option" where
  "neosh_is_cd_dash s = do {
     index \<leftarrow> scan_cstring neosh_is_space (nbox_line_buf s) (ucast (nbox_line_idx s));
     c \<leftarrow> cload (nbox_line_buf s) index;
     if c \<noteq> of_char CHR ''-'' then Some False
     else do {
       index \<leftarrow> scan_cstring neosh_is_space (nbox_line_buf s) (index + 1);
       c \<leftarrow> cload (nbox_line_buf s) index;
       Some (c = 0) } }"

function copy_path_from :: "byte list \<Rightarrow> byte list \<Rightarrow> neox_size_t \<Rightarrow> byte list option" where
  "copy_path_from destination source index =
     (if index < NEOX_PATH_MAX - 1 then do {
        c \<leftarrow> cload source index;
        if c \<noteq> 0 then do {
          destination \<leftarrow> cstore destination index c;
          copy_path_from destination source (index + 1) }
        else cstore destination index 0 }
      else cstore destination index 0)"
  by pat_completeness auto
termination
proof (relation "measure (\<lambda>(destination, source, index). 63 - unat index)", goal_cases)
  case (2 destination source i)
  then show ?case by (auto simp: word_less_nat_alt unat_word_ariths)
qed simp

declare copy_path_from.simps [simp del]

definition neosh_copy_path :: "byte list \<Rightarrow> byte list \<Rightarrow> byte list option" where
  "neosh_copy_path destination source = copy_path_from destination source 0"

definition neosh_execute_cd_dash ::
  "'w neox_os \<Rightarrow> neosh_state \<Rightarrow> 'w \<Rightarrow> (neox_status_t \<times> neosh_state \<times> 'w) option" where
  "neosh_execute_cd_dash os s w =
     (let fail = (\<lambda>text status s w. do { w \<leftarrow> neox_applet_report os text w; Some (status, s, w) }) in
      if neosh_previous_cwd_valid s = 0 then fail neosh_cd_previous_unset NEOX_STATUS_EINVAL s w
      else do {
        (status, current_length, stored, w) \<leftarrow> neox_getcwd os NEOX_PATH_MAX w;
        current_cwd \<leftarrow> cfill (replicate 64 0) stored;
        if status \<noteq> NEOX_STATUS_OK then fail neosh_cd_failure status s w else do {
        (status, w) \<leftarrow> neox_chdir os (cstring (neosh_previous_cwd s)) w;
        if status \<noteq> NEOX_STATUS_OK then fail neosh_cd_failure status s w else do {
        previous \<leftarrow> neosh_copy_path (neosh_previous_cwd s) current_cwd;
        let s = s\<lparr>neosh_previous_cwd := previous, neosh_previous_cwd_valid := 1\<rparr> in do {
        (status, current_length, stored, w) \<leftarrow> neox_getcwd os NEOX_PATH_MAX w;
        current_cwd \<leftarrow> cfill current_cwd stored;
        if status \<noteq> NEOX_STATUS_OK then fail neosh_cd_failure status s w else do {
        (status, w) \<leftarrow> then_ok (neox_applet_write_all os NEOX_STDOUT_FD current_cwd current_length)
          (neox_applet_write_all os NEOX_STDOUT_FD neosh_cr 1) w;
        Some (status, s, w) }}}}})"

definition neosh_execute_cd_parent ::
  "'w neox_os \<Rightarrow> neosh_state \<Rightarrow> 'w \<Rightarrow> (neox_status_t \<times> neosh_state \<times> 'w) option" where
  "neosh_execute_cd_parent os s w = do {
     (status, old_length, stored, w) \<leftarrow> neox_getcwd os NEOX_PATH_MAX w;
     old_cwd \<leftarrow> cfill (replicate 64 0) stored;
     if status \<noteq> NEOX_STATUS_OK then Some (status, s, w) else do {
     (status, w) \<leftarrow> neosh_nbox_dispatch os s w;
     if status = NEOX_STATUS_OK then do {
       previous \<leftarrow> neosh_copy_path (neosh_previous_cwd s) old_cwd;
       Some (status, s\<lparr>neosh_previous_cwd := previous, neosh_previous_cwd_valid := 1\<rparr>, w) }
     else Some (status, s, w) }}"

definition write_notice :: "'w neox_os \<Rightarrow> byte list \<Rightarrow> neosh_state \<Rightarrow> 'w \<Rightarrow> (neosh_state \<times> 'w) option" where
  "write_notice os text s w = do {
     (_, w) \<leftarrow> neox_applet_write_string os NEOX_STDOUT_FD text w;
     Some (s, w) }"

definition neosh_run_parent :: "'w neox_os \<Rightarrow> neosh_state \<Rightarrow> 'w \<Rightarrow> (neosh_state \<times> 'w) option" where
  "neosh_run_parent os s w =
     (if redirection_seen (neosh_plan s) \<noteq> 0 then write_notice os neosh_redirection_error s w
      else if nbox_launch_id s = NBOX_APPLET_CD then do {
        dash \<leftarrow> neosh_is_cd_dash s;
        (_, s, w) \<leftarrow> (if dash then neosh_execute_cd_dash os s w else neosh_execute_cd_parent os s w);
        Some (s, w) }
      else do { (_, w) \<leftarrow> neosh_nbox_dispatch os s w; Some (s, w) })"

definition neosh_run_child :: "'w neox_os \<Rightarrow> neosh_state \<Rightarrow> 'w \<Rightarrow> (neosh_state \<times> 'w) option" where
  "neosh_run_child os s w = do {
     (status, s, w) \<leftarrow> (if redirection_seen (neosh_plan s) \<noteq> 0 then neosh_open_redirections os s w
                       else Some (NEOX_STATUS_OK, s, w));
     if status \<noteq> NEOX_STATUS_OK then write_notice os neosh_redirection_error s w else do {
     (status, s, w) \<leftarrow> neosh_execute_child os s w;
     if status \<noteq> NEOX_STATUS_OK then
       (if redirection_seen (neosh_plan s) \<noteq> 0 then write_notice os neosh_redirection_error s w
        else do { w \<leftarrow> neosh_nbox_print_unknown os w; Some (s, w) })
     else Some (s, w) }}"

definition neosh_execute_line :: "'w neox_os \<Rightarrow> neosh_state \<Rightarrow> 'w \<Rightarrow> (neosh_state \<times> 'w) option" where
  "neosh_execute_line os s w = do {
     (unknown, s) \<leftarrow> neosh_nbox_resolve os s;
     if unknown \<noteq> 0 then do { w \<leftarrow> neosh_nbox_print_unknown os w; Some (s, w) }
     else if nbox_exec_mode s = NBOX_EXEC_NONE then Some (s, w)
     else if nbox_exec_mode s = NBOX_EXEC_PARENT then neosh_run_parent os s w
     else if nbox_exec_mode s \<noteq> NBOX_EXEC_CHILD
     then do { w \<leftarrow> neosh_nbox_print_unknown os w; Some (s, w) }
     else neosh_run_child os s w }"

text \<open>The inner loop of \<open>neosh_main\<close>: read again after an error, give up the line on an interrupt.\<close>

partial_function (option) neosh_read_retry ::
  "'w neox_os \<Rightarrow> neosh_state \<Rightarrow> 'w \<Rightarrow> (neox_size_t \<times> neosh_state \<times> 'w) option" where
  "neosh_read_retry os s w = do {
     (read_status, len, s, w) \<leftarrow> neosh_read_line os s w;
     if read_status = NEOX_STATUS_OK then do { raw_length \<leftarrow> len; Some (raw_length, s, w) }
     else if read_status = NEOX_STATUS_EINTR then do {
       raw \<leftarrow> cstore (neosh_raw_line s) 0 0;
       buf \<leftarrow> cstore (nbox_line_buf s) 0 0;
       (_, w) \<leftarrow> neox_applet_write_string os NEOX_STDOUT_FD neosh_interrupt_notice w;
       Some (0, s\<lparr>neosh_raw_line := raw, nbox_line_buf := buf, nbox_line_len := 0\<rparr>, w) }
     else neosh_read_retry os s w }"

declare neosh_read_retry.simps [code]

text \<open>One round of the outer loop, and the states the loop passes through.\<close>

definition neosh_round :: "'w neox_os \<Rightarrow> neosh_state \<Rightarrow> 'w \<Rightarrow> (neosh_state \<times> 'w) option" where
  "neosh_round os s w = do {
     (s, w) \<leftarrow> neosh_print_prompt os s w;
     (raw_length, s, w) \<leftarrow> neosh_read_retry os s w;
     if raw_length = 0 then Some (s, w)
     else do {
       s \<leftarrow> neosh_clean_line s raw_length;
       (ok, s) \<leftarrow> neosh_parse_redirections s;
       if \<not> ok then write_notice os neosh_redirection_error s w
       else neosh_execute_line os s w } }"

inductive neosh_main :: "'w neox_os \<Rightarrow> neosh_state \<times> 'w \<Rightarrow> neosh_state \<times> 'w \<Rightarrow> bool" for os where
  start: "neosh_main os x x"
| round: "neosh_main os x (s, w) \<Longrightarrow> neosh_round os s w = Some y \<Longrightarrow> neosh_main os x y"

inductive_cases neosh_mainE: "neosh_main os x y"

section \<open>Descriptors of the redirections\<close>

text \<open>The descriptors the shell holds for the redirections of the next child.\<close>

definition held :: "neosh_state \<Rightarrow> neox_fd_t set" where
  "held s = {neosh_input_fd s, neosh_output_fd s, neosh_error_fd s} - {NEOSH_FD_CLOSED}"

definition all_closed :: "neosh_state \<Rightarrow> neosh_state" where
  "all_closed s = s\<lparr>neosh_input_fd := NEOSH_FD_CLOSED, neosh_output_fd := NEOSH_FD_CLOSED,
     neosh_error_fd := NEOSH_FD_CLOSED\<rparr>"

lemma held_all_closed [simp]: "held (all_closed s) = {}"
  by (simp add: held_def all_closed_def)

definition slot :: "neox_fd_t \<Rightarrow> neosh_state \<Rightarrow> neox_fd_t" where
  "slot fd s = (if fd = NEOX_STDIN_FD then neosh_input_fd s
     else if fd = NEOX_STDOUT_FD then neosh_output_fd s else neosh_error_fd s)"

definition set_slot :: "neox_fd_t \<Rightarrow> neox_fd_t \<Rightarrow> neosh_state \<Rightarrow> neosh_state" where
  "set_slot fd x s = (if fd = NEOX_STDIN_FD then s\<lparr>neosh_input_fd := x\<rparr>
     else if fd = NEOX_STDOUT_FD then s\<lparr>neosh_output_fd := x\<rparr> else s\<lparr>neosh_error_fd := x\<rparr>)"

lemma held_set_slot:
  "slot fd s = NEOSH_FD_CLOSED \<Longrightarrow> x \<noteq> NEOSH_FD_CLOSED \<Longrightarrow> held (set_slot fd x s) = insert x (held s)"
  by (auto simp: held_def slot_def set_slot_def split: if_splits)

lemma all_closed_set_slot [simp]: "all_closed (set_slot fd x s) = all_closed s"
  by (simp add: all_closed_def set_slot_def)

lemma set_slot_plan [simp]: "neosh_plan (set_slot fd x s) = neosh_plan s"
  by (simp add: set_slot_def)

context neox_descriptors
begin

lemma close_unless_fds:
  assumes "close_unless_closed os fd w = Some w'" and "inv w"
  shows "inv w' \<and> fds w' = fds w - {fd}"
  using assms fds_valid [OF assms(2)] close_fds [OF assms(2), of fd]
  by (auto simp: close_unless_closed_def bind_eq_Some_conv split: if_splits)

lemma close_redirections_fds:
  assumes "neosh_close_redirections os s w = Some (s', w')" and "inv w"
  shows "inv w'" and "fds w' = fds w - held s" and "s' = all_closed s"
proof -
  obtain w1 w2 where c: "close_unless_closed os (neosh_input_fd s) w = Some w1"
    "close_unless_closed os (neosh_output_fd s) w1 = Some w2"
    "close_unless_closed os (neosh_error_fd s) w2 = Some w'"
    and s': "s' = all_closed s"
    using assms(1) by (auto simp: neosh_close_redirections_def all_closed_def bind_eq_Some_conv)
  note 1 = close_unless_fds [OF c(1) assms(2)]
  note 2 = close_unless_fds [OF c(2) conjunct1 [OF 1]]
  note 3 = close_unless_fds [OF c(3) conjunct1 [OF 2]]
  show "inv w'" using 3 by simp
  show "fds w' = fds w - held s" using 1 2 3 fds_valid [OF assms(2)] by (auto simp: held_def)
  show "s' = all_closed s" by (fact s')
qed

lemma open_redirection_fds:
  assumes "neosh_open_redirection os fd r s w = Some (st, s', w')" and "inv w"
  shows "inv w' \<and> (if st \<noteq> NEOX_STATUS_OK then s' = s \<and> fds w' = fds w
    else \<exists>x. x \<notin> fds w \<and> x \<noteq> NEOSH_FD_CLOSED \<and> fds w' = insert x (fds w) \<and> s' = set_slot fd x s)"
proof (cases "redirection_open_mode fd (redir_mode r)")
  case None
  then show ?thesis using assms by (simp add: neosh_open_redirection_def)
next
  case (Some m)
  obtain st1 x w1 where o: "neox_open os (cstring (redir_path r)) m w = Some (st1, x, w1)"
    using assms(1) Some by (auto simp: neosh_open_redirection_def bind_eq_Some_conv)
  note w1 = open_fds [OF assms(2) o]
  show ?thesis
  proof (cases "st1 = NEOX_STATUS_OK")
    case False
    then show ?thesis using assms(1) Some o w1 by (simp add: neosh_open_redirection_def)
  next
    case True
    have x: "x \<notin> fds w" "x \<noteq> NEOSH_FD_CLOSED" "inv w1" "fds w1 = insert x (fds w)"
      using w1 True fds_valid [of w1] by auto
    show ?thesis
    proof (cases "redir_mode r = NEOSH_REDIR_APPEND")
      case False
      then have "st = NEOX_STATUS_OK" "w' = w1" "s' = set_slot fd x s"
        using assms(1) Some o True by (simp_all add: neosh_open_redirection_def set_slot_def)
      then show ?thesis using x by auto
    next
      case app: True
      obtain st2 pos w2 where sk: "neox_seek os x 0 NEOX_SEEK_END w1 = Some (st2, pos, w2)"
        using assms(1) Some o True app by (auto simp: neosh_open_redirection_def bind_eq_Some_conv)
      note w2 = seek_fds [OF x(3) sk]
      show ?thesis
      proof (cases "st2 = NEOX_STATUS_OK")
        case ok: True
        then have "st = NEOX_STATUS_OK" "w' = w2" "s' = set_slot fd x s"
          using assms(1) Some o True app sk by (simp_all add: neosh_open_redirection_def set_slot_def)
        then show ?thesis using x w2 by auto
      next
        case bad: False
        then obtain st3 w3 where cl: "neox_close os x w2 = Some (st3, w3)" and "w' = w3" "st = st2" "s' = s"
          using assms(1) Some o True app sk by (auto simp: neosh_open_redirection_def bind_eq_Some_conv)
        then show ?thesis using close_fds [OF conjunct1 [OF w2] cl] w2 x bad by auto
      qed
    qed
  qed
qed

text \<open>
  \<open>F\<close> are the descriptors open before the redirections: the shell holds what it has
  opened in addition, and nothing else is open.
\<close>

definition opened :: "neox_fd_t set \<Rightarrow> neosh_state \<Rightarrow> 'w \<Rightarrow> bool" where
  "opened F s w \<longleftrightarrow> inv w \<and> fds w = F \<union> held s \<and> F \<inter> held s = {}"

lemma open_requested_fds:
  assumes "open_requested os fd r s w = Some (failed, s', w')" and "opened F s w"
    and "slot fd s = NEOSH_FD_CLOSED"
  shows "case failed of
      Some st \<Rightarrow> st \<noteq> NEOX_STATUS_OK \<and> inv w' \<and> fds w' = F \<and> s' = all_closed s
    | None \<Rightarrow> opened F s' w' \<and> (s' = s \<or> (\<exists>x. s' = set_slot fd x s))"
proof (cases "redir_mode r = NEOSH_REDIR_NONE")
  case True
  then show ?thesis using assms by (simp add: open_requested_def)
next
  case False
  have inv: "inv w" using assms(2) by (simp add: opened_def)
  obtain st s1 w1 where o: "neosh_open_redirection os fd r s w = Some (st, s1, w1)"
    using assms(1) False by (auto simp: open_requested_def bind_eq_Some_conv)
  note od = open_redirection_fds [OF o inv]
  show ?thesis
  proof (cases "st = NEOX_STATUS_OK")
    case True
    then obtain x where x: "x \<notin> fds w" "x \<noteq> NEOSH_FD_CLOSED" "fds w1 = insert x (fds w)" "s1 = set_slot fd x s"
      and "inv w1" using od by auto
    moreover have "failed = None" "s' = s1" "w' = w1" using assms(1) False True o by (simp_all add: open_requested_def)
    ultimately show ?thesis using assms(2) held_set_slot [OF assms(3) x(2)] by (auto simp: opened_def)
  next
    case bad: False
    then have s1: "s1 = s" "fds w1 = fds w" "inv w1" using od by auto
    obtain s2 w2 where c: "neosh_close_redirections os s w1 = Some (s2, w2)"
      and "failed = Some st" "s' = s2" "w' = w2"
      using assms(1) False o bad s1(1) by (auto simp: open_requested_def bind_eq_Some_conv)
    then show ?thesis using close_redirections_fds [OF c s1(3)] bad s1(2) assms(2) by (auto simp: opened_def)
  qed
qed

text \<open>All requested redirections are open, or none of them is.\<close>

lemma open_redirections_fds:
  assumes "neosh_open_redirections os s w = Some (st, s', w')" and "inv w" and "s = all_closed s"
  shows "if st = NEOX_STATUS_OK then opened (fds w) s' w' \<and> all_closed s' = s
    else inv w' \<and> fds w' = fds w \<and> s' = s"
proof -
  have cl: "slot NEOX_STDIN_FD s = NEOSH_FD_CLOSED" "slot NEOX_STDOUT_FD s = NEOSH_FD_CLOSED"
    "slot NEOX_STDERR_FD s = NEOSH_FD_CLOSED" by (subst assms(3), simp add: slot_def all_closed_def)+
  have op: "opened (fds w) s w" using assms(2) by (subst assms(3)) (simp add: opened_def)
  have ac: "all_closed (set_slot f x s) = s" for f x using assms(3) by simp
  obtain f1 s1 w1 where r1: "open_requested os NEOX_STDIN_FD (plan_input (neosh_plan s)) s w = Some (f1, s1, w1)"
    using assms(1) by (auto simp: neosh_open_redirections_def bind_eq_Some_conv)
  note p1 = open_requested_fds [OF r1 op cl(1)]
  show ?thesis
  proof (cases f1)
    case (Some e)
    then show ?thesis using p1 assms(1) r1 assms(3) by (auto simp: neosh_open_redirections_def)
  next
    case N1: None
    with p1 have o1: "opened (fds w) s1 w1" and s1: "s1 = s \<or> (\<exists>x. s1 = set_slot NEOX_STDIN_FD x s)" by simp_all
    have c1: "all_closed s1 = s" using s1 ac assms(3) by auto
    have c1': "slot NEOX_STDOUT_FD s1 = NEOSH_FD_CLOSED" "slot NEOX_STDERR_FD s1 = NEOSH_FD_CLOSED"
      using s1 cl by (auto simp: slot_def set_slot_def)
    obtain f2 s2 w2 where r2: "open_requested os NEOX_STDOUT_FD (plan_output (neosh_plan s1)) s1 w1 = Some (f2, s2, w2)"
      using assms(1) r1 N1 by (auto simp: neosh_open_redirections_def bind_eq_Some_conv)
    note p2 = open_requested_fds [OF r2 o1 c1'(1)]
    show ?thesis
    proof (cases f2)
      case (Some e)
      then show ?thesis using p2 assms(1) r1 r2 N1 c1 by (auto simp: neosh_open_redirections_def)
    next
      case N2: None
      with p2 have o2: "opened (fds w) s2 w2" and s2: "s2 = s1 \<or> (\<exists>x. s2 = set_slot NEOX_STDOUT_FD x s1)" by simp_all
      have c2: "all_closed s2 = s" using s2 c1 by auto
      have c2': "slot NEOX_STDERR_FD s2 = NEOSH_FD_CLOSED" using s2 c1' by (auto simp: slot_def set_slot_def)
      obtain f3 s3 w3 where r3: "open_requested os NEOX_STDERR_FD (plan_error (neosh_plan s2)) s2 w2 = Some (f3, s3, w3)"
        using assms(1) r1 N1 r2 N2 by (auto simp: neosh_open_redirections_def bind_eq_Some_conv)
      note p3 = open_requested_fds [OF r3 o2 c2']
      show ?thesis
        using p3 assms(1) r1 N1 r2 N2 r3 c2
        by (cases f3) (auto simp: neosh_open_redirections_def split: if_splits)
    qed
  qed
qed

end

section \<open>Buffers stay well formed\<close>

lemma neosh_wf_resolved [simp]: "neosh_wf (resolved s m l i k) = neosh_wf s"
  by (simp add: neosh_wf_def resolved_def)

lemma resolve_wf: "neosh_nbox_resolve os s = Some (r, s') \<Longrightarrow> neosh_wf s \<Longrightarrow> neosh_wf s'"
  using nbox_resolve_frame [of os s r s'] by auto

lemma neosh_wf_all_closed [simp]: "neosh_wf (all_closed s) = neosh_wf s"
  by (simp add: neosh_wf_def all_closed_def)

lemma neosh_wf_set_slot [simp]: "neosh_wf (set_slot fd x s) = neosh_wf s"
  by (simp add: neosh_wf_def set_slot_def)

lemma close_redirections_frame:
  "neosh_close_redirections os s w = Some (s', w') \<Longrightarrow> s' = all_closed s"
  by (auto simp: neosh_close_redirections_def all_closed_def bind_eq_Some_conv)

lemma open_redirection_frame:
  assumes "neosh_open_redirection os fd r s w = Some (st, s', w')"
  shows "s' = s \<or> (\<exists>x. s' = set_slot fd x s)"
proof (cases "redirection_open_mode fd (redir_mode r)")
  case (Some m)
  obtain st1 x w1 where o: "neox_open os (cstring (redir_path r)) m w = Some (st1, x, w1)"
    using assms Some by (auto simp: neosh_open_redirection_def bind_eq_Some_conv)
  show ?thesis
  proof (cases "st1 = NEOX_STATUS_OK")
    case True
    let ?k = "if redir_mode r = NEOSH_REDIR_APPEND then do {
        (status, _, w) \<leftarrow> neox_seek os x 0 NEOX_SEEK_END w1;
        if status \<noteq> NEOX_STATUS_OK then do { (_, w) \<leftarrow> neox_close os x w; Some (status, w) }
        else Some (status, w) }
      else Some (NEOX_STATUS_OK, w1)"
    obtain st2 w2 where "?k = Some (st2, w2)"
      using assms Some o True by (cases ?k) (auto simp: neosh_open_redirection_def)
    then have "s' = (if st2 \<noteq> NEOX_STATUS_OK then s else set_slot fd x s)"
      using assms Some o True by (auto simp: neosh_open_redirection_def set_slot_def split: if_splits)
    then show ?thesis by auto
  qed (use assms Some o in \<open>simp add: neosh_open_redirection_def\<close>)
qed (use assms in \<open>simp add: neosh_open_redirection_def\<close>)

lemma open_requested_wf:
  assumes "open_requested os fd r s w = Some (f, s', w')" and "neosh_wf s"
  shows "neosh_wf s'" and "neosh_plan s' = neosh_plan s"
proof -
  have "neosh_wf s' \<and> neosh_plan s' = neosh_plan s"
  proof (cases "redir_mode r = NEOSH_REDIR_NONE")
    case True
    then show ?thesis using assms by (simp add: open_requested_def)
  next
    case False
    obtain st s1 w1 where o: "neosh_open_redirection os fd r s w = Some (st, s1, w1)"
      using assms(1) False by (auto simp: open_requested_def bind_eq_Some_conv)
    have s1: "neosh_wf s1" "neosh_plan s1 = neosh_plan s" using open_redirection_frame [OF o] assms(2) by auto
    have "s' = s1 \<or> s' = all_closed s1"
      using assms(1) False o by (auto simp: open_requested_def bind_eq_Some_conv dest: close_redirections_frame split: if_splits)
    then show ?thesis using s1 by (auto simp: all_closed_def neosh_wf_def)
  qed
  then show "neosh_wf s'" and "neosh_plan s' = neosh_plan s" by simp_all
qed

lemma open_redirections_wf:
  assumes "neosh_open_redirections os s w = Some (st, s', w')" and "neosh_wf s"
  shows "neosh_wf s'"
  using assms
  by (auto simp: neosh_open_redirections_def bind_eq_Some_conv split: option.splits dest!: open_requested_wf(1))

lemma execute_child_wf:
  "neosh_execute_child os s w = Some (st, s', w') \<Longrightarrow> neosh_wf s \<Longrightarrow> neosh_wf s'"
  by (auto simp: neosh_execute_child_def bind_eq_Some_conv dest!: close_redirections_frame split: if_splits)

lemma copy_path_from_wf:
  "copy_path_from d src i = Some d' \<Longrightarrow> length d' = length d \<and> terminated d'"
proof (induction d src i rule: copy_path_from.induct)
  case (1 d src i)
  have stop: "cstore d i 0 = Some d' \<Longrightarrow> length d' = length d \<and> terminated d'"
    by (auto simp: cstore_def terminated_update_0 split: if_splits)
  show ?case
  proof (cases "i < 63")
    case False
    then show ?thesis using "1.prems" stop by (subst (asm) copy_path_from.simps) simp
  next
    case True
    then obtain c where c: "cload src i = Some c"
      using "1.prems" by (subst (asm) copy_path_from.simps) (auto simp: bind_eq_Some_conv)
    show ?thesis
    proof (cases "c = 0")
      case z: True
      then show ?thesis using True c "1.prems" stop by (subst (asm) copy_path_from.simps) simp
    next
      case False
      then obtain b where b: "cstore d i c = Some b" "copy_path_from b src (i + 1) = Some d'"
        using True c "1.prems" by (subst (asm) copy_path_from.simps) (auto simp: bind_eq_Some_conv)
      have "i < NEOX_PATH_MAX - 1" using True by simp
      from "1.IH" [OF this c False b] length_cstore [OF b(1)] show ?thesis by simp
    qed
  qed
qed

lemma previous_cwd_wf:
  assumes "neosh_copy_path (neosh_previous_cwd s) src = Some p" and "neosh_wf s"
  shows "neosh_wf (s\<lparr>neosh_previous_cwd := p, neosh_previous_cwd_valid := 1\<rparr>)"
  using copy_path_from_wf [of "neosh_previous_cwd s" src 0 p] assms
  by (simp add: neosh_copy_path_def neosh_wf_def)

lemma execute_cd_dash_wf:
  assumes "neosh_execute_cd_dash os s w = Some (st, s', w')" and "neosh_wf s"
  shows "neosh_wf s'"
proof (cases "neosh_previous_cwd_valid s = 0")
  case True
  then show ?thesis using assms by (auto simp: neosh_execute_cd_dash_def Let_def bind_eq_Some_conv)
next
  case False
  have "s' = s \<or> (\<exists>src p. neosh_copy_path (neosh_previous_cwd s) src = Some p \<and>
      s' = s\<lparr>neosh_previous_cwd := p, neosh_previous_cwd_valid := 1\<rparr>)"
    using assms(1) False
    by (auto simp: neosh_execute_cd_dash_def Let_def bind_eq_Some_conv split: if_splits)
  then show ?thesis using assms(2) previous_cwd_wf by blast
qed

lemma execute_cd_parent_wf:
  assumes "neosh_execute_cd_parent os s w = Some (st, s', w')" and "neosh_wf s"
  shows "neosh_wf s'"
proof -
  have "s' = s \<or> (\<exists>src p. neosh_copy_path (neosh_previous_cwd s) src = Some p \<and>
      s' = s\<lparr>neosh_previous_cwd := p, neosh_previous_cwd_valid := 1\<rparr>)"
    using assms(1)
    by (auto simp: neosh_execute_cd_parent_def Let_def bind_eq_Some_conv split: if_splits)
  then show ?thesis using assms(2) previous_cwd_wf by blast
qed

lemma write_notice_frame: "write_notice os text s w = Some (s', w') \<Longrightarrow> s' = s"
  by (auto simp: write_notice_def bind_eq_Some_conv)

lemma run_parent_wf:
  assumes "neosh_run_parent os s w = Some (s', w')" and "neosh_wf s"
  shows "neosh_wf s'"
proof -
  consider "s' = s" | st where "neosh_execute_cd_dash os s w = Some (st, s', w')"
    | st where "neosh_execute_cd_parent os s w = Some (st, s', w')"
    using assms(1)
    by (auto simp: neosh_run_parent_def bind_eq_Some_conv dest: write_notice_frame split: if_splits)
  then show ?thesis
    by cases (use assms(2) in \<open>auto dest: execute_cd_dash_wf execute_cd_parent_wf\<close>)
qed

lemma run_child_wf:
  assumes "neosh_run_child os s w = Some (s', w')" and "neosh_wf s"
  shows "neosh_wf s'"
proof -
  obtain st s1 w1 where o: "(if redirection_seen (neosh_plan s) \<noteq> 0 then neosh_open_redirections os s w
      else Some (NEOX_STATUS_OK, s, w)) = Some (st, s1, w1)"
    using assms(1) by (auto simp: neosh_run_child_def bind_eq_Some_conv)
  have s1: "neosh_wf s1" using o assms(2) by (auto split: if_splits dest: open_redirections_wf)
  show ?thesis
  proof (cases "st = NEOX_STATUS_OK")
    case False
    then have "s' = s1" using assms(1) o by (auto simp: neosh_run_child_def dest: write_notice_frame)
    then show ?thesis using s1 by simp
  next
    case True
    then obtain st2 s2 w2 where e: "neosh_execute_child os s1 w1 = Some (st2, s2, w2)"
      using assms(1) o by (auto simp: neosh_run_child_def bind_eq_Some_conv)
    then have "s' = s2"
      using assms(1) o True
      by (auto simp: neosh_run_child_def bind_eq_Some_conv dest: write_notice_frame split: if_splits)
    then show ?thesis using execute_child_wf [OF e s1] by simp
  qed
qed

lemma execute_line_wf:
  assumes "neosh_execute_line os s w = Some (s', w')" and "neosh_wf s"
  shows "neosh_wf s'"
proof -
  obtain u s1 where r: "neosh_nbox_resolve os s = Some (u, s1)"
    using assms(1) by (auto simp: neosh_execute_line_def bind_eq_Some_conv)
  have s1: "neosh_wf s1" by (rule resolve_wf [OF r assms(2)])
  have "s' = s1 \<or> neosh_run_parent os s1 w = Some (s', w') \<or> neosh_run_child os s1 w = Some (s', w')"
    using assms(1) r by (auto simp: neosh_execute_line_def bind_eq_Some_conv split: if_splits)
  then show ?thesis using s1 by (auto dest: run_parent_wf run_child_wf)
qed

lemma read_retry_wf:
  assumes "neosh_read_retry os s w = Some (n, s', w')" and "neosh_wf s"
  shows "neosh_wf s'" and "unat n \<le> 63"
proof -
  have "neosh_wf s \<longrightarrow> neosh_wf (fst (snd r)) \<and> unat (fst r) \<le> 63"
    if "neosh_read_retry os s w = Some r" for r
    using that
  proof (rule neosh_read_retry.raw_induct [rotated], goal_cases)
    case (1 f os s w r)
    show ?case
    proof
      assume wf: "neosh_wf s"
      obtain st len s1 w1 where rd: "neosh_read_line os s w = Some (st, len, s1, w1)"
        using 1(2) by (auto simp: bind_eq_Some_conv)
      note s1 = read_line_wf [OF wf rd]
      consider (ok) "st = NEOX_STATUS_OK" | (intr) "st = NEOX_STATUS_EINTR" | (again) "st \<noteq> NEOX_STATUS_OK" "st \<noteq> NEOX_STATUS_EINTR"
        by auto
      then show "neosh_wf (fst (snd r)) \<and> unat (fst r) \<le> 63"
      proof cases
        case ok
        then show ?thesis using 1(2) rd s1 by auto
      next
        case intr
        then obtain raw buf where "cstore (neosh_raw_line s1) 0 0 = Some raw" "cstore (nbox_line_buf s1) 0 0 = Some buf"
          and r: "\<exists>w2. r = (0, s1\<lparr>neosh_raw_line := raw, nbox_line_buf := buf, nbox_line_len := 0\<rparr>, w2)"
          using 1(2) rd by (auto simp: bind_eq_Some_conv)
        then have "length raw = 64" "length buf = 64"
          using s1(1) by (auto simp: neosh_wf_def dest!: length_cstore)
        then show ?thesis using r s1(1) by (auto simp: neosh_wf_def)
      next
        case again
        then show ?thesis using 1(1) [of os s1 w1 r] 1(2) rd s1(1) by simp
      qed
    qed
  qed
  from this [OF assms(1)] assms(2) show "neosh_wf s'" and "unat n \<le> 63" by simp_all
qed

lemma neosh_round_wf:
  assumes "neosh_round os s w = Some (s', w')" and "neosh_wf s"
  shows "neosh_wf s'"
proof -
  obtain s1 w1 n s2 w2 where p: "neosh_print_prompt os s w = Some (s1, w1)"
    and r: "neosh_read_retry os s1 w1 = Some (n, s2, w2)"
    using assms(1) by (auto simp: neosh_round_def bind_eq_Some_conv)
  note s2 = read_retry_wf [OF r print_prompt_wf(1) [OF assms(2) p]]
  show ?thesis
  proof (cases "n = 0")
    case True
    then show ?thesis using assms(1) p r s2 by (simp add: neosh_round_def)
  next
    case False
    obtain s3 where c: "neosh_clean_line s2 n = Some s3" "neosh_wf s3" "nbox_wf s3"
      by (rule clean_line_text [OF s2])
    obtain ok s4 where pr: "neosh_parse_redirections s3 = Some (ok, s4)" and s4: "neosh_wf s4"
      using parse_redirections_refines [OF c(2,3)]
      by (cases "parse_line (line_words (nbox_text s3))") (auto simp: parsed_def)
    have "s' = s4 \<or> neosh_execute_line os s4 w2 = Some (s', w')"
      using assms(1) p r False c(1) pr
      by (auto simp: neosh_round_def dest: write_notice_frame split: if_splits)
    then show ?thesis using s4 by (auto dest: execute_line_wf)
  qed
qed

lemma neosh_main_wf: "neosh_main os x y \<Longrightarrow> neosh_wf (fst x) \<Longrightarrow> neosh_wf (fst y)"
proof (induction rule: neosh_main.induct)
  case (round x s w y)
  then show ?case using neosh_round_wf [of os s w "fst y" "snd y"] by simp
qed

section \<open>What a child is started with\<close>

text \<open>
  The line of the spawn request has the words behind the command word, so a child that
  loads it into its line buffer sees the arguments of the command.
\<close>

lemma spawn_args_line:
  assumes wf: "nbox_wf s" and n: "unat (nbox_line_idx s) \<le> length (nbox_text s)"
    and ws: "line_words (drop (unat (nbox_line_idx s)) (nbox_text s)) = ws"
  obtains a where "neosh_spawn_args s = Some a" and "launch_id a = nbox_launch_id s"
    and "unat (argument_length a) = length (cstring (argument_line a))"
    and "unat (argument_length a) < 64" and "terminated (argument_line a)"
    and "line_words (cstring (argument_line a)) = ws"
proof -
  note wd = nbox_wfD [OF wf]
  let ?n = "unat (nbox_line_idx s)"
  let ?b = "nbox_line_buf s"
  define i where "i = skip neox_arg_is_separator (nbox_text s) ?n"
  have il: "i \<le> length (nbox_text s)" unfolding i_def by (rule skip_le [OF n])
  have i64: "i < 64" using il wd(2,3) by simp
  have t: "terminated ?b" "length ?b \<le> 65536" using wf by (simp_all add: nbox_wf_def)
  have n16: "(ucast (nbox_line_idx s) :: neox_size_t) = of_nat ?n" by (simp add: of_nat_unat)
  have sc: "scan_cstring neosh_is_space ?b (ucast (nbox_line_idx s)) = Some (of_nat i)"
    unfolding n16 using scan_cstring_of_nat [OF t, of ?n neosh_is_space] n
    by (simp add: i_def nbox_text_def neosh_is_space_eq)
  have eq: "?b = nbox_text s @ 0 # drop (Suc (length (nbox_text s))) ?b"
    using wd(1,2,3,5) nth_length_cstring [OF t(1)]
    by (metis Cons_nth_drop_Suc append_take_drop_id nbox_text_def)
  have "drop i ?b = drop i (nbox_text s) @ 0 # drop (Suc (length (nbox_text s))) ?b"
    by (subst eq) (simp add: il)
  moreover have nz: "0 \<notin> set (drop i (nbox_text s))" using wd(6) by (auto dest: in_set_dropD)
  ultimately have cs: "cstring (drop i ?b) = drop i (nbox_text s)" and tr: "terminated (drop i ?b)"
    by (simp_all add: cstring_id)
  have ln: "neox_applet_string_length (drop i ?b) = Some (of_nat (length (drop i (nbox_text s))))"
    using string_length_cstring [OF tr] wd(5) by (simp add: cs)
  have l64: "length (drop i (nbox_text s)) < 64" using wd(2,3) by simp
  then have u8: "unat (ucast (of_nat (length (drop i (nbox_text s))) :: neox_size_t) :: byte) = length (drop i (nbox_text s))"
    by (subst ucast_byte_of_nat) (simp_all add: unat_of_nat take_bit_eq_mod)
  have w: "line_words (drop i (nbox_text s)) = ws"
    using ws words_of_dropWhile [of neox_arg_is_separator "drop ?n (nbox_text s)"] by (simp add: i_def drop_skip)
  let ?a = "\<lparr>spawn_entry = neosh_nbox_child_entry, launch_id = nbox_launch_id s, argument_line = drop i ?b,
      argument_length = ucast (of_nat (length (drop i (nbox_text s))) :: neox_size_t),
      stdin_fd = (if neosh_input_fd s = NEOSH_FD_CLOSED then NEOX_STDIN_FD else neosh_input_fd s),
      stdout_fd = (if neosh_output_fd s = NEOSH_FD_CLOSED then NEOX_STDOUT_FD else neosh_output_fd s),
      stderr_fd = (if neosh_error_fd s = NEOSH_FD_CLOSED then NEOX_STDERR_FD else neosh_error_fd s),
      spawn_flags = NEOX_PROC_FLAG_FOREGROUND, result_pid = 0xFF\<rparr>"
  have "neosh_spawn_args s = Some ?a" using sc ln i64 by (simp add: neosh_spawn_args_def)
  then show ?thesis using that [of ?a] u8 cs tr w l64 by simp
qed

end
