(* ===== verification/System_Os.thy ===== *)
theory System_Os
  imports Kernel_Boot Kernel_Contract Applet_Process Neosh_Exec
begin

text \<open>
  The programs on the whole system: the record of calls of \<open>Kernel_Os\<close> completed by the process
  calls of \<open>Kernel_Proc\<close>, with the wrappers of \<^verbatim>\<open>src/libneox/cc65\<close> (spawn, waitpid, signal, process
  information). A pass that puts the caller to sleep is repeated when the caller runs again;
  what the rest of the system does until then is the parameter \<open>env\<close>, and the call does not
  return when the caller never runs again.

  The lemmas: every pass of a call is a step of the system, so that a call that returns has
  the effect of its last pass in a state that the system has reached; the shell comes back
  from a child only after the child has ended; ps prints a row for every process there is.
\<close>

section \<open>The process calls\<close>

fun proc_answer :: "'a proc_pass \<Rightarrow> 'a option" where
  "proc_answer (Proc_Finished x) = Some x"
| "proc_answer Proc_Blocked = None"

partial_function (option) process_call ::
  "('r system \<Rightarrow> 'r system option) \<Rightarrow> ('r system \<Rightarrow> ('a proc_pass \<times> 'r system) option) \<Rightarrow> 'r system
   \<Rightarrow> ('a \<times> 'r system) option" where
  "process_call env f y = do {
     (res, y) \<leftarrow> f y;
     case proc_answer res of
       Some x \<Rightarrow> Some (x, y)
     | None \<Rightarrow> do { y \<leftarrow> env y; process_call env f y } }"

declare process_call.simps [code]

definition as_call :: "'a \<Rightarrow> ((byte + 'a) \<times> 'w) option \<Rightarrow> (neox_status_t \<times> 'a \<times> 'w) option" where
  "as_call default_result r = map_option (\<lambda>(res, w). case res of Inl e \<Rightarrow> (e, default_result, w) | Inr x \<Rightarrow> (NEOX_STATUS_OK, x, w)) r"

lemma as_call_Some: "as_call d r = Some (st, x, w) \<longleftrightarrow> r = Some (Inr x, w) \<and> st = NEOX_STATUS_OK \<or> r = Some (Inl st, w) \<and> x = d"
  by (cases r; cases "fst (the r)") (auto simp: as_call_def)

definition empty_info :: neox_process_info where
  "empty_info = \<lparr>pid = 0, parent_pid = 0, proc_state = 0, wait_reason = 0, signal_pending = 0, wait_object = 0, held_gate_mask = 0\<rparr>"

text \<open>A process that kills itself yields and never runs again.\<close>

definition signal_call ::
  "('r system \<Rightarrow> 'r system option) \<Rightarrow> neox_pid_t \<Rightarrow> neox_pid_t \<Rightarrow> byte \<Rightarrow> 'r system \<Rightarrow> (neox_status_t \<times> 'r system) option" where
  "signal_call env task x signal y = do {
     (res, y) \<leftarrow> process_call env (ksys_signal task x signal) y;
     case res of
       Inl e \<Rightarrow> Some (e, y)
     | Inr _ \<Rightarrow> if signal = SIG_KILL \<and> x = task then None else Some (NEOX_STATUS_OK, y) }"

text \<open>The process calls alone; \<open>kernel_os\<close> provides the others.\<close>

definition process_base ::
  "'r rp2350 \<Rightarrow> ('r system \<Rightarrow> 'r system option) \<Rightarrow> (neox_process_entry \<Rightarrow> 16 word) \<Rightarrow> neox_pid_t \<Rightarrow> 'r system neox_os" where
  "process_base rp env address task = \<lparr>
     neox_open = (\<lambda>_ _ _. None), neox_read = (\<lambda>_ _ _. None), neox_write = (\<lambda>_ _ _. None), neox_seek = (\<lambda>_ _ _ _. None),
     neox_close = (\<lambda>_ _. None), neox_delete = (\<lambda>_ _. None), neox_mkdir = (\<lambda>_ _. None), neox_rmdir = (\<lambda>_ _. None),
     neox_rename = (\<lambda>_ _ _. None), neox_chdir = (\<lambda>_ _. None), neox_getcwd = (\<lambda>_ _. None), neox_opendir = (\<lambda>_ _. None),
     neox_readdir = (\<lambda>_ _. None), neox_closedir = (\<lambda>_ _. None),
     neox_spawn_resident = (\<lambda>args y.
       as_call 0xFF (process_call env (ksys_spawn_resident rp task (address (spawn_entry args)) args) y)),
     neox_waitpid = (\<lambda>x y. as_call 0 (process_call env (ksys_waitpid rp task x) y)),
     neox_get_process_info = (\<lambda>x y. as_call empty_info (Some (ksys_getprocinfo x y, y))),
     neox_signal = signal_call env task\<rparr>"

definition system_os ::
  "'r rp2350 \<Rightarrow> ('r system \<Rightarrow> 'r system option) \<Rightarrow> (neox_process_entry \<Rightarrow> 16 word) \<Rightarrow> neox_pid_t \<Rightarrow> 'r system neox_os" where
  "system_os rp env address task = kernel_os rp task (process_base rp env address task)"

lemma system_os_sel [simp]:
  "neox_spawn_resident (system_os rp env address task) args y =
     as_call 0xFF (process_call env (ksys_spawn_resident rp task (address (spawn_entry args)) args) y)"
  "neox_waitpid (system_os rp env address task) x y = as_call 0 (process_call env (ksys_waitpid rp task x) y)"
  "neox_get_process_info (system_os rp env address task) x y = as_call empty_info (Some (ksys_getprocinfo x y, y))"
  "neox_signal (system_os rp env address task) x signal y = signal_call env task x signal y"
  by (simp_all add: system_os_def kernel_os_def process_base_def)

section \<open>Waiting\<close>

text \<open>The rest of the system runs until the process runs again.\<close>

definition resumes :: "'r rp2350 \<Rightarrow> neox_pid_t \<Rightarrow> ('r system \<Rightarrow> 'r system option) \<Rightarrow> bool" where
  "resumes rp p env \<longleftrightarrow> (\<forall>y y'. env y = Some y' \<longrightarrow> (system_step rp)\<^sup>*\<^sup>* y y' \<and> runs p y')"

text \<open>A call that returns has the effect of its last pass.\<close>

lemma process_call_last:
  assumes "process_call env f y = Some (x, y')" and "resumes rp p env" and "runs p y"
    and pass: "\<And>y res y'. runs p y \<Longrightarrow> f y = Some (res, y') \<Longrightarrow> system_step rp y y'"
  shows "\<exists>y1. (system_step rp)\<^sup>*\<^sup>* y y1 \<and> runs p y1 \<and> f y1 = Some (Proc_Finished x, y')"
proof -
  define Q where "Q env' f' y r \<longleftrightarrow> (env' = env \<and> f' = f \<and> runs p y \<longrightarrow>
    (\<exists>y1. (system_step rp)\<^sup>*\<^sup>* y y1 \<and> runs p y1 \<and> f y1 = Some (Proc_Finished (fst r), snd r)))" for env' f' y r
  have "Q env f y (x, y')"
  proof (rule process_call.raw_induct [where P = Q, OF _ assms(1)])
    fix call env' f' y r
    assume IH: "\<And>env' f' y r. call env' f' y = Some r \<Longrightarrow> Q env' f' y r"
      and step: "f' y \<bind> (\<lambda>(res, y). case proc_answer res of None \<Rightarrow> env' y \<bind> call env' f' | Some x \<Rightarrow> Some (x, y)) = Some r"
    show "Q env' f' y r" unfolding Q_def
    proof (intro impI, elim conjE)
      assume e: "env' = env" "f' = f" and r: "runs p y"
      obtain res y1 where f: "f y = Some (res, y1)"
        and next_pass: "(case proc_answer res of None \<Rightarrow> env y1 \<bind> call env f | Some x \<Rightarrow> Some (x, y1)) = Some r"
        using step e by (auto simp: bind_eq_Some_conv)
      show "\<exists>y1. (system_step rp)\<^sup>*\<^sup>* y y1 \<and> runs p y1 \<and> f y1 = Some (Proc_Finished (fst r), snd r)"
      proof (cases res)
        case (Proc_Finished a)
        then show ?thesis using next_pass f r by (intro exI [of _ y]) auto
      next
        case Proc_Blocked
        then obtain y2 where y2: "env y1 = Some y2" "call env f y2 = Some r" using next_pass by (auto simp: bind_eq_Some_conv)
        have s2: "(system_step rp)\<^sup>*\<^sup>* y1 y2" "runs p y2" using assms(2) y2(1) by (auto simp: resumes_def)
        obtain y3 where "(system_step rp)\<^sup>*\<^sup>* y2 y3" "runs p y3" "f y3 = Some (Proc_Finished (fst r), snd r)"
          using IH [OF y2(2)] s2(2) by (auto simp: Q_def)
        moreover have "system_step rp y y1" by (rule pass [OF r f])
        ultimately show ?thesis using s2(1) by (meson converse_rtranclp_into_rtranclp rtranclp_trans)
      qed
    qed
  qed
  then show ?thesis using assms(3) by (simp add: Q_def)
qed

lemma process_call_free: "f y = Some (Proc_Finished x, y') \<Longrightarrow> process_call env f y = Some (x, y')"
  by (simp add: process_call.simps)

text \<open>The passes of the calls.\<close>

lemmas call_passes = system_step.spawn system_step.waitpid system_step.signal

text \<open>The states of the caller between its passes, as long as it waits.\<close>

fun waits :: "('r system \<Rightarrow> 'r system option) \<Rightarrow> ('r system \<Rightarrow> ('a proc_pass \<times> 'r system) option) \<Rightarrow> nat \<Rightarrow> 'r system \<Rightarrow> 'r system option" where
  "waits env f 0 y = Some y"
| "waits env f (Suc n) y = do {
     (res, y) \<leftarrow> f y;
     case proc_answer res of Some x \<Rightarrow> None | None \<Rightarrow> do { y \<leftarrow> env y; waits env f n y } }"

lemma process_call_waits: "waits env f n y = Some y1 \<Longrightarrow> process_call env f y = process_call env f y1"
proof (induction n arbitrary: y)
  case (Suc n)
  then obtain res y2 where f: "f y = Some (res, y2)"
    and r: "(case proc_answer res of Some x \<Rightarrow> None | None \<Rightarrow> env y2 \<bind> waits env f n) = Some y1"
    by (auto simp: bind_eq_Some_conv)
  then have a: "proc_answer res = None" by (cases "proc_answer res") simp_all
  then obtain y3 where y3: "env y2 = Some y3" "waits env f n y3 = Some y1" using r by (auto simp: bind_eq_Some_conv)
  have "process_call env f y = process_call env f y3" by (subst process_call.simps) (simp add: f a y3(1))
  then show ?case using Suc.IH [OF y3(2)] by simp
qed simp

section \<open>Waiting for a child\<close>

lemma waitpid_returns:
  assumes "ksys_waitpid rp p x y = Some (Proc_Finished (Inr code), y')"
  shows "state_of y x = PROC_ZOMBIE \<and> proc_parent_pid y ! unat x = p \<and> code = proc_exit_code y ! unat x \<and> normal x"
  using assms unfolding ksys_waitpid_def
proof (cases rule: with_proc_gate_cases)
  case (Acquired g y1 g')
  then show ?thesis unfolding normal_iff_guard
    by (auto simp: waitpid_locked_def proc_reap_waited_child_def Let_def bind_eq_Some_conv split: if_splits option.splits)
qed simp_all

lemma waitpid_error:
  assumes "ksys_waitpid rp p x y = Some (Proc_Finished (Inl e), y')"
  shows "e \<noteq> NEOX_STATUS_OK"
  using assms unfolding ksys_waitpid_def
proof (cases rule: with_proc_gate_cases)
  case (Acquired g y1 g')
  then show ?thesis by (auto simp: waitpid_locked_def bind_eq_Some_conv split: if_splits option.splits)
qed simp_all

text \<open>The call returns at the first pass that finds the child ended.\<close>

lemma waitpid_call_returns:
  assumes "waits env (ksys_waitpid rp p x) n y = Some y1" and "ksys_waitpid rp p x y1 = Some (Proc_Finished (Inr code), y')"
  shows "neox_waitpid (system_os rp env address p) x y = Some (NEOX_STATUS_OK, code, y')"
  using process_call_waits [OF assms(1)] process_call_free [of "ksys_waitpid rp p x", OF assms(2), of env] by (simp add: as_call_def)

lemma spawn_keeps_running:
  assumes "ksys_spawn_resident rp p en args y = Some (Proc_Finished r, y')" and "system_inv y" and "runs p y"
  shows "runs p y'"
proof -
  have "bystanders (live_pids y) y y'" using spawn_result [OF assms(1,2) runs_live [OF assms(3)]] by blast
  then show ?thesis using runs_live [OF assms(3)] assms(3) by (auto simp: bystanders_def runs_def)
qed

text \<open>
  When the shell comes back from a child with the status OK, the child it started has ended,
  and the exit code it has got is that of this child.
\<close>

lemma execute_child_waits:
  assumes "neosh_execute_child (system_os rp env address p) s y = Some (NEOX_STATUS_OK, s', y')" and "neosh_spawn_args s = Some args"
    and "resumes rp p env" and "runs p y" and "system_inv y"
  shows "\<exists>x y0 y1 y2 y3. (system_step rp)\<^sup>*\<^sup>* y y0
    \<and> ksys_spawn_resident rp p (address (spawn_entry args)) args y0 = Some (Proc_Finished (Inr x), y1)
    \<and> x \<notin> live_pids y0 \<and> spawned p (address (spawn_entry args)) args x y0 y1
    \<and> (system_step rp)\<^sup>*\<^sup>* y1 y2 \<and> state_of y2 x = PROC_ZOMBIE \<and> proc_parent_pid y2 ! unat x = p
    \<and> ksys_waitpid rp p x y2 = Some (Proc_Finished (Inr (proc_exit_code y2 ! unat x)), y3)"
proof -
  let ?spawn = "ksys_spawn_resident rp p (address (spawn_entry args)) args"
  obtain st x y1 where sp: "as_call 0xFF (process_call env ?spawn y) = Some (st, x, y1)"
    and rest: "st = NEOX_STATUS_OK \<longrightarrow> (\<exists>code y3. as_call 0 (process_call env (ksys_waitpid rp p x) y1) = Some (NEOX_STATUS_OK, code, y3))"
    and ok: "st = NEOX_STATUS_OK"
    using assms(1,2) by (auto simp: neosh_execute_child_def bind_eq_Some_conv split: if_splits)
  obtain res where c: "process_call env ?spawn y = Some (res, y1)"
    and res: "res = Inr x \<or> (\<exists>e. res = Inl e \<and> x = 0xFF)"
    using sp by (auto simp: as_call_Some)
  obtain y0 where y0: "(system_step rp)\<^sup>*\<^sup>* y y0" "runs p y0" "?spawn y0 = Some (Proc_Finished res, y1)"
    using process_call_last [OF c assms(3,4)] system_step.spawn by metis
  have i0: "system_inv y0" by (rule system_steps_inv [OF y0(1) assms(5)])
  have r1: "runs p y1" by (rule spawn_keeps_running [OF y0(3) i0 y0(2)])
  obtain code y3 where "as_call 0 (process_call env (ksys_waitpid rp p x) y1) = Some (NEOX_STATUS_OK, code, y3)" using rest ok by blast
  then obtain wres where w: "process_call env (ksys_waitpid rp p x) y1 = Some (wres, y3)"
    and wres: "wres = Inr code \<or> wres = Inl NEOX_STATUS_OK" by (auto simp: as_call_Some)
  obtain y2 where y2: "(system_step rp)\<^sup>*\<^sup>* y1 y2" "ksys_waitpid rp p x y2 = Some (Proc_Finished wres, y3)"
    using process_call_last [OF w assms(3) r1] system_step.waitpid by metis
  have wc: "wres = Inr code" using wres waitpid_error [of rp p x y2 _ y3] y2(2) by auto
  note z = waitpid_returns [OF y2(2) [unfolded wc]]
  then have "x \<noteq> 0xFF" by (auto simp: normal_unat)
  then have rx: "res = Inr x" using res by auto
  have "x \<notin> live_pids y0 \<and> spawned p (address (spawn_entry args)) args x y0 y1"
    using spawn_result [OF y0(3) i0 runs_live [OF y0(2)]] rx by simp
  then show ?thesis using y0 y2 z wc rx by metis
qed

section \<open>Listing the processes\<close>

text \<open>While a process writes undisturbed, only the state of the RP changes.\<close>

definition same_but_rp :: "('r, 'z) machine_scheme \<Rightarrow> ('r, 'z) machine_scheme \<Rightarrow> bool" where
  "same_but_rp w w' \<longleftrightarrow> (\<exists>r. w' = w\<lparr>kern := (kern w)\<lparr>rp_state := r\<rparr>\<rparr>)"

context rp_stdout
begin

lemma stdout_keeps_rest:
  "neox_stdout (kernel_os rp task base) (\<lambda>w. rout (rp_state (kern w))) (\<lambda>w. undisturbed task uses rinv w \<and> same_but_rp w0 w)"
proof (unfold_locales, goal_cases)
  case (1 w data)
  have q: "undisturbed task uses rinv w" "schedule w = []" "rinv (rp_state (kern w))" using 1(1) by (simp_all add: undisturbed_def)
  obtain n r' where r: "backend_write rp task b data (rp_state (kern w)) = Some ((NEOX_STATUS_OK, of_nat n), r')" "n \<le> length data"
    "rinv r'" "rout r' = rout (rp_state (kern w)) @ take n data"
    using rp_writes [OF q(3) 1(2,3)] by blast
  let ?w = "w\<lparr>kern := (kern w)\<lparr>rp_state := r'\<rparr>, schedule := []\<rparr>"
  have "?w = w\<lparr>kern := (kern w)\<lparr>rp_state := r'\<rparr>\<rparr>" using q(2) by simp
  then have "same_but_rp w0 ?w" using 1(1) by (auto simp: same_but_rp_def)
  then show ?case
    using write_call [OF q(1) r(1)] undisturbed_rp [OF q(1) r(3)] r(2,4)
    by (intro exI [of _ NEOX_STATUS_OK] exI [of _ n] exI [of _ ?w]) simp
next
  case (2 w data st n w')
  then show ?case using stream_out.write_accepts by blast
qed

end

lemma getprocinfo_same_but_rp:
  assumes "same_but_rp y0 y" shows "ksys_getprocinfo x y = ksys_getprocinfo x y0"
proof -
  obtain r where y: "y = y0\<lparr>kern := (kern y0)\<lparr>rp_state := r\<rparr>\<rparr>" using assms unfolding same_but_rp_def by blast
  show ?thesis unfolding y ksys_getprocinfo_def by simp
qed

definition info_of :: "'r system \<Rightarrow> neox_pid_t \<Rightarrow> neox_process_info" where
  "info_of y x = (case ksys_getprocinfo x y of Inl _ \<Rightarrow> empty_info | Inr info \<Rightarrow> info)"

lemma ps_lists_processes:
  assumes "rp_stdout rp task uses rinv b rout" and "undisturbed task uses rinv y" and "ctx_valid context" and "line_words (ctx_text context) = []"
  shows "\<exists>y'. neox_applet_ps (system_os rp env address task) context y = Some (NEOX_STATUS_OK, y') \<and> same_but_rp y y'
    \<and> rout (rp_state (kern y')) = rout (rp_state (kern y)) @ cstring ps_header
        @ concat (map (\<lambda>i. ps_row (info_of y (of_nat i))) (filter (\<lambda>i. proc_states (sch y) ! i \<noteq> PROC_EMPTY) [0..<8]))"
proof -
  note contract = rp_stdout.stdout_keeps_rest [OF assms(1), of "process_base rp env address task" y, folded system_os_def]
  have info: "neox_get_process_info (system_os rp env address task) x w = Some (NEOX_STATUS_OK, info_of y x, w)"
    if "undisturbed task uses rinv w \<and> same_but_rp y w" "x < NEOX_MAX_PROCESSES" for x w
    using getprocinfo_same_but_rp [of y w x] that by (simp add: as_call_def info_of_def ksys_getprocinfo_def)
  have "same_but_rp y y" unfolding same_but_rp_def by (rule exI [of _ "rp_state (kern y)"]) simp
  then have y: "undisturbed task uses rinv y \<and> same_but_rp y y" using assms(2) by simp
  have st: "proc_state (info_of y (of_nat i)) = proc_states (sch y) ! i" if "i < 8" for i
    using that unat_byte_of_nat [of i] by (simp add: info_of_def ksys_getprocinfo_def word_le_nat_alt)
  have "filter (\<lambda>i. proc_state (info_of y (of_nat i)) \<noteq> NEOX_PROCESS_EMPTY) [0..<8] = filter (\<lambda>i. proc_states (sch y) ! i \<noteq> PROC_EMPTY) [0..<8]"
    by (rule filter_cong) (simp_all add: st)
  then show ?thesis using neox_stdout.ps_prints_listing [OF contract info assms(3,4) y] by (auto simp: ps_listing_def)
qed

section \<open>The kill command\<close>

lemma live_pids_normal: "x \<in> live_pids y \<Longrightarrow> normal x"
  by (simp add: live_pids_def)

lemma kill_command:
  assumes "ksys_signal p x SIG_KILL y = Some (Proc_Finished (Inr ()), y')" and "normal x" and "x \<noteq> p"
    and "ctx_valid context" and "line_words (ctx_text context) = [bytes_of ''-9'', decimal (unat x)]"
  shows "neox_applet_kill (system_os rp env address p) context y = Some (NEOX_STATUS_OK, y')"
proof -
  have "read_signal (bytes_of ''-9'') = Some 9" by code_simp
  moreover obtain n where "unat x = Suc n" using assms(2) by (cases "unat x") (simp_all add: normal_unat)
  moreover have "read_decimal 7 (decimal (unat x)) = Some (unat x)" using assms(2) by (intro read_decimal_decimal) (simp add: normal_unat)
  moreover have "(of_nat (unat x) :: neox_pid_t) = x" by simp
  ultimately have "neox_applet_kill (system_os rp env address p) context y = kill_deliver (system_os rp env address p) x 9 y"
    using kill_words [OF assms(4)] assms(5) by (simp add: kill_spec_def)
  also have "\<dots> = Some (NEOX_STATUS_OK, y')"
    using process_call_free [of "ksys_signal p x SIG_KILL", OF assms(1), of env] assms(3) by (simp add: kill_deliver_def signal_call_def)
  finally show ?thesis .
qed

end
