(* ===== verification/Rp_Example.thy ===== *)
theory Rp_Example
  imports Kernel_Contract
begin

text \<open>
  A small RP2350 for concrete runs of the system: one file that is read through handle 1,
  one that is written through handle 2, and the console. It accepts at most eight bytes of a
  console write and sixteen of a file write per request, so that the programs see short
  transfers. It keeps the protocol the kernel relies on, which the interpretations show.
\<close>

record demo_state =
  demo_in :: "byte list"
  demo_out :: "byte list"
  demo_con :: "byte list"

definition demo_reply :: "neox_size_t \<Rightarrow> byte list \<Rightarrow> fs_reply" where
  "demo_reply res stored = \<lparr>rp_failed = False, rp_err = 0, rp_res0 = res, rp_flags = 0, rp_stored = stored,
     rp_position = 0, rp_entry = empty_entry\<rparr>"

definition demo_fail :: "byte \<Rightarrow> fs_reply" where
  "demo_fail e = (demo_reply 0 [])\<lparr>rp_failed := True, rp_err := e\<rparr>"

definition demo_fs :: "neox_pid_t \<Rightarrow> fs_request \<Rightarrow> demo_state \<Rightarrow> (fs_reply \<times> demo_state) option" where
  "demo_fs task request r = Some
     (case request of
        Fs_Open path mode \<Rightarrow>
          if path = bytes_of ''MISSING'' then (demo_fail NEOX_STATUS_ENOENT, r)
          else (demo_reply (if mode = NEOX_OPEN_READ then 1 else 2) [], r)
      | Fs_Read h n \<Rightarrow>
          if h = 1 then
            let m = min (unat n) (length (demo_in r))
            in (demo_reply (of_nat m) (take m (demo_in r)), r\<lparr>demo_in := drop m (demo_in r)\<rparr>)
          else (demo_fail NEOX_STATUS_EBADF, r)
      | Fs_Write h data \<Rightarrow>
          if h = 2 then
            let m = min 16 (length data)
            in (demo_reply (of_nat m) [], r\<lparr>demo_out := demo_out r @ take m data\<rparr>)
          else (demo_fail NEOX_STATUS_EBADF, r)
      | Fs_Getcwd n \<Rightarrow> (demo_reply 3 (bytes_of ''D:/'' @ [0]), r)
      | _ \<Rightarrow> (demo_reply 0 [], r))"

definition demo_con_write :: "byte list \<Rightarrow> demo_state \<Rightarrow> ((byte + neox_size_t) \<times> demo_state) option" where
  "demo_con_write data r =
     (let m = min 8 (length data) in Some (Inr (of_nat m), r\<lparr>demo_con := demo_con r @ take m data\<rparr>))"

definition demo_rp :: "demo_state rp2350" where
  "demo_rp = \<lparr>rp_fs = demo_fs, rp_con_read = (\<lambda>n r. Some (Inr [], r)), rp_con_write = demo_con_write,
     rp_con_rdy = (\<lambda>r. False)\<rparr>"

text \<open>Process calls that are not available.\<close>

definition demo_base :: "demo_state machine neox_os" where
  "demo_base = \<lparr>neox_open = (\<lambda>_ _ w. Some (11, 0, w)), neox_read = (\<lambda>_ _ w. Some (11, 0, [], w)),
     neox_write = (\<lambda>_ _ w. Some (11, 0, w)), neox_seek = (\<lambda>_ _ _ w. Some (11, 0, w)),
     neox_close = (\<lambda>_ w. Some (11, w)), neox_delete = (\<lambda>_ w. Some (11, w)), neox_mkdir = (\<lambda>_ w. Some (11, w)),
     neox_rmdir = (\<lambda>_ w. Some (11, w)), neox_rename = (\<lambda>_ _ w. Some (11, w)), neox_chdir = (\<lambda>_ w. Some (11, w)),
     neox_getcwd = (\<lambda>_ w. Some (11, 0, [], w)), neox_opendir = (\<lambda>_ w. Some (11, 0, w)),
     neox_readdir = (\<lambda>_ w. Some (11, empty_entry, 0, w)), neox_closedir = (\<lambda>_ w. Some (11, w)),
     neox_spawn_resident = (\<lambda>_ w. Some (11, 0, w)), neox_waitpid = (\<lambda>_ w. Some (11, 0, w)),
     neox_get_process_info = (\<lambda>_ w. Some (11, \<lparr>pid = 0, parent_pid = 0, proc_state = 0, wait_reason = 0,
       signal_pending = 0, wait_object = 0, held_gate_mask = 0\<rparr>, w)),
     neox_signal = (\<lambda>_ _ w. Some (11, w))\<rparr>"

definition demo_uses :: "(neox_fd_t \<times> byte \<times> backend) list" where
  "demo_uses = [(1, FD_FLAG_WRITE, Bk_Console), (3, FD_FLAG_READ, Bk_File 1), (4, FD_FLAG_WRITE, Bk_File 2)]"

section \<open>The protocol holds\<close>

interpretation demo_errors: rp_errors demo_rp task base for task base
proof
  fix q request r r' reply
  assume "rp_fs demo_rp q request r = Some (reply, r')" and "rp_failed reply"
  then show "rp_err reply \<noteq> 0"
    by (cases request) (auto simp: demo_rp_def demo_fs_def demo_reply_def demo_fail_def Let_def split: if_splits)
qed

interpretation demo_stdout: rp_stdout demo_rp 5 demo_base demo_uses "\<lambda>_. True" Bk_Console demo_con
proof
  show "(NEOX_STDOUT_FD, FD_FLAG_WRITE, Bk_Console) \<in> set demo_uses" by (simp add: demo_uses_def)
  fix data :: "byte list" and r
  assume "0 < length data"
  then show "\<exists>n r'. backend_write demo_rp 5 Bk_Console data r = Some ((NEOX_STATUS_OK, of_nat n), r') \<and> 0 < n
      \<and> n \<le> length data \<and> True \<and> demo_con r' = demo_con r @ take n data"
    by (intro exI [of _ "min 8 (length data)"]) (simp add: backend_write_def demo_rp_def demo_con_write_def Let_def)
qed

lemma demo_file_read:
  "file_read demo_rp 5 1 n r = (let m = min (unat n) (length (demo_in r)) in
     Some ((NEOX_STATUS_OK, of_nat m, take m (demo_in r)), r\<lparr>demo_in := drop m (demo_in r)\<rparr>))"
  by (simp add: file_read_def demo_rp_def demo_fs_def demo_reply_def Let_def)

lemma demo_file_write:
  "backend_write demo_rp 5 (Bk_File 2) data r =
     Some ((NEOX_STATUS_OK, of_nat (min 16 (length data))), r\<lparr>demo_out := demo_out r @ take (min 16 (length data)) data\<rparr>)"
  by (simp add: backend_write_def demo_rp_def demo_fs_def demo_reply_def Let_def)

interpretation demo_copy: rp_channel demo_rp 5 demo_base demo_uses "\<lambda>_. True" 3 1 demo_in 4 "Bk_File 2" demo_out
proof
  show "(3, FD_FLAG_READ, Bk_File 1) \<in> set demo_uses" "(4, FD_FLAG_WRITE, Bk_File 2) \<in> set demo_uses"
    by (simp_all add: demo_uses_def)
  show "\<exists>data r'. file_read demo_rp 5 1 n r = Some ((NEOX_STATUS_OK, of_nat (length data), data), r')
      \<and> length data \<le> unat n \<and> True \<and> demo_in r = data @ demo_in r' \<and> (data = [] \<longrightarrow> demo_in r = [])"
    if "0 < n" for n r
  proof -
    have "unat n \<noteq> 0" using that by (simp add: word_gt_0)
    then show ?thesis
      by (intro exI [of _ "take (min (unat n) (length (demo_in r))) (demo_in r)"]) (auto simp: demo_file_read Let_def min_def)
  qed
  show "\<exists>n r'. backend_write demo_rp 5 (Bk_File 2) data r = Some ((NEOX_STATUS_OK, of_nat n), r') \<and> 0 < n
      \<and> n \<le> length data \<and> True \<and> demo_out r' = demo_out r @ take n data"
    if "0 < length data" for data r
    using that by (intro exI [of _ "min 16 (length data)"]) (simp add: demo_file_write)
qed (auto simp: demo_file_read demo_file_write Let_def)

section \<open>A running process\<close>

text \<open>
  The kernel after boot with process 5 initialised, and after this process has opened the
  two files.
\<close>

definition demo_storage :: "byte list \<Rightarrow> demo_state kernel" where
  "demo_storage input = \<lparr>proc_fd_obj = [], proc_fd_flags = [],
     opens = replicate 16 \<lparr>open_type = 0, open_refcnt = 0, open_flags = 0, open_dev = 0, open_file_handle = 0,
       open_pipe = 0, open_pipe_mode = 0\<rparr>,
     pipes = replicate 8 \<lparr>pipe_state = 0, pipe_head = 0, pipe_tail = 0, pipe_count = 0, pipe_buf = replicate 64 0\<rparr>,
     console_owner_pid = 0xFF, proc_flags = replicate 8 0, proc_signal_pending = replicate 8 0,
     rp_state = \<lparr>demo_in = input, demo_out = [], demo_con = []\<rparr>\<rparr>"

definition demo_kernel :: "byte list \<Rightarrow> demo_state kernel" where
  "demo_kernel input = snd (fd_init_process 5 (pipe_init_tables (fd_init_tables (demo_storage input))))"

definition demo_machine :: "byte list \<Rightarrow> batch list \<Rightarrow> demo_state machine" where
  "demo_machine input bs = \<lparr>kern = demo_kernel input, schedule = bs\<rparr>"

definition demo_opened :: "byte list \<Rightarrow> demo_state kernel" where
  "demo_opened input =
     snd (the (ksys_open demo_rp 5 (bytes_of ''OUT'') NEOX_OPEN_WRITE_TRUNC
       (snd (the (ksys_open demo_rp 5 (bytes_of ''IN'') NEOX_OPEN_READ (demo_kernel input))))))"

lemma demo_kernel_inv: "kernel_inv (demo_kernel input)"
proof -
  let ?k = "pipe_init_tables (fd_init_tables (demo_storage input))"
  have "kernel_storage (demo_storage input)" by (simp add: kernel_storage_def demo_storage_def)
  note boot = boot_inv [OF this]
  obtain k' where "fd_init_process 5 ?k = (Inr (), k')" "kernel_inv k'"
    by (rule fd_init_process_inv [OF boot(1,2), of 5]) (simp_all add: boot(3))
  then show ?thesis by (simp add: demo_kernel_def)
qed

lemma demo_machine_inv:
  "\<forall>b \<in> set bs. \<forall>qc \<in> set b. call_ok 5 qc \<Longrightarrow> machine_inv 5 (demo_machine input bs)"
  by (simp add: machine_inv_def demo_machine_def demo_kernel_inv)

lemma demo_opened_inv: "kernel_inv (demo_opened input)"
proof -
  have run: "ksys_open demo_rp task path mode k \<noteq> None" for task path mode k
    by (simp add: ksys_open_def open_object_fd_def rp_fs_exec_def demo_rp_def demo_fs_def Let_def split: sum.split)
  have step: "kernel_inv (snd (the (ksys_open demo_rp 5 path mode k)))" if "kernel_inv k" for path mode k
    using ksys_open_result [of demo_rp 5 path mode k] run [of 5 path mode k] that
    by (auto simp: opens_one_def within_def)
  show ?thesis unfolding demo_opened_def by (intro step demo_kernel_inv)
qed

lemma demo_uses_hold: "\<forall>(fd, flag, b) \<in> set demo_uses. fd_backend 5 fd flag b (demo_opened input)"
  by code_simp

lemma demo_undisturbed: "undisturbed 5 demo_uses (\<lambda>_. True) \<lparr>kern = demo_opened input, schedule = []\<rparr>"
  using demo_uses_hold [of input] demo_opened_inv [of input] by (simp add: undisturbed_def machine_inv_def)

lemma demo_opened_streams:
  "demo_in (rp_state (demo_opened input)) = input" "demo_out (rp_state (demo_opened input)) = []"
  "demo_con (rp_state (demo_opened input)) = []"
  by code_simp+

text \<open>The same process with its standard input redirected from the file, as the shell sets up \<open>cat < IN\<close>.\<close>

definition demo_redirected :: "byte list \<Rightarrow> demo_state kernel" where
  "demo_redirected input =
     snd (the (ksys_open demo_rp 5 (bytes_of ''IN'') NEOX_OPEN_READ (snd (the (fd_close demo_rp 5 0 (demo_kernel input))))))"

definition demo_cat_uses :: "(neox_fd_t \<times> byte \<times> backend) list" where
  "demo_cat_uses = [(0, FD_FLAG_READ, Bk_File 1), (1, FD_FLAG_WRITE, Bk_Console)]"

lemma demo_console_write:
  "backend_write demo_rp 5 Bk_Console data r =
     Some ((NEOX_STATUS_OK, of_nat (min 8 (length data))), r\<lparr>demo_con := demo_con r @ take (min 8 (length data)) data\<rparr>)"
  by (simp add: backend_write_def demo_rp_def demo_con_write_def Let_def)

interpretation demo_cat: rp_channel demo_rp 5 demo_base demo_cat_uses "\<lambda>_. True" 0 1 demo_in 1 Bk_Console demo_con
proof
  show "(0, FD_FLAG_READ, Bk_File 1) \<in> set demo_cat_uses" "(1, FD_FLAG_WRITE, Bk_Console) \<in> set demo_cat_uses"
    by (simp_all add: demo_cat_uses_def)
  show "\<exists>data r'. file_read demo_rp 5 1 n r = Some ((NEOX_STATUS_OK, of_nat (length data), data), r')
      \<and> length data \<le> unat n \<and> True \<and> demo_in r = data @ demo_in r' \<and> (data = [] \<longrightarrow> demo_in r = [])"
    if "0 < n" for n r using demo_copy.rp_reads [of n r] that by simp
  show "\<exists>n r'. backend_write demo_rp 5 Bk_Console data r = Some ((NEOX_STATUS_OK, of_nat n), r') \<and> 0 < n
      \<and> n \<le> length data \<and> True \<and> demo_con r' = demo_con r @ take n data"
    if "0 < length data" "length data < 65536" for data r using demo_stdout.rp_writes [of data r] that by simp
qed (auto simp: demo_file_read demo_console_write Let_def)

lemma demo_redirected_inv: "kernel_inv (demo_redirected input)"
proof -
  have c: "fd_close demo_rp 5 0 (demo_kernel input) \<noteq> None" by code_simp
  have o: "ksys_open demo_rp 5 (bytes_of ''IN'') NEOX_OPEN_READ k \<noteq> None" for k
    by (simp add: ksys_open_def open_object_fd_def rp_fs_exec_def demo_rp_def demo_fs_def Let_def split: sum.split)
  obtain res k where k: "fd_close demo_rp 5 0 (demo_kernel input) = Some (res, k)" using c by auto
  then have "kernel_inv k" using fd_close_pid_within(1) [of demo_rp 5 5 0 "demo_kernel input" res k] demo_kernel_inv
    by (simp add: fd_close_def within_def)
  then show ?thesis
    using ksys_open_result [of demo_rp 5 "bytes_of ''IN''" NEOX_OPEN_READ k] o [of k] k
    by (auto simp: demo_redirected_def opens_one_def within_def)
qed

lemma demo_redirected_undisturbed:
  "undisturbed 5 demo_cat_uses (\<lambda>_. True) \<lparr>kern = demo_redirected input, schedule = []\<rparr>"
proof -
  have "\<forall>(fd, flag, b) \<in> set demo_cat_uses. fd_backend 5 fd flag b (demo_redirected input)" by code_simp
  then show ?thesis using demo_redirected_inv [of input] by (simp add: undisturbed_def machine_inv_def)
qed

lemma demo_redirected_streams:
  "demo_in (rp_state (demo_redirected input)) = input" "demo_con (rp_state (demo_redirected input)) = []"
  by code_simp+

text \<open>Processes 5 and 6 with a pipe on descriptor 3 of both, from 6 to 5.\<close>

definition demo_pair :: "demo_state kernel" where
  "demo_pair = snd (fd_init_process 6 (demo_kernel []))"

definition demo_piped :: "demo_state kernel" where
  "demo_piped = snd (pipe_create_between_fd 5 6 3 demo_pair)"

lemma demo_pair_inv: "kernel_inv demo_pair" "console_objects demo_pair"
proof -
  let ?k = "pipe_init_tables (fd_init_tables (demo_storage []))"
  have "kernel_storage (demo_storage [])" by (simp add: kernel_storage_def demo_storage_def)
  note boot = boot_inv [OF this]
  obtain k5 where k5: "fd_init_process 5 ?k = (Inr (), k5)" "kernel_inv k5" "console_objects k5"
    by (rule fd_init_process_inv [OF boot(1,2), of 5]) (simp_all add: boot(3))
  then have "demo_kernel [] = k5" by (simp add: demo_kernel_def)
  moreover have "list_all (\<lambda>fd. \<not> is_open 6 fd (demo_kernel [])) [0, 1, 2, 3, 4, 5]" by code_simp
  then have "\<not> is_open 6 fd (demo_kernel [])" for fd
    using fd_below_six [of fd] by (auto simp: is_open_def)
  ultimately have free: "\<not> is_open 6 fd k5" for fd by simp
  obtain k6 where "fd_init_process 6 k5 = (Inr (), k6)" "kernel_inv k6" "console_objects k6"
    by (rule fd_init_process_inv [OF k5(2,3), of 6]) (simp_all add: free)
  then show "kernel_inv demo_pair" "console_objects demo_pair" using \<open>demo_kernel [] = k5\<close> by (simp_all add: demo_pair_def)
qed

lemma demo_piped_inv: "kernel_inv demo_piped"
  using pipe_create_between_result(1) [of 5 6 3 demo_pair "fst (pipe_create_between_fd 5 6 3 demo_pair)" demo_piped]
    demo_pair_inv(1) by (simp add: demo_piped_def within_def)

end
