(* ===== verification/System_Example.thy ===== *)
theory System_Example
  imports Kernel_Boot Rp_Example Neosh_Exec
begin

text \<open>
  A concrete run of the whole system on the RP2350 of \<open>Rp_Example\<close>: boot with one task, the
  first switch, a child that the task starts and waits for, and the switch to the child. The
  states are written out; the lemmas show that the code produces them.
\<close>

section \<open>States\<close>

definition demo_closed_gate :: gate where
  "demo_closed_gate = \<lparr>gate_byte = 1, gate_owner = 3, wait_head = 2, wait_tail = 2, gate_next = replicate 8 0\<rparr>"

definition demo_open_gate :: gate where
  "demo_open_gate = \<lparr>gate_byte = 0, gate_owner = 0xFF, wait_head = 0xFF, wait_tail = 0xFF, gate_next = replicate 8 0xFF\<rparr>"

text \<open>The memory at power-on.\<close>

definition demo_memory :: "demo_state system" where
  "demo_memory = \<lparr>kern = demo_storage [], schedule = [],
     sch = \<lparr>proc_states = [], wait_reasons = [], wait_objects = [], sched_cursor_pid = 7\<rparr>,
     file_gate = demo_closed_gate, proc_gate = demo_closed_gate,
     tmr = \<lparr>timer_pid = replicate 8 1, timer_until = replicate 8 5, system_ticks = 0xFFF0\<rparr>,
     proc_parent_pid = [], proc_context = [], proc_entry = [], proc_exit_code = [],
     proc_launch_id = replicate 8 0, proc_launch_line_len = replicate 8 0, proc_launch_line = replicate 8 (replicate 64 0),
     context_state = [], context_owner_pid = []\<rparr>"

definition demo_console :: "byte \<Rightarrow> open_object" where
  "demo_console n = \<lparr>open_type = OBJ_DEVICE, open_refcnt = n, open_flags = 0, open_dev = DEV_CONSOLE, open_file_handle = 0,
     open_pipe = 0xFF, open_pipe_mode = 0\<rparr>"

text \<open>Console objects with \<open>n\<close> references each; the descriptors of processes 0, 1 and 2.\<close>

definition demo_tables :: "byte \<Rightarrow> byte list \<Rightarrow> byte list \<Rightarrow> demo_state kernel" where
  "demo_tables n objs flags = \<lparr>
     proc_fd_obj = objs @ replicate (48 - length objs) FD_NONE, proc_fd_flags = flags @ replicate (48 - length flags) 0,
     opens = demo_console n # demo_console n # demo_console n # replicate 13 \<lparr>open_type = 0, open_refcnt = 0, open_flags = 0,
       open_dev = 0, open_file_handle = 0, open_pipe = 0xFF, open_pipe_mode = 0\<rparr>,
     pipes = replicate 8 \<lparr>pipe_state = 0, pipe_head = 0, pipe_tail = 0, pipe_count = 0, pipe_buf = replicate 64 0\<rparr>,
     console_owner_pid = 0xFF, proc_flags = [1, 4, 0, 0, 0, 0, 0, 0], proc_signal_pending = replicate 8 0,
     rp_state = \<lparr>demo_in = [], demo_out = [], demo_con = []\<rparr>\<rparr>"

definition demo_tasks :: "(16 word \<times> byte) list" where
  "demo_tasks = [(0x8000, PROC_FLAG_FOREGROUND)]"

text \<open>The state that boot leaves; the first task runs.\<close>

definition demo_boot :: "demo_state system" where
  "demo_boot = \<lparr>kern = demo_tables 2 [0, 1, 2, 255, 255, 255, 0, 1, 2] [1, 2, 2, 0, 0, 0, 1, 2, 2], schedule = [],
     sch = \<lparr>proc_states = [3, 1, 0, 0, 0, 0, 0, 0], wait_reasons = replicate 8 0, wait_objects = replicate 8 0,
       sched_cursor_pid = 0\<rparr>,
     file_gate = demo_open_gate, proc_gate = demo_open_gate,
     tmr = \<lparr>timer_pid = replicate 8 0xFF, timer_until = replicate 8 0, system_ticks = 0\<rparr>,
     proc_parent_pid = [255, 0, 255, 255, 255, 255, 255, 255], proc_context = [0, 1, 255, 255, 255, 255, 255, 255],
     proc_entry = [0, 0x8000, 0, 0, 0, 0, 0, 0], proc_exit_code = replicate 8 0,
     proc_launch_id = [0, 255, 0, 0, 0, 0, 0, 0], proc_launch_line_len = replicate 8 0,
     proc_launch_line = replicate 8 (replicate 64 0),
     context_state = [1, 4, 2, 2, 2, 2, 2, 2, 2, 2], context_owner_pid = [255, 1, 255, 255, 255, 255, 255, 255, 255, 255]\<rparr>"

definition to_process :: "neox_pid_t \<Rightarrow> 'r system \<Rightarrow> 'r system" where
  "to_process p y = y\<lparr>sch := sched_step (Switch p) (sch y)\<rparr>"

definition demo_running :: "demo_state system" where
  "demo_running = demo_boot\<lparr>sch := (sch demo_boot)\<lparr>proc_states := [2, 3, 0, 0, 0, 0, 0, 0], sched_cursor_pid := 1\<rparr>\<rparr>"

text \<open>The task is the shell.\<close>

definition zero_redirection :: neosh_redirection_t where
  "zero_redirection = \<lparr>redir_mode = 0, redir_path = replicate 64 0\<rparr>"

text \<open>The shell with a line in its line buffer and in its raw input.\<close>

definition shell_with :: "byte list \<Rightarrow> neosh_state" where
  "shell_with t =
     \<lparr>nbox_line_buf = t @ replicate (64 - length t) 0, nbox_line_len = of_nat (length t),
      nbox_exec_mode = 0, nbox_launch_id = 0, nbox_line_idx = 0, nbox_command_index = 0,
      neosh_raw_line = t @ replicate (64 - length t) 0, neosh_prompt = replicate 64 0, neosh_cwd = replicate 64 0,
      neosh_command = replicate 64 0, neosh_prompt_core_length = 0,
      neosh_plan = \<lparr>plan_input = zero_redirection, plan_output = zero_redirection,
        plan_error = zero_redirection, redirection_seen = 0\<rparr>,
      neosh_input_fd = 0xFF, neosh_output_fd = 0xFF, neosh_error_fd = 0xFF,
      neosh_previous_cwd = replicate 64 0, neosh_previous_cwd_valid = 0\<rparr>"

text \<open>It has resolved a line and starts the command.\<close>

definition demo_shell :: neosh_state where
  "demo_shell = (shell_with (bytes_of ''ls a b''))\<lparr>nbox_line_idx := 2, nbox_launch_id := 3\<rparr>"

definition demo_args :: neox_spawn_resident_args where
  "demo_args = \<lparr>spawn_entry = neosh_nbox_child_entry, launch_id = 3, argument_line = bytes_of ''a b'' @ replicate 58 0,
     argument_length = 3, stdin_fd = 0, stdout_fd = 1, stderr_fd = 2, spawn_flags = PROC_FLAG_FOREGROUND, result_pid = 0xFF\<rparr>"

text \<open>The first task waits for its child, and the child runs.\<close>

definition demo_family :: "demo_state system" where
  "demo_family = demo_boot\<lparr>kern := (demo_tables 3 [0, 1, 2, 255, 255, 255, 0, 1, 2, 255, 255, 255, 0, 1, 2]
       [1, 2, 2, 0, 0, 0, 1, 2, 2, 0, 0, 0, 1, 2, 2])\<lparr>proc_flags := [1, 4, 4, 0, 0, 0, 0, 0]\<rparr>,
     sch := \<lparr>proc_states = [2, 4, 3, 0, 0, 0, 0, 0], wait_reasons = [0, 5, 0, 0, 0, 0, 0, 0], wait_objects = [0, 2, 0, 0, 0, 0, 0, 0],
       sched_cursor_pid = 2\<rparr>,
     proc_parent_pid := [255, 0, 1, 255, 255, 255, 255, 255], proc_context := [0, 1, 2, 255, 255, 255, 255, 255],
     proc_entry := [0, 0x8000, 0x8100, 0, 0, 0, 0, 0], proc_launch_id := [0, 255, 3, 0, 0, 0, 0, 0],
     proc_launch_line_len := [0, 0, 3, 0, 0, 0, 0, 0],
     proc_launch_line := (replicate 8 (replicate 64 0))[2 := bytes_of ''a b'' @ replicate 61 0],
     context_state := [1, 4, 4, 2, 2, 2, 2, 2, 2, 2], context_owner_pid := [255, 1, 2, 255, 255, 255, 255, 255, 255, 255]\<rparr>"

section \<open>The run\<close>

lemma demo_memory_storage: "system_storage demo_memory"
  by code_simp

lemma demo_boot_main: "kernel_main demo_tasks demo_memory = Some demo_boot"
  by code_simp

lemma demo_running_switch: "demo_running = to_process 0 demo_boot"
  by code_simp

lemma demo_family_steps:
  "do { (r, y1) \<leftarrow> ksys_spawn_resident demo_rp 1 0x8100 demo_args demo_running;
        (w, y2) \<leftarrow> ksys_waitpid demo_rp 1 2 y1;
        Some (r, state_of y1 1, w, to_process 1 y2) } =
     Some (Proc_Finished (Inr 2), PROC_RUNNING, Proc_Blocked, demo_family)"
  by code_simp

lemma demo_shell_args: "neosh_spawn_args demo_shell = Some demo_args"
  by code_simp

text \<open>The child exits with 7, and the shell finds it ended.\<close>

lemma demo_child_done:
  "do { (_, y) \<leftarrow> ksys_exit demo_rp 2 7 demo_family;
        Some (state_of (to_process 2 y) 1, map_option fst (ksys_waitpid demo_rp 1 2 (to_process 2 y))) } =
     Some (PROC_RUNNING, Some (Proc_Finished (Inr 7)))"
  by code_simp

text \<open>Both states are reached from boot.\<close>

lemma demo_running_reached: "system_running demo_rp demo_tasks demo_memory demo_running"
proof -
  have "system_step demo_rp demo_boot (to_process 0 demo_boot)" unfolding to_process_def by (rule system_step.switch) simp
  then show ?thesis unfolding system_running_def demo_running_switch
    using demo_memory_storage demo_boot_main by (auto simp: demo_tasks_def)
qed

lemma demo_family_cases:
  obtains y1 y2 where "ksys_spawn_resident demo_rp 1 0x8100 demo_args demo_running = Some (Proc_Finished (Inr 2), y1)"
    and "runs 1 y1" and "ksys_waitpid demo_rp 1 2 y1 = Some (Proc_Blocked, y2)" and "to_process 1 y2 = demo_family"
  using demo_family_steps by (auto simp: bind_eq_Some_conv runs_def normal_unat)

lemma demo_family_reached: "system_running demo_rp demo_tasks demo_memory demo_family"
proof -
  obtain y1 y2 where s: "ksys_spawn_resident demo_rp 1 0x8100 demo_args demo_running = Some (Proc_Finished (Inr 2), y1)"
    and r1: "runs 1 y1" and w: "ksys_waitpid demo_rp 1 2 y1 = Some (Proc_Blocked, y2)" and y: "to_process 1 y2 = demo_family"
    by (rule demo_family_cases)
  have r: "runs 1 demo_running" by code_simp
  have "system_step demo_rp y2 (to_process 1 y2)" unfolding to_process_def by (rule system_step.switch) simp
  then show ?thesis
    using system_running_step [OF system_running_step [OF system_running_step [OF demo_running_reached system_step.spawn [OF r s]]
      system_step.waitpid [OF r1 w]]] y by simp
qed

lemmas demo_running_inv = system_running_inv [OF demo_running_reached]
lemmas demo_family_inv = system_running_inv [OF demo_family_reached]

lemma demo_live:
  "1 \<in> live_pids demo_running" "2 \<notin> live_pids demo_running" "1 \<in> live_pids demo_family" "2 \<in> live_pids demo_family"
  unfolding live_pids_def mem_Collect_eq by code_simp+

lemma demo_clones_cwd: "clones_cwd demo_rp p"
  by (simp add: clones_cwd_def demo_rp_def demo_fs_def demo_reply_def)

end
