(* ===== verification/Spec2Isabelle.thy ===== *)
theory Spec2Isabelle
  imports Kernel_Wait Kernel_Machine System_Os System_Example
begin

text \<open>
  NEOX V1: an operating system for a 6502 computer whose file system and console are served
  by an RP2350 coprocessor. The user programs are written in C against libneox
  (\<^verbatim>\<open>src/libneox\<close>, \<^verbatim>\<open>src/user\<close>); the kernel is 6502 assembler (\<^verbatim>\<open>src/kernel\<close>). This
  development models the C programs completely and, as the provider of their system calls,
  the kernel: descriptors, open objects and pipes, gates, scheduling, timers, the life of a
  process from spawn to waitpid, and boot.

  \<^bold>\<open>Parts and theories.\<close>

  \<^item> \<open>Neox_Prelude\<close>: machine types (8-, 16- and 32-bit words), C buffers as byte lists with
    accesses that fail out of range (\<open>cload\<close>, \<open>cstore\<close>, \<open>cslice\<close>, \<open>cfill\<close>), NUL-terminated
    strings, the loop shapes the sources share, and the words of a line.

  \<^item> \<open>Neox_Os\<close>: the libneox interface (\<^verbatim>\<open>include/neox/*.h\<close>): constants, records, and the system
    calls as a record of functions on an arbitrary state. The locales are the contracts of a
    descriptor (\<open>neox_writer\<close>, \<open>neox_sink\<close>, \<open>neox_reader\<close>, \<open>neox_source\<close>, \<open>neox_copier\<close>,
    \<open>neox_channel\<close>, \<open>neox_stdout\<close>) and of the descriptor table (\<open>neox_descriptors\<close>).

  \<^item> \<open>Applet_Args\<close>, \<open>Applet_Support\<close> (\<^verbatim>\<open>libneox/common/applet_args.c\<close>, \<^verbatim>\<open>applet_support.c\<close>):
    argument iterator, write loop, reports, argument copy, number formatting.

  \<^item> \<open>Applet_Stream\<close> (echo, cat, cp), \<open>Applet_Path\<close> (rm, rmdir, mkdir, mv, cd, pwd and their
    drivers), \<open>Applet_Ls\<close>, \<open>Applet_Process\<close> (ps, kill): \<^verbatim>\<open>src/user/applets\<close>.

  \<^item> \<open>Nbox\<close> (\<^verbatim>\<open>src/user/nbox/nbox.c\<close>): the command table, resolution and dispatch in the shell,
    launch in a child.

  \<^item> \<open>Neosh_Line\<close>, \<open>Neosh_Redirect\<close>, \<open>Neosh_Exec\<close> (\<^verbatim>\<open>src/user/shell/neosh.c\<close>): reading and
    cleaning a line, parsing redirections, running a command, the command loop. The static
    variables of the shell are the record \<open>neosh_state\<close>, an extension of \<open>nbox_state\<close>.

  \<^item> \<open>Kernel_Fifo\<close>: the contract of a queue; \<open>Kernel_Pipe\<close> (\<^verbatim>\<open>src/kernel/pipe.asm\<close>): the ring
    buffer of a pipe and its transfer loops, which implement it.

  \<^item> \<open>Kernel_Fd\<close> (\<^verbatim>\<open>fd.asm\<close>, \<^verbatim>\<open>pipe.asm\<close>, \<^verbatim>\<open>device.asm\<close>): the tables of \<^verbatim>\<open>shared_state.asm\<close> as the
    record \<open>kernel\<close> and one function per routine. \<open>Kernel_Refs\<close>, \<open>Kernel_Pipe_Table\<close>: the
    invariant of the tables and what each routine keeps.

  \<^item> \<open>Kernel_Io\<close> (\<^verbatim>\<open>ksys_io.asm\<close>, \<^verbatim>\<open>ksys_fs.asm\<close>, \<^verbatim>\<open>console_device.asm\<close>): the system calls on
    descriptors and files. \<open>Kernel_Os\<close>: the record of calls that the programs use, on top of
    the kernel, with the other processes interleaved. \<open>Kernel_Contract\<close>: this record satisfies
    the contracts of \<open>Neox_Os\<close>. \<open>Rp_Example\<close>: a small RP2350 for concrete runs.

  \<^item> \<open>Kernel_Sched\<close> (\<^verbatim>\<open>scheduler.asm\<close>): process states, waiting and waking, the choice of the
    next process. \<open>Kernel_Gate\<close> (\<^verbatim>\<open>gate.asm\<close>): the sleepable gates as a step relation, with the
    linked queue as a second implementation of \<open>Kernel_Fifo\<close>. \<open>Kernel_Wait\<close>: a pipe read that
    waits, step by step, on top of both and of \<open>Kernel_Io\<close>.

  \<^item> \<open>Kernel_Machine\<close> (\<^verbatim>\<open>math8.asm\<close>, \<^verbatim>\<open>ksys_time.asm\<close>, \<^verbatim>\<open>sched_lock.asm\<close>): the multiplication behind every
    table row, the two-byte tick counter and the scheduler guard, at the level of bytes.

  \<^item> \<open>Kernel_Timer\<close> (\<^verbatim>\<open>timer.asm\<close>): sleeping. \<open>Kernel_Proc\<close> (\<^verbatim>\<open>process_control.asm\<close>, \<^verbatim>\<open>spawn.asm\<close>,
    \<^verbatim>\<open>ksys_proc.asm\<close>, \<^verbatim>\<open>context.asm\<close>): the record \<open>system\<close>, an extension of the machine by the
    scheduler, both gates, the timers and the process table, and one function per routine.
    \<open>Kernel_Proc_Inv\<close>: the invariant \<open>system_inv\<close>. \<open>Kernel_Spawn\<close>, \<open>Kernel_Exit\<close>: what spawning, exit,
    waitpid and signals do. \<open>Kernel_System\<close>: every step of the system, as a relation.
    \<open>Kernel_Room\<close>, \<open>Kernel_Boot\<close> (\<^verbatim>\<open>main.asm\<close>, \<^verbatim>\<open>init_tasks.asm\<close>): boot and the states reached from it.
    \<open>System_Os\<close>: the record of calls with the process calls, for the programs on the whole
    system. \<open>System_Example\<close>: a run with a parent and a child.

  \<^bold>\<open>How state and calls correspond to the code.\<close> A program is a function from the state of the
  rest of the machine to its status and the new state, \<open>None\<close> when it does not return or
  leaves a buffer. Static buffers that are written before they are read in every call are
  local to the call. A loop is a recursive function: structural or with a measure where it
  always ends, \<open>partial_function (option)\<close> where it may not, and then its end is a theorem.
  No fuel is used. A path argument of a system call is the contents of the string; the kernel
  puts it in upper case before it is sent on, and the effect of that on the buffer of the
  caller is left out, because no program reads the buffer again.

  The kernel serialises its tables with the file I/O gate: a call owns the gate from its
  start to its end, or until it has to wait. So a call is one step on the tables; a read or
  write that has to wait gives the gate back and is tried again. The \<open>schedule\<close> of a
  \<open>machine\<close> lists, for each time the process waits for the gate, the calls that the other
  processes make before it is its turn; all theorems are for every schedule, but those about
  complete transfers, in which the process is \<open>undisturbed\<close>. A call that is still blocked at
  the end of the schedule does not return. The RP2350 is the parameter \<open>rp\<close>: requests and
  replies on a state of its own. What is relied on is stated in the locales \<open>rp_errors\<close> (a
  failing request has a nonzero code), \<open>rp_sink\<close> (some bytes of every write are accepted, in
  order), \<open>rp_source\<close> (a file is handed out in order, nothing only at its end) and
  \<open>rp_channel\<close>; \<open>Rp_Example\<close> interprets them. The process calls (spawn, wait, process
  information, signal) of \<open>kernel_os\<close> come from its parameter \<open>base\<close>; \<open>system_os\<close> puts the routines
  of \<open>Kernel_Proc\<close> there. A pass that has to wait is repeated after the rest of the system has
  run, which is the parameter \<open>env\<close>, any sequence of steps after which the caller runs again
  (\<open>resumes\<close>). The schedule says when a process runs
  again; that it does is the subject of the theories of the scheduler and the gate, whose
  state is the record \<open>sched\<close> of process states and the record \<open>gate\<close>.

  A process call is a pass under the process gate: it finishes, or its caller sleeps and makes
  another pass later. \<open>system_step\<close> interleaves such passes of the running process with calls
  on descriptors, wake-ups, ticks, signals, switches and the removal of zombies; it allows a
  running process to block and any waiting one to be woken at any time, so that the invariants
  hold whatever the reason. A process that waits for the file I/O gate inside a process call
  is not interleaved there: it is granted, unless the caller owns it already.

  \<^bold>\<open>What the theorems show.\<close> C1 to C5: the shell parses every line as the word-level grammar
  says, never leaves its buffers, and parent and child run the same command on the same
  words. C6 to C9 and C11: the command lines of the applets, numbers and their notation. C14 to
  C17: the output of the commands on the kernel. C19 and C22: no program leaks a
  descriptor, on any path and under any schedule. C23, C24, C27: pipes are queues, transfers are
  exact, a blocked reader wakes up. C28, C30, C31, C35: reference counts are exact, processes do
  not interfere, table operations are all or nothing; dup2 can lose an object. C36 and C37: the
  command line of cp, and a way around its protection of the source. C38 to C40: the scheduler
  starves nobody, the queue of a gate is exactly the set of blocked processes, and a wake-up
  that a preempted reader misses. C29 and C20: boot ends and establishes an invariant of the
  whole system that every step keeps. C32, C21, C34: spawning is all or nothing, succeeds when it
  can, and passes the launch data on. C33, C12, C25: the exit code arrives, waits for the parent,
  and kill ends a process wherever it waits. C13 and C18: on the whole system, the shell waits for
  its child, and ps shows the process table. C26: sleeping takes as long as asked for. C10: a
  read of the tick counter is never torn.

  \<^bold>\<open>Not modelled.\<close> Console focus, run-time accounting and the check for a signal after a release
  of a gate; interrupts, the register-level part of the context switch and the supervisor;
  saved stacks; the header checks of the user image, the log and the RP handshake at boot; the
  mailbox protocol below a request; the BIOS and the monitor, and with it the polling path of
  the console. The RP2350 firmware is not part of the repository.
\<close>

section \<open>Example states\<close>

text \<open>Process states with nobody waiting; a gate before its initialisation.\<close>

definition demo_sched :: "byte list \<Rightarrow> sched" where
  "demo_sched states = \<lparr>proc_states = states, wait_reasons = replicate 8 0, wait_objects = replicate 8 0, sched_cursor_pid = 1\<rparr>"

definition demo_gate :: gate where
  "demo_gate = \<lparr>gate_byte = 1, gate_owner = 3, wait_head = 2, wait_tail = 2, gate_next = replicate 8 0\<rparr>"

text \<open>The launch line of an applet.\<close>

definition launch_line :: "byte list \<Rightarrow> neox_applet_context" where
  "launch_line t = \<lparr>ctx_line = t, ctx_line_length = of_nat (length t)\<rparr>"





lemma demo_console_out: "rp_stdout demo_rp task [(1, FD_FLAG_WRITE, Bk_Console)] (\<lambda>_. True) Bk_Console demo_con"
proof
  fix data :: "byte list" and r
  assume "0 < length data"
  then show "\<exists>n r'. backend_write demo_rp task Bk_Console data r = Some ((NEOX_STATUS_OK, of_nat n), r') \<and> 0 < n
      \<and> n \<le> length data \<and> True \<and> demo_con r' = demo_con r @ take n data"
    by (intro exI [of _ "min 8 (length data)"]) (simp add: backend_write_def demo_rp_def demo_con_write_def Let_def)
qed simp

lemma demo_family_undisturbed: "undisturbed 2 [(1, FD_FLAG_WRITE, Bk_Console)] (\<lambda>_. True) demo_family"
proof -
  have "kernel_inv (kern demo_family)" using demo_family_inv inv_withD(3) by (auto simp: system_inv_def)
  moreover have "schedule demo_family = []" by (simp add: demo_family_def demo_boot_def)
  moreover have "fd_backend 2 1 FD_FLAG_WRITE Bk_Console (kern demo_family)" by code_simp
  ultimately show ?thesis by (simp add: undisturbed_def machine_inv_def)
qed

lemma shell_with_wf: "length t < 64 \<Longrightarrow> neosh_wf (shell_with t)"
  by (simp add: shell_with_def neosh_wf_def redir_wf_def zero_redirection_def terminated_def)

lemma shell_with_text:
  assumes "length t < 64" and "0 \<notin> set t"
  shows "nbox_wf (shell_with t)" and "nbox_text (shell_with t) = t"
proof -
  obtain k where "64 - length t = Suc k" using assms(1) by (cases "64 - length t") auto
  then have b: "t @ replicate (64 - length t) 0 = t @ 0 # replicate k (0 :: byte)" by simp
  have "nbox_line_buf (shell_with t) = t @ 0 # replicate k 0" by (simp add: shell_with_def b)
  moreover have "length (t @ replicate (64 - length t) (0 :: byte)) = 64" using assms(1) by simp
  ultimately show "nbox_wf (shell_with t)" "nbox_text (shell_with t) = t"
    using assms by (simp_all add: nbox_wf_def nbox_text_def cstring_id b shell_with_def unat_of_nat take_bit_eq_mod)
qed

lemma launch_line_valid:
  assumes "length t < 65536"
  shows "ctx_valid (launch_line t)" and "ctx_text (launch_line t) = t"
  using assms by (simp_all add: launch_line_def ctx_valid_def ctx_text_def)

section \<open>The shell\<close>

text \<open>
  C1. The redirection parser of the shell returns on every well-formed line and stays inside
  its buffers. It rejects exactly the lines that the word-level grammar rejects; for the
  others the line buffer holds the remaining words separated by single blanks, the plan
  holds the requested redirections, and no descriptor is held.
\<close>

theorem parse_redirections_correct:
  assumes "neosh_wf s" and "nbox_wf s"
  shows "case parse_line (line_words (nbox_text s)) of
      None \<Rightarrow> \<exists>s'. neosh_parse_redirections s = Some (False, s') \<and> neosh_wf s'
    | Some (cs, p) \<Rightarrow> \<exists>s'. neosh_parse_redirections s = Some (True, s')
        \<and> parsed s cs p s' \<and> line_words (nbox_text s') = cs"
proof (cases "parse_line (line_words (nbox_text s))")
  case None
  then show ?thesis using parse_redirections_refines [OF assms] by simp
next
  case (Some r)
  obtain cs p where r: "r = (cs, p)" by (cases r)
  with Some parse_redirections_refines [OF assms]
  obtain s' where "neosh_parse_redirections s = Some (True, s')" "parsed s cs p s'" by auto
  moreover from this have "line_words (nbox_text s') = cs"
    using parse_line_words [OF Some [unfolded r]] by (simp add: parsed_def)
  ultimately show ?thesis using Some r by auto
qed

theorem parse_redirections_correct_witness:
  "\<exists>s'. neosh_parse_redirections (shell_with (bytes_of ''cat <a 2>> log b'')) = Some (True, s')
    \<and> line_words (nbox_text s') = [bytes_of ''cat'', bytes_of ''b'']
    \<and> abs_plan (neosh_plan s') = \<lparr>wp_input = Some (1, bytes_of ''a''), wp_output = None,
        wp_error = Some (3, bytes_of ''log'')\<rparr>"
proof -
  let ?t = "bytes_of ''cat <a 2>> log b''"
  have t: "length ?t < 64" "0 \<notin> set ?t" by (simp_all add: zero_bytes_of)
  have "parse_line (line_words ?t) = Some ([bytes_of ''cat'', bytes_of ''b''],
      \<lparr>wp_input = Some (1, bytes_of ''a''), wp_output = None, wp_error = Some (3, bytes_of ''log'')\<rparr>)"
    by code_simp
  with parse_redirections_correct [OF shell_with_wf [OF t(1)] shell_with_text(1) [OF t]] shell_with_text(2) [OF t]
  show ?thesis by (auto simp: parsed_def)
qed

text \<open>
  C2. Cleaning a raw input line of at most 63 bytes returns, keeps every buffer inside its
  bounds and leaves in the line buffer the input without the echoed prompt, without leading
  blanks, in seven-bit characters, up to the first NUL, carriage return or line feed.
\<close>

theorem clean_line_correct:
  assumes "neosh_wf s" and "unat n \<le> 63"
  shows "\<exists>s'. neosh_clean_line s n = Some s' \<and> neosh_wf s' \<and> nbox_wf s'
    \<and> nbox_text s' = clean_text (prompt_core s) (take (unat n) (neosh_raw_line s))"
proof -
  obtain s' where "neosh_clean_line s n = Some s'" "neosh_wf s'" "nbox_wf s'"
    "nbox_text s' = clean_text (prompt_core s) (take (unat n) (neosh_raw_line s))"
    by (rule clean_line_text [OF assms])
  then show ?thesis by blast
qed

theorem clean_line_correct_witness:
  "\<exists>s'. neosh_clean_line (shell_with (bytes_of '' ls a'' @ [13])) 6 = Some s' \<and> nbox_text s' = bytes_of ''ls a''"
proof -
  let ?s = "shell_with (bytes_of '' ls a'' @ [13])"
  have "clean_text (prompt_core ?s) (take (unat (6 :: neox_size_t)) (neosh_raw_line ?s)) = bytes_of ''ls a''"
    by code_simp
  moreover have "neosh_wf ?s" by (intro shell_with_wf) simp
  ultimately show ?thesis using clean_line_correct [of ?s 6] by auto
qed



text \<open>
  C4. Resolving a line is a lookup of its first word, in upper case, in the command table:
  a blank line resolves to nothing, an unknown word to an error, and a known one to the
  launch identifier and execution mode of its table entry.
\<close>

theorem nbox_resolve_correct:
  assumes "nbox_wf s"
  shows "\<exists>r s'. neosh_nbox_resolve os s = Some (r, s') \<and> nbox_text s' = nbox_text s \<and>
    (case line_words (nbox_text s) of
       [] \<Rightarrow> r = 0 \<and> nbox_exec_mode s' = NBOX_EXEC_NONE
     | u # us \<Rightarrow>
         (case find_command (nbox_commands os) 0 u of
            None \<Rightarrow> r = 1 \<and> nbox_exec_mode s' = NBOX_EXEC_UNKNOWN
          | Some (k, c) \<Rightarrow> r = 0 \<and> nbox_exec_mode s' = cmd_mode c \<and> nbox_launch_id s' = cmd_launch_id c))"
proof (cases "line_words (nbox_text s)")
  case Nil
  then show ?thesis using nbox_resolve_blank [OF assms Nil, of os] by (auto simp: resolved_def nbox_text_def)
next
  case (Cons u us)
  then show ?thesis
    using nbox_resolve_word [OF assms Cons, of os]
    by (cases "find_command (nbox_commands os) 0 u") (auto simp: resolved_def nbox_text_def)
qed

theorem nbox_resolve_correct_witness:
  "\<exists>s'. neosh_nbox_resolve (kernel_os demo_rp 5 demo_base) (shell_with (bytes_of ''cAt x'')) = Some (0, s')
    \<and> nbox_launch_id s' = NBOX_APPLET_CAT"
proof -
  let ?t = "bytes_of ''cAt x''" and ?os = "kernel_os demo_rp 5 demo_base"
  have t: "length ?t < 64" "0 \<notin> set ?t" by (simp_all add: zero_bytes_of)
  have w: "line_words ?t = [bytes_of ''cAt'', bytes_of ''x'']" by code_simp
  have "upper_word (bytes_of ''cAt'') @ [0] = ctext ''CAT''" by code_simp
  then have "\<exists>k c. find_command (nbox_commands ?os) 0 (bytes_of ''cAt'') = Some (k, c) \<and> cmd_launch_id c = NBOX_APPLET_CAT"
    by (simp add: nbox_commands_def ctext_def bytes_of_def)
  then show ?thesis
    using nbox_resolve_correct [OF shell_with_text(1) [OF t], of ?os] shell_with_text(2) [OF t] w by auto
qed



section \<open>Command lines and numbers\<close>

text \<open>
  C6. One step of the argument iterator on a cursor inside its line: at the end it reports
  that there is no argument; otherwise it returns the next blank-separated word, and the
  words that are left are the ones behind it. It always returns and stays inside the line.
\<close>

theorem arg_next_correct:
  assumes "cursor_valid c"
  shows "case line_words (cursor_rest c) of
      [] \<Rightarrow> \<exists>c' a. neox_arg_next c = Some (False, c', a)
    | w # ws \<Rightarrow> \<exists>c' a. neox_arg_next c = Some (True, c', a) \<and> cursor_valid c' \<and> arg_valid a
        \<and> arg_bytes a = w \<and> line_words (cursor_rest c') = ws"
  by (rule neox_arg_next_words [OF assms])

theorem arg_next_correct_witness:
  "\<exists>c' a. neox_arg_next (neox_arg_cursor_init (launch_line (bytes_of '' ab  c''))) = Some (True, c', a)
    \<and> arg_bytes a = bytes_of ''ab'' \<and> line_words (cursor_rest c') = [bytes_of ''c'']"
proof -
  let ?c = "neox_arg_cursor_init (launch_line (bytes_of '' ab  c''))"
  have "cursor_valid ?c" by (intro cursor_init_valid launch_line_valid) simp
  moreover have "line_words (cursor_rest ?c) = [bytes_of ''ab'', bytes_of ''c'']" by code_simp
  ultimately show ?thesis using arg_next_correct [of ?c] by auto
qed

text \<open>
  C7. Copying an argument into a buffer: it fits with its terminating NUL and
  the buffer then holds exactly the argument as a C string, or the buffer is left alone and
  the status is EINVAL.
\<close>

theorem copy_argument_correct:
  assumes "arg_valid a" and "unat sz \<le> length buffer" and "0 \<notin> set (arg_bytes a)"
  shows "\<exists>buffer'. neox_applet_copy_argument a buffer sz =
      Some (if length (arg_bytes a) < unat sz then NEOX_STATUS_OK else NEOX_STATUS_EINVAL, buffer')
    \<and> length buffer' = length buffer
    \<and> (if length (arg_bytes a) < unat sz then cstring buffer' = arg_bytes a else buffer' = buffer)"
proof (cases "arg_length a < sz")
  case True
  with copy_argument_fits [OF assms(1) True assms(2)] arg_valid_length [OF assms(1)] assms(2,3) show ?thesis
    by (auto simp: word_less_nat_alt cstring_id)
next
  case False
  with copy_argument_too_long [of sz a buffer] arg_valid_length [OF assms(1)] show ?thesis
    by (simp add: word_less_nat_alt not_less word_le_nat_alt)
qed

theorem copy_argument_correct_witness:
  "\<exists>buffer'. neox_applet_copy_argument \<lparr>arg_data = bytes_of ''abc d'', arg_length = 3\<rparr> (replicate 64 7) 64 =
      Some (NEOX_STATUS_OK, buffer') \<and> cstring buffer' = bytes_of ''abc''"
  using copy_argument_correct [of "\<lparr>arg_data = bytes_of ''abc d'', arg_length = 3\<rparr>" 64 "replicate 64 7"]
  by (auto simp: arg_valid_def arg_bytes_def bytes_of_def)

text \<open>
  C8. Formatting a 32-bit number returns, fills at most the ten bytes of the buffer, and the
  digits it writes read back as the number.
\<close>

theorem format_u32_round_trip:
  fixes v :: "32 word"
  assumes "length buffer = 10"
  shows "\<exists>n buffer'. neox_applet_format_u32 v buffer = Some (n, buffer') \<and> length buffer' = 10
    \<and> 1 \<le> unat n \<and> unat n \<le> 10
    \<and> decimal_value (take (unat n) buffer') = unat v \<and> list_all is_digit (take (unat n) buffer')"
proof -
  note f = format_u32_decimal [OF assms, of v]
  have "1 \<le> length (decimal (unat v))" using f(3) by (cases "decimal (unat v)") simp_all
  then show ?thesis
    using f assms decimal_digits [of _ "unat v"]
    by (auto simp: decimal_value_decimal list_all_iff is_digit_def word_le_nat_alt)
qed

theorem format_u32_round_trip_witness:
  "\<exists>n buffer'. neox_applet_format_u32 4294967295 (replicate 10 0) = Some (n, buffer')
    \<and> unat n \<le> 10 \<and> decimal_value (take (unat n) buffer') = 4294967295"
  using format_u32_round_trip [of "replicate 10 0" 4294967295] by auto

text \<open>
  C9. The words of a kill command: a signal number behind a dash and a process number. The
  applet signals exactly when the first is one of the four known signals and the second a
  decimal number between 1 and 7, and reports the first thing that is wrong otherwise. No
  digit string overflows its accumulator. What the user types is what the kernel is asked for:
  a line that is printed from a known signal number and a process number between 1 and 7
  requests that signal for that process.
\<close>

theorem kill_correct:
  assumes "ctx_valid context"
  shows "neox_applet_kill os context w = kill_spec os (line_words (ctx_text context)) w \<and>
    (\<forall>sg p. line_words (ctx_text context) = [of_char CHR ''-'' # decimal sg, decimal p] \<and> sg \<in> {2, 9, 18, 19} \<and> 1 \<le> p \<and> p \<le> 7
       \<longrightarrow> neox_applet_kill os context w = kill_deliver os (of_nat p) (of_nat sg) w)"
proof (intro conjI allI impI)
  show k: "neox_applet_kill os context w = kill_spec os (line_words (ctx_text context)) w" by (rule kill_words [OF assms])
  fix sg p
  assume a: "line_words (ctx_text context) = [of_char CHR ''-'' # decimal sg, decimal p] \<and> sg \<in> {2, 9, 18, 19} \<and> 1 \<le> p \<and> p \<le> 7"
  then have "read_signal (of_char CHR ''-'' # decimal sg) = Some (of_nat sg)"
    using read_decimal_decimal [of sg 19] by (auto simp: read_signal_def)
  moreover obtain n where "p = Suc n" using a by (cases p) auto
  ultimately show "neox_applet_kill os context w = kill_deliver os (of_nat p) (of_nat sg) w"
    using k a read_decimal_decimal [of p 7] by (simp add: kill_spec_def)
qed

theorem kill_correct_witness:
  "neox_applet_kill (kernel_os demo_rp 5 demo_base) (launch_line (bytes_of ''-9 263'')) (demo_machine [] []) =
     applet_fail (kernel_os demo_rp 5 demo_base) kill_invalid_pid_message NEOX_STATUS_EINVAL (demo_machine [] []) \<and>
   neox_applet_kill (kernel_os demo_rp 5 demo_base) (launch_line (bytes_of ''-19 6'')) (demo_machine [] []) =
     kill_deliver (kernel_os demo_rp 5 demo_base) 6 19 (demo_machine [] [])"
proof
  have w: "line_words (bytes_of ''-9 263'') = [bytes_of ''-9'', bytes_of ''263'']" by code_simp
  have r: "read_signal (bytes_of ''-9'') = Some 9" "read_decimal 7 (bytes_of ''263'') = None" by code_simp+
  have v: "length (bytes_of ''-9 263'') < 65536" by simp
  show "neox_applet_kill (kernel_os demo_rp 5 demo_base) (launch_line (bytes_of ''-9 263'')) (demo_machine [] []) =
      applet_fail (kernel_os demo_rp 5 demo_base) kill_invalid_pid_message NEOX_STATUS_EINVAL (demo_machine [] [])"
    using conjunct1 [OF kill_correct [OF launch_line_valid(1) [OF v]]]
    by (simp only: launch_line_valid(2) [OF v] w kill_spec_def list.case r option.case)
  have v': "length (bytes_of ''-19 6'') < 65536" by simp
  have "line_words (bytes_of ''-19 6'') = [of_char CHR ''-'' # decimal 19, decimal 6]" by code_simp
  then show "neox_applet_kill (kernel_os demo_rp 5 demo_base) (launch_line (bytes_of ''-19 6'')) (demo_machine [] []) =
      kill_deliver (kernel_os demo_rp 5 demo_base) 6 19 (demo_machine [] [])"
    using conjunct2 [OF kill_correct [OF launch_line_valid(1) [OF v'], of "kernel_os demo_rp 5 demo_base" "demo_machine [] []"],
        THEN spec [of _ 19], THEN spec [of _ 6]]
    by (simp add: launch_line_valid(2) [OF v'])
qed

section \<open>Path commands\<close>

text \<open>
  C11. rm, rmdir, mkdir, mv and cd: each makes exactly one system call, on the path words of its
  line (one, for mv two; cd without an argument goes to the root directory), when every path has
  at most 63 bytes; every other line is rejected with the message for its defect and without a
  system call on the file system, and a failing call is reported with the message for its
  status.
\<close>

theorem path_applets_correct:
  assumes "ctx_valid context"
  shows "neox_applet_rm os context w = one_path_spec os (message ''rm: missing file'')
      (message ''rm: too many arguments'') (Some (message ''rm: file does not exist''))
      (Some (message ''rm: invalid file name'')) (message ''rm: cannot remove file'') (neox_delete os)
      (line_words (ctx_text context)) w \<and>
    neox_applet_rmdir os context w = one_path_spec os (message ''rmdir: missing directory'')
      (message ''rmdir: too many arguments'') (Some (message ''rmdir: directory does not exist''))
      (Some (message ''rmdir: invalid directory name'')) (message ''rmdir: cannot remove directory'') (neox_rmdir os)
      (line_words (ctx_text context)) w \<and>
    neox_applet_mkdir os context w = one_path_spec os (message ''mkdir: missing directory'')
      (message ''mkdir: too many arguments'') None (Some (message ''mkdir: invalid directory name''))
      (message ''mkdir: cannot create directory'') (neox_mkdir os) (line_words (ctx_text context)) w \<and>
    neox_applet_mv os context w = two_path_spec os (message ''mv: source and destination required'')
      (message ''mv: too many arguments'') (Some (message ''mv: source does not exist''))
      (message ''mv: invalid source or destination name'') (message ''mv: cannot rename path'') (neox_rename os)
      (line_words (ctx_text context)) w \<and>
    neox_applet_cd os context w =
      (case line_words (ctx_text context) of
         [] \<Rightarrow> cd_call os (bytes_of ''/'') w
       | [p] \<Rightarrow> if length p < 64 then cd_call os (cstring p) w
                else applet_fail os cd_invalid_name_message NEOX_STATUS_EINVAL w
       | _ \<Rightarrow> applet_fail os cd_extra_message NEOX_STATUS_EINVAL w)"
  using cd_words [OF assms, of os w]
  by (simp_all add: neox_applet_rm_def neox_applet_rmdir_def neox_applet_mkdir_def neox_applet_mv_def
      run_one_path_words [OF assms] run_two_paths_words [OF assms])

theorem path_applets_correct_witness:
  "neox_applet_rm (kernel_os demo_rp 5 demo_base) (launch_line (bytes_of ''a b'')) (demo_machine [] []) =
     applet_fail (kernel_os demo_rp 5 demo_base) (message ''rm: too many arguments'') NEOX_STATUS_EINVAL (demo_machine [] [])"
proof -
  have w: "line_words (bytes_of ''a b'') = [bytes_of ''a'', bytes_of ''b'']" by code_simp
  have v: "length (bytes_of ''a b'') < 65536" by simp
  show ?thesis using path_applets_correct [OF launch_line_valid(1) [OF v], THEN conjunct1]
    by (simp only: launch_line_valid(2) [OF v] w one_path_spec_def list.case)
qed

section \<open>Commands on the kernel\<close>



text \<open>
  C15. Copying with cp on the kernel. When the RP hands out the source in order and accepts
  some bytes of every write, the transfer loop ends, with the whole rest of the source
  appended to the destination, and goes on to close the two files.
\<close>

theorem cp_copies_everything:
  assumes "rp_channel rp task uses rinv fdi h rinp fdo b rout" and "undisturbed task uses rinv w"
    and "length buffer = 64"
  shows "\<exists>w'. cp_transfer (kernel_os rp task base) fdi fdo buffer w = cp_finish (kernel_os rp task base) fdi fdo w'
    \<and> undisturbed task uses rinv w' \<and> rinp (rp_state (kern w')) = []
    \<and> rout (rp_state (kern w')) = rout (rp_state (kern w)) @ rinp (rp_state (kern w))"
  by (rule neox_channel.cp_transfer_all [OF rp_channel.kernel_channel [OF assms(1)] assms(2,3)])

theorem cp_copies_everything_witness:
  "\<exists>w'. cp_transfer (kernel_os demo_rp 5 demo_base) 3 4 (replicate 64 0)
        \<lparr>kern = demo_opened (replicate 100 65), schedule = []\<rparr> = cp_finish (kernel_os demo_rp 5 demo_base) 3 4 w'
    \<and> demo_out (rp_state (kern w')) = replicate 100 65"
  using cp_copies_everything [OF demo_copy.rp_channel_axioms demo_undisturbed, of "replicate 64 0" demo_base "replicate 100 65"]
  by (auto simp: demo_opened_streams)

text \<open>
  C16. cat without an argument, with its standard input redirected from a file: it ends with
  OK, has read the whole file and written it to the standard output, in order.
\<close>

theorem cat_standard_input_correct:
  assumes "rp_channel rp task uses rinv NEOX_STDIN_FD h rinp NEOX_STDOUT_FD b rout" and "undisturbed task uses rinv w"
    and "ctx_valid context" and "line_words (ctx_text context) = []"
  shows "\<exists>w'. neox_applet_cat (kernel_os rp task base) context w = Some (NEOX_STATUS_OK, w')
    \<and> undisturbed task uses rinv w' \<and> rinp (rp_state (kern w')) = []
    \<and> rout (rp_state (kern w')) = rout (rp_state (kern w)) @ rinp (rp_state (kern w))"
  by (rule neox_channel.cat_standard_input [OF rp_channel.kernel_channel [OF assms(1)] refl refl assms(3,4,2)])

theorem cat_standard_input_correct_witness:
  "\<exists>w'. neox_applet_cat (kernel_os demo_rp 5 demo_base) (launch_line [])
        \<lparr>kern = demo_redirected (replicate 100 65), schedule = []\<rparr> = Some (NEOX_STATUS_OK, w')
    \<and> demo_con (rp_state (kern w')) = replicate 100 65"
proof -
  have v: "length ([] :: byte list) < 65536" by simp
  have "line_words [] = []" by code_simp
  then show ?thesis
    using cat_standard_input_correct [OF demo_cat.rp_channel_axioms demo_redirected_undisturbed launch_line_valid(1) [OF v],
        of demo_base "replicate 100 65"]
    by (auto simp: demo_redirected_streams launch_line_valid(2) [OF v])
qed



section \<open>Descriptors of the programs\<close>

text \<open>
  C19. cat, cp and ls leave the descriptor table of their process as they found it, on every path:
  whatever their arguments, whatever errors the RP reports, and whatever the other processes do
  while they wait. cp closes both its files, ls the directory of each pass.
\<close>

theorem applets_leak_nothing:
  assumes "rp_errors rp" and "machine_inv task w"
    and "neox_applet_cat (kernel_os rp task base) context w = Some (st, w')
      \<or> neox_applet_cp (kernel_os rp task base) context w = Some (st, w')
      \<or> neox_applet_ls (kernel_os rp task base) context w = Some (st, w')"
  shows "machine_inv task w' \<and> task_fds task w' = task_fds task w"
proof -
  note d = rp_errors.kernel_descriptors [OF assms(1)]
  show ?thesis using assms(2,3) neox_descriptors.cat_fds [OF d] neox_descriptors.cp_fds [OF d] neox_descriptors.ls_fds [OF d] by blast
qed

theorem applets_leak_nothing_witness:
  "\<exists>w'. neox_applet_cat (kernel_os demo_rp 5 demo_base) (launch_line (bytes_of ''f''))
      (demo_machine (bytes_of ''hello'') [[(6, C_Pipe)], []]) = Some (0, w') \<and> task_fds 5 w' = task_fds 5
        (demo_machine (bytes_of ''hello'') [[(6, C_Pipe)], []])"
proof -
  let ?w = "demo_machine (bytes_of ''hello'') [[(6, C_Pipe)], []]"
  have "map_option fst (neox_applet_cat (kernel_os demo_rp 5 demo_base) (launch_line (bytes_of ''f'')) ?w) = Some 0"
    by code_simp
  then obtain w' where w': "neox_applet_cat (kernel_os demo_rp 5 demo_base) (launch_line (bytes_of ''f'')) ?w = Some (0, w')"
    by auto
  have "machine_inv 5 ?w" by (rule demo_machine_inv) (simp add: call_ok_def)
  from applets_leak_nothing [OF demo_errors.rp_errors_axioms this disjI1 [OF w']] w' show ?thesis by blast
qed

text \<open>
  C22. Opening the redirections of a command is all or nothing. When it succeeds, the
  descriptors of the shell are the old ones and those it holds for the redirections, which are
  new; when one fails, the ones opened before it are closed again and the shell holds none.
\<close>

theorem redirections_all_or_none:
  assumes "rp_errors rp" and "machine_inv task w" and "s = all_closed s"
    and "neosh_open_redirections (kernel_os rp task base) s w = Some (st, s', w')"
  shows "machine_inv task w' \<and> all_closed s' = s \<and>
    (if st = NEOX_STATUS_OK then task_fds task w' = task_fds task w \<union> held s' \<and> task_fds task w \<inter> held s' = {}
     else task_fds task w' = task_fds task w \<and> held s' = {})"
proof -
  note d = rp_errors.kernel_descriptors [OF assms(1), of task base]
  have "held s = {}" using assms(3) held_all_closed by metis
  then show ?thesis
    using neox_descriptors.open_redirections_fds [OF d assms(4,2,3)] assms(3) neox_descriptors.opened_def [OF d]
    by (auto split: if_splits)
qed

theorem redirections_all_or_none_witness:
  "\<exists>s' w'. neosh_open_redirections (kernel_os demo_rp 5 demo_base)
      ((shell_with [])\<lparr>neosh_plan := \<lparr>plan_input = \<lparr>redir_mode = 1, redir_path = ctext ''in''\<rparr>,
        plan_output = \<lparr>redir_mode = 2, redir_path = ctext ''missing''\<rparr>, plan_error = zero_redirection,
        redirection_seen = 1\<rparr>\<rparr>) (demo_machine [] []) = Some (NEOX_STATUS_ENOENT, s', w')
    \<and> task_fds 5 w' = task_fds 5 (demo_machine [] []) \<and> held s' = {}"
proof -
  let ?s = "(shell_with [])\<lparr>neosh_plan := \<lparr>plan_input = \<lparr>redir_mode = 1, redir_path = ctext ''in''\<rparr>,
        plan_output = \<lparr>redir_mode = 2, redir_path = ctext ''missing''\<rparr>, plan_error = zero_redirection,
        redirection_seen = 1\<rparr>\<rparr>"
  let ?w = "demo_machine [] []"
  have "map_option fst (neosh_open_redirections (kernel_os demo_rp 5 demo_base) ?s ?w) = Some NEOX_STATUS_ENOENT"
    by code_simp
  then obtain s' w' where r: "neosh_open_redirections (kernel_os demo_rp 5 demo_base) ?s ?w = Some (NEOX_STATUS_ENOENT, s', w')"
    by auto
  have inv: "machine_inv 5 ?w" by (rule demo_machine_inv) simp
  have "?s = all_closed ?s" by (simp add: all_closed_def shell_with_def)
  from redirections_all_or_none [OF demo_errors.rp_errors_axioms inv this r] r show ?thesis by auto
qed

section \<open>The kernel: pipes\<close>

text \<open>
  C23. The ring buffer of a pipe is a queue. For every sequence of byte insertions and
  removals, the bytes taken out followed by the bytes left are the bytes there at the start
  followed by the accepted ones; the indices stay inside the buffer. An insertion is refused
  exactly when 64 bytes are queued.
\<close>

theorem pipe_is_fifo:
  assumes "pipe_wf p" and "pipe_fifo.run ops p = (outs, ins, p')"
  shows "pipe_wf p' \<and> pipe_bytes p @ ins = outs @ pipe_bytes p'
    \<and> (pipe_put_byte c p' = None \<longleftrightarrow> length (pipe_bytes p') = 64)
    \<and> (pipe_get_byte p' = None \<longleftrightarrow> pipe_bytes p' = [])"
proof -
  note r = pipe_fifo.run_fifo [OF assms(2,1)]
  have "length (pipe_bytes p') \<le> 64" using r(1) by (simp add: pipe_wf_def)
  then show ?thesis using r pipe_fifo.put_fits [OF r(1), of c] pipe_fifo.get_empty [OF r(1)] by fastforce
qed

theorem pipe_is_fifo_witness:
  "\<exists>ins p'. pipe_fifo.run [Put 1, Put 2, Get, Put 3, Get]
      \<lparr>pipe_state = 3, pipe_head = 63, pipe_tail = 63, pipe_count = 0, pipe_buf = replicate 64 0\<rparr> = ([1, 2], ins, p')
    \<and> pipe_bytes p' = [3]"
proof -
  let ?p = "\<lparr>pipe_state = 3, pipe_head = 63, pipe_tail = 63, pipe_count = 0, pipe_buf = replicate 64 0\<rparr>"
  obtain outs ins p' where r: "pipe_fifo.run [Put 1, Put 2, Get, Put 3, Get] ?p = (outs, ins, p')" by (metis prod_cases3)
  have wf: "pipe_wf ?p" "pipe_bytes ?p = []" by (simp_all add: pipe_wf_def pipe_bytes_def)
  have "fst (pipe_fifo.run [Put 1, Put 2, Get, Put 3, Get] ?p) = [1, 2]"
    "fst (snd (pipe_fifo.run [Put 1, Put 2, Get, Put 3, Get] ?p)) = [1, 2, 3]"
    by (simp_all add: pipe_fifo.run.simps pipe_put_byte_def pipe_get_byte_def pipe_advance_def)
  then show ?thesis using pipe_is_fifo [OF wf(1) r] r wf(2) by auto
qed

text \<open>
  C24. Transfers through the open ends of a pipe. Writing: without a reader the call fails with
  EPIPE, with a full buffer it asks to wait, and otherwise it appends the longest prefix that
  fits and reports its length. Reading: as many of the oldest queued bytes as are requested and
  there; with an empty buffer the call asks to wait while a writer is left, and reports the end
  of the data otherwise. Nothing else in the kernel changes.
\<close>

theorem pipe_transfer_correct:
  assumes "kernel_inv k" and "unat x < 16"
  shows "(\<forall>i data. pipe_resolve_endpoint PIPE_END_WRITE x k = Inr i \<longrightarrow> 0 < length data \<longrightarrow> length data < 65536 \<longrightarrow>
      (let d = pipe_bytes (pipes k ! unat i); n = min (length data) (64 - length d) in
       if pipe_state (pipes k ! unat i) AND PIPE_STATE_READ_OPEN = 0 then pipe_write x data k = (Inl EPIPE, k)
       else if n = 0 then pipe_write x data k = (Inl EAGAIN, k)
       else \<exists>p'. pipe_write x data k = (Inr (of_nat n), upd_pipe i (\<lambda>_. p') k) \<and> pipe_wf p'
         \<and> pipe_bytes p' = d @ take n data \<and> pipe_state p' = pipe_state (pipes k ! unat i)))
    \<and> (\<forall>i req. pipe_resolve_endpoint PIPE_END_READ x k = Inr i \<longrightarrow> req \<noteq> 0 \<longrightarrow>
      (let d = pipe_bytes (pipes k ! unat i) in
       if d = [] then pipe_read x req k =
         (if pipe_state (pipes k ! unat i) AND PIPE_STATE_WRITE_OPEN \<noteq> 0 then Inl EAGAIN else Inr [], k)
       else \<exists>p'. pipe_read x req k = (Inr (take (unat req) d), upd_pipe i (\<lambda>_. p') k) \<and> pipe_wf p'
         \<and> pipe_bytes p' = drop (unat req) d \<and> pipe_state p' = pipe_state (pipes k ! unat i)))"
  unfolding Let_def using pipe_write_result [OF _ assms] pipe_read_result [OF _ assms] by presburger

theorem pipe_transfer_correct_witness:
  "\<exists>p'. pipe_write (proc_fd_obj demo_piped ! fd_slot 6 3) (replicate 100 65) demo_piped =
      (Inr 64, upd_pipe 0 (\<lambda>_. p') demo_piped) \<and> pipe_bytes p' = replicate 64 65"
proof -
  let ?x = "proc_fd_obj demo_piped ! fd_slot 6 3" and ?d = "replicate 100 65 :: byte list"
  have e: "unat ?x < 16" "pipe_resolve_endpoint PIPE_END_WRITE ?x demo_piped = Inr 0"
    "pipe_bytes (pipes demo_piped ! unat (0 :: byte)) = []"
    "pipe_state (pipes demo_piped ! unat (0 :: byte)) AND PIPE_STATE_READ_OPEN \<noteq> 0" by code_simp+
  show ?thesis
    using pipe_transfer_correct [OF demo_piped_inv e(1), THEN conjunct1, rule_format, of 0 ?d, OF e(2)] e(3,4)
    by (auto simp: Let_def take_replicate simp del: unsigned_0)
qed



section \<open>The kernel: descriptors\<close>

text \<open>
  C28. Processes do not disturb each other. Whatever sequence of system calls the other
  processes make (open, close, duplicate, pipe, read, write, exit, passing descriptors to a
  third process), the reference counts stay exact and the descriptors of this process, their
  access modes and the objects behind them stay as they are.
\<close>

theorem others_do_not_interfere:
  assumes "kernel_inv k" and "task < MAX_PROCS" and "\<forall>qc \<in> set b. call_ok task qc" and "run_others rp b k = Some k'"
  shows "kernel_inv k' \<and> same_view task k k'"
  by (rule run_others_view [OF assms(4,1,3,2)])

theorem others_do_not_interfere_witness:
  "\<exists>k'. run_others demo_rp [(6, C_Dup 1), (6, C_Pipe), (6, C_Exit)] demo_piped = Some k' \<and> kernel_inv k'
    \<and> same_view 5 demo_piped k'"
proof -
  let ?b = "[(6 :: neox_pid_t, C_Dup 1), (6, C_Pipe), (6, C_Exit)]"
  have "run_others demo_rp ?b demo_piped \<noteq> None" by code_simp
  then obtain k' where "run_others demo_rp ?b demo_piped = Some k'" by auto
  with others_do_not_interfere [OF demo_piped_inv, of 5 ?b demo_rp k'] show ?thesis by (auto simp: call_ok_def)
qed

text \<open>
  C30. New descriptors. Opening a file: on success the process has one descriptor more, a free one
  before, for a file object; on failure its descriptors are unchanged; no other process
  notices. dup returns the lowest free descriptor, which then shares object and access mode
  with the old one; nothing is transferred and no other descriptor changes.
\<close>

theorem new_descriptors_correct:
  assumes "kernel_inv k" and "task < MAX_PROCS"
  shows "(\<forall>rp path mode res k'. ksys_open rp task path mode k = Some (res, k') \<longrightarrow>
      kernel_inv k' \<and> (\<forall>q < MAX_PROCS. q \<noteq> task \<longrightarrow> same_view q k k') \<and>
      (case res of
         Inl e \<Rightarrow> proc_fd_obj k' = proc_fd_obj k
       | Inr fd \<Rightarrow> fd < MAX_FDS \<and> \<not> is_open task fd k \<and> is_open task fd k'
           \<and> (\<exists>x. proc_fd_obj k' = (proc_fd_obj k)[fd_slot task fd := x] \<and> open_type (opens k' ! unat x) = OBJ_FILE)))
    \<and> (\<forall>oldfd newfd k'. fd_dup task oldfd k = (Inr newfd, k') \<longrightarrow>
      is_open task oldfd k \<and> \<not> is_open task newfd k \<and> (\<forall>fd < newfd. is_open task fd k)
      \<and> proc_fd_obj k' = (proc_fd_obj k)[fd_slot task newfd := proc_fd_obj k ! fd_slot task oldfd]
      \<and> proc_fd_flags k' = (proc_fd_flags k)[fd_slot task newfd := proc_fd_flags k ! fd_slot task oldfd]
      \<and> rp_state k' = rp_state k \<and> pipes k' = pipes k)"
  by (rule conjI, intro allI impI, erule ksys_open_effect [OF _ assms], intro allI impI)
    (intro conjI allI impI; rule fd_dup_shares [OF _ assms]; assumption)

theorem new_descriptors_correct_witness:
  "(\<exists>k'. ksys_open demo_rp 5 (bytes_of ''in'') NEOX_OPEN_READ (demo_kernel []) = Some (Inr 3, k') \<and> is_open 5 3 k')
   \<and> (\<exists>k'. fd_dup 5 1 (demo_kernel []) = (Inr 3, k') \<and> pipes k' = pipes (demo_kernel []))"
proof -
  have "map_option fst (ksys_open demo_rp 5 (bytes_of ''in'') NEOX_OPEN_READ (demo_kernel [])) = Some (Inr 3)" by code_simp
  then obtain k1 where k1: "ksys_open demo_rp 5 (bytes_of ''in'') NEOX_OPEN_READ (demo_kernel []) = Some (Inr 3, k1)" by auto
  have "fst (fd_dup 5 1 (demo_kernel [])) = Inr 3" by code_simp
  then obtain k2 where k2: "fd_dup 5 1 (demo_kernel []) = (Inr 3, k2)" by (metis prod.collapse)
  have "(5 :: neox_pid_t) < MAX_PROCS" by simp
  note r = new_descriptors_correct [OF demo_kernel_inv this]
  show ?thesis using r [THEN conjunct1, rule_format, OF k1] r [THEN conjunct2, rule_format, OF k2] k1 k2 by auto
qed



text \<open>
  C35. dup2 onto the last descriptor of another object loses that object: the reference count
  drops to zero, but neither the RP is told to close the file nor the end of the pipe is
  closed, and the entry of the open-object table is never free again.
\<close>

theorem dup2_loses_object:
  assumes "kernel_inv k" and "task < MAX_PROCS" and "is_open task oldfd k" and "is_open task newfd k" and "newfd \<noteq> oldfd"
    and "x = proc_fd_obj k ! fd_slot task newfd" and "open_refcnt (opens k ! unat x) = 1"
    and "proc_fd_obj k ! fd_slot task oldfd \<noteq> x"
  shows "\<exists>k'. fd_dup2 task oldfd newfd k = (Inr newfd, k') \<and> rp_state k' = rp_state k \<and> pipes k' = pipes k
    \<and> opens k' ! unat x = (opens k ! unat x)\<lparr>open_refcnt := 0\<rparr>
    \<and> x \<notin> set (proc_fd_obj k') \<and> open_type (opens k' ! unat x) \<noteq> OBJ_NONE \<and> fd_alloc_open k' \<noteq> Inr x"
  using fd_dup2_last_reference [OF assms(1-5)] assms(6-8) by simp

theorem dup2_loses_object_witness:
  "\<exists>k'. fd_dup2 5 1 4 (demo_opened []) = (Inr 4, k') \<and> rp_state k' = rp_state (demo_opened [])
    \<and> proc_fd_obj (demo_opened []) ! fd_slot 5 4 \<notin> set (proc_fd_obj k')"
proof -
  let ?k = "demo_opened []" and ?x = "proc_fd_obj (demo_opened []) ! fd_slot 5 4"
  have e: "(5 :: neox_pid_t) < MAX_PROCS" "is_open 5 1 ?k" "is_open 5 4 ?k" "(4 :: neox_fd_t) \<noteq> 1" "?x = ?x"
    "open_refcnt (opens ?k ! unat ?x) = 1" "proc_fd_obj ?k ! fd_slot 5 1 \<noteq> ?x" by code_simp+
  from dup2_loses_object [OF demo_opened_inv e] show ?thesis by blast
qed

section \<open>cp and the names of files\<close>

text \<open>
  C36. The command line of cp: two different words of at most 63 bytes are the source and the
  destination; every other line is rejected before any file is opened. The comparison of the
  two path buffers ends inside them.
\<close>

theorem cp_correct:
  assumes "ctx_valid context"
  shows "neox_applet_cp os context w = cp_spec os (line_words (ctx_text context)) w"
  by (rule cp_words [OF assms])

theorem cp_correct_witness:
  "neox_applet_cp (kernel_os demo_rp 5 demo_base) (launch_line (bytes_of ''x x'')) (demo_machine [] []) =
     applet_fail (kernel_os demo_rp 5 demo_base) cp_same_path_message NEOX_STATUS_EINVAL (demo_machine [] [])"
proof -
  have v: "length (bytes_of ''x x'') < 65536" by simp
  have w: "line_words (bytes_of ''x x'') = [bytes_of ''x'', bytes_of ''x'']" by code_simp
  show ?thesis using cp_correct [OF launch_line_valid(1) [OF v]] by (simp add: launch_line_valid(2) [OF v] w cp_spec_def)
qed

text \<open>
  C37. cp compares its paths with the case of the letters, the kernel opens files without it:
  two paths that differ only in case pass the test of cp for different files and yet name the
  same file in every open call, so that cp truncates its own source.
\<close>

theorem cp_case_mismatch:
  assumes "terminated p" and "terminated q" and "length p \<le> 65536" and "length q \<le> 65536"
    and "cstring p \<noteq> cstring q" and "map upcase (cstring p) = map upcase (cstring q)"
  shows "cp_paths_equal p q = Some False \<and> ksys_open rp task (cstring p) mode k = ksys_open rp task (cstring q) mode k"
proof -
  have "length (cstring p) = length (cstring q)" using assms(6) by (metis length_map)
  then show ?thesis
    using cp_paths_equal_cstring [OF assms(1-4)] assms(5,6) by (simp add: ksys_open_def ksys_fs_uppercase_path_def)
qed

theorem cp_case_mismatch_witness:
  "cp_paths_equal (ctext ''a'') (ctext ''A'') = Some False
   \<and> ksys_open demo_rp 5 (bytes_of ''a'') NEOX_OPEN_READ (demo_kernel []) = ksys_open demo_rp 5 (bytes_of ''A'') NEOX_OPEN_READ (demo_kernel [])"
proof -
  have e: "terminated (ctext ''a'')" "terminated (ctext ''A'')" "length (ctext ''a'') \<le> 65536" "length (ctext ''A'') \<le> 65536"
    "cstring (ctext ''a'') \<noteq> cstring (ctext ''A'')" "map upcase (cstring (ctext ''a'')) = map upcase (cstring (ctext ''A''))"
    by (simp, simp, simp add: ctext_def, simp add: ctext_def) code_simp+
  then show ?thesis using cp_case_mismatch [OF e] by simp
qed

section \<open>The kernel: scheduling\<close>

text \<open>
  C38. Selection is fair. While blocked processes are woken, others block, start, stop or end,
  a process that can run is selected at the latest by the seventh switch; and after every
  switch exactly one process is RUNNING, the selected one.
\<close>

theorem scheduler_fair:
  assumes "sched_wf s" and "normal x" and "ready_until_selected x es s" and "7 \<le> length (selections es s)"
  shows "x \<in> set (selections es s)
    \<and> (\<forall>active. \<forall>y < MAX_PROCS. proc_states (sched_step (Switch active) s) ! unat y = PROC_RUNNING
         \<longleftrightarrow> y = sched_cursor_pid (sched_step (Switch active) s))"
proof -
  have "x \<in> set (selections es s)"
  proof (rule ccontr)
    assume "x \<notin> set (selections es s)"
    from passed_over [OF assms(1-3) this] show False
      using assms(4) circle_distance_less [of "sched_cursor_pid s" x] by simp
  qed
  then show ?thesis using sched_switch_facts [of "sched_save active s" for active] assms(1) by simp
qed

theorem scheduler_fair_witness:
  "3 \<in> set (selections (Set_Wait 1 WAIT_CONSOLE 0 # map Switch [1, 2, 3, 4, 5, 6, 7]) (demo_sched [2, 3, 2, 2, 2, 2, 2, 2]))"
proof -
  let ?s = "demo_sched [2, 3, 2, 2, 2, 2, 2, 2]" and ?es = "Set_Wait 1 WAIT_CONSOLE 0 # map Switch [1, 2, 3, 4, 5, 6, 7]"
  have e: "sched_wf ?s" "normal 3" "ready_until_selected 3 ?es ?s" "7 \<le> length (selections ?es ?s)" by code_simp+
  from scheduler_fair [OF e] show ?thesis by blast
qed

text \<open>
  C39. The gates. However running processes acquire and release a gate, waiting ones are
  killed and the scheduler switches: at most one process owns it and that one is not waiting,
  the linked queue holds exactly the processes that are blocked on this gate, and a release by
  the owner frees the gate, takes the oldest waiting process out of the queue and makes it
  READY.
\<close>

theorem gate_correct:
  assumes "length (gate_next g0) = 8" and "sched_wf s0" and "\<forall>x. normal x \<longrightarrow> \<not> waits_for WAIT_LOCK lock_id s0 x"
    and "(gate_step lock_id)\<^sup>*\<^sup>* (gate_init g0, s0) (g, s)"
  shows "gate_inv lock_id (g, s) \<and> (normal (gate_owner g) \<longrightarrow> (\<exists>g' s'.
      gate_release (gate_owner g) (g, s) = (True, g', s') \<and> gate_owner g' = GATE_OWNER_NONE
      \<and> gate_queue g' = tl (gate_queue g)
      \<and> (if gate_queue g = [] then s' = s else proc_states s' ! unat (hd (gate_queue g)) = PROC_READY)))"
proof -
  have inv: "gate_inv lock_id (g, s)" by (rule gate_reachable_inv [OF assms(4) gate_init_inv [OF assms(1-3)]])
  then show ?thesis using gate_release_owner [OF inv refl] by blast
qed

theorem gate_correct_witness:
  "let s0 = demo_sched [2, 3, 2, 2, 0, 0, 0, 0];
       gs1 = snd (gate_acquire LOCK_ID_FILE_IO 1 (gate_init demo_gate, s0));
       gs2 = (fst gs1, sched_step (Switch 1) (snd gs1));
       gs3 = snd (gate_acquire LOCK_ID_FILE_IO 2 gs2)
   in gate_inv LOCK_ID_FILE_IO gs3 \<and> gate_owner (fst gs3) = 1 \<and> gate_queue (fst gs3) = [2]"
proof -
  let ?s = "demo_sched [2, 3, 2, 2, 0, 0, 0, 0]"
  let ?a = "(gate_init demo_gate, ?s)"
  let ?b = "snd (gate_acquire LOCK_ID_FILE_IO 1 ?a)"
  let ?c = "(fst ?b, sched_step (Switch 1) (snd ?b))"
  let ?d = "snd (gate_acquire LOCK_ID_FILE_IO 2 ?c)"
  have e: "length (gate_next demo_gate) = 8" "sched_wf ?s" by code_simp+
  have none: "\<forall>x. normal x \<longrightarrow> \<not> waits_for WAIT_LOCK LOCK_ID_FILE_IO ?s x" by code_simp
  have "gate_step LOCK_ID_FILE_IO ?a ?b"
    by (rule gate_step.acquire [of 1 _ _ "fst (gate_acquire LOCK_ID_FILE_IO 1 ?a)"]) (code_simp, code_simp, simp)
  moreover have "gate_step LOCK_ID_FILE_IO ?b ?c" by (rule gate_step.elsewhere) simp
  moreover have "gate_step LOCK_ID_FILE_IO ?c ?d"
    by (rule gate_step.acquire [of 2 _ _ "fst (gate_acquire LOCK_ID_FILE_IO 2 ?c)"]) (code_simp, code_simp, simp)
  ultimately have "(gate_step LOCK_ID_FILE_IO)\<^sup>*\<^sup>* ?a (fst ?d, snd ?d)" by simp
  from gate_correct [OF e none this] have "gate_inv LOCK_ID_FILE_IO ?d" by simp
  moreover have "gate_owner (fst ?d) = 1" "gate_queue (fst ?d) = [2]" by code_simp+
  ultimately show ?thesis by (simp only: Let_def)
qed

text \<open>
  C40. A wake-up can be lost. A read of an empty pipe gives the gate back and only then
  commits its wait. When another process writes after the wait is committed, the reader is
  made READY. When the reader is preempted in between, the same write finds nobody to wake,
  and the reader then blocks although the pipe holds data that the very same call would
  return. Calls start with interrupts masked; the reader can be preempted there once it has
  been resumed within the call, after a wait for the gate or a first wake-up, because the
  scheduler resumes every process with interrupts enabled.
\<close>

theorem wake_up_lost:
  assumes "kernel_inv k" and "reads_pipe r fd i k" and "writes_pipe w fd' i k"
    and "pipe_state (pipes k ! unat i) AND PIPE_STATE_READ_OPEN \<noteq> 0" and "pipe_state (pipes k ! unat i) AND PIPE_STATE_WRITE_OPEN \<noteq> 0"
    and "pipe_bytes (pipes k ! unat i) = []" and "n \<noteq> 0" and "data \<noteq> []" and "length data < 65536"
    and "sched_wf s" and "normal r" and "\<forall>y. normal y \<longrightarrow> \<not> waits_for WAIT_PIPE_READ i s y"
  shows "ksys_read rp r fd n k = Some (Blocked (Wait_Pipe_Read i), k) \<and> (\<exists>res k' s1 s2 m got k''.
      write_and_wake rp w fd' data (k, sched_step (Switch r) (sched_commit_wait r (Wait_Pipe_Read i) s)) = Some (res, k', s1)
      \<and> proc_states s1 ! unat r = PROC_READY
      \<and> write_and_wake rp w fd' data (k, sched_step (Switch r) s) = Some (res, k', s2)
      \<and> waits_for WAIT_PIPE_READ i (sched_commit_wait r (Wait_Pipe_Read i) (sched_step (Switch w) s2)) r
      \<and> ksys_read rp r fd n k' = Some (Finished (NEOX_STATUS_OK, m, got), k'') \<and> got \<noteq> [])"
  by (rule wake_up_race [OF assms])

theorem wake_up_lost_witness:
  "ksys_read demo_rp 5 3 100 demo_piped = Some (Blocked (Wait_Pipe_Read 0), demo_piped) \<and> (\<exists>res k' s2 m got k''.
     write_and_wake demo_rp 6 3 (bytes_of ''hello'') (demo_piped, sched_step (Switch 5) (demo_sched [2, 0, 0, 0, 0, 3, 2, 0]))
       = Some (res, k', s2)
     \<and> waits_for WAIT_PIPE_READ 0 (sched_commit_wait 5 (Wait_Pipe_Read 0) (sched_step (Switch 6) s2)) 5
     \<and> ksys_read demo_rp 5 3 100 k' = Some (Finished (NEOX_STATUS_OK, m, got), k'') \<and> got \<noteq> [])"
proof -
  let ?s = "demo_sched [2, 0, 0, 0, 0, 3, 2, 0]"
  have inv: "kernel_inv demo_piped" using demo_piped_inv by simp
  have e: "reads_pipe 5 3 0 demo_piped" "writes_pipe 6 3 0 demo_piped"
    "pipe_state (pipes demo_piped ! unat (0 :: byte)) AND PIPE_STATE_READ_OPEN \<noteq> 0"
    "pipe_state (pipes demo_piped ! unat (0 :: byte)) AND PIPE_STATE_WRITE_OPEN \<noteq> 0"
    "pipe_bytes (pipes demo_piped ! unat (0 :: byte)) = []" by code_simp+
  have f: "(100 :: neox_size_t) \<noteq> 0" "bytes_of ''hello'' \<noteq> []" "length (bytes_of ''hello'') < 65536" by (simp_all add: bytes_of_def)
  have g: "sched_wf ?s" "normal 5" "\<forall>y. normal y \<longrightarrow> \<not> waits_for WAIT_PIPE_READ 0 ?s y" by code_simp+
  from wake_up_lost [OF inv e f g, of demo_rp] show ?thesis by blast
qed

section \<open>The kernel: processes\<close>

text \<open>
  C29. Boot. From any contents of the memory the kernel is linked with, boot with at most seven
  tasks gets to its end: every task has been created, is ready to run at its entry point with
  its flags and the console on its standard descriptors, no other process exists, and the
  invariant of the whole system holds.
\<close>

theorem boot_correct:
  assumes "system_storage m" and "length tasks \<le> 7" and "\<forall>(en, fl) \<in> set tasks. fl AND NOT PROC_FLAGS_CREATE_MASK = 0"
  shows "\<exists>y. kernel_main tasks m = Some y \<and> system_inv y \<and> live_pids y = {x. normal x \<and> unat x \<le> length tasks}
    \<and> (\<forall>i < length tasks. boot_task (of_nat (Suc i)) (fst (tasks ! i)) (snd (tasks ! i)) y)"
proof -
  obtain y where y: "kernel_main tasks m = Some y" using kernel_main_total [OF assms] by blast
  from kernel_main_result [OF assms y] y show ?thesis by blast
qed

theorem boot_correct_witness:
  "\<exists>y. kernel_main [(0x8000, 4), (0x9000, 0)] demo_memory = Some y \<and> system_inv y \<and> boot_task 2 0x9000 0 y"
proof -
  let ?t = "[(0x8000, 4), (0x9000, 0)] :: (16 word \<times> byte) list"
  have e: "\<forall>(en, fl) \<in> set ?t. fl AND NOT PROC_FLAGS_CREATE_MASK = 0" by code_simp
  obtain y where "kernel_main ?t demo_memory = Some y" "system_inv y"
    "\<forall>i < length ?t. boot_task (of_nat (Suc i)) (fst (?t ! i)) (snd (?t ! i)) y"
    using boot_correct [OF demo_memory_storage _ e] by auto
  then show ?thesis by (auto dest: spec [of _ 1])
qed

text \<open>
  C20. Processes are separate. In every state that the system reaches from boot, by calls of
  running processes, wake-ups, ticks, signals, switches and the removal of zombies, the
  reference counts are exact, every live process has a memory context of its own that is marked
  as in use by it, every context in use belongs to a live process, and an empty slot of the
  process table holds no descriptor.
\<close>

theorem processes_always_separate:
  assumes "system_running rp tasks m y"
  shows "processes_separate y"
  by (rule system_inv_separate [OF system_running_inv [OF assms]])

theorem processes_always_separate_witness:
  "processes_separate demo_family \<and> proc_context demo_family ! 1 \<noteq> proc_context demo_family ! 2"
proof -
  have "proc_context demo_family ! 1 \<noteq> proc_context demo_family ! 2" by code_simp
  then show ?thesis using processes_always_separate [OF demo_family_reached] by simp
qed

text \<open>
  C32. Spawning is all or nothing. A call that fails, at whatever point, leaves the process
  table, all descriptors and the console as they were. A call that succeeds returns the number
  of a slot that was empty; the child is ready to run at the entry point, with its parent,
  flags and launch data, holds exactly the mapped descriptors, and has the console when it is
  a foreground child of the owner. The other processes keep everything; at most one that
  waited for the process gate becomes READY.
\<close>

theorem spawn_all_or_nothing:
  assumes "system_running rp tasks m y" and "runs ap y"
    and "ksys_spawn_resident rp ap entry args y = Some (Proc_Finished r, y')"
  shows "system_inv y' \<and> bystanders (live_pids y) y y'
    \<and> (case r of
         Inl e \<Rightarrow> live_pids y' = live_pids y \<and> proc_fd_obj (kern y') = proc_fd_obj (kern y)
           \<and> console_owner_pid (kern y') = console_owner_pid (kern y)
       | Inr x \<Rightarrow> normal x \<and> x \<notin> live_pids y \<and> live_pids y' = insert x (live_pids y) \<and> spawned ap entry args x y y')"
  by (rule spawn_result [OF assms(3) system_running_inv [OF assms(1)] runs_live [OF assms(2)]])

theorem spawn_all_or_nothing_witness:
  "\<exists>y'. ksys_spawn_resident demo_rp 1 0x8100 (demo_args\<lparr>stdout_fd := 4\<rparr>) demo_running = Some (Proc_Finished (Inl EBADF), y')
    \<and> live_pids y' = live_pids demo_running \<and> proc_fd_obj (kern y') = proc_fd_obj (kern demo_running)"
proof -
  have "map_option fst (ksys_spawn_resident demo_rp 1 0x8100 (demo_args\<lparr>stdout_fd := 4\<rparr>) demo_running) =
    Some (Proc_Finished (Inl EBADF))" by code_simp
  then obtain y' where y': "ksys_spawn_resident demo_rp 1 0x8100 (demo_args\<lparr>stdout_fd := 4\<rparr>) demo_running =
    Some (Proc_Finished (Inl EBADF), y')" by auto
  have "runs 1 demo_running" by code_simp
  from spawn_all_or_nothing [OF demo_running_reached this y'] y' show ?thesis by auto
qed

text \<open>
  C21. Spawning succeeds whenever it can: a slot is empty, the arguments are valid (a line of at
  most 63 bytes, known flags, each mapped descriptor open or closed on purpose), the process
  gate is free, and the RP can copy the working directory. In particular a memory context is
  always left when a slot is.
\<close>

theorem spawn_succeeds:
  assumes "system_running rp tasks m y" and "runs ap y" and "\<not> owns_file_gate ap y" and "gate_byte (proc_gate y) AND 1 = 0"
    and "spawn_args_ok ap args (kern y)" and "normal z" and "state_of y z = PROC_EMPTY" and "clones_cwd rp ap"
  shows "\<exists>x y'. ksys_spawn_resident rp ap entry args y = Some (Proc_Finished (Inr x), y')"
proof -
  have "z \<notin> live_pids y" using assms(7) by (simp add: live_pids_def)
  from spawn_total [OF system_running_inv [OF assms(1)] runs_live [OF assms(2)] assms(3,5,6) this assms(8,4)] show ?thesis .
qed

theorem spawn_succeeds_witness:
  "\<exists>x y'. ksys_spawn_resident demo_rp 1 0x8100 demo_args demo_running = Some (Proc_Finished (Inr x), y')"
proof -
  have e: "runs 1 demo_running" "\<not> owns_file_gate 1 demo_running" "gate_byte (proc_gate demo_running) AND 1 = 0"
    "spawn_args_ok 1 demo_args (kern demo_running)" "normal 2" "state_of demo_running 2 = PROC_EMPTY" by code_simp+
  show ?thesis by (rule spawn_succeeds [OF demo_running_reached e demo_clones_cwd])
qed

text \<open>
  C34. The child reads back what its parent passed to it: the launch identifier, and the launch
  line with its length whenever the buffer has room for the line and its terminating NUL.
\<close>

theorem launch_data_round_trip:
  assumes "system_running rp tasks m y" and "runs ap y"
    and "ksys_spawn_resident rp ap entry args y = Some (Proc_Finished (Inr x), y')"
    and "gate_byte (proc_gate y') AND 1 = 0" and "argument_length args < n"
  shows "ksys_get_launch_id x y' = (if launch_id args = SPAWN_LAUNCH_NONE then Inl EINVAL else Inr (launch_id args))
    \<and> (\<exists>y''. ksys_get_launch_line x n y' =
        Some (Proc_Finished (Inr (take (unat (argument_length args)) (argument_line args))), y''))"
proof -
  have r: "system_inv y'" "normal x" "spawned ap entry args x y y'"
    using spawn_result [OF assms(3) system_running_inv [OF assms(1)] runs_live [OF assms(2)]] by auto
  show ?thesis using launch_round_trip [OF r(3,1,2) assms(4)] spawn_success_args [OF assms(3)] assms(5) by blast
qed

theorem launch_data_round_trip_witness:
  "\<exists>y' y''. ksys_spawn_resident demo_rp 1 0x8100 demo_args demo_running = Some (Proc_Finished (Inr 2), y')
    \<and> ksys_get_launch_id 2 y' = Inr 3 \<and> ksys_get_launch_line 2 64 y' = Some (Proc_Finished (Inr (bytes_of ''a b'')), y'')"
proof -
  let ?s = "ksys_spawn_resident demo_rp 1 0x8100 demo_args demo_running"
  have "map_option (\<lambda>ry. (fst ry, gate_byte (proc_gate (snd ry)))) ?s = Some (Proc_Finished (Inr 2), 0)" by code_simp
  then obtain y' where y': "?s = Some (Proc_Finished (Inr 2), y')" and g: "gate_byte (proc_gate y') AND 1 = 0" by auto
  have "runs 1 demo_running" by code_simp
  from launch_data_round_trip [OF demo_running_reached this y' g, of 64] y' show ?thesis by (auto simp: demo_args_def bytes_of_def)
qed

text \<open>
  C33. The exit code arrives. A process that exits while its parent is alive closes all its
  descriptors and becomes a zombie, and the parent is woken if it waits for this child; when
  the parent then asks, the call returns at once with exactly the code the child passed, the
  slot becomes empty, and the console goes back to the parent if the child had it.
\<close>

theorem exit_code_delivered:
  assumes "system_running rp tasks m y" and "runs x y" and "gate_byte (proc_gate y) AND 1 = 0" and "\<not> owns_file_gate x y"
    and "ksys_exit rp x code y = Some (res, y')"
    and "proc_parent_pid y ! unat x = p" and "p \<in> live_pids y" and "state_of y p \<noteq> PROC_ZOMBIE" and "p \<noteq> x"
    and "gate_byte (proc_gate y') AND 1 = 0" and "\<not> owns_file_gate p y'" and "ksys_waitpid rp p x y' = Some (res', y'')"
  shows "state_of y' x = PROC_ZOMBIE \<and> (\<forall>fd. \<not> is_open x fd (kern y'))
    \<and> (waits_for WAIT_PROC x (sch y) p \<longrightarrow> state_of y' p = PROC_READY)
    \<and> res' = Proc_Finished (Inr code) \<and> neox_waitpid (system_os rp env address p) x y' = Some (NEOX_STATUS_OK, code, y'')
    \<and> live_pids y'' = live_pids y - {x} \<and> system_inv y''
    \<and> console_owner_pid (kern y'') = (if console_owner_pid (kern y') = x then p else console_owner_pid (kern y'))"
proof -
  note live = runs_live [OF assms(2)]
  note e = exit_result [OF assms(5,3) system_running_inv [OF assms(1)] live assms(6-9,4)]
  have "p \<in> live_pids y'" "x \<in> live_pids y'" using e assms(7) live by simp_all
  from waitpid_result [OF assms(12,10) _ this] e assms(11)
  have w: "res' = Proc_Finished (Inr code)" and l: "live_pids y'' = live_pids y - {x}" "system_inv y''"
    "console_owner_pid (kern y'') = (if console_owner_pid (kern y') = x then p else console_owner_pid (kern y'))" by auto
  have "neox_waitpid (system_os rp env address p) x y' = Some (NEOX_STATUS_OK, code, y'')"
    by (rule waitpid_call_returns [of _ _ _ _ 0]) (use assms(12) w in simp_all)
  then show ?thesis using e w l by blast
qed

theorem exit_code_delivered_witness:
  "\<exists>y' y''. ksys_exit demo_rp 2 7 demo_family = Some (Proc_Finished (), y') \<and> state_of y' 1 = PROC_READY
    \<and> ksys_waitpid demo_rp 1 2 y' = Some (Proc_Finished (Inr 7), y'')"
proof -
  let ?x = "ksys_exit demo_rp 2 7 demo_family"
  have "map_option (\<lambda>ry. (fst ry, gate_byte (proc_gate (snd ry)), gate_byte (file_gate (snd ry)))) ?x =
    Some (Proc_Finished (), 0, 0)" by code_simp
  then obtain y' where y': "?x = Some (Proc_Finished (), y')" and g: "gate_byte (proc_gate y') AND 1 = 0" "\<not> owns_file_gate 1 y'"
    by (auto simp: owns_file_gate_def)
  have "ksys_waitpid demo_rp 1 2 (snd (the ?x)) \<noteq> None" by code_simp
  then obtain r y'' where w: "ksys_waitpid demo_rp 1 2 y' = Some (r, y'')" using y' by auto
  have f: "runs 2 demo_family" "gate_byte (proc_gate demo_family) AND 1 = 0" "\<not> owns_file_gate 2 demo_family" by code_simp+
  have h: "proc_parent_pid demo_family ! unat (2 :: neox_pid_t) = 1" "state_of demo_family 1 \<noteq> PROC_ZOMBIE" by code_simp+
  have wt: "waits_for WAIT_PROC 2 (sch demo_family) 1" by code_simp
  from exit_code_delivered [OF demo_family_reached f y' h(1) demo_live(3) h(2) _ g w] y' w wt show ?thesis by auto
qed

text \<open>
  C12. The exit code waits for the parent. A zombie whose parent is alive stays a zombie with
  the same exit code and the same parent through every step of the system, whatever other
  processes do and whatever signals are sent, but for the one in which its parent waits for
  it, and that call returns the exit code.
\<close>

theorem exit_code_kept:
  assumes "system_running rp tasks m y" and "system_step rp y y'" and "normal x" and "state_of y x = PROC_ZOMBIE" and "live_parent x y"
  shows "(state_of y' x = PROC_ZOMBIE \<and> proc_exit_code y' ! unat x = proc_exit_code y ! unat x
      \<and> proc_parent_pid y' ! unat x = proc_parent_pid y ! unat x)
    \<or> ksys_waitpid rp (proc_parent_pid y ! unat x) x y = Some (Proc_Finished (Inr (proc_exit_code y ! unat x)), y')"
  using zombie_step [OF assms(2) system_running_inv [OF assms(1)] assms(3-5)] assms(4) by (auto simp: stays_def)

theorem exit_code_kept_witness:
  "\<exists>y. ksys_exit demo_rp 2 7 demo_family = Some (Proc_Finished (), y) \<and>
    (proc_exit_code (to_process 2 y) ! 2 = 7 \<or> ksys_waitpid demo_rp 1 2 y = Some (Proc_Finished (Inr 7), to_process 2 y))"
proof -
  let ?x = "ksys_exit demo_rp 2 7 demo_family"
  have "map_option (\<lambda>ry. (fst ry, state_of (snd ry) 2, live_parent 2 (snd ry), proc_exit_code (snd ry) ! 2,
    proc_parent_pid (snd ry) ! 2)) ?x = Some (Proc_Finished (), PROC_ZOMBIE, True, 7, 1)" by code_simp
  then obtain y where y: "?x = Some (Proc_Finished (), y)" "state_of y 2 = PROC_ZOMBIE" "live_parent 2 y" "proc_exit_code y ! 2 = 7"
    "proc_parent_pid y ! 2 = 1" by auto
  have "runs 2 demo_family" "normal 2" by code_simp+
  note r = system_running_step [OF demo_family_reached system_step.exit [OF this(1) y(1)]]
  have "system_step demo_rp y (to_process 2 y)" unfolding to_process_def by (rule system_step.switch) simp
  from exit_code_kept [OF r this \<open>normal 2\<close> y(2,3)] y show ?thesis by auto
qed



section \<open>The kernel: sleeping\<close>

text \<open>
  C26. Sleeping. The call fails with EAGAIN exactly when all eight timers are in use. Otherwise
  the process sleeps; whatever other processes do meanwhile, it is asleep as long as fewer
  ticks than requested have passed, and awake after the first pass of the scheduler that sees
  the last of them, also when the 16-bit tick counter wraps around.
\<close>

theorem sleep_correct:
  assumes "timers_wf ts" and "normal x" and "d \<noteq> 0" and "\<forall>e \<in> set es. spares x e" and "ticks_in es < 0x8000"
  shows "if TIMER_NONE \<in> set (timer_pid (fst ts))
    then fst (ksys_sleep x d ts) = Sleep_Blocked
      \<and> (ticks_in es < unat d \<longrightarrow>
          (\<exists>i. asleep x i (system_ticks (fst ts) + ucast d) (fold timer_step es (snd (ksys_sleep x d ts)))))
      \<and> (unat d \<le> ticks_in es \<longrightarrow> awake x (fold timer_step (es @ [Pass]) (snd (ksys_sleep x d ts))))
    else ksys_sleep x d ts = (Sleep_Error EAGAIN, ts)"
proof (cases "TIMER_NONE \<in> set (timer_pid (fst ts))")
  case True
  then obtain i where i: "unat i < 8" and b: "fst (ksys_sleep x d ts) = Sleep_Blocked"
    and s: "sleeper x i (system_ticks (fst ts)) d 0 (snd (ksys_sleep x d ts))"
    using ksys_sleep_result [OF assms(1-3)] by auto
  have run: "sleeper x i (system_ticks (fst ts)) d (ticks_in es) (fold timer_step es (snd (ksys_sleep x d ts)))"
    using sleeper_run [OF s _ assms(2) i assms(4)] assms(5) by simp
  then show ?thesis using sleeper_pass(2) [OF run assms(5,2) i] True b by (auto simp: sleeper_def)
next
  case False
  then show ?thesis using ksys_sleep_result [OF assms(1-3)] by auto
qed

theorem sleep_correct_witness:
  "awake 1 (fold timer_step ([Tick, Other_Sleep 2 9, Tick, Pass, Tick] @ [Pass])
     (snd (ksys_sleep 1 3 (\<lparr>timer_pid = replicate 8 0xFF, timer_until = replicate 8 0, system_ticks = 0xFFFF\<rparr>,
       demo_sched [2, 3, 2, 0, 0, 0, 0, 0]))))"
proof -
  let ?ts = "(\<lparr>timer_pid = replicate 8 0xFF, timer_until = replicate 8 0, system_ticks = 0xFFFF\<rparr>,
       demo_sched [2, 3, 2, 0, 0, 0, 0, 0])" and ?es = "[Tick, Other_Sleep 2 9, Tick, Pass, Tick]"
  have e: "timers_wf ?ts" "normal 1" "(3 :: byte) \<noteq> 0" "\<forall>e \<in> set ?es. spares 1 e" by code_simp+
  have t: "ticks_in ?es = 3" by (simp add: ticks_in_def)
  then have "ticks_in ?es < 0x8000" by simp
  from sleep_correct [OF e this] t show ?thesis by simp
qed

text \<open>
  C10. Reading the tick counter. The counter has two bytes that a timer interrupt may step between
  any two instructions of the read. Unless 256 ticks come within two passes, the read returns
  after at most two passes, and the pair it returns is a value that the counter had during the
  call, never the low byte of one value with the high byte of another; the counter steps as the
  sixteen-bit counter that the timers are compared with.
\<close>

theorem ticks_read_correct:
  assumes "m + n + l + m' + n' < 256"
  shows "(\<exists>v t' i j. ksys_ticks ((m, n, l) # (m', n', l') # passes) t = Some (v, t')
      \<and> v = (scheduler_tick_bytes ^^ i) t \<and> t' = (scheduler_tick_bytes ^^ j) v \<and> i + j < 256) \<and>
    (\<forall>ts. system_ticks ts = of_nat (ticks_value t) \<longrightarrow>
      system_ticks (scheduler_tick ts) = of_nat (ticks_value (scheduler_tick_bytes t)))"
  using ksys_ticks_two_passes [OF assms] scheduler_tick_refines by blast

theorem ticks_read_correct_witness:
  "\<exists>v t' i j. ksys_ticks [(1, 0, 0), (0, 2, 0)] (0xFF, 0x12) = Some (v, t')
    \<and> v = (scheduler_tick_bytes ^^ i) (0xFF, 0x12) \<and> t' = (scheduler_tick_bytes ^^ j) v \<and> i + j < 256"
  using ticks_read_correct [of 1 0 0 0 2 0 "[]" "(0xFF, 0x12)"] by simp

section \<open>Programs on the whole system\<close>



text \<open>
  C18. ps on the system: it prints the header and then one row for every slot of the process
  table that is not empty, in order, with what the kernel has recorded for the process; nothing
  but the output changes.
\<close>

theorem ps_shows_processes:
  assumes "rp_stdout rp task uses rinv b rout" and "undisturbed task uses rinv y" and "ctx_valid context" and "line_words (ctx_text context) = []"
  shows "\<exists>y'. neox_applet_ps (system_os rp env address task) context y = Some (NEOX_STATUS_OK, y') \<and> same_but_rp y y'
    \<and> rout (rp_state (kern y')) = rout (rp_state (kern y)) @ cstring ps_header
        @ concat (map (\<lambda>i. ps_row (info_of y (of_nat i))) (filter (\<lambda>i. proc_states (sch y) ! i \<noteq> PROC_EMPTY) [0..<8]))"
  by (rule ps_lists_processes [OF assms])

theorem ps_shows_processes_witness:
  "\<exists>y'. neox_applet_ps (system_os demo_rp (\<lambda>y. None) (\<lambda>_. 0x8100) 2) (launch_line []) demo_family = Some (NEOX_STATUS_OK, y')
    \<and> demo_con (rp_state (kern y')) = bytes_of ''PID PPID ST  WAIT OBJ SIG'' @ [CR] @ bytes_of ''00  FF   RDY ---- ---  0'' @ [CR]
        @ bytes_of ''01  00   BLK PROC 02   0'' @ [CR] @ bytes_of ''02  01   RUN ---- ---  0'' @ [CR]"
proof -
  have l: "ctx_valid (launch_line [])" "line_words (ctx_text (launch_line [])) = []" by (simp_all add: launch_line_valid)
  have t: "cstring ps_header @ concat (map (\<lambda>i. ps_row (info_of demo_family (of_nat i)))
        (filter (\<lambda>i. proc_states (sch demo_family) ! i \<noteq> PROC_EMPTY) [0..<8])) =
      bytes_of ''PID PPID ST  WAIT OBJ SIG'' @ [CR] @ bytes_of ''00  FF   RDY ---- ---  0'' @ [CR]
        @ bytes_of ''01  00   BLK PROC 02   0'' @ [CR] @ bytes_of ''02  01   RUN ---- ---  0'' @ [CR]" by code_simp
  have c: "demo_con (rp_state (kern demo_family)) = []" by code_simp
  show ?thesis using ps_shows_processes [OF demo_console_out demo_family_undisturbed l] unfolding t c by auto
qed

end
